(* ===== verification/Prelude.thy ===== *)
theory Prelude
  imports Main "HOL-Library.AList" "HOL-Library.Word" "HOL-Library.Signed_Division"
begin

unbundle bit_operations_syntax

text \<open>
  What the component theories share: the type names of Go's machine integers, the visitor that
  models every \<open>Range(fn)\<close> of the code (walk a list of entries until the callback answers
  false), insertion-ordered association lists, and the collections of facts the proofs use.
\<close>

type_synonym i64 = "64 word"
type_synonym addr = nat

named_theorems go_int
  \<comment> \<open>signed readings of 64-bit words\<close>
named_theorems conv
  \<comment> \<open>unfolding equations of the value conversions\<close>

section \<open>Visitors\<close>

text \<open>
  \<open>visit fn es s\<close> runs the callback over the entries in order, threading the state the
  closure captures; the flag says whether the walk reached the end.
\<close>

fun visit :: "('k \<Rightarrow> 'v \<Rightarrow> 's \<Rightarrow> bool \<times> 's) \<Rightarrow> ('k \<times> 'v) list \<Rightarrow> 's \<Rightarrow> bool \<times> 's" where
  "visit fn [] s = (True, s)"
| "visit fn ((k, v) # es) s =
     (case fn k v s of (True, s') \<Rightarrow> visit fn es s' | (False, s') \<Rightarrow> (False, s'))"

lemma visit_append:
  "visit fn (xs @ ys) s =
     (case visit fn xs s of (True, s') \<Rightarrow> visit fn ys s' | (False, s') \<Rightarrow> (False, s'))"
  by (induction fn xs s rule: visit.induct) (auto split: prod.splits bool.splits)

lemma visit_fold:
  "visit (\<lambda>k v s. (True, f k v s)) es s = (True, fold (\<lambda>(k, v). f k v) es s)"
  by (induction es arbitrary: s) (auto split: prod.splits)

lemma visit_collect:
  "visit (\<lambda>k v s. (True, s @ [g k v])) es acc = (True, acc @ map (\<lambda>(k, v). g k v) es)"
  by (induction es arbitrary: acc) auto

section \<open>Insertion-ordered entries\<close>

text \<open>
  The library's \<open>AList.update\<close> is php's rule for a keyed store: an existing key keeps its
  position and takes the new value, a new key goes to the end.
\<close>

lemma update_append_new: "k \<notin> fst ` set es \<Longrightarrow> AList.update k v es = es @ [(k, v)]"
  by (induction es) auto

lemma update_map_graph:
  assumes "distinct ks" and "k \<in> set ks"
  shows "AList.update k v (map (\<lambda>x. (x, f x)) ks) = map (\<lambda>x. (x, if x = k then v else f x)) ks"
  using assms
proof (induction ks)
  case Nil
  then show ?case by simp
next
  case (Cons x ks)
  then show ?case by (cases "x = k") (auto intro: map_cong)
qed

lemma distinct_fst_update: "distinct (map fst es) \<Longrightarrow> distinct (map fst (AList.update k v es))"
  by (rule AList.distinct_update)

lemma map_of_graph: "map_of (map (\<lambda>x. (x, f x)) ks) k = (if k \<in> set ks then Some (f k) else None)"
  by (induction ks) auto

lemma delete_map_graph:
  "AList.delete k (map (\<lambda>x. (x, f x)) ks) = map (\<lambda>x. (x, f x)) (filter (\<lambda>x. x \<noteq> k) ks)"
  by (induction ks) auto

lemma filter_neq_remove1: "distinct ks \<Longrightarrow> remove1 k ks = filter (\<lambda>x. x \<noteq> k) ks"
  by (rule distinct_remove1_removeAll [THEN trans]) (auto simp: removeAll_filter_not_eq intro: filter_cong)

lemma update_zip_nth:
  "length ks = length xs \<Longrightarrow> distinct ks \<Longrightarrow> n < length xs \<Longrightarrow>
     AList.update (ks ! n) v (zip ks xs) = zip ks (xs[n := v])"
proof (induction ks xs arbitrary: n rule: list_induct2)
  case (Cons k ks x xs)
  then show ?case by (cases n) (auto simp: nth_eq_iff_index_eq)
qed simp

lemma delete_zip_last:
  "length ks = length xs \<Longrightarrow> k \<notin> set ks \<Longrightarrow>
     AList.delete k (zip (ks @ [k]) (xs @ [x])) = zip ks xs"
  by (induction ks xs rule: list_induct2) auto

section \<open>Signed 64-bit readings\<close>

lemma sint_i64_bounds [simp]:
  "- 9223372036854775808 \<le> sint (x :: i64)" "sint (x :: i64) \<le> 9223372036854775807"
  using sint_range_size [of x] by (simp_all add: word_size)

lemma sint_i64_less [simp]: "sint (x :: i64) < 9223372036854775808"
  using sint_i64_bounds(2) [of x] by linarith

text \<open>Go's wrap-around, written out: reading back what a conversion to a signed width keeps.\<close>

lemma sint_word_of_int_shift:
  "sint (word_of_int n :: 'a::len word) =
     (n + 2 ^ (LENGTH('a) - 1)) mod 2 ^ LENGTH('a) - 2 ^ (LENGTH('a) - 1)"
proof -
  have "sint (word_of_int n :: 'a word) = signed_take_bit (LENGTH('a) - Suc 0) n"
    by (simp add: signed_of_int)
  then show ?thesis
    by (simp add: signed_take_bit_eq_take_bit_shift take_bit_eq_mod)
qed

lemma sint_of_int_i64 [go_int]:
  "- 9223372036854775808 \<le> n \<Longrightarrow> n < 9223372036854775808 \<Longrightarrow> sint (word_of_int n :: i64) = n"
  by (simp add: sint_word_of_int_shift)

lemma i64_eq_iff_sint: "(x :: i64) = y \<longleftrightarrow> sint x = sint y"
  by (auto intro: signed_word_eqI)

end
