(* ===== verification/GoBase.thy ===== *)
theory GoBase
  imports Prelude
begin

unbundle bit_operations_syntax

text \<open>
  The part of Go and of its standard library that the modelled code computes with: truncating
  division on int64, \<open>strconv.FormatInt\<close> and \<open>strconv.ParseInt\<close> in base 10, byte-wise string
  comparison and ASCII case folding, and the error values that operators return. These are the
  documented operations of the language, not code of this repository, and no map entry names
  them.
\<close>

section \<open>int64\<close>

definition max_i64 :: i64 where "max_i64 = 0x7FFFFFFFFFFFFFFF"
definition min_i64 :: i64 where "min_i64 = 0x8000000000000000"

text \<open>Go truncates; the one overflow, the least integer over -1, wraps back to itself.\<close>

definition go_quot :: "i64 \<Rightarrow> i64 \<Rightarrow> i64" where
  "go_quot x y = word_of_int (sint x sdiv sint y)"

definition go_rem :: "i64 \<Rightarrow> i64 \<Rightarrow> i64" where
  "go_rem x y = word_of_int (sint x smod sint y)"

lemma sint_max_i64 [simp]: "sint max_i64 = 9223372036854775807"
  by (simp add: max_i64_def)

lemma sint_min_i64 [simp]: "sint min_i64 = - 9223372036854775808"
  by (simp add: min_i64_def)

lemma sint_eq_min_iff: "sint x = - 9223372036854775808 \<longleftrightarrow> x = min_i64"
  using i64_eq_iff_sint [of x min_i64] by simp

section \<open>Characters and decimal digits\<close>

definition code :: "char \<Rightarrow> int" where "code c = of_char c"

definition is_digit :: "char \<Rightarrow> bool" where
  "is_digit c \<longleftrightarrow> 48 \<le> code c \<and> code c \<le> 57"

definition digit_char :: "int \<Rightarrow> char" where
  "digit_char d = char_of (48 + d)"

definition digit_val :: "char \<Rightarrow> int" where
  "digit_val c = code c - 48"

lemma code_bounds: "0 \<le> code c" "code c < 256"
  by (simp_all add: code_def of_char_def)

lemma code_inject [simp]: "code c = code d \<longleftrightarrow> c = d"
  by (simp add: code_def)

lemma code_literals [simp]:
  "code CHR ''0'' = 48" "code CHR ''1'' = 49" "code CHR ''9'' = 57"
  "code CHR ''+'' = 43" "code CHR ''-'' = 45" "code CHR ''.'' = 46" "code CHR '' '' = 32"
  "code CHR ''E'' = 69" "code CHR ''e'' = 101"
  by (simp_all add: code_def)

lemma code_digit_char [simp]: "0 \<le> d \<Longrightarrow> d < 10 \<Longrightarrow> code (digit_char d) = 48 + d"
  by (simp add: code_def digit_char_def take_bit_eq_mod)

lemma is_digit_digit_char [simp]: "0 \<le> d \<Longrightarrow> d < 10 \<Longrightarrow> is_digit (digit_char d)"
  by (simp add: is_digit_def)

lemma digit_val_digit_char [simp]: "0 \<le> d \<Longrightarrow> d < 10 \<Longrightarrow> digit_val (digit_char d) = d"
  by (simp add: digit_val_def)

lemma digit_char_digit_val [simp]: "is_digit c \<Longrightarrow> digit_char (digit_val c) = c"
  by (simp add: digit_char_def digit_val_def code_def)

lemma digit_val_bounds: "is_digit c \<Longrightarrow> 0 \<le> digit_val c \<and> digit_val c < 10"
  by (simp add: is_digit_def digit_val_def)

section \<open>strconv in base 10\<close>

fun dec_digits :: "int \<Rightarrow> string" where
  "dec_digits n = (if n < 10 then [digit_char n] else dec_digits (n div 10) @ [digit_char (n mod 10)])"

declare dec_digits.simps [simp del]

definition format_int :: "int \<Rightarrow> string" where
  "format_int n = (if n < 0 then CHR ''-'' # dec_digits (- n) else dec_digits n)"

definition FormatInt :: "i64 \<Rightarrow> string" where
  "FormatInt x = format_int (sint x)"

definition FormatUint :: "64 word \<Rightarrow> string" where
  "FormatUint x = dec_digits (uint x)"

definition digits_val :: "string \<Rightarrow> int" where
  "digits_val s = foldl (\<lambda>n c. 10 * n + digit_val c) 0 s"

definition all_digits :: "string \<Rightarrow> bool" where
  "all_digits s \<longleftrightarrow> s \<noteq> [] \<and> (\<forall>c \<in> set s. is_digit c)"

text \<open>
  \<open>strconv.ParseInt(s, 10, 64)\<close>: an optional sign and at least one digit, nothing else; a value
  outside the int64 range is an error. Both errors are \<open>None\<close>: no caller tells them apart.
\<close>

definition parse_dec :: "string \<Rightarrow> int option" where
  "parse_dec s =
     (case s of
        [] \<Rightarrow> None
      | c # cs \<Rightarrow>
          if c = CHR ''-'' then (if all_digits cs then Some (- digits_val cs) else None)
          else if c = CHR ''+'' then (if all_digits cs then Some (digits_val cs) else None)
          else (if all_digits s then Some (digits_val s) else None))"

definition ParseInt :: "string \<Rightarrow> i64 option" where
  "ParseInt s =
     (case parse_dec s of
        None \<Rightarrow> None
      | Some n \<Rightarrow>
          if - 9223372036854775808 \<le> n \<and> n \<le> 9223372036854775807 then Some (word_of_int n)
          else None)"

lemma digits_val_snoc [simp]: "digits_val (s @ [c]) = 10 * digits_val s + digit_val c"
  by (simp add: digits_val_def)

lemma digits_val_Nil [simp]: "digits_val [] = 0"
  by (simp add: digits_val_def)

lemma digits_val_nonneg: "(\<forall>c \<in> set s. is_digit c) \<Longrightarrow> 0 \<le> digits_val s"
  by (induction s rule: rev_induct) (auto dest: digit_val_bounds)

lemma dec_digits_nonempty [simp]: "dec_digits n \<noteq> []"
  by (subst dec_digits.simps) simp

lemma dec_digits_is_digit: "0 \<le> n \<Longrightarrow> c \<in> set (dec_digits n) \<Longrightarrow> is_digit c"
proof (induction n rule: dec_digits.induct)
  case (1 n)
  show ?case
  proof (cases "n < 10")
    case True
    with 1 show ?thesis by (subst (asm) (2) dec_digits.simps) simp
  next
    case False
    with 1 show ?thesis by (subst (asm) (2) dec_digits.simps) auto
  qed
qed

lemma all_digits_dec_digits [simp]: "0 \<le> n \<Longrightarrow> all_digits (dec_digits n)"
  by (auto simp: all_digits_def dest: dec_digits_is_digit)

lemma digits_val_dec_digits [simp]: "0 \<le> n \<Longrightarrow> digits_val (dec_digits n) = n"
proof (induction n rule: dec_digits.induct)
  case (1 n)
  show ?case
  proof (cases "n < 10")
    case True
    with 1 show ?thesis by (subst dec_digits.simps) (simp add: digits_val_def)
  next
    case False
    with 1 show ?thesis by (subst dec_digits.simps) simp
  qed
qed

lemma hd_dec_digits: "0 \<le> n \<Longrightarrow> hd (dec_digits n) = CHR ''0'' \<longleftrightarrow> n = 0"
proof (induction n rule: dec_digits.induct)
  case (1 n)
  show ?case
  proof (cases "n < 10")
    case True
    have "digit_char n = CHR ''0'' \<longleftrightarrow> n = 0"
      using True 1 code_inject [of "digit_char n" "CHR ''0''"] by auto
    then show ?thesis using True by (subst dec_digits.simps) simp
  next
    case False
    with 1 show ?thesis by (subst dec_digits.simps) auto
  qed
qed

lemma dec_digits_no_sign:
  assumes "0 \<le> n"
  shows "hd (dec_digits n) \<noteq> CHR ''-''" "hd (dec_digits n) \<noteq> CHR ''+''"
proof -
  have "is_digit (hd (dec_digits n))"
    using assms dec_digits_is_digit hd_in_set [OF dec_digits_nonempty] by blast
  then show "hd (dec_digits n) \<noteq> CHR ''-''" "hd (dec_digits n) \<noteq> CHR ''+''"
    by (auto simp: is_digit_def)
qed

lemma parse_dec_format_int [simp]: "parse_dec (format_int n) = Some n"
proof (cases "n < 0")
  case True
  then show ?thesis by (simp add: format_int_def parse_dec_def)
next
  case False
  then obtain c cs where e: "dec_digits n = c # cs"
    using dec_digits_nonempty [of n] by (cases "dec_digits n") auto
  with False have "c \<noteq> CHR ''-''" "c \<noteq> CHR ''+''" "all_digits (c # cs)" "digits_val (c # cs) = n"
    using dec_digits_no_sign [of n] all_digits_dec_digits [of n] digits_val_dec_digits [of n] by auto
  then show ?thesis using False by (simp add: format_int_def parse_dec_def e)
qed

lemma ParseInt_FormatInt [simp]: "ParseInt (FormatInt x) = Some x"
  by (simp add: ParseInt_def FormatInt_def)

lemma FormatInt_inject [simp]: "FormatInt x = FormatInt y \<longleftrightarrow> x = y"
  by (metis ParseInt_FormatInt option.inject)

text \<open>The canonical spelling of a digit run: no leading zero unless it is the digit 0 itself.\<close>

lemma dec_digits_digits_val:
  assumes "all_digits s" and "hd s \<noteq> CHR ''0'' \<or> s = ''0''"
  shows "dec_digits (digits_val s) = s"
  using assms
proof (induction s rule: rev_induct)
  case Nil
  then show ?case by (simp add: all_digits_def)
next
  case (snoc c s)
  show ?case
  proof (cases "s = []")
    case True
    with snoc.prems show ?thesis
      by (subst dec_digits.simps) (auto simp: all_digits_def digits_val_def dest: digit_val_bounds)
  next
    case False
    with snoc.prems have s: "all_digits s" "hd s \<noteq> CHR ''0''" and c: "is_digit c"
      by (auto simp: all_digits_def)
    then have IH: "dec_digits (digits_val s) = s"
      using snoc.IH by blast
    have pos: "0 < digits_val s"
      using IH s hd_dec_digits [of "digits_val s"] digits_val_nonneg [of s]
      by (cases "digits_val s = 0") (auto simp: all_digits_def)
    then show ?thesis
      using digit_val_bounds [OF c] IH c by (subst dec_digits.simps) auto
  qed
qed

section \<open>Strings\<close>

text \<open>\<open>strings.Compare\<close>: byte-wise, -1, 0 or 1.\<close>

fun strings_Compare :: "string \<Rightarrow> string \<Rightarrow> int" where
  "strings_Compare [] [] = 0"
| "strings_Compare [] (d # ds) = - 1"
| "strings_Compare (c # cs) [] = 1"
| "strings_Compare (c # cs) (d # ds) =
     (if code c < code d then - 1 else if code d < code c then 1 else strings_Compare cs ds)"

lemma strings_Compare_refl [simp]: "strings_Compare s s = 0"
  by (induction s) auto

lemma strings_Compare_eq_0 [simp]: "strings_Compare s t = 0 \<longleftrightarrow> s = t"
proof (induction s t rule: strings_Compare.induct)
  case (4 c cs d ds)
  then show ?case using code_inject [of c d] by auto
qed auto

lemma strings_Compare_swap: "strings_Compare t s = - strings_Compare s t"
  by (induction s t rule: strings_Compare.induct) auto

lemma strings_Compare_range: "strings_Compare s t \<in> {- 1, 0, 1}"
  by (induction s t rule: strings_Compare.induct) auto

lemma strings_Compare_trans:
  "strings_Compare r s \<le> 0 \<Longrightarrow> strings_Compare s t \<le> 0 \<Longrightarrow> strings_Compare r t \<le> 0"
proof (induction r t arbitrary: s rule: strings_Compare.induct)
  case (3 c cs)
  then show ?case by (cases s) auto
next
  case (4 c cs d ds)
  then show ?case by (cases s) (auto split: if_splits)
qed (auto split: if_splits)

definition to_lower :: "char \<Rightarrow> char" where
  "to_lower c = (if 65 \<le> code c \<and> code c \<le> 90 then char_of (code c + 32) else c)"

definition has_prefix :: "string \<Rightarrow> string \<Rightarrow> bool" where
  "has_prefix p s \<longleftrightarrow> take (length p) s = p"

text \<open>\<open>sort.Strings\<close>; the keys it sorts here are distinct, so stability does not matter.\<close>

fun insert_string :: "string \<Rightarrow> string list \<Rightarrow> string list" where
  "insert_string s [] = [s]"
| "insert_string s (t # ts) = (if strings_Compare s t \<le> 0 then s # t # ts else t # insert_string s ts)"

definition sort_Strings :: "string list \<Rightarrow> string list" where
  "sort_Strings ss = foldr insert_string ss []"

lemma insert_string_facts [simp]:
  "set (insert_string s ts) = insert s (set ts)" "length (insert_string s ts) = Suc (length ts)"
  "distinct (insert_string s ts) \<longleftrightarrow> s \<notin> set ts \<and> distinct ts"
  by (induction ts) auto

lemma sort_Strings_facts [simp]:
  "set (sort_Strings ss) = set ss" "length (sort_Strings ss) = length ss"
  "distinct (sort_Strings ss) \<longleftrightarrow> distinct ss"
  by (induction ss) (auto simp: sort_Strings_def)

definition EqualFold :: "string \<Rightarrow> string \<Rightarrow> bool" where
  "EqualFold s t \<longleftrightarrow> map to_lower s = map to_lower t"

end
