(* ===== verification/GoFloat.thy ===== *)
theory GoFloat
  imports GoBase
begin

text \<open>
  Go's \<open>float64\<close> and \<open>float32\<close> as IEEE 754 values, exactly and executably: a finite value is a
  sign, a mantissa and a binary exponent, every operation computes the exact rational result and
  rounds it once, to nearest with ties to even. The conversions between int64 and float64, the
  decimal parser and the formatter at a fixed number of significant digits (\<open>strconv.ParseFloat\<close>,
  \<open>strconv.FormatFloat\<close>) are built on the same rounding.
\<close>

section \<open>Values and rounding\<close>

text \<open>\<open>FFin s m e\<close> is (-1)^s * m * 2^e, with 0 \<open>\<le>\<close> m.\<close>

datatype f64 = FNaN | FInf bool | FFin bool int int

definition pow2 :: "int \<Rightarrow> int" where "pow2 e = 2 ^ nat e"

fun bitlen :: "int \<Rightarrow> int" where
  "bitlen n = (if n \<le> 0 then 0 else 1 + bitlen (n div 2))"

declare bitlen.simps [simp del]

text \<open>The fraction p / (q * 2^e), as a numerator and a denominator.\<close>

definition scale :: "int \<Rightarrow> int \<Rightarrow> int \<Rightarrow> int \<times> int" where
  "scale p q e = (if 0 \<le> e then (p, q * pow2 e) else (p * pow2 (- e), q))"

definition round_half_even :: "int \<Rightarrow> int \<Rightarrow> int" where
  "round_half_even n d =
     (let m = n div d; r = n mod d
      in if 2 * r < d then m else if d < 2 * r then m + 1 else if even m then m else m + 1)"

text \<open>
  Rounds the fraction p/q to \<open>prec\<close> bits; \<open>emin\<close> and \<open>emax\<close> bound the exponent of the last bit
  (subnormals below, infinity above).
\<close>

definition round_frac :: "int \<Rightarrow> int \<Rightarrow> int \<Rightarrow> bool \<Rightarrow> int \<Rightarrow> int \<Rightarrow> f64" where
  "round_frac prec emin emax s p q =
     (if p = 0 then FFin s 0 emin
      else
        let e1 = bitlen p - bitlen q - prec;
            e2 = (case scale p q e1 of (n, d) \<Rightarrow> if pow2 prec \<le> n div d then e1 + 1 else e1);
            e = max e2 emin;
            m = (case scale p q e of (n, d) \<Rightarrow> round_half_even n d)
        in if m = pow2 prec
           then (if emax < e + 1 then FInf s else FFin s (pow2 (prec - 1)) (e + 1))
           else (if emax < e then FInf s else FFin s m e))"

definition round64 :: "bool \<Rightarrow> int \<Rightarrow> int \<Rightarrow> f64" where
  "round64 = round_frac 53 (- 1074) 971"

definition round32 :: "bool \<Rightarrow> int \<Rightarrow> int \<Rightarrow> f64" where
  "round32 = round_frac 24 (- 149) 104"

text \<open>Rounds the exact value n * 2^e, where a zero takes the given sign.\<close>

definition round_scaled :: "bool \<Rightarrow> int \<Rightarrow> int \<Rightarrow> f64" where
  "round_scaled zs n e =
     (let s = (if n = 0 then zs else n < 0)
      in if 0 \<le> e then round64 s (\<bar>n\<bar> * pow2 e) 1 else round64 s \<bar>n\<bar> (pow2 (- e)))"

definition signed_mant :: "bool \<Rightarrow> int \<Rightarrow> int" where
  "signed_mant s m = (if s then - m else m)"

section \<open>Operations\<close>

definition f_zero :: f64 where "f_zero = FFin False 0 (- 1074)"

definition f_is_nan :: "f64 \<Rightarrow> bool" where "f_is_nan x \<longleftrightarrow> x = FNaN"

fun f_is_inf :: "f64 \<Rightarrow> bool" where
  "f_is_inf (FInf s) = True"
| "f_is_inf _ = False"

fun f_neg :: "f64 \<Rightarrow> f64" where
  "f_neg FNaN = FNaN"
| "f_neg (FInf s) = FInf (\<not> s)"
| "f_neg (FFin s m e) = FFin (\<not> s) m e"

definition of_i64 :: "i64 \<Rightarrow> f64" where
  "of_i64 x = round_scaled False (sint x) 0"

definition of_u64 :: "64 word \<Rightarrow> f64" where
  "of_u64 x = round_scaled False (uint x) 0"

fun f_add :: "f64 \<Rightarrow> f64 \<Rightarrow> f64" where
  "f_add (FFin s m e) (FFin t n f) =
     (let g = min e f
      in round_scaled (s \<and> t)
           (signed_mant s m * pow2 (e - g) + signed_mant t n * pow2 (f - g)) g)"
| "f_add FNaN _ = FNaN"
| "f_add _ FNaN = FNaN"
| "f_add (FInf s) (FInf t) = (if s = t then FInf s else FNaN)"
| "f_add (FInf s) _ = FInf s"
| "f_add _ (FInf t) = FInf t"

definition f_sub :: "f64 \<Rightarrow> f64 \<Rightarrow> f64" where
  "f_sub x y = f_add x (f_neg y)"

fun f_mul :: "f64 \<Rightarrow> f64 \<Rightarrow> f64" where
  "f_mul (FFin s m e) (FFin t n f) =
     round_scaled (s \<noteq> t) (signed_mant (s \<noteq> t) (m * n)) (e + f)"
| "f_mul FNaN _ = FNaN"
| "f_mul _ FNaN = FNaN"
| "f_mul (FInf s) (FInf t) = FInf (s \<noteq> t)"
| "f_mul (FInf s) (FFin t n f) = (if n = 0 then FNaN else FInf (s \<noteq> t))"
| "f_mul (FFin s m e) (FInf t) = (if m = 0 then FNaN else FInf (s \<noteq> t))"

fun f_div :: "f64 \<Rightarrow> f64 \<Rightarrow> f64" where
  "f_div (FFin s m e) (FFin t n f) =
     (if n = 0 then (if m = 0 then FNaN else FInf (s \<noteq> t))
      else if f \<le> e then round64 (s \<noteq> t) (m * pow2 (e - f)) n
      else round64 (s \<noteq> t) m (n * pow2 (f - e)))"
| "f_div FNaN _ = FNaN"
| "f_div _ FNaN = FNaN"
| "f_div (FInf s) (FInf t) = FNaN"
| "f_div (FInf s) (FFin t n f) = FInf (s \<noteq> t)"
| "f_div (FFin s m e) (FInf t) = FFin (s \<noteq> t) 0 (- 1074)"

text \<open>The comparisons: every one is false against a NaN, and the two zeros are equal.\<close>

fun f_lt :: "f64 \<Rightarrow> f64 \<Rightarrow> bool" where
  "f_lt (FFin s m e) (FFin t n f) =
     (let g = min e f in signed_mant s m * pow2 (e - g) < signed_mant t n * pow2 (f - g))"
| "f_lt FNaN _ = False"
| "f_lt _ FNaN = False"
| "f_lt (FInf s) (FInf t) = (s \<and> \<not> t)"
| "f_lt (FInf s) _ = s"
| "f_lt _ (FInf t) = (\<not> t)"

fun f_eq :: "f64 \<Rightarrow> f64 \<Rightarrow> bool" where
  "f_eq (FFin s m e) (FFin t n f) =
     (let g = min e f in signed_mant s m * pow2 (e - g) = signed_mant t n * pow2 (f - g))"
| "f_eq (FInf s) (FInf t) = (s = t)"
| "f_eq _ _ = False"

definition f_le :: "f64 \<Rightarrow> f64 \<Rightarrow> bool" where
  "f_le x y \<longleftrightarrow> f_lt x y \<or> f_eq x y"

text \<open>The integer a finite value truncates to, toward zero.\<close>

fun f_trunc :: "f64 \<Rightarrow> int" where
  "f_trunc (FFin s m e) = signed_mant s (if 0 \<le> e then m * pow2 e else m div pow2 (- e))"
| "f_trunc _ = 0"

text \<open>\<open>int64(f)\<close> for a value whose truncation fits; the callers check the range first.\<close>

definition to_i64 :: "f64 \<Rightarrow> i64" where
  "to_i64 x = word_of_int (f_trunc x)"

text \<open>\<open>math.Mod(f, 2^64)\<close>: the exact remainder, with the sign of f.\<close>

fun f_mod_2_64 :: "f64 \<Rightarrow> f64" where
  "f_mod_2_64 (FFin s m e) =
     (if 0 \<le> e then round64 s (m * pow2 e mod 18446744073709551616) 1
      else round64 s (m mod (18446744073709551616 * pow2 (- e))) (pow2 (- e)))"
| "f_mod_2_64 _ = FNaN"

definition to_f32 :: "f64 \<Rightarrow> f64" where
  "to_f32 x =
     (case x of
        FFin s m e \<Rightarrow> (if 0 \<le> e then round32 s (m * pow2 e) 1 else round32 s m (pow2 (- e)))
      | _ \<Rightarrow> x)"

section \<open>Facts\<close>

lemma pow2_pos [simp]: "0 < pow2 e" "pow2 e \<noteq> 0" "0 \<le> pow2 e"
  by (simp_all add: pow2_def)

lemma pow2_0 [simp]: "pow2 0 = 1"
  by (simp add: pow2_def)

lemma pow2_add: "0 \<le> e \<Longrightarrow> 0 \<le> f \<Longrightarrow> pow2 (e + f) = pow2 e * pow2 f"
  by (simp add: pow2_def nat_add_distrib power_add)

lemma f_lt_irrefl [simp]: "\<not> f_lt x x"
  by (cases x) auto

lemma f_lt_asym: "f_lt x y \<Longrightarrow> \<not> f_lt y x"
  by (cases x; cases y) (auto simp: Let_def min.commute)

lemma f_eq_sym: "f_eq x y = f_eq y x"
  by (cases x; cases y) (auto simp: Let_def min.commute)

lemma f_eq_refl [simp]: "f_eq x x \<longleftrightarrow> x \<noteq> FNaN"
  by (cases x) auto

lemma f_eq_not_lt: "f_eq x y \<Longrightarrow> \<not> f_lt x y"
  by (cases x; cases y) (auto simp: Let_def)

lemma f_trichotomy: "x \<noteq> FNaN \<Longrightarrow> y \<noteq> FNaN \<Longrightarrow> f_lt x y \<or> f_eq x y \<or> f_lt y x"
  by (cases x; cases y) (auto simp: Let_def min.commute)

text \<open>The order of two finite values does not depend on the exponent they are aligned at.\<close>

lemma f_lt_aligned:
  assumes "g \<le> e" and "g \<le> f"
  shows "f_lt (FFin s m e) (FFin t n f) \<longleftrightarrow>
           signed_mant s m * pow2 (e - g) < signed_mant t n * pow2 (f - g)"
proof -
  let ?h = "min e f"
  have "pow2 (e - g) = pow2 (e - ?h) * pow2 (?h - g)" "pow2 (f - g) = pow2 (f - ?h) * pow2 (?h - g)"
    using assms by (simp_all flip: pow2_add)
  then show ?thesis by (simp add: Let_def flip: mult.assoc)
qed

lemma f_eq_aligned:
  assumes "g \<le> e" and "g \<le> f"
  shows "f_eq (FFin s m e) (FFin t n f) \<longleftrightarrow>
           signed_mant s m * pow2 (e - g) = signed_mant t n * pow2 (f - g)"
proof -
  let ?h = "min e f"
  have "pow2 (e - g) = pow2 (e - ?h) * pow2 (?h - g)" "pow2 (f - g) = pow2 (f - ?h) * pow2 (?h - g)"
    using assms by (simp_all flip: pow2_add)
  then show ?thesis by (simp add: Let_def flip: mult.assoc)
qed

lemma f_lt_trans: "f_lt x y \<Longrightarrow> f_lt y z \<Longrightarrow> f_lt x z"
proof (cases "\<exists>s m e t n f u k h. x = FFin s m e \<and> y = FFin t n f \<and> z = FFin u k h")
  case True
  then obtain s m e t n f u k h where xyz: "x = FFin s m e" "y = FFin t n f" "z = FFin u k h"
    by blast
  let ?g = "min e (min f h)"
  have g: "?g \<le> e" "?g \<le> f" "?g \<le> h" by auto
  assume "f_lt x y" and "f_lt y z"
  then show ?thesis
    unfolding xyz f_lt_aligned [OF g(1,2)] f_lt_aligned [OF g(2,3)] f_lt_aligned [OF g(1,3)]
    by linarith
next
  case False
  assume "f_lt x y" and "f_lt y z"
  with False show ?thesis by (cases x; cases y; cases z) auto
qed

section \<open>Integers held exactly\<close>

text \<open>\<open>f_int x n\<close>: the finite value x is the integer n.\<close>

fun f_int :: "f64 \<Rightarrow> int \<Rightarrow> bool" where
  "f_int (FFin s m e) n =
     (if 0 \<le> e then signed_mant s m * pow2 e = n else signed_mant s m = n * pow2 (- e))"
| "f_int _ n = False"

text \<open>The integers a float64 holds exactly, and the values the operations build.\<close>

definition holds_int :: "int \<Rightarrow> bool" where
  "holds_int n \<longleftrightarrow> (\<exists>m e. \<bar>n\<bar> = m * 2 ^ e \<and> 0 \<le> m \<and> m < 9007199254740992 \<and> e \<le> 971)"

fun f64_ok :: "f64 \<Rightarrow> bool" where
  "f64_ok (FFin s m e) = (0 \<le> m \<and> m < 9007199254740992 \<and> - 1074 \<le> e \<and> e \<le> 971)"
| "f64_ok _ = True"

lemma bitlen_bounds: "0 < n \<Longrightarrow> 0 < bitlen n \<and> 2 ^ nat (bitlen n - 1) \<le> n \<and> n < 2 ^ nat (bitlen n)"
proof (induction n rule: bitlen.induct)
  case (1 n)
  show ?case
  proof (cases "n = 1")
    case True
    then show ?thesis by (simp add: bitlen.simps)
  next
    case False
    then have h: "0 < n div 2" and b: "bitlen n = 1 + bitlen (n div 2)"
      using 1 by (auto simp: bitlen.simps [of n])
    let ?k = "bitlen (n div 2)"
    have IH: "0 < ?k" "2 ^ nat (?k - 1) \<le> n div 2" "n div 2 < 2 ^ nat ?k"
      using 1 h by auto
    have e: "nat ?k = Suc (nat (?k - 1))" "nat (1 + ?k) = Suc (nat ?k)" "nat (1 + ?k - 1) = nat ?k"
      using IH(1) by linarith+
    have "n = 2 * (n div 2) + n mod 2" "n mod 2 < 2" "0 \<le> n mod 2" by simp_all
    moreover have "n div 2 < 2 * 2 ^ nat (?k - 1)" using IH(3) e(1) by simp
    ultimately have "2 * 2 ^ nat (?k - 1) \<le> n" "n < 4 * 2 ^ nat (?k - 1)"
      using IH(2) by linarith+
    then show ?thesis using IH(1) e by (simp add: b)
  qed
qed

lemma int_div_less: "0 < d \<Longrightarrow> n < c * d \<Longrightarrow> n div d < (c :: int)"
proof (rule ccontr)
  assume "0 < d" "n < c * d" "\<not> n div d < c"
  then have "c * d \<le> n div d * d" by (simp add: mult_right_mono)
  moreover have "n div d * d + n mod d = n" by simp
  moreover have "0 \<le> n mod d" using \<open>0 < d\<close> by simp
  ultimately show False using \<open>n < c * d\<close> by linarith
qed

lemma bitlen_mult_bounds:
  assumes "0 < n" and "0 < q"
  shows "bitlen (n * q) - bitlen q \<in> {bitlen n - 1, bitlen n}"
proof -
  let ?p = "n * q"
  have p: "0 < ?p" using assms by simp
  note bn = bitlen_bounds [OF assms(1)] and bq = bitlen_bounds [OF assms(2)] and bp = bitlen_bounds [OF p]
  have lo: "2 ^ (nat (bitlen n - 1) + nat (bitlen q - 1)) \<le> ?p"
    using bn bq assms by (auto simp: power_add intro!: mult_mono)
  have hi: "?p < 2 ^ (nat (bitlen n) + nat (bitlen q))"
    using bn bq assms by (simp add: power_add mult_strict_mono)
  have "nat (bitlen n - 1) + nat (bitlen q - 1) < nat (bitlen ?p)"
    using lo bp power_strict_increasing_iff [of "2::int"] by (metis le_less_trans one_less_numeral_iff semiring_norm(76))
  moreover have "nat (bitlen ?p - 1) < nat (bitlen n) + nat (bitlen q)"
    using hi bp power_strict_increasing_iff [of "2::int"] by (metis le_less_trans one_less_numeral_iff semiring_norm(76))
  ultimately have "bitlen ?p - bitlen q = bitlen n - 1 \<or> bitlen ?p - bitlen q = bitlen n"
    using bn bq bp by linarith
  then show ?thesis by simp
qed

lemma round_half_even_exact: "0 < d \<Longrightarrow> round_half_even (k * d) d = k"
  by (simp add: round_half_even_def)

lemma scale_quot:
  assumes "0 < q"
  shows "(case scale (n * q) q e of (a, b) \<Rightarrow> a div b) = (if 0 \<le> e then n div pow2 e else n * pow2 (- e))"
  using assms by (simp add: scale_def div_mult2_eq mult.assoc mult.left_commute [of q])

lemma round64_exact:
  assumes n: "0 < n" "holds_int n" and q: "0 < q"
  shows "f_int (round64 s (n * q) q) (signed_mant s n)"
proof -
  obtain m k where mk: "n = m * 2 ^ k" "0 \<le> m" "m < 9007199254740992" "k \<le> 971"
    using n by (auto simp: holds_int_def)
  let ?L = "bitlen n"
  note L = bitlen_bounds [OF n(1)]
  have Lk: "?L \<le> 53 + int k"
  proof -
    have "n < 2 ^ (53 + k)" using mk by (simp add: power_add)
    then have "(2::int) ^ nat (?L - 1) < 2 ^ (53 + k)" using L by linarith
    then have "nat (?L - 1) < 53 + k" by (simp add: power_strict_increasing_iff)
    then show ?thesis by linarith
  qed
  let ?e1 = "bitlen (n * q) - bitlen q - 53"
  obtain a b where sc: "scale (n * q) q ?e1 = (a, b)" by (cases "scale (n * q) q ?e1")
  define e2 where "e2 = (if pow2 53 \<le> a div b then ?e1 + 1 else ?e1)"
  have ab: "a div b = (if 0 \<le> ?e1 then n div pow2 ?e1 else n * pow2 (- ?e1))"
    using scale_quot [OF q, of n ?e1] sc by simp
  have e2_val: "e2 = ?L - 53"
  proof (cases "?e1 = ?L - 53")
    case True
    have "a div b < pow2 53"
    proof (cases "0 \<le> ?e1")
      case t: True
      have "n < pow2 53 * pow2 ?e1" using L t True by (simp flip: pow2_add) (simp add: pow2_def)
      then show ?thesis using t ab by (simp add: int_div_less)
    next
      case f: False
      have "pow2 ?L = 2 ^ nat ?L" by (simp add: pow2_def)
      moreover have "pow2 53 = pow2 ?L * pow2 (- ?e1)"
        using f True L by (simp flip: pow2_add)
      ultimately show ?thesis using f ab L by simp
    qed
    then show ?thesis using True by (simp add: e2_def)
  next
    case False
    then have e1: "?e1 = ?L - 54" using bitlen_mult_bounds [OF n(1) q] by auto
    have "pow2 53 \<le> a div b"
    proof (cases "0 \<le> ?e1")
      case t: True
      have "53 + ?e1 = ?L - 1" using e1 by linarith
      then have "pow2 53 * pow2 ?e1 = pow2 (?L - 1)" using t by (simp flip: pow2_add)
      also have "\<dots> \<le> n" using L by (simp add: pow2_def)
      finally have "pow2 53 * pow2 ?e1 div pow2 ?e1 \<le> n div pow2 ?e1" by (intro zdiv_mono1) simp_all
      then show ?thesis using t ab by simp
    next
      case f: False
      have "?L - 1 + - ?e1 = 53" "0 \<le> - ?e1" "0 \<le> ?L - 1" using f e1 L by linarith+
      then have "pow2 53 = pow2 (?L - 1) * pow2 (- ?e1)" by (metis pow2_add)
      moreover have "pow2 (?L - 1) \<le> n" using L by (simp add: pow2_def)
      ultimately show ?thesis using f ab by simp
    qed
    then show ?thesis using e1 by (simp add: e2_def)
  qed
  let ?e = "?L - 53"
  have eb: "max ?e (- 1074) = ?e" "?e \<le> 971" using L Lk mk(4) by linarith+
  obtain r where r: "(case scale (n * q) q ?e of (a, b) \<Rightarrow> round_half_even a b) = r" by blast
  have rv: "if 0 \<le> ?e then r * pow2 ?e = n else r = n * pow2 (- ?e)"
  proof (cases "0 \<le> ?e")
    case True
    have "nat ?e \<le> k" using Lk by linarith
    then have "n = m * 2 ^ (k - nat ?e) * pow2 ?e"
      using mk by (simp add: pow2_def flip: power_add)
    then obtain c where c: "n = c * pow2 ?e" by blast
    then have "n * q = c * (q * pow2 ?e)" by simp
    moreover have "r = round_half_even (n * q) (q * pow2 ?e)" using True r by (simp add: scale_def)
    moreover have "0 < q * pow2 ?e" using q by simp
    ultimately have "r = c" using round_half_even_exact by metis
    then show ?thesis using c True by simp
  next
    case False
    have "r = round_half_even (n * q * pow2 (- ?e)) q" using False r by (simp add: scale_def)
    moreover have "n * q * pow2 (- ?e) = (n * pow2 (- ?e)) * q" by simp
    ultimately have "r = n * pow2 (- ?e)" using round_half_even_exact [OF q] by metis
    then show ?thesis using False by simp
  qed
  have "r \<noteq> pow2 53"
  proof
    assume c: "r = pow2 53"
    show False
    proof (cases "0 \<le> ?e")
      case True
      then have "n = pow2 ?L" using rv c by (simp flip: pow2_add)
      then show False using L by (simp add: pow2_def)
    next
      case False
      then have "pow2 ?L * pow2 (- ?e) = n * pow2 (- ?e)" using rv c L by (simp flip: pow2_add)
      then have "n = pow2 ?L" by simp
      then show False using L by (simp add: pow2_def)
    qed
  qed
  then have "round64 s (n * q) q = FFin s r ?e"
    using n q eb e2_val r by (simp add: round64_def round_frac_def Let_def sc flip: e2_def)
  then show ?thesis using rv by (auto simp: signed_mant_def)
qed

lemma pow2_not_neg [simp]: "\<not> pow2 e < 0"
  using pow2_pos(1) [of e] by linarith

lemma f_int_0: "f_int (FFin s 0 e) 0"
  by (simp add: signed_mant_def)

lemma f_int_trunc: "f_int x n \<Longrightarrow> f_trunc x = n"
proof (cases x)
  case (FFin s m e)
  assume "f_int x n"
  moreover have "- m = n * pow2 (- e) \<Longrightarrow> m div pow2 (- e) = - n"
    using nonzero_mult_div_cancel_right [of "pow2 (- e)" "- n"] by (simp add: minus_equation_iff [of m])
  ultimately show ?thesis using FFin
    by (cases "0 \<le> e") (auto simp: signed_mant_def split: if_splits)
qed auto

lemma holds_int_minus [simp]: "holds_int (- n) = holds_int n"
  by (simp add: holds_int_def)

text \<open>Rounding the fraction N/q of an integer that fits changes nothing.\<close>

lemma round64_int:
  assumes "holds_int n" and "0 < q" and "n = 0 \<or> s = (n < 0)"
  shows "f_int (round64 s (\<bar>n\<bar> * q) q) n"
proof (cases "n = 0")
  case True
  then show ?thesis by (simp add: round64_def round_frac_def signed_mant_def)
next
  case False
  then have "f_int (round64 s (\<bar>n\<bar> * q) q) (signed_mant s \<bar>n\<bar>)"
    using assms by (intro round64_exact) (auto simp: holds_int_def)
  then show ?thesis using assms False by (auto simp: signed_mant_def split: if_splits)
qed

lemma round_scaled_int:
  assumes "holds_int n" and "if 0 \<le> g then N * pow2 g = n else N = n * pow2 (- g)"
  shows "f_int (round_scaled zs N g) n"
proof (cases "N = 0")
  case True
  then have n0: "n = 0" using assms(2) by (auto split: if_splits)
  show ?thesis using True
    by (simp add: n0 round_scaled_def round64_def round_frac_def signed_mant_def)
next
  case False
  show ?thesis
  proof (cases "0 \<le> g")
    case True
    then have "\<bar>n\<bar> = \<bar>N\<bar> * pow2 g" "(N < 0) = (n < 0)"
      using assms(2) by (auto simp: abs_mult mult_less_0_iff)
    then show ?thesis using round64_int [OF assms(1), of 1 "N < 0"] True False
      by (simp add: round_scaled_def)
  next
    case neg: False
    then have "\<bar>N\<bar> = \<bar>n\<bar> * pow2 (- g)" "(N < 0) = (n < 0)"
      using assms(2) by (auto simp: abs_mult mult_less_0_iff)
    then show ?thesis using round64_int [OF assms(1), of "pow2 (- g)" "N < 0"] neg False
      by (simp add: round_scaled_def)
  qed
qed

lemma of_i64_int: "holds_int (sint x) \<Longrightarrow> f_int (of_i64 x) (sint x)"
  unfolding of_i64_def by (rule round_scaled_int) simp_all

lemma f_int_at:
  assumes "f_int (FFin s m e) n" and "g \<le> e"
  shows "if 0 \<le> g then signed_mant s m * pow2 (e - g) * pow2 g = n
         else signed_mant s m * pow2 (e - g) = n * pow2 (- g)"
proof (cases "0 \<le> g")
  case True
  then have "pow2 (e - g) * pow2 g = pow2 e" using assms(2) by (simp flip: pow2_add)
  then show ?thesis using True assms by (simp add: mult.assoc)
next
  case g: False
  show ?thesis
  proof (cases "0 \<le> e")
    case True
    then have "pow2 (e - g) = pow2 e * pow2 (- g)" using g by (simp flip: pow2_add)
    then show ?thesis using True assms g by (auto simp flip: mult.assoc)
  next
    case False
    then have "pow2 (- g) = pow2 (- e) * pow2 (e - g)" using assms(2) by (simp flip: pow2_add)
    then show ?thesis using False assms g by (auto simp: mult.assoc)
  qed
qed

lemma f_lt_int: "f_int x n \<Longrightarrow> f_int y k \<Longrightarrow> f_lt x y \<longleftrightarrow> n < k"
proof (cases x; cases y)
  fix s m e t p f assume xy: "x = FFin s m e" "y = FFin t p f" and i: "f_int x n" "f_int y k"
  let ?g = "min e f"
  show ?thesis
    using f_int_at [OF i(1) [unfolded xy(1)], of ?g] f_int_at [OF i(2) [unfolded xy(2)], of ?g]
    by (auto simp: xy Let_def split: if_splits)
qed auto

lemma f_eq_int: "f_int x n \<Longrightarrow> f_int y k \<Longrightarrow> f_eq x y \<longleftrightarrow> n = k"
proof (cases x; cases y)
  fix s m e t p f assume xy: "x = FFin s m e" "y = FFin t p f" and i: "f_int x n" "f_int y k"
  let ?g = "min e f"
  show ?thesis
    using f_int_at [OF i(1) [unfolded xy(1)], of ?g] f_int_at [OF i(2) [unfolded xy(2)], of ?g]
    by (auto simp: xy Let_def split: if_splits)
qed auto

lemma f_le_int: "f_int x n \<Longrightarrow> f_int y k \<Longrightarrow> f_le x y \<longleftrightarrow> n \<le> k"
  using f_lt_int f_eq_int by (auto simp: f_le_def)

lemma f_neg_int: "f_int x n \<Longrightarrow> f_int (f_neg x) (- n)"
  by (cases x) (auto simp: signed_mant_def split: if_splits)

text \<open>A sum that float64 holds is exact.\<close>

lemma f_add_int:
  assumes "f_int x n" and "f_int y k" and "holds_int (n + k)"
  shows "f_int (f_add x y) (n + k)"
proof (cases x; cases y)
  fix s m e t p f assume xy: "x = FFin s m e" "y = FFin t p f"
  let ?g = "min e f"
  have i: "f_int (FFin s m e) n" "f_int (FFin t p f) k" using assms xy by simp_all
  show ?thesis unfolding xy f_add.simps Let_def
    by (rule round_scaled_int [OF assms(3)])
       (use f_int_at [OF i(1), of ?g] f_int_at [OF i(2), of ?g] in \<open>auto simp: distrib_right split: if_splits\<close>)
qed (use assms in auto)

lemma f_sub_int:
  "f_int x n \<Longrightarrow> f_int y k \<Longrightarrow> holds_int (n - k) \<Longrightarrow> f_int (f_sub x y) (n - k)"
  using f_add_int [of x n "f_neg y" "- k"] f_neg_int [of y k] by (simp add: f_sub_def)


lemma holds_int_dvd:
  assumes "2048 dvd n" and "\<bar>n\<bar> < 18446744073709551616"
  shows "holds_int n"
proof -
  obtain c where c: "\<bar>n\<bar> = c * 2048" using assms(1) by (metis dvd_abs_iff dvd_def mult.commute)
  then have "0 \<le> c" "c < 9007199254740992" using assms(2) by auto
  then show ?thesis unfolding holds_int_def using c by (intro exI [of _ c] exI [of _ 11]) simp
qed

end
