(* ===== verification/Values.thy ===== *)
theory Values
  imports GoFloat
begin

unbundle bit_operations_syntax

text \<open>
  The values a script manipulates, as \<open>model/value.go\<close> maps PHP's types onto Go's: a Go
  \<open>interface{}\<close> is the sum of the dynamic types the code's type switches name. Arrays, objects
  and native collections are pointers in Go and addresses here, looked up in an explicit store,
  so that identity and sharing are visible. The typed numerics of \<open>model/gowidth.go\<close> and the
  conversions of \<open>model/gotype.go\<close> follow.
\<close>

section \<open>Errors\<close>

text \<open>
  The error values the modelled code returns or inspects. \<open>Wrapped\<close> is an error with an
  \<open>Unwrap\<close> method, \<open>Joined\<close> the result of \<open>errors.Join\<close> (which \<open>errors.Unwrap\<close> does not open),
  \<open>ScriptExit\<close> the runner's \<open>ExitError\<close>, \<open>HostError\<close> any other error a host returns.
\<close>

datatype goerr =
    DivisionByZeroError string
  | ArithmeticError string
  | OperandError string
  | ConversionError string
  | UndefinedConstantError string
  | ObjectError addr
  | ErrorString string
  | ScriptExit int
  | Wrapped string goerr
  | Joined "goerr list"
  | HostError nat

section \<open>Values\<close>

datatype val =
    VNil
  | VBool bool
  | VInt i64
  | VGoInt i64
  | VFloat f64
  | VStr string
  | VInt8 "8 word"
  | VInt16 "16 word"
  | VInt32 "32 word"
  | VUint "64 word"
  | VUint8 "8 word"
  | VUint16 "16 word"
  | VUint32 "32 word"
  | VUint64 "64 word"
  | VFloat32 f64
  | VBytes string
  | VArray addr
  | VObject addr
  | VColl addr
  | VClosure nat "(nat \<times> val) list"
  | VSetter nat nat
  | VError goerr
  | VNamed string "i64 + f64" "string option"
  | VOpaque "string option" nat

text \<open>
  \<open>VInt\<close> is int64, php's int; \<open>VGoInt\<close> is Go's \<open>int\<close>, which only bindings produce. \<open>VColl\<close> is
  a native collection (a slice, a map or a \<open>Collection\<close>), \<open>VClosure\<close> a compiled closure with
  its captured slots, \<open>VSetter\<close> the by-reference setter of a frame's slot. \<open>VNamed\<close> is a Go scalar of a named
  type (\<open>time.Month\<close>): its type, the number reflection reads out of it (an int64 for the int and uint kinds, a float64
  for the float kinds) and the text of its \<open>String\<close> method, when it has one. \<open>VOpaque\<close> is any other
  host value, a struct or a function behind a pointer: the text its \<open>GoString\<close> rendering gives, when it has
  one, and an identity. A named string or bool is not among the values of the model.
\<close>

record array =
  a_list :: "val list"
  a_keys :: "val list"
  a_values :: "(val \<Rightarrow> val option) option"
  a_nextID :: i64

record php_class =
  c_Name :: string
  c_Fields :: "string list"

record object =
  o_Class :: "addr option"
  o_Props :: "(string \<times> val) list"
  o_order :: "string list"
  o_ID :: string

record heap =
  h_arrays :: "addr \<Rightarrow> array option"
  h_objects :: "addr \<Rightarrow> object option"
  h_classes :: "addr \<Rightarrow> php_class option"
  h_colls :: "addr \<Rightarrow> (val \<times> val) list option"
  h_next :: addr

section \<open>Typed go values (model/gowidth.go)\<close>

record GoWidth =
  w_Name :: string
  w_Bits :: nat
  w_Signed :: bool
  w_Float :: bool

definition goWidths :: "(string \<times> GoWidth) list" where
  "goWidths =
     [(''int8'', \<lparr>w_Name = ''int8'', w_Bits = 8, w_Signed = True, w_Float = False\<rparr>),
      (''int16'', \<lparr>w_Name = ''int16'', w_Bits = 16, w_Signed = True, w_Float = False\<rparr>),
      (''int32'', \<lparr>w_Name = ''int32'', w_Bits = 32, w_Signed = True, w_Float = False\<rparr>),
      (''rune'', \<lparr>w_Name = ''int32'', w_Bits = 32, w_Signed = True, w_Float = False\<rparr>),
      (''uint'', \<lparr>w_Name = ''uint'', w_Bits = 64, w_Signed = False, w_Float = False\<rparr>),
      (''uint8'', \<lparr>w_Name = ''uint8'', w_Bits = 8, w_Signed = False, w_Float = False\<rparr>),
      (''byte'', \<lparr>w_Name = ''uint8'', w_Bits = 8, w_Signed = False, w_Float = False\<rparr>),
      (''uint16'', \<lparr>w_Name = ''uint16'', w_Bits = 16, w_Signed = False, w_Float = False\<rparr>),
      (''uint32'', \<lparr>w_Name = ''uint32'', w_Bits = 32, w_Signed = False, w_Float = False\<rparr>),
      (''uint64'', \<lparr>w_Name = ''uint64'', w_Bits = 64, w_Signed = False, w_Float = False\<rparr>),
      (''float32'', \<lparr>w_Name = ''float32'', w_Bits = 32, w_Signed = False, w_Float = True\<rparr>)]"

definition GoWidthNamed :: "string \<Rightarrow> GoWidth option" where
  "GoWidthNamed name = map_of goWidths name"

fun GoWidthOf :: "val \<Rightarrow> GoWidth option" where
  "GoWidthOf (VInt8 x) = map_of goWidths ''int8''"
| "GoWidthOf (VInt16 x) = map_of goWidths ''int16''"
| "GoWidthOf (VInt32 x) = map_of goWidths ''int32''"
| "GoWidthOf (VUint x) = map_of goWidths ''uint''"
| "GoWidthOf (VUint8 x) = map_of goWidths ''uint8''"
| "GoWidthOf (VUint16 x) = map_of goWidths ''uint16''"
| "GoWidthOf (VUint32 x) = map_of goWidths ''uint32''"
| "GoWidthOf (VUint64 x) = map_of goWidths ''uint64''"
| "GoWidthOf (VFloat32 x) = map_of goWidths ''float32''"
| "GoWidthOf _ = None"

definition widenUnsigned :: "64 word \<Rightarrow> val" where
  "widenUnsigned u = (if uint u > 9223372036854775807 then VFloat (of_u64 u) else VInt u)"

fun GoWiden :: "val \<Rightarrow> val option" where
  "GoWiden (VInt8 x) = Some (VInt (scast x))"
| "GoWiden (VInt16 x) = Some (VInt (scast x))"
| "GoWiden (VInt32 x) = Some (VInt (scast x))"
| "GoWiden (VUint x) = Some (widenUnsigned x)"
| "GoWiden (VUint8 x) = Some (VInt (ucast x))"
| "GoWiden (VUint16 x) = Some (VInt (ucast x))"
| "GoWiden (VUint32 x) = Some (VInt (ucast x))"
| "GoWiden (VUint64 x) = Some (widenUnsigned x)"
| "GoWiden (VFloat32 x) = Some (VFloat x)"
| "GoWiden _ = None"

fun GoInt :: "val \<Rightarrow> i64 option" where
  "GoInt (VInt8 x) = Some (scast x)"
| "GoInt (VInt16 x) = Some (scast x)"
| "GoInt (VInt32 x) = Some (scast x)"
| "GoInt (VUint x) = Some x"
| "GoInt (VUint8 x) = Some (ucast x)"
| "GoInt (VUint16 x) = Some (ucast x)"
| "GoInt (VUint32 x) = Some (ucast x)"
| "GoInt (VUint64 x) = Some x"
| "GoInt _ = None"

definition GoClipInt :: "val \<Rightarrow> i64 option" where
  "GoClipInt v =
     (case GoWidthOf v of
        None \<Rightarrow> None
      | Some w \<Rightarrow>
          if w_Float w then None
          else (case GoInt v of
                  None \<Rightarrow> Some 0
                | Some bits \<Rightarrow> if \<not> w_Signed w \<and> sint bits < 0 then Some max_i64 else Some bits))"

text \<open>Go's \<open>n, ok := GoInt(v); return uint64(n), ok\<close>: the same 64 bits, read unsigned.\<close>

definition GoUint :: "val \<Rightarrow> (64 word) option" where
  "GoUint v = GoInt v"

text \<open>
  \<open>toInt\<close> and \<open>toFloat\<close> call themselves on the widened value, which is an int64 or a float64 and
  so answers in one more step; the second step is written out.
\<close>

definition toInt :: "val \<Rightarrow> i64" where
  "toInt v =
     (case v of
        VInt x \<Rightarrow> x
      | VGoInt x \<Rightarrow> x
      | VBool b \<Rightarrow> if b then 1 else 0
      | _ \<Rightarrow>
          (case GoInt v of
             Some bits \<Rightarrow> bits
           | None \<Rightarrow> (case GoWiden v of Some (VInt x) \<Rightarrow> x | _ \<Rightarrow> 0)))"

definition toFloat :: "val \<Rightarrow> f64" where
  "toFloat v =
     (case v of
        VFloat x \<Rightarrow> x
      | VInt x \<Rightarrow> of_i64 x
      | VGoInt x \<Rightarrow> of_i64 x
      | _ \<Rightarrow>
          (case GoWiden v of
             Some (VFloat x) \<Rightarrow> x
           | Some (VInt x) \<Rightarrow> of_i64 x
           | _ \<Rightarrow> f_zero))"

definition Narrow :: "GoWidth \<Rightarrow> val \<Rightarrow> val" where
  "Narrow w v =
     (if w_Float w then VFloat32 (to_f32 (toFloat v))
      else
        let n = toInt v
        in if w_Signed w
           then (if w_Bits w = 8 then VInt8 (ucast n)
                 else if w_Bits w = 16 then VInt16 (ucast n)
                 else if w_Bits w = 32 then VInt32 (ucast n)
                 else VInt n)
           else (if w_Bits w = 8 then VUint8 (ucast n)
                 else if w_Bits w = 16 then VUint16 (ucast n)
                 else if w_Bits w = 32 then VUint32 (ucast n)
                 else if w_Name w = ''uint'' then VUint n
                 else VUint64 n))"

definition GoWidth_Zero :: "GoWidth \<Rightarrow> val" where
  "GoWidth_Zero w = (if w_Float w then Narrow w (VFloat f_zero) else Narrow w (VInt 0))"

definition GoStep :: "val \<Rightarrow> i64 \<Rightarrow> val option" where
  "GoStep v delta =
     (case GoWidthOf v of
        None \<Rightarrow> None
      | Some w \<Rightarrow>
          if w_Float w then Some (Narrow w (VFloat (f_add (toFloat v) (of_i64 delta))))
          else Some (Narrow w (VInt (toInt v + delta))))"

section \<open>Go type conversions (model/gotype.go)\<close>

fun goFloat64 :: "val \<Rightarrow> f64 option" where
  "goFloat64 (VFloat x) = Some x"
| "goFloat64 (VInt x) = Some (of_i64 x)"
| "goFloat64 _ = None"

definition goNarrow :: "string \<Rightarrow> val \<Rightarrow> val option" where
  "goNarrow name v =
     (case GoWidthNamed name of
        None \<Rightarrow> None
      | Some w \<Rightarrow>
          if w_Float w
          then (case goFloat64 v of None \<Rightarrow> None | Some f \<Rightarrow> Some (Narrow w (VFloat f)))
          else (case v of VInt x \<Rightarrow> Some (Narrow w v) | _ \<Rightarrow> None))"

text \<open>\<open>n << shift >> shift\<close> on int64 sign-extends the low \<open>bits\<close> bits.\<close>

definition goSigned :: "nat \<Rightarrow> val \<Rightarrow> val option" where
  "goSigned bits v =
     (case v of
        VInt n \<Rightarrow> (let shift = 64 - bits in Some (VInt (signed_drop_bit shift (push_bit shift n))))
      | _ \<Rightarrow> None)"

definition goFloat :: "nat \<Rightarrow> val \<Rightarrow> val option" where
  "goFloat bits v =
     (case goFloat64 v of
        None \<Rightarrow> None
      | Some f \<Rightarrow> if bits = 32 then Some (VFloat (to_f32 f)) else Some (VFloat f))"

fun goBool :: "val \<Rightarrow> val option" where
  "goBool (VBool b) = Some (VBool b)"
| "goBool _ = None"

fun goString :: "val \<Rightarrow> val option" where
  "goString (VStr s) = Some (VStr s)"
| "goString _ = None"

definition goTypes :: "(string \<times> (val \<Rightarrow> val option)) list" where
  "goTypes =
     [(''any'', Some),
      (''bool'', goBool),
      (''string'', goString),
      (''int'', goSigned 64),
      (''int64'', goSigned 64),
      (''float64'', goFloat 64),
      (''int8'', goNarrow ''int8''),
      (''int16'', goNarrow ''int16''),
      (''int32'', goNarrow ''int32''),
      (''rune'', goNarrow ''rune''),
      (''uint'', goNarrow ''uint''),
      (''uint8'', goNarrow ''uint8''),
      (''uint16'', goNarrow ''uint16''),
      (''uint32'', goNarrow ''uint32''),
      (''uint64'', goNarrow ''uint64''),
      (''byte'', goNarrow ''byte''),
      (''float32'', goNarrow ''float32'')]"

definition GoType :: "string \<Rightarrow> bool" where
  "GoType name = (map_of goTypes name \<noteq> None)"

definition goBuiltins :: "string list" where
  "goBuiltins =
     [''append'', ''cap'', ''clear'', ''copy'', ''delete'', ''len'', ''make'', ''max'', ''min'',
      ''panic'', ''print'', ''println'']"

definition GoBuiltin :: "string \<Rightarrow> bool" where
  "GoBuiltin name = (name \<in> set goBuiltins \<or> GoType name)"

definition GoFold :: "string \<Rightarrow> val \<Rightarrow> val option" where
  "GoFold name v = (case map_of goTypes name of None \<Rightarrow> None | Some convert \<Rightarrow> convert v)"

section \<open>Facts\<close>

lemma width_lookup [simp]:
  "map_of goWidths ''int8'' = Some \<lparr>w_Name = ''int8'', w_Bits = 8, w_Signed = True, w_Float = False\<rparr>"
  "map_of goWidths ''int16'' = Some \<lparr>w_Name = ''int16'', w_Bits = 16, w_Signed = True, w_Float = False\<rparr>"
  "map_of goWidths ''int32'' = Some \<lparr>w_Name = ''int32'', w_Bits = 32, w_Signed = True, w_Float = False\<rparr>"
  "map_of goWidths ''uint'' = Some \<lparr>w_Name = ''uint'', w_Bits = 64, w_Signed = False, w_Float = False\<rparr>"
  "map_of goWidths ''uint8'' = Some \<lparr>w_Name = ''uint8'', w_Bits = 8, w_Signed = False, w_Float = False\<rparr>"
  "map_of goWidths ''uint16'' = Some \<lparr>w_Name = ''uint16'', w_Bits = 16, w_Signed = False, w_Float = False\<rparr>"
  "map_of goWidths ''uint32'' = Some \<lparr>w_Name = ''uint32'', w_Bits = 32, w_Signed = False, w_Float = False\<rparr>"
  "map_of goWidths ''uint64'' = Some \<lparr>w_Name = ''uint64'', w_Bits = 64, w_Signed = False, w_Float = False\<rparr>"
  "map_of goWidths ''float32'' = Some \<lparr>w_Name = ''float32'', w_Bits = 32, w_Signed = False, w_Float = True\<rparr>"
  by (simp_all add: goWidths_def)

lemma goWidths_cases [consumes 1]:
  assumes "w \<in> snd ` set goWidths"
    and "P \<lparr>w_Name = ''int8'', w_Bits = 8, w_Signed = True, w_Float = False\<rparr>"
    and "P \<lparr>w_Name = ''int16'', w_Bits = 16, w_Signed = True, w_Float = False\<rparr>"
    and "P \<lparr>w_Name = ''int32'', w_Bits = 32, w_Signed = True, w_Float = False\<rparr>"
    and "P \<lparr>w_Name = ''uint'', w_Bits = 64, w_Signed = False, w_Float = False\<rparr>"
    and "P \<lparr>w_Name = ''uint8'', w_Bits = 8, w_Signed = False, w_Float = False\<rparr>"
    and "P \<lparr>w_Name = ''uint16'', w_Bits = 16, w_Signed = False, w_Float = False\<rparr>"
    and "P \<lparr>w_Name = ''uint32'', w_Bits = 32, w_Signed = False, w_Float = False\<rparr>"
    and "P \<lparr>w_Name = ''uint64'', w_Bits = 64, w_Signed = False, w_Float = False\<rparr>"
    and "P \<lparr>w_Name = ''float32'', w_Bits = 32, w_Signed = False, w_Float = True\<rparr>"
  shows "P w"
  using assms(1) by (simp add: goWidths_def) (elim disjE; simp add: assms)

lemma GoWidthOf_Narrow:
  "w \<in> snd ` set goWidths \<Longrightarrow> GoWidthOf (Narrow w v) = Some w"
  by (induction w rule: goWidths_cases) (simp_all add: Narrow_def Let_def)

lemma GoWidthOf_in_goWidths: "GoWidthOf v = Some w \<Longrightarrow> w \<in> snd ` set goWidths"
  by (cases v) (auto simp: goWidths_def)

text \<open>The integer a typed value holds: its bits read with the sign of its width.\<close>

fun typed_int :: "val \<Rightarrow> int" where
  "typed_int (VInt8 x) = sint x"
| "typed_int (VInt16 x) = sint x"
| "typed_int (VInt32 x) = sint x"
| "typed_int (VUint x) = uint x"
| "typed_int (VUint8 x) = uint x"
| "typed_int (VUint16 x) = uint x"
| "typed_int (VUint32 x) = uint x"
| "typed_int (VUint64 x) = uint x"
| "typed_int (VInt x) = sint x"
| "typed_int _ = 0"

definition wrap_at :: "GoWidth \<Rightarrow> int \<Rightarrow> int" where
  "wrap_at w n =
     (if w_Signed w then (n + 2 ^ (w_Bits w - 1)) mod 2 ^ w_Bits w - 2 ^ (w_Bits w - 1)
      else n mod 2 ^ w_Bits w)"

lemma sint_ucast_i64:
  "LENGTH('a::len) \<le> 64 \<Longrightarrow> sint (ucast (x :: i64) :: 'a word) =
     (sint x + 2 ^ (LENGTH('a) - 1)) mod 2 ^ LENGTH('a) - 2 ^ (LENGTH('a) - 1)"
proof -
  assume le: "LENGTH('a) \<le> 64"
  have "(ucast x :: 'a word) = word_of_int (sint x)"
    using le by (intro bit_word_eqI) (simp add: bit_simps)
  then show ?thesis by (simp only: sint_word_of_int_shift)
qed

lemma uint_ucast_i64:
  "LENGTH('a::len) \<le> 64 \<Longrightarrow> uint (ucast (x :: i64) :: 'a word) = sint x mod 2 ^ LENGTH('a)"
proof -
  assume le: "LENGTH('a) \<le> 64"
  have "(ucast x :: 'a word) = word_of_int (sint x)"
    using le by (intro bit_word_eqI) (simp add: bit_simps)
  then show ?thesis by (simp only: uint_word_of_int)
qed

lemma uint_i64: "uint (x :: i64) = sint x mod 18446744073709551616"
  using uint_word_of_int [of "sint x", where ?'a = 64] by simp

text \<open>What a conversion to an integer width holds: the low bits, read with the width's sign.\<close>

lemma typed_int_Narrow:
  "w \<in> snd ` set goWidths \<Longrightarrow> \<not> w_Float w \<Longrightarrow>
     typed_int (Narrow w v) = wrap_at w (sint (toInt v))"
  by (induction w rule: goWidths_cases)
     (simp_all add: Narrow_def Let_def wrap_at_def sint_ucast_i64 uint_ucast_i64 uint_i64)

lemma wrap_at_range:
  assumes "w \<in> snd ` set goWidths"
  shows "(if w_Signed w then - (2 ^ (w_Bits w - 1)) else 0) \<le> wrap_at w n"
    and "wrap_at w n < (if w_Signed w then 2 ^ (w_Bits w - 1) else 2 ^ w_Bits w)"
  using assms by (induction w rule: goWidths_cases) (simp_all add: wrap_at_def)

end
