(* ===== verification/Stores.thy ===== *)
theory Stores
  imports Prelude
begin

text \<open>
  The contracts that keyed containers of the program share. \<open>lookup_store\<close> is what every
  one of them promises about reading back: a write is seen at its key and nowhere else, a
  removal hides its key and nothing else. \<open>ordered_store\<close> adds php's insertion order. The
  clients (copying an array, php's array union, converting a native collection) are folds of
  writes, and their facts are proved here once. \<open>room n\<close> says that a container may hold n
  entries; it bounds the containers whose index is a 64-bit integer.
\<close>

locale lookup_store =
  fixes get :: "'m \<Rightarrow> 'k \<Rightarrow> 'v option"
    and put :: "'m \<Rightarrow> 'k \<Rightarrow> 'v \<Rightarrow> 'm"
    and del :: "'m \<Rightarrow> 'k \<Rightarrow> 'm"
    and size_of :: "'m \<Rightarrow> nat"
    and room :: "nat \<Rightarrow> bool"
    and inv :: "'m \<Rightarrow> bool"
  assumes get_put: "inv m \<Longrightarrow> room (Suc (size_of m)) \<Longrightarrow>
      get (put m k v) k' = (if k' = k then Some v else get m k')"
    and get_del: "inv m \<Longrightarrow> get (del m k) k' = (if k' = k then None else get m k')"
    and inv_put: "inv m \<Longrightarrow> room (Suc (size_of m)) \<Longrightarrow> inv (put m k v)"
    and inv_del: "inv m \<Longrightarrow> inv (del m k)"
    and size_put: "inv m \<Longrightarrow> room (Suc (size_of m)) \<Longrightarrow> size_of (put m k v) \<le> Suc (size_of m)"
    and room_mono: "room (Suc n) \<Longrightarrow> room n"
begin

lemma room_le: "room n \<Longrightarrow> k \<le> n \<Longrightarrow> room k"
  by (induction n arbitrary: k) (auto simp: le_Suc_eq intro: room_mono)

lemma get_put_same: "inv m \<Longrightarrow> room (Suc (size_of m)) \<Longrightarrow> get (put m k v) k = Some v"
  by (simp add: get_put)

lemma get_put_other:
  "inv m \<Longrightarrow> room (Suc (size_of m)) \<Longrightarrow> k' \<noteq> k \<Longrightarrow> get (put m k v) k' = get m k'"
  by (simp add: get_put)

lemma get_del_put:
  "inv m \<Longrightarrow> room (Suc (size_of m)) \<Longrightarrow> get (del (put m k v) k) k' = get (del m k) k'"
  by (simp add: get_put get_del inv_put)

text \<open>Writing a list of entries, one after the other.\<close>

definition put_all :: "'m \<Rightarrow> ('k \<times> 'v) list \<Rightarrow> 'm" where
  "put_all m es = fold (\<lambda>(k, v) m. put m k v) es m"

lemma put_all_Nil [simp]: "put_all m [] = m"
  by (simp add: put_all_def)

lemma put_all_Cons [simp]: "put_all m ((k, v) # es) = put_all (put m k v) es"
  by (simp add: put_all_def)

lemma put_all_facts:
  assumes "inv m" and "room (size_of m + length es)"
  shows "inv (put_all m es)" and "size_of (put_all m es) \<le> size_of m + length es"
    and "get (put_all m es) k = (case map_of (rev es) k of Some v \<Rightarrow> Some v | None \<Rightarrow> get m k)"
proof -
  have "inv (put_all m es) \<and> size_of (put_all m es) \<le> size_of m + length es \<and>
      get (put_all m es) k = (case map_of (rev es) k of Some v \<Rightarrow> Some v | None \<Rightarrow> get m k)"
    using assms
  proof (induction es arbitrary: m)
    case Nil
    then show ?case by simp
  next
    case (Cons e es)
    obtain j v where e: "e = (j, v)" by (cases e)
    have r: "room (Suc (size_of m))" by (rule room_le [OF Cons.prems(2)]) simp
    have s: "size_of (put m j v) + length es \<le> size_of m + length (e # es)"
      using size_put [OF Cons.prems(1) r, of j v] by simp
    have "inv (put_all (put m j v) es) \<and>
        size_of (put_all (put m j v) es) \<le> size_of (put m j v) + length es \<and>
        get (put_all (put m j v) es) k =
          (case map_of (rev es) k of Some v \<Rightarrow> Some v | None \<Rightarrow> get (put m j v) k)"
      by (rule Cons.IH [OF inv_put [OF Cons.prems(1) r] room_le [OF Cons.prems(2) s]])
    with s show ?case
      by (auto simp: e get_put [OF Cons.prems(1) r] map_add_def split: option.splits)
  qed
  then show "inv (put_all m es)" "size_of (put_all m es) \<le> size_of m + length es"
    "get (put_all m es) k = (case map_of (rev es) k of Some v \<Rightarrow> Some v | None \<Rightarrow> get m k)"
    by auto
qed

end

locale ordered_store =
  fixes get :: "'m \<Rightarrow> 'k \<Rightarrow> 'v option"
    and put :: "'m \<Rightarrow> 'k \<Rightarrow> 'v \<Rightarrow> 'm"
    and del :: "'m \<Rightarrow> 'k \<Rightarrow> 'm"
    and entries :: "'m \<Rightarrow> ('k \<times> 'v) list"
    and room :: "nat \<Rightarrow> bool"
    and inv :: "'m \<Rightarrow> bool"
  assumes get_entries: "inv m \<Longrightarrow> get m k = map_of (entries m) k"
    and entries_put: "inv m \<Longrightarrow> room (Suc (length (entries m))) \<Longrightarrow>
      entries (put m k v) = AList.update k v (entries m)"
    and entries_del: "inv m \<Longrightarrow> entries (del m k) = AList.delete k (entries m)"
    and entries_distinct: "inv m \<Longrightarrow> distinct (map fst (entries m))"
    and put_inv: "inv m \<Longrightarrow> room (Suc (length (entries m))) \<Longrightarrow> inv (put m k v)"
    and del_inv: "inv m \<Longrightarrow> inv (del m k)"
    and room_Suc: "room (Suc n) \<Longrightarrow> room n"

lemma length_update: "length (AList.update k v es) \<le> Suc (length es)"
  by (induction es) auto

sublocale ordered_store \<subseteq> lookup_store get put del "\<lambda>m. length (entries m)" room inv
proof
  show "inv m \<Longrightarrow> room (Suc (length (entries m))) \<Longrightarrow>
      get (put m k v) k' = (if k' = k then Some v else get m k')" for m k v k'
    by (simp add: get_entries put_inv entries_put update_conv')
  show "inv m \<Longrightarrow> get (del m k) k' = (if k' = k then None else get m k')" for m k k'
    by (simp add: get_entries del_inv entries_del delete_conv')
  show "inv m \<Longrightarrow> room (Suc (length (entries m))) \<Longrightarrow>
      length (entries (put m k v)) \<le> Suc (length (entries m))" for m k v
    by (simp add: entries_put length_update)
qed (auto intro: put_inv del_inv room_Suc)

context ordered_store
begin

text \<open>Writing distinct new keys appends them in order: what copying into a fresh store does.\<close>

lemma entries_put_all_new:
  assumes "inv m" and "room (length (entries m) + length es)"
    and "distinct (map fst es)" and "fst ` set es \<inter> fst ` set (entries m) = {}"
  shows "entries (put_all m es) = entries m @ es"
  using assms
proof (induction es arbitrary: m)
  case Nil
  then show ?case by simp
next
  case (Cons e es)
  obtain k v where e: "e = (k, v)" by (cases e)
  have r: "room (Suc (length (entries m)))" by (rule room_le [OF Cons.prems(2)]) simp
  have n: "entries (put m k v) = entries m @ [(k, v)]"
    using Cons.prems(1,4) r by (simp add: entries_put update_append_new e)
  have "entries (put_all (put m k v) es) = entries (put m k v) @ es"
    by (rule Cons.IH) (use Cons.prems r in \<open>auto simp: n e put_inv\<close>)
  then show ?case by (simp add: e n)
qed

end

end
