(* ===== verification/OrderedArray.thy ===== *)
theory OrderedArray
  imports Values Stores
begin

text \<open>
  PHP's ordered hash map, \<open>model/array.go\<close>: a dense list that promotes itself to a map on the
  first key that is not the next index. The record \<open>array\<close> is the Go struct; a method with a
  pointer receiver is a function to the new struct. The abstraction \<open>entries\<close> is the ordered
  list of key and value pairs that \<open>Range\<close> walks; the theory shows that both modes implement
  one insertion-ordered store over it, and what the append index is in each.
\<close>

section \<open>Operations\<close>

definition noIntKey :: i64 where "noIntKey = min_i64"

definition NewArray :: array where
  "NewArray = \<lparr>a_list = [], a_keys = [], a_values = None, a_nextID = noIntKey\<rparr>"

text \<open>The capacity a slice is made with is not observable: the result is the empty array.\<close>

definition NewArraySize :: "int \<Rightarrow> array" where
  "NewArraySize n =
     (if n \<le> 0 then NewArray
      else \<lparr>a_list = [], a_keys = [], a_values = None, a_nextID = noIntKey\<rparr>)"

definition Array_Reset :: "array \<Rightarrow> array" where
  "Array_Reset a =
     a\<lparr>a_list := [], a_keys := [], a_values := map_option (\<lambda>m k. None) (a_values a),
       a_nextID := noIntKey\<rparr>"

definition isList :: "array \<Rightarrow> bool" where
  "isList a = (case a_values a of None \<Rightarrow> True | Some m \<Rightarrow> False)"

definition int_keys :: "nat \<Rightarrow> val list" where
  "int_keys n = map (\<lambda>i. VInt (of_nat i)) [0..<n]"

definition promote :: "array \<Rightarrow> array" where
  "promote a =
     (let n = length (a_list a)
      in a\<lparr>a_values := Some (map_of (zip (int_keys n) (a_list a))),
           a_keys := int_keys n,
           a_list := []\<rparr>)"

text \<open>The tail of \<open>Set\<close>, which runs in map mode.\<close>

definition set_mapped :: "array \<Rightarrow> val \<Rightarrow> val \<Rightarrow> array" where
  "set_mapped a key v =
     (case a_values a of
        None \<Rightarrow> a
      | Some m \<Rightarrow>
          let a1 = (case m key of None \<Rightarrow> a\<lparr>a_keys := a_keys a @ [key]\<rparr> | Some _ \<Rightarrow> a);
              a2 = a1\<lparr>a_values := Some (m(key := Some v))\<rparr>
          in case key of
               VInt i \<Rightarrow> if sint (a_nextID a2) \<le> sint i then a2\<lparr>a_nextID := i + 1\<rparr> else a2
             | _ \<Rightarrow> a2)"

definition Array_Set :: "array \<Rightarrow> val \<Rightarrow> val \<Rightarrow> array" where
  "Array_Set a key v =
     (if isList a
      then (case key of
              VInt i \<Rightarrow>
                if 0 \<le> sint i \<and> sint i \<le> int (length (a_list a))
                then (if sint i = int (length (a_list a))
                      then a\<lparr>a_list := a_list a @ [v], a_nextID := i + 1\<rparr>
                      else a\<lparr>a_list := (a_list a)[nat (sint i) := v]\<rparr>)
                else set_mapped (promote a) key v
            | _ \<Rightarrow> set_mapped (promote a) key v)
      else set_mapped a key v)"

definition Array_Append :: "array \<Rightarrow> val \<Rightarrow> array" where
  "Array_Append a v =
     (if isList a
      then a\<lparr>a_list := a_list a @ [v], a_nextID := of_nat (length (a_list a @ [v]))\<rparr>
      else if a_nextID a = noIntKey then Array_Set a (VInt 0) v
      else Array_Set a (VInt (a_nextID a)) v)"

definition Array_Get :: "array \<Rightarrow> val \<Rightarrow> val option" where
  "Array_Get a key =
     (case a_values a of
        None \<Rightarrow>
          (case key of
             VInt i \<Rightarrow> if 0 \<le> sint i \<and> sint i < int (length (a_list a))
                       then Some (a_list a ! nat (sint i)) else None
           | _ \<Rightarrow> None)
      | Some m \<Rightarrow> m key)"

text \<open>The tail of \<open>Delete\<close>, which runs in map mode.\<close>

definition delete_mapped :: "array \<Rightarrow> val \<Rightarrow> array" where
  "delete_mapped a key =
     (case a_values a of
        None \<Rightarrow> a
      | Some m \<Rightarrow>
          (case m key of
             None \<Rightarrow> a
           | Some _ \<Rightarrow> a\<lparr>a_values := Some (m(key := None)), a_keys := remove1 key (a_keys a)\<rparr>))"

definition Array_Delete :: "array \<Rightarrow> val \<Rightarrow> array" where
  "Array_Delete a key =
     (if isList a
      then (case key of
              VInt i \<Rightarrow>
                if sint i < 0 \<or> int (length (a_list a)) \<le> sint i then a
                else if sint i = int (length (a_list a)) - 1
                then a\<lparr>a_list := take (nat (sint i)) (a_list a)\<rparr>
                else delete_mapped (promote a) key
            | _ \<Rightarrow> a)
      else delete_mapped a key)"

definition Array_Len :: "array \<Rightarrow> nat" where
  "Array_Len a = (if isList a then length (a_list a) else length (a_keys a))"

definition Array_Keys :: "array \<Rightarrow> val list" where
  "Array_Keys a = (if isList a then int_keys (length (a_list a)) else a_keys a)"

text \<open>A read of a Go map answers nil for a key it does not hold.\<close>

definition map_read :: "(val \<Rightarrow> val option) \<Rightarrow> val \<Rightarrow> val" where
  "map_read m k = (case m k of None \<Rightarrow> VNil | Some v \<Rightarrow> v)"

definition Array_Range :: "array \<Rightarrow> (val \<Rightarrow> val \<Rightarrow> 's \<Rightarrow> bool \<times> 's) \<Rightarrow> 's \<Rightarrow> 's" where
  "Array_Range a fn s =
     (case a_values a of
        None \<Rightarrow> snd (visit fn (zip (int_keys (length (a_list a))) (a_list a)) s)
      | Some m \<Rightarrow> snd (visit fn (map (\<lambda>k. (k, map_read m k)) (a_keys a)) s))"

definition Array_Pop :: "array \<Rightarrow> (val \<times> val) option \<times> array" where
  "Array_Pop a =
     (if Array_Len a = 0 then (None, a)
      else
        let key = last (Array_Keys a);
            v = (case Array_Get a key of None \<Rightarrow> VNil | Some v \<Rightarrow> v);
            a1 = Array_Delete a key;
            a2 = (case key of
                    VInt i \<Rightarrow> if a_nextID a1 \<noteq> noIntKey \<and> i = a_nextID a1 - 1
                              then a1\<lparr>a_nextID := i\<rparr> else a1
                  | _ \<Rightarrow> a1)
        in (Some (key, v), a2))"

fun as_int64 :: "val \<Rightarrow> i64 option" where
  "as_int64 (VInt i) = Some i"
| "as_int64 _ = None"

definition Int64List :: "array \<Rightarrow> i64 list option" where
  "Int64List a = (if isList a then those (map as_int64 (a_list a)) else None)"

definition ReplaceInt64List :: "array \<Rightarrow> i64 list \<Rightarrow> array" where
  "ReplaceInt64List a vals =
     \<lparr>a_list = map VInt vals, a_keys = [], a_values = None,
      a_nextID = (if length vals = 0 then noIntKey else of_nat (length vals))\<rparr>"

definition Array_Clear :: "array \<Rightarrow> array" where
  "Array_Clear a = \<lparr>a_list = [], a_keys = [], a_values = None, a_nextID = 0\<rparr>"

text \<open>
  \<open>ToArray\<close> has two ways in for a native collection: a \<open>[]any\<close> is copied as it is, every other
  collection goes entry by entry. (An \<open>*Array\<close> is passed through.)
\<close>

definition ToArray_slice :: "val list \<Rightarrow> array" where
  "ToArray_slice items =
     (let out = NewArraySize (int (length items));
          out = out\<lparr>a_list := a_list out @ items\<rparr>
      in if 0 < length items then out\<lparr>a_nextID := of_nat (length items)\<rparr> else out)"

definition ToArray_entries :: "(val \<times> val) list \<Rightarrow> array" where
  "ToArray_entries es =
     snd (visit
       (\<lambda>key v out.
          (True,
           case key of
             VInt i \<Rightarrow> if i = a_nextID out then Array_Append out v else Array_Set out key v
           | _ \<Rightarrow> Array_Set out key v))
       es (NewArraySize (int (length es))))"

section \<open>Abstraction and invariants\<close>

definition entries :: "array \<Rightarrow> (val \<times> val) list" where
  "entries a =
     (case a_values a of
        None \<Rightarrow> zip (int_keys (length (a_list a))) (a_list a)
      | Some m \<Rightarrow> map (\<lambda>k. (k, map_read m k)) (a_keys a))"

definition fits :: "nat \<Rightarrow> bool" where
  "fits n \<longleftrightarrow> n < 9223372036854775808"

definition array_wf :: "array \<Rightarrow> bool" where
  "array_wf a \<longleftrightarrow>
     (case a_values a of
        None \<Rightarrow> a_keys a = [] \<and> fits (length (a_list a))
      | Some m \<Rightarrow> a_list a = [] \<and> distinct (a_keys a) \<and> dom m = set (a_keys a))"

text \<open>The append index lies above every integer key; no key is the largest int64.\<close>

definition index_above :: "array \<Rightarrow> bool" where
  "index_above a \<longleftrightarrow>
     (case a_values a of
        None \<Rightarrow> a_list a \<noteq> [] \<longrightarrow> int (length (a_list a)) \<le> sint (a_nextID a)
      | Some m \<Rightarrow> \<forall>i. VInt i \<in> set (a_keys a) \<longrightarrow> sint i < sint (a_nextID a))"

definition next_index :: "array \<Rightarrow> i64" where
  "next_index a =
     (if isList a then of_nat (length (a_list a))
      else if a_nextID a = noIntKey then 0 else a_nextID a)"

section \<open>Both modes hold one list of entries\<close>

lemma isList_iff [simp]: "isList a \<longleftrightarrow> a_values a = None"
  by (simp add: isList_def split: option.splits)

lemma fits_mono: "fits (Suc n) \<Longrightarrow> fits n"
  by (simp add: fits_def)

lemma sint_of_nat_fits [simp]: "fits n \<Longrightarrow> sint (of_nat n :: i64) = int n"
  using sint_of_int_i64 [of "int n"] by (simp add: fits_def)

lemma length_int_keys [simp]: "length (int_keys n) = n"
  by (simp add: int_keys_def)

lemma int_keys_nth [simp]: "i < n \<Longrightarrow> int_keys n ! i = VInt (of_nat i)"
  by (simp add: int_keys_def)

lemma int_keys_Suc: "int_keys (Suc n) = int_keys n @ [VInt (of_nat n)]"
  by (simp add: int_keys_def)

lemma fits_less: "fits n \<Longrightarrow> i < n \<Longrightarrow> fits i"
  by (simp add: fits_def)

lemma of_nat_i64_inject: "fits m \<Longrightarrow> fits n \<Longrightarrow> (of_nat m :: i64) = of_nat n \<longleftrightarrow> m = n"
  by (metis of_nat_eq_iff sint_of_nat_fits)

lemma distinct_int_keys: "fits n \<Longrightarrow> distinct (int_keys n)"
  unfolding int_keys_def distinct_map inj_on_def
  by (auto simp: of_nat_i64_inject [OF fits_less fits_less])

lemma VInt_in_int_keys:
  "fits n \<Longrightarrow> VInt i \<in> set (int_keys n) \<longleftrightarrow> 0 \<le> sint i \<and> sint i < int n"
proof
  assume "fits n" "VInt i \<in> set (int_keys n)"
  then show "0 \<le> sint i \<and> sint i < int n"
    by (auto simp: int_keys_def dest: fits_less)
next
  assume n: "fits n" and i: "0 \<le> sint i \<and> sint i < int n"
  then have "fits (nat (sint i))" by (auto intro: fits_less)
  then have "i = of_nat (nat (sint i))" using i by (simp add: i64_eq_iff_sint)
  with i show "VInt i \<in> set (int_keys n)"
    unfolding int_keys_def by (auto intro!: image_eqI [of _ _ "nat (sint i)"])
qed

lemma int_keys_VInt: "k \<in> set (int_keys n) \<Longrightarrow> \<exists>i. k = VInt i"
  by (auto simp: int_keys_def)

lemma map_of_zip_int_keys:
  assumes "fits (length xs)"
  shows "map_of (zip (int_keys (length xs)) xs) k =
    (case k of
       VInt i \<Rightarrow> if 0 \<le> sint i \<and> sint i < int (length xs) then Some (xs ! nat (sint i)) else None
     | _ \<Rightarrow> None)"
proof (cases "k \<in> set (int_keys (length xs))")
  case True
  then obtain i where k: "k = VInt i" by (auto dest: int_keys_VInt)
  with True have i: "0 \<le> sint i" "sint i < int (length xs)"
    using VInt_in_int_keys [OF assms] by auto
  then have n: "nat (sint i) < length xs" "int_keys (length xs) ! nat (sint i) = k"
    using assms by (auto simp: k i64_eq_iff_sint dest: fits_less)
  then show ?thesis
    using i map_of_zip_nth [of "int_keys (length xs)" xs "nat (sint i)"] distinct_int_keys [OF assms]
    by (simp add: k)
next
  case False
  then have "map_of (zip (int_keys (length xs)) xs) k = None"
    by (metis map_of_zip_is_None length_int_keys)
  with False assms show ?thesis by (auto simp: VInt_in_int_keys split: val.splits)
qed

section \<open>The operations refine the ordered store\<close>

lemma entries_list: "a_values a = None \<Longrightarrow> entries a = zip (int_keys (length (a_list a))) (a_list a)"
  by (simp add: entries_def)

lemma entries_map: "a_values a = Some m \<Longrightarrow> entries a = map (\<lambda>k. (k, map_read m k)) (a_keys a)"
  by (simp add: entries_def)

lemma Keys_entries: "Array_Keys a = map fst (entries a)"
  by (cases "a_values a") (auto simp: Array_Keys_def entries_def o_def)

lemma Len_entries: "Array_Len a = length (entries a)"
  by (cases "a_values a") (auto simp: Array_Len_def entries_def)

lemma Range_entries: "Array_Range a fn s = snd (visit fn (entries a) s)"
  by (cases "a_values a") (auto simp: Array_Range_def entries_def)

lemma distinct_entries: "array_wf a \<Longrightarrow> distinct (map fst (entries a))"
  by (cases "a_values a") (auto simp: array_wf_def entries_def distinct_int_keys o_def)

lemma Get_entries: "array_wf a \<Longrightarrow> Array_Get a k = map_of (entries a) k"
proof (cases "a_values a")
  case None
  then show "array_wf a \<Longrightarrow> ?thesis"
    by (auto simp: array_wf_def Array_Get_def entries_list map_of_zip_int_keys split: val.splits)
next
  case (Some m)
  assume wf: "array_wf a"
  with Some have "m k = (if k \<in> set (a_keys a) then Some (map_read m k) else None)"
    by (auto simp: array_wf_def map_read_def split: option.splits)
  with Some show ?thesis by (simp add: Array_Get_def entries_map map_of_graph)
qed

lemma promote_facts:
  assumes "array_wf a" and "a_values a = None"
  shows "array_wf (promote a)" and "entries (promote a) = entries a"
    and "\<exists>m. a_values (promote a) = Some m" and "a_nextID (promote a) = a_nextID a"
proof -
  let ?xs = "a_list a" let ?ks = "int_keys (length (a_list a))"
  let ?m = "map_of (zip ?ks ?xs)"
  have fits: "fits (length ?xs)" using assms by (simp add: array_wf_def)
  have v: "a_values (promote a) = Some ?m" "a_keys (promote a) = ?ks" "a_list (promote a) = []"
    by (simp_all add: promote_def Let_def)
  have graph: "map (\<lambda>k. (k, map_read ?m k)) ?ks = zip ?ks ?xs"
  proof (rule nth_equalityI)
    fix i assume "i < length (map (\<lambda>k. (k, map_read ?m k)) ?ks)"
    then show "map (\<lambda>k. (k, map_read ?m k)) ?ks ! i = zip ?ks ?xs ! i"
      using map_of_zip_nth [of ?ks ?xs i] distinct_int_keys [OF fits]
      by (simp add: map_read_def)
  qed simp
  show "array_wf (promote a)"
    by (simp add: array_wf_def v dom_map_of_zip distinct_int_keys [OF fits])
  show "entries (promote a) = entries a"
    by (simp add: entries_map [OF v(1)] entries_list [OF assms(2)] v(2) graph)
  show "\<exists>m. a_values (promote a) = Some m" "a_nextID (promote a) = a_nextID a"
    by (simp_all add: promote_def Let_def)
qed

lemma set_mapped_facts:
  assumes "array_wf a" and "a_values a = Some m"
  shows "array_wf (set_mapped a k v)" and "entries (set_mapped a k v) = AList.update k v (entries a)"
proof -
  let ?ks = "if k \<in> set (a_keys a) then a_keys a else a_keys a @ [k]"
  have d: "dom m = set (a_keys a)" and dist: "distinct (a_keys a)" and l: "a_list a = []"
    using assms by (auto simp: array_wf_def)
  have f: "a_values (set_mapped a k v) = Some (m(k := Some v))"
    "a_keys (set_mapped a k v) = ?ks" "a_list (set_mapped a k v) = []"
    using d l assms(2)
    by (auto simp: set_mapped_def Let_def domIff split: option.splits val.splits)
  show "array_wf (set_mapped a k v)"
    using d dist by (auto simp: array_wf_def f)
  have read: "map_read (m(k := Some v)) = (\<lambda>x. if x = k then v else map_read m x)"
    by (auto simp: map_read_def)
  show "entries (set_mapped a k v) = AList.update k v (entries a)"
  proof (cases "k \<in> set (a_keys a)")
    case True
    then show ?thesis
      by (simp add: entries_map [OF f(1)] entries_map [OF assms(2)] f(2) read update_map_graph [OF dist])
  next
    case False
    then have "AList.update k v (entries a) = entries a @ [(k, v)]"
      by (intro update_append_new) (auto simp: entries_map [OF assms(2)])
    with False show ?thesis
      by (auto simp: entries_map [OF f(1)] entries_map [OF assms(2)] f(2) read)
  qed
qed

lemma update_list_entries:
  assumes "fits (length xs)" and "0 \<le> sint i" and "sint i < int (length xs)"
  shows "AList.update (VInt i) v (zip (int_keys (length xs)) xs) =
    zip (int_keys (length xs)) (xs[nat (sint i) := v])"
proof -
  let ?ks = "int_keys (length xs)" let ?n = "nat (sint i)"
  have n: "?n < length xs" using assms by simp
  then have i: "VInt i = ?ks ! ?n"
    using assms by (simp add: i64_eq_iff_sint fits_less [OF assms(1)])
  show ?thesis
    unfolding i by (rule update_zip_nth) (use n in \<open>simp_all add: distinct_int_keys [OF assms(1)]\<close>)
qed

lemma Set_cases [case_names overwrite extend mapped]:
  assumes "a_values a = None \<Longrightarrow> (\<exists>i. k = VInt i \<and> 0 \<le> sint i \<and> sint i < int (length (a_list a))) \<Longrightarrow> P"
    and "a_values a = None \<Longrightarrow> (\<exists>i. k = VInt i \<and> sint i = int (length (a_list a))) \<Longrightarrow> P"
    and "Array_Set a k v = set_mapped (if isList a then promote a else a) k v \<Longrightarrow>
      (a_values a = None \<Longrightarrow> \<forall>i. k = VInt i \<longrightarrow> sint i < 0 \<or> int (length (a_list a)) < sint i) \<Longrightarrow> P"
  shows P
proof (cases "a_values a")
  case None
  show ?thesis
  proof (cases "\<exists>i. k = VInt i \<and> 0 \<le> sint i \<and> sint i \<le> int (length (a_list a))")
    case True
    with None assms(1,2) show ?thesis by force
  next
    case False
    with None have "Array_Set a k v = set_mapped (if isList a then promote a else a) k v"
      by (auto simp: Array_Set_def split: val.splits)
    with False assms(3) show ?thesis by fastforce
  qed
next
  case (Some m)
  with assms(3) show ?thesis by (simp add: Array_Set_def)
qed

lemma Set_facts:
  assumes wf: "array_wf a" and room: "fits (Suc (length (entries a)))"
  shows "array_wf (Array_Set a k v) \<and> entries (Array_Set a k v) = AList.update k v (entries a)"
proof (cases rule: Set_cases [where a = a and k = k and v = v])
  case overwrite
  then show ?thesis
    using wf by (auto simp: Array_Set_def array_wf_def entries_list update_list_entries)
next
  case extend
  then obtain i where none: "a_values a = None" and k: "k = VInt i" and i: "sint i = int (length (a_list a))"
    by blast
  have fits: "fits (length (a_list a))" using wf none by (simp add: array_wf_def)
  have iw: "i = of_nat (length (a_list a))" using i fits by (simp add: i64_eq_iff_sint)
  have "k \<notin> fst ` set (entries a)"
    using VInt_in_int_keys [OF fits, of i] i none k
    by (auto simp: entries_list dest: set_zip_leftD)
  then have "AList.update k v (entries a) = entries a @ [(k, v)]" by (rule update_append_new)
  moreover have "Array_Set a k v = a\<lparr>a_list := a_list a @ [v], a_nextID := i + 1\<rparr>"
    using none i by (simp add: Array_Set_def k)
  ultimately show ?thesis
    using wf room none by (simp add: array_wf_def entries_list int_keys_Suc k iw)
next
  case mapped
  show ?thesis
  proof (cases "a_values a")
    case None
    obtain m where m: "a_values (promote a) = Some m"
      using promote_facts(3) [OF wf None] by blast
    from mapped None have "Array_Set a k v = set_mapped (promote a) k v" by simp
    then show ?thesis
      by (simp add: set_mapped_facts [OF promote_facts(1) [OF wf None] m] promote_facts(2) [OF wf None])
  next
    case (Some m)
    with mapped wf show ?thesis by (simp add: set_mapped_facts)
  qed
qed

lemma delete_mapped_facts:
  assumes "array_wf a" and "a_values a = Some m"
  shows "array_wf (delete_mapped a k)"
    and "entries (delete_mapped a k) = AList.delete k (entries a)"
    and "a_nextID (delete_mapped a k) = a_nextID a"
proof -
  have d: "dom m = set (a_keys a)" and dist: "distinct (a_keys a)" and l: "a_list a = []"
    using assms by (auto simp: array_wf_def)
  show "array_wf (delete_mapped a k)"
    using assms d dist l by (auto simp: delete_mapped_def array_wf_def split: option.splits)
  show "entries (delete_mapped a k) = AList.delete k (entries a)"
  proof (cases "m k")
    case None
    then have "k \<notin> set (a_keys a)" using d by (auto simp: domIff)
    then have "filter (\<lambda>x. x \<noteq> k) (a_keys a) = a_keys a" by (auto simp: filter_id_conv)
    with None show ?thesis
      by (simp add: delete_mapped_def assms(2) entries_map [OF assms(2)] delete_map_graph)
  next
    case (Some v)
    then have "entries (delete_mapped a k) =
        map (\<lambda>x. (x, map_read (m(k := None)) x)) (filter (\<lambda>x. x \<noteq> k) (a_keys a))"
      by (simp add: delete_mapped_def assms(2) entries_def filter_neq_remove1 [OF dist])
    also have "\<dots> = map (\<lambda>x. (x, map_read m x)) (filter (\<lambda>x. x \<noteq> k) (a_keys a))"
      by (auto simp: map_read_def)
    finally show ?thesis
      by (simp add: entries_map [OF assms(2)] delete_map_graph)
  qed
  show "a_nextID (delete_mapped a k) = a_nextID a"
    by (simp add: delete_mapped_def split: option.splits)
qed

lemma delete_missing: "k \<notin> fst ` set es \<Longrightarrow> AList.delete k es = es"
  by (induction es) auto

lemma Delete_facts:
  assumes wf: "array_wf a"
  shows "array_wf (Array_Delete a k) \<and> entries (Array_Delete a k) = AList.delete k (entries a)"
proof (cases "a_values a")
  case (Some m)
  then show ?thesis using delete_mapped_facts [OF wf Some] by (simp add: Array_Delete_def)
next
  case None
  let ?xs = "a_list a"
  have fits: "fits (length ?xs)" using wf None by (simp add: array_wf_def)
  show ?thesis
  proof (cases "k \<in> set (int_keys (length ?xs))")
    case False
    then have "\<And>i. k = VInt i \<Longrightarrow> sint i < 0 \<or> int (length ?xs) \<le> sint i"
      using VInt_in_int_keys [OF fits] by (meson not_le)
    then have "Array_Delete a k = a"
      using None by (cases k) (simp_all add: Array_Delete_def)
    moreover have "k \<notin> fst ` set (entries a)"
      using False None by (auto simp: entries_list dest: set_zip_leftD)
    ultimately show ?thesis using wf by (simp add: delete_missing)
  next
    case True
    then obtain i where k: "k = VInt i" and i: "0 \<le> sint i" "sint i < int (length ?xs)"
      using VInt_in_int_keys [OF fits] by (auto dest: int_keys_VInt)
    show ?thesis
    proof (cases "sint i = int (length ?xs) - 1")
      case last: True
      then obtain ys y where xs: "?xs = ys @ [y]"
        using i by (cases ?xs rule: rev_cases) auto
      have n: "sint i = int (length ys)" using last by (simp add: xs)
      have fy: "fits (length ys)" using fits by (simp add: xs fits_def)
      have iw: "i = of_nat (length ys)" using n fy by (simp add: i64_eq_iff_sint)
      have D: "Array_Delete a k = a\<lparr>a_list := ys\<rparr>"
        using None n by (simp add: Array_Delete_def k xs)
      have "k \<notin> set (int_keys (length ys))"
        using n by (simp add: k VInt_in_int_keys [OF fy])
      then have "AList.delete k (entries a) = zip (int_keys (length ys)) ys"
        using delete_zip_last [of "int_keys (length ys)" ys k y] None
        by (simp add: entries_list xs int_keys_Suc k iw)
      then show ?thesis using wf None fy by (simp add: D array_wf_def entries_list)
    next
      case False
      obtain m where m: "a_values (promote a) = Some m"
        using promote_facts(3) [OF wf None] by blast
      have "Array_Delete a k = delete_mapped (promote a) k"
        using None False i by (auto simp: Array_Delete_def k)
      then show ?thesis
        by (simp add: delete_mapped_facts [OF promote_facts(1) [OF wf None] m] promote_facts(2) [OF wf None])
    qed
  qed
qed

interpretation arr: ordered_store Array_Get Array_Set Array_Delete entries fits array_wf
  by unfold_locales
     (simp_all add: Get_entries Set_facts Delete_facts distinct_entries fits_mono)

section \<open>The append index\<close>

lemma wf_in_entries: "array_wf a \<Longrightarrow> a_values a = Some m \<Longrightarrow> set (a_keys a) = fst ` set (entries a)"
  by (simp add: entries_map image_image)

lemma sint_succ: "i \<noteq> max_i64 \<Longrightarrow> sint (i + 1) = sint i + 1"
proof -
  assume "i \<noteq> max_i64"
  then have "sint i < 9223372036854775807"
    using sint_i64_bounds(2) [of i] i64_eq_iff_sint [of i max_i64] by (simp add: less_le)
  moreover have "i + 1 = word_of_int (sint i + 1)" by simp
  ultimately show ?thesis
    using sint_i64_bounds(1) [of i] by (simp only: sint_of_int_i64)
qed

lemma promote_index_above:
  assumes "array_wf a" and "a_values a = None" and "index_above a"
  shows "index_above (promote a)"
proof -
  have "fits (length (a_list a))" using assms by (simp add: array_wf_def)
  then show ?thesis
    using assms(2,3) VInt_in_int_keys [of "length (a_list a)"]
    by (cases "a_list a") (fastforce simp: index_above_def promote_def Let_def int_keys_def)+
qed

lemma set_mapped_index_above:
  assumes "array_wf a" and "a_values a = Some m" and "index_above a" and "k \<noteq> VInt max_i64"
  shows "index_above (set_mapped a k v)"
proof -
  have below: "\<And>i. VInt i \<in> set (a_keys a) \<Longrightarrow> sint i < sint (a_nextID a)"
    using assms by (simp add: index_above_def)
  show ?thesis
  proof (cases "\<exists>i. k = VInt i")
    case True
    then obtain i where k: "k = VInt i" and "i \<noteq> max_i64" using assms by blast
    then have "sint (i + 1) = sint i + 1" by (simp add: sint_succ)
    then show ?thesis
      using assms(2) below
      by (force simp: index_above_def set_mapped_def Let_def k split: option.splits)
  next
    case False
    then show ?thesis
      using assms(2) below
      by (auto simp: index_above_def set_mapped_def Let_def split: option.splits val.splits)
  qed
qed

lemma Set_index_above:
  assumes wf: "array_wf a" and room: "fits (Suc (length (entries a)))"
    and above: "index_above a" and k: "k \<noteq> VInt max_i64"
  shows "index_above (Array_Set a k v)"
proof (cases rule: Set_cases [where a = a and k = k and v = v])
  case overwrite
  then show ?thesis using above by (auto simp: Array_Set_def index_above_def)
next
  case extend
  then obtain i where "a_values a = None" "k = VInt i" "sint i = int (length (a_list a))" by blast
  moreover from this k have "sint (i + 1) = sint i + 1" by (intro sint_succ) auto
  ultimately show ?thesis by (simp add: Array_Set_def index_above_def)
next
  case mapped
  show ?thesis
  proof (cases "a_values a")
    case None
    obtain m where "a_values (promote a) = Some m" using promote_facts(3) [OF wf None] by blast
    then show ?thesis
      using mapped None set_mapped_index_above [OF promote_facts(1) [OF wf None] _ _ k]
        promote_index_above [OF wf None above] by simp
  next
    case (Some m)
    then show ?thesis using mapped set_mapped_index_above [OF wf Some above k] by simp
  qed
qed

lemma delete_mapped_index_above:
  assumes "array_wf a" and "a_values a = Some m" and "index_above a"
  shows "index_above (delete_mapped a k)"
  using assms set_remove1_subset [of k "a_keys a"]
  by (auto simp: index_above_def delete_mapped_def split: option.splits)

lemma Delete_index_above:
  assumes wf: "array_wf a" and above: "index_above a"
  shows "index_above (Array_Delete a k)"
proof (cases "a_values a")
  case (Some m)
  then show ?thesis using delete_mapped_index_above [OF wf Some above] by (simp add: Array_Delete_def)
next
  case None
  obtain m where "a_values (promote a) = Some m" using promote_facts(3) [OF wf None] by blast
  then have "index_above (delete_mapped (promote a) k)"
    using delete_mapped_index_above promote_facts(1) [OF wf None] promote_index_above [OF wf None above]
    by blast
  then show ?thesis
    using None above by (auto simp: Array_Delete_def index_above_def split: val.splits)
qed

lemma next_index_fresh:
  assumes "array_wf a" and "index_above a"
  shows "VInt (next_index a) \<notin> fst ` set (entries a)"
proof (cases "a_values a")
  case None
  then have "fits (length (a_list a))" using assms by (simp add: array_wf_def)
  with None show ?thesis
    using VInt_in_int_keys [of "length (a_list a)" "of_nat (length (a_list a))"]
    by (auto simp: next_index_def entries_list dest: set_zip_leftD)
next
  case (Some m)
  then have "\<And>i. VInt i \<in> set (a_keys a) \<Longrightarrow> sint i < sint (a_nextID a)"
    using assms by (simp add: index_above_def)
  then have "VInt (next_index a) \<in> set (a_keys a) \<Longrightarrow> sint (next_index a) < sint (a_nextID a)"
    by blast
  then have "VInt (next_index a) \<notin> set (a_keys a)"
    using Some by (cases "a_nextID a = noIntKey") (auto simp: next_index_def noIntKey_def)
  then show ?thesis using wf_in_entries [OF assms(1) Some] by simp
qed

lemma Append_as_update:
  assumes wf: "array_wf a" and room: "fits (Suc (length (entries a)))"
  shows "array_wf (Array_Append a v) \<and>
    entries (Array_Append a v) = AList.update (VInt (next_index a)) v (entries a)"
proof (cases "a_values a")
  case None
  have fits: "fits (length (a_list a))" using wf None by (simp add: array_wf_def)
  have "VInt (next_index a) \<notin> fst ` set (entries a)"
    using None VInt_in_int_keys [OF fits, of "of_nat (length (a_list a))"] fits
    by (auto simp: next_index_def entries_list dest: set_zip_leftD)
  then have "AList.update (VInt (next_index a)) v (entries a) = entries a @ [(VInt (next_index a), v)]"
    by (rule update_append_new)
  then show ?thesis
    using wf None room
    by (simp add: Array_Append_def array_wf_def entries_list int_keys_Suc next_index_def)
next
  case (Some m)
  then show ?thesis
    using Set_facts [OF wf room] by (simp add: Array_Append_def next_index_def)
qed

lemma Append_entries:
  assumes "array_wf a" and "fits (Suc (length (entries a)))" and "index_above a"
  shows "entries (Array_Append a v) = entries a @ [(VInt (next_index a), v)]"
proof -
  from assms have "entries (Array_Append a v) = AList.update (VInt (next_index a)) v (entries a)"
    by (simp add: Append_as_update)
  also have "\<dots> = entries a @ [(VInt (next_index a), v)]"
    by (rule update_append_new) (rule next_index_fresh [OF assms(1,3)])
  finally show ?thesis .
qed

lemma Append_index_above:
  assumes "array_wf a" and "fits (Suc (length (entries a)))" and "index_above a"
    and "next_index a \<noteq> max_i64"
  shows "index_above (Array_Append a v)"
proof (cases "a_values a")
  case None
  then show ?thesis
    using assms(2) sint_of_nat_fits [of "Suc (length (a_list a))"]
    by (simp add: Array_Append_def index_above_def entries_list)
next
  case (Some m)
  then have "Array_Append a v = Array_Set a (VInt (next_index a)) v"
    by (simp add: Array_Append_def next_index_def)
  with Set_index_above [OF assms(1-3)] assms(4) show ?thesis by simp
qed

lemma wf_NewArray [simp]: "array_wf NewArray" "index_above NewArray" "entries NewArray = []"
  by (simp_all add: NewArray_def array_wf_def index_above_def entries_def fits_def int_keys_def)

lemma NewArraySize_eq [simp]: "NewArraySize n = NewArray"
  by (simp add: NewArraySize_def NewArray_def)

text \<open>
  What tells two arrays apart is their entries and the counter the next append reads. In list
  mode the counter is the length once the list holds an element.
\<close>

definition index_exact :: "array \<Rightarrow> bool" where
  "index_exact a \<longleftrightarrow>
     (isList a \<longrightarrow>
        a_nextID a = (if a_list a = [] then noIntKey else of_nat (length (a_list a))))"

definition same_array :: "array \<Rightarrow> array \<Rightarrow> bool" where
  "same_array a b \<longleftrightarrow>
     array_wf a \<and> array_wf b \<and> entries a = entries b \<and> a_nextID a = a_nextID b \<and>
     index_exact a \<and> index_exact b"

lemma index_exact_NewArray [simp]: "index_exact NewArray"
  by (simp add: index_exact_def NewArray_def)

lemma of_nat_not_sentinel: "fits n \<Longrightarrow> (of_nat n :: i64) \<noteq> noIntKey"
proof
  assume "fits n" and "(of_nat n :: i64) = noIntKey"
  then have "int n = sint noIntKey" by (metis sint_of_nat_fits)
  then show False by (simp add: noIntKey_def)
qed

lemma same_next_index: "same_array a b \<Longrightarrow> next_index a = next_index b"
proof (cases "a_values a"; cases "a_values b")
  fix m assume *: "same_array a b" "a_values a = None" "a_values b = Some m"
  then have "a_list a = [] \<or> fits (length (a_list a))" by (auto simp: same_array_def array_wf_def)
  then have "of_nat (length (a_list a)) \<noteq> noIntKey \<or> a_list a = []"
    using of_nat_not_sentinel [of "length (a_list a)"] by blast
  with * show ?thesis by (auto simp: same_array_def index_exact_def next_index_def split: if_splits)
next
  fix m assume *: "same_array a b" "a_values a = Some m" "a_values b = None"
  then have "a_list b = [] \<or> fits (length (a_list b))" by (auto simp: same_array_def array_wf_def)
  then have "of_nat (length (a_list b)) \<noteq> noIntKey \<or> a_list b = []"
    using of_nat_not_sentinel [of "length (a_list b)"] by blast
  with * show ?thesis by (auto simp: same_array_def index_exact_def next_index_def split: if_splits)
next
  assume "same_array a b" "a_values a = None" "a_values b = None"
  then have "length (entries a) = length (entries b)" by (simp add: same_array_def)
  then show ?thesis using \<open>a_values a = None\<close> \<open>a_values b = None\<close>
    by (simp add: next_index_def entries_list)
next
  fix m m' assume "same_array a b" "a_values a = Some m" "a_values b = Some m'"
  then show ?thesis by (simp add: same_array_def next_index_def)
qed

text \<open>The counter after a write, as a function of the counter before it alone.\<close>

definition bump :: "i64 \<Rightarrow> val \<Rightarrow> i64" where
  "bump n k = (case k of VInt i \<Rightarrow> if sint n \<le> sint i then i + 1 else n | _ \<Rightarrow> n)"

lemma set_mapped_nextID:
  "a_values a = Some m \<Longrightarrow> a_nextID (set_mapped a k v) = bump (a_nextID a) k"
  "a_values a = Some m \<Longrightarrow> \<exists>m'. a_values (set_mapped a k v) = Some m'"
  by (auto simp: set_mapped_def bump_def Let_def split: option.splits val.splits)

lemma Set_nextID:
  assumes wf: "array_wf a" and room: "fits (Suc (length (entries a)))" and ex: "index_exact a"
  shows "a_nextID (Array_Set a k v) = bump (a_nextID a) k" and "index_exact (Array_Set a k v)"
proof -
  have "a_nextID (Array_Set a k v) = bump (a_nextID a) k \<and> index_exact (Array_Set a k v)"
  proof (cases rule: Set_cases [where a = a and k = k and v = v])
    case overwrite
    then obtain i where *: "a_values a = None" "k = VInt i" "0 \<le> sint i" "sint i < int (length (a_list a))"
      by blast
    have "fits (length (a_list a))" using wf * by (simp add: array_wf_def)
    with * ex have "a_list a \<noteq> []" "sint (a_nextID a) = int (length (a_list a))"
      by (auto simp: index_exact_def)
    with * ex show ?thesis by (auto simp: Array_Set_def bump_def index_exact_def)
  next
    case extend
    then obtain i where *: "a_values a = None" "k = VInt i" "sint i = int (length (a_list a))"
      by blast
    have fits: "fits (length (a_list a))" using wf * by (simp add: array_wf_def)
    have "i = of_nat (length (a_list a))" using * fits by (simp add: i64_eq_iff_sint)
    moreover have "sint (a_nextID a) \<le> sint i"
      using * ex fits by (auto simp: index_exact_def noIntKey_def)
    ultimately show ?thesis using * by (simp add: Array_Set_def bump_def index_exact_def)
  next
    case mapped
    show ?thesis
    proof (cases "a_values a")
      case None
      obtain m where m: "a_values (promote a) = Some m" using promote_facts(3) [OF wf None] by blast
      from mapped None have "Array_Set a k v = set_mapped (promote a) k v" by simp
      then show ?thesis
        using set_mapped_nextID [OF m, of k v] promote_facts(4) [OF wf None]
        by (auto simp: index_exact_def)
    next
      case (Some m)
      then show ?thesis using mapped set_mapped_nextID [OF Some, of k v] by (auto simp: index_exact_def)
    qed
  qed
  then show "a_nextID (Array_Set a k v) = bump (a_nextID a) k" "index_exact (Array_Set a k v)"
    by auto
qed

lemma Append_as_Set:
  assumes "array_wf a" and "fits (Suc (length (entries a)))" and "index_exact a"
  shows "Array_Append a v = Array_Set a (VInt (next_index a)) v"
proof (cases "a_values a")
  case None
  have "fits (length (a_list a))" using assms(1) None by (simp add: array_wf_def)
  with None show ?thesis by (simp add: Array_Append_def Array_Set_def next_index_def add.commute)
next
  case (Some m)
  then show ?thesis by (simp add: Array_Append_def next_index_def)
qed

lemma same_array_Set:
  assumes "same_array a b" and "fits (Suc (length (entries a)))"
  shows "same_array (Array_Set a k v) (Array_Set b k v)"
  using assms Set_facts [of a k v] Set_facts [of b k v] Set_nextID [of a k v] Set_nextID [of b k v]
  by (simp add: same_array_def)

lemma same_array_Append:
  assumes "same_array a b" and "fits (Suc (length (entries a)))"
  shows "same_array (Array_Append a v) (Array_Append b v)"
  using assms same_array_Set [OF assms, of "VInt (next_index a)" v] same_next_index [OF assms(1)]
  by (simp add: same_array_def Append_as_Set)

lemma same_array_promote:
  assumes "array_wf a" and "a_values a = None" and "index_exact a"
  shows "same_array a (promote a)"
  using assms promote_facts [OF assms(1,2)] by (auto simp: same_array_def index_exact_def)

section \<open>Pop, bulk conversions and the typed list view\<close>

lemma length_entries_list: "a_values a = None \<Longrightarrow> length (entries a) = length (a_list a)"
  by (simp add: entries_list)

lemma last_entry:
  assumes "array_wf a" and "entries a \<noteq> []"
  shows "last (Array_Keys a) = fst (last (entries a))"
    and "Array_Get a (fst (last (entries a))) = Some (snd (last (entries a)))"
proof -
  show "last (Array_Keys a) = fst (last (entries a))"
    using assms(2) by (simp add: Keys_entries last_map)
  have "(fst (last (entries a)), snd (last (entries a))) \<in> set (entries a)"
    using assms(2) by simp
  then show "Array_Get a (fst (last (entries a))) = Some (snd (last (entries a)))"
    using assms(1) distinct_entries by (simp add: Get_entries)
qed

lemma delete_last: "distinct (map fst es) \<Longrightarrow> es \<noteq> [] \<Longrightarrow> AList.delete (fst (last es)) es = butlast es"
proof (induction es)
  case (Cons e es)
  show ?case
  proof (cases "es = []")
    case False
    then have "last es \<in> set es" by simp
    with Cons.prems have "fst e \<noteq> fst (last es)" by (metis distinct.simps(2) imageI list.map(2) list.set_map)
    with Cons False show ?thesis by (cases e) simp
  qed (cases e, simp)
qed simp

lemma nextID_irrelevant [simp]:
  "entries (a\<lparr>a_nextID := n\<rparr>) = entries a" "array_wf (a\<lparr>a_nextID := n\<rparr>) = array_wf a"
  by (cases "a_values a"; simp add: entries_def array_wf_def)+

text \<open>The array the last step of \<open>Pop\<close> answers, with the counter stepped back or not.\<close>

lemma Pop_result:
  assumes "array_wf a" and "entries a \<noteq> []"
  obtains n where "Array_Pop a =
    (Some (last (entries a)), (Array_Delete a (fst (last (entries a))))\<lparr>a_nextID := n\<rparr>)"
    and "n = a_nextID (Array_Delete a (fst (last (entries a)))) \<or>
      fst (last (entries a)) = VInt n \<and> n = a_nextID (Array_Delete a (fst (last (entries a)))) - 1"
proof -
  let ?e = "last (entries a)" let ?d = "Array_Delete a (fst ?e)"
  let ?n = "case fst ?e of VInt i \<Rightarrow> if a_nextID ?d \<noteq> noIntKey \<and> i = a_nextID ?d - 1 then i else a_nextID ?d
              | _ \<Rightarrow> a_nextID ?d"
  have "Array_Pop a = (Some ?e, ?d\<lparr>a_nextID := ?n\<rparr>)"
    using assms last_entry [OF assms]
    by (auto simp: Array_Pop_def Len_entries Let_def split: val.splits)
  moreover have "?n = a_nextID ?d \<or> fst ?e = VInt ?n \<and> ?n = a_nextID ?d - 1"
    by (auto split: val.splits)
  ultimately show thesis by (rule that)
qed

lemma Pop_facts:
  assumes "array_wf a" and "entries a \<noteq> []"
  shows "fst (Array_Pop a) = Some (last (entries a))"
    and "entries (snd (Array_Pop a)) = butlast (entries a)"
    and "array_wf (snd (Array_Pop a))"
proof -
  obtain n where "Array_Pop a =
      (Some (last (entries a)), (Array_Delete a (fst (last (entries a))))\<lparr>a_nextID := n\<rparr>)"
    using Pop_result [OF assms] by metis
  then show "fst (Array_Pop a) = Some (last (entries a))"
    "entries (snd (Array_Pop a)) = butlast (entries a)" "array_wf (snd (Array_Pop a))"
    using assms by (simp_all add: Delete_facts delete_last distinct_entries)
qed

lemma those_Some: "those xs = Some ys \<longleftrightarrow> xs = map Some ys"
  by (induction xs arbitrary: ys) (auto split: option.splits)

lemma as_int64_Some [simp]: "as_int64 v = Some i \<longleftrightarrow> v = VInt i"
  by (cases v) auto

lemma Int64List_Some:
  "Int64List a = Some ns \<longleftrightarrow> a_values a = None \<and> a_list a = map VInt ns"
  by (auto simp: Int64List_def those_Some list_eq_iff_nth_eq)

lemma ToArray_slice_facts:
  assumes "fits (length items)"
  shows "entries (ToArray_slice items) = zip (int_keys (length items)) items"
    and "array_wf (ToArray_slice items)" and "index_exact (ToArray_slice items)"
    and "a_values (ToArray_slice items) = None"
  using assms
  by (auto simp: ToArray_slice_def NewArraySize_def NewArray_def entries_def array_wf_def
      index_exact_def Let_def)

text \<open>The entry-by-entry path is a fold of \<open>Set\<close>, whichever of its two branches each entry takes.\<close>

lemma ToArray_step:
  assumes "array_wf a" and "index_exact a" and "fits (Suc (length (entries a)))"
    and "key \<noteq> VInt min_i64"
  shows "(case key of VInt i \<Rightarrow> if i = a_nextID a then Array_Append a v else Array_Set a key v
            | _ \<Rightarrow> Array_Set a key v) = Array_Set a key v"
proof (cases "key = VInt (a_nextID a)")
  case True
  with assms(4) have n: "a_nextID a \<noteq> noIntKey" by (auto simp: noIntKey_def)
  with assms(2) have "next_index a = a_nextID a"
    by (auto simp: next_index_def index_exact_def split: if_splits)
  with True Append_as_Set [OF assms(1,3,2)] show ?thesis by simp
next
  case False
  then show ?thesis by (auto split: val.splits)
qed

lemma ToArray_entries_fold:
  assumes "fits (length es)" and "VInt min_i64 \<notin> fst ` set es"
  shows "ToArray_entries es = arr.put_all NewArray es"
proof -
  have "snd (visit (\<lambda>key v out. (True,
      case key of VInt i \<Rightarrow> if i = a_nextID out then Array_Append out v else Array_Set out key v
        | _ \<Rightarrow> Array_Set out key v)) es a) = arr.put_all a es"
    if "array_wf a" "index_exact a" "fits (length (entries a) + length es)" for a
    using that assms(2)
  proof (induction es arbitrary: a)
    case Nil
    then show ?case by simp
  next
    case (Cons e es)
    obtain k v where e: "e = (k, v)" by (cases e)
    have r: "fits (Suc (length (entries a)))" by (rule arr.room_le [OF Cons.prems(3)]) simp
    have k: "k \<noteq> VInt min_i64" using Cons.prems(4) e by auto
    note step = ToArray_step [OF Cons.prems(1,2) r k, of v]
    have "length (entries (Array_Set a k v)) \<le> Suc (length (entries a))"
      by (rule arr.size_put [OF Cons.prems(1) r])
    then have "fits (length (entries (Array_Set a k v)) + length es)"
      by (intro arr.room_le [OF Cons.prems(3)]) simp
    then have "snd (visit (\<lambda>key v out. (True,
        case key of VInt i \<Rightarrow> if i = a_nextID out then Array_Append out v else Array_Set out key v
          | _ \<Rightarrow> Array_Set out key v)) es (Array_Set a k v)) = arr.put_all (Array_Set a k v) es"
      using Cons.IH [of "Array_Set a k v"] Cons.prems Set_facts [OF Cons.prems(1) r]
        Set_nextID(2) [OF Cons.prems(1) r Cons.prems(2)] by auto
    then show ?case by (simp add: e step)
  qed
  from this [of NewArray] show ?thesis
    using assms(1) by (simp add: ToArray_entries_def)
qed

section \<open>Properties\<close>


definition demo_list :: array where
  "demo_list =
     \<lparr>a_list = [VStr ''a'', VStr ''b''], a_keys = [], a_values = None, a_nextID = 2\<rparr>"

lemma demo_list_facts:
  "array_wf demo_list" "a_values demo_list = None" "index_exact demo_list" "index_above demo_list"
  "entries demo_list = [(VInt 0, VStr ''a''), (VInt 1, VStr ''b'')]" "next_index demo_list = 2"
  by (simp_all add: demo_list_def array_wf_def index_exact_def index_above_def entries_def
      next_index_def fits_def int_keys_def upt_conv_Cons)


lemma Pop_nextID:
  assumes "array_wf a" and "entries a \<noteq> []"
  shows "a_nextID (snd (Array_Pop a)) =
    (let n = a_nextID (Array_Delete a (fst (last (entries a))))
     in if fst (last (entries a)) = VInt (n - 1) \<and> n \<noteq> noIntKey then n - 1 else n)"
  using assms last_entry [OF assms]
  by (auto simp: Array_Pop_def Len_entries Let_def split: val.splits)

lemma Delete_nextID:
  assumes "array_wf a"
  shows "a_nextID (Array_Delete a k) = a_nextID a"
proof (cases "a_values a")
  case (Some m)
  then show ?thesis using delete_mapped_facts(3) [OF assms Some] by (simp add: Array_Delete_def)
next
  case None
  obtain m where "a_values (promote a) = Some m" using promote_facts(3) [OF assms None] by blast
  then have "a_nextID (delete_mapped (promote a) k) = a_nextID a"
    using delete_mapped_facts(3) promote_facts [OF assms None] by metis
  then show ?thesis using None by (auto simp: Array_Delete_def split: val.splits)
qed

lemma sint_pred: "i \<noteq> noIntKey \<Longrightarrow> sint (i - 1) = sint i - 1"
  using sint_succ [of "i - 1"] by (auto simp: noIntKey_def min_i64_def max_i64_def)

lemma Pop_index_above:
  assumes wf: "array_wf a" and ne: "entries a \<noteq> []" and above: "index_above a"
  shows "index_above (snd (Array_Pop a))"
proof -
  let ?k = "fst (last (entries a))"
  let ?d = "Array_Delete a ?k"
  have d: "array_wf ?d" "entries ?d = AList.delete ?k (entries a)" "index_above ?d" "a_nextID ?d = a_nextID a"
    using Delete_facts [OF wf] Delete_index_above [OF wf above] Delete_nextID [OF wf] by simp_all
  obtain n where pop: "snd (Array_Pop a) = ?d\<lparr>a_nextID := n\<rparr>"
    using Pop_result [OF wf ne] by (metis snd_conv)
  have n: "n = (if ?k = VInt (a_nextID a - 1) \<and> a_nextID a \<noteq> noIntKey then a_nextID a - 1 else a_nextID a)"
    using Pop_nextID [OF wf ne] d(4) by (simp add: pop Let_def)
  show ?thesis
  proof (cases "?k = VInt (a_nextID a - 1) \<and> a_nextID a \<noteq> noIntKey")
    case True
    then have n': "n = a_nextID a - 1" "sint n = sint (a_nextID a) - 1" using n sint_pred by simp_all
    have gone: "VInt n \<notin> fst ` set (entries ?d)" using True n'(1) by (auto simp: d(2) AList.delete_eq)
    show ?thesis
    proof (cases "a_values ?d")
      case (Some m)
      have "sint i < sint n" if i: "VInt i \<in> set (a_keys ?d)" for i
      proof -
        have "sint i < sint (a_nextID a)" using d(3,4) Some i by (simp add: index_above_def)
        moreover have "i \<noteq> n" using gone i wf_in_entries [OF d(1) Some] by auto
        ultimately show ?thesis using n'(2) by (simp add: i64_eq_iff_sint)
      qed
      then show ?thesis using Some by (simp add: pop index_above_def)
    next
      case None
      then have l: "a_values a = None" "a_list ?d = take (nat (sint n)) (a_list a) \<or> a_list ?d = a_list a"
        using True n'(1) by (auto simp: Array_Delete_def delete_mapped_def promote_def Let_def split: if_splits option.splits)
      have len: "length (entries a) = length (a_list a)" using l(1) by (simp add: entries_list)
      have "length (a_list ?d) = length (entries ?d)" using None by (simp add: entries_list)
      also have "\<dots> < length (entries a)"
        using delete_last [OF distinct_entries [OF wf] ne] ne by (simp add: d(2))
      finally have "int (length (a_list ?d)) \<le> sint n"
        using above l(1) len ne n'(2) by (auto simp: index_above_def)
      then show ?thesis using None by (simp add: pop index_above_def)
    qed
  next
    case False
    then show ?thesis using d(3) n d(4) by (auto simp: pop index_above_def split: option.splits)
  qed
qed

text \<open>
  The arrays a script builds without storing the largest int64 as a key: from the empty one, by writes, appends, removals
  and pops. An append has room while the next index is below the largest int64.
\<close>

inductive array_history :: "array \<Rightarrow> bool" where
  fresh: "array_history NewArray"
| written: "array_history a \<Longrightarrow> fits (Suc (length (entries a))) \<Longrightarrow> k \<noteq> VInt max_i64 \<Longrightarrow> array_history (Array_Set a k v)"
| appended: "array_history a \<Longrightarrow> fits (Suc (length (entries a))) \<Longrightarrow> next_index a \<noteq> max_i64 \<Longrightarrow> array_history (Array_Append a v)"
| removed: "array_history a \<Longrightarrow> array_history (Array_Delete a k)"
| popped: "array_history a \<Longrightarrow> entries a \<noteq> [] \<Longrightarrow> array_history (snd (Array_Pop a))"

lemma history_above: "array_history a \<Longrightarrow> array_wf a \<and> index_above a"
  by (induction rule: array_history.induct)
    (simp_all add: Set_facts Set_index_above Append_as_update Append_index_above Delete_facts Delete_index_above Pop_facts
      Pop_index_above)

lemma keys_below_next:
  assumes "array_wf a" and "index_above a" and "VInt i \<in> fst ` set (entries a)"
  shows "sint i < sint (next_index a)"
proof (cases "a_values a")
  case None
  then have f: "fits (length (a_list a))" using assms(1) by (simp add: array_wf_def)
  have "VInt i \<in> set (int_keys (length (a_list a)))" using assms(3) None by (auto simp: entries_list dest: set_zip_leftD)
  then show ?thesis using None f by (simp add: VInt_in_int_keys next_index_def)
next
  case (Some m)
  then have "sint i < sint (a_nextID a)" using assms wf_in_entries [OF assms(1) Some] by (auto simp: index_above_def)
  moreover have "- 9223372036854775808 \<le> sint i" using sint_ge [of i] by simp
  moreover have "a_nextID a = noIntKey \<Longrightarrow> sint (a_nextID a) = - 9223372036854775808" by (simp add: noIntKey_def)
  ultimately have "a_nextID a \<noteq> noIntKey" by linarith
  then show ?thesis using Some \<open>sint i < sint (a_nextID a)\<close> by (simp add: next_index_def)
qed

text \<open>C22. In an array built from the empty one by \<open>Set\<close>, \<open>Append\<close>, \<open>Delete\<close> and \<open>Pop\<close>, none of which
  ever wrote the largest int64 as a key, the next index lies above every integer key: \<open>$a[] = v\<close> adds one new entry, at
  the end, under a key the array does not hold. (A key once written counts: see the overwritten entry below.) The new length is
  taken to fit an int64, as it does in any memory; so too in the other properties of arrays.\<close>

theorem append_index_fresh:
  assumes "array_history a" and "fits (Suc (length (entries a)))"
  shows "entries (Array_Append a v) = entries a @ [(VInt (next_index a), v)] \<and>
    VInt (next_index a) \<notin> fst ` set (entries a) \<and>
    (\<forall>i. VInt i \<in> fst ` set (entries a) \<longrightarrow> sint i < sint (next_index a))"
  using history_above [OF assms(1)] Append_entries [of a v] next_index_fresh [of a] keys_below_next [of a] assms(2) by blast

lemma demo_history: "array_history demo_list"
proof -
  have "demo_list = Array_Append (Array_Append NewArray (VStr ''a'')) (VStr ''b'')"
    by (simp add: demo_list_def Array_Append_def NewArray_def)
  moreover have "array_history (Array_Append NewArray (VStr ''a''))"
    by (rule appended [OF fresh]) (simp_all add: fits_def next_index_def entries_def int_keys_def NewArray_def max_i64_def)
  then have "array_history (Array_Append (Array_Append NewArray (VStr ''a'')) (VStr ''b''))"
    by (rule appended) (simp_all add: fits_def next_index_def NewArray_def max_i64_def Array_Append_def entries_list)
  ultimately show ?thesis by simp
qed

lemma append_index_fresh_witness:
  "entries (Array_Append demo_list VNil) = entries demo_list @ [(VInt 2, VNil)]"
  using append_index_fresh [OF demo_history, of VNil] by (simp add: fits_def demo_list_facts)

text \<open>\<open>Pop\<close> answers the last entry and removes it, the counter steps back only when the
  popped key is the one below it, and it stays above the remaining integer keys.\<close>

theorem pop_removes_last_entry:
  assumes "array_wf a" and "entries a \<noteq> []"
  shows "fst (Array_Pop a) = Some (last (entries a)) \<and>
    entries (snd (Array_Pop a)) = butlast (entries a) \<and>
    array_wf (snd (Array_Pop a)) \<and>
    a_nextID (snd (Array_Pop a)) =
      (if fst (last (entries a)) = VInt (a_nextID a - 1) \<and> a_nextID a \<noteq> noIntKey
       then a_nextID a - 1 else a_nextID a)"
  using Pop_facts [OF assms] Pop_nextID [OF assms] Delete_nextID [OF assms(1)]
  by (simp add: Let_def)

lemma pop_removes_last_entry_witness:
  "fst (Array_Pop demo_list) = Some (VInt 1, VStr ''b'') \<and>
   entries (snd (Array_Pop demo_list)) = [(VInt 0, VStr ''a'')] \<and>
   a_nextID (snd (Array_Pop demo_list)) = 1"
  using pop_removes_last_entry [of demo_list]
  by (simp add: fits_def demo_list_facts) (simp add: demo_list_def noIntKey_def min_i64_def)

text \<open>Any sequence of writes and appends, \<open>None\<close> for an append.\<close>

definition array_writes :: "(val option \<times> val) list \<Rightarrow> array \<Rightarrow> array" where
  "array_writes = fold (\<lambda>(k, v) a. case k of None \<Rightarrow> Array_Append a v | Some k \<Rightarrow> Array_Set a k v)"

lemma same_array_writes:
  "same_array a b \<Longrightarrow> fits (length (entries a) + length ops) \<Longrightarrow> same_array (array_writes ops a) (array_writes ops b)"
proof (induction ops arbitrary: a b)
  case (Cons op ops)
  obtain k v where op: "op = (k, v)" by (cases op)
  have room: "fits (Suc (length (entries a)))" using Cons.prems(2) by (simp add: fits_def)
  let ?step = "\<lambda>a. case k of None \<Rightarrow> Array_Append a v | Some k \<Rightarrow> Array_Set a k v"
  have same: "same_array (?step a) (?step b)"
    using same_array_Append [OF Cons.prems(1) room] same_array_Set [OF Cons.prems(1) room] by (simp split: option.split)
  have "array_wf a" using Cons.prems(1) by (simp add: same_array_def)
  then have "length (entries (?step a)) \<le> Suc (length (entries a))"
    using Append_as_update [OF _ room] Set_facts [OF _ room] by (auto simp: length_update split: option.split)
  then have "fits (length (entries (?step a)) + length ops)" using Cons.prems(2) by (simp add: fits_def)
  from Cons.IH [OF same this] show ?case by (simp add: array_writes_def op)
qed (simp add: array_writes_def)



text \<open>C36. The exception to the above: removing the last element of a list rewinds the index the
  list appends at, while the promoted array keeps it. After \<open>unset($a[n])\<close> the next append
  reuses key n in list mode and takes key n + 1 in map mode.\<close>

theorem unset_last_reuses_index:
  assumes "array_wf a" and "a_values a = None" and "index_exact a"
    and "a_list a = xs @ [x]" and "fits (Suc (length (entries a)))"
  shows "entries (Array_Append (Array_Delete a (VInt (of_nat (length xs)))) v) =
      butlast (entries a) @ [(VInt (of_nat (length xs)), v)] \<and>
    entries (Array_Append (Array_Delete (promote a) (VInt (of_nat (length xs)))) v) =
      butlast (entries a) @ [(VInt (of_nat (Suc (length xs))), v)]"
proof -
  let ?k = "VInt (of_nat (length xs))"
  have fx: "fits (Suc (length xs))" using assms by (simp add: array_wf_def)
  have e: "entries a = zip (int_keys (length xs)) xs @ [(?k, x)]"
    using assms(2,4) by (simp add: entries_list int_keys_Suc)
  have del: "Array_Delete a ?k = a\<lparr>a_list := xs\<rparr>"
    using assms(2,4) fits_mono [OF fx] by (simp add: Array_Delete_def)
  have l: "entries (Array_Append (Array_Delete a ?k) v) = butlast (entries a) @ [(?k, v)]"
    using assms(2) by (simp add: del Array_Append_def entries_list e int_keys_Suc)
  let ?p = "Array_Delete (promote a) ?k"
  have wp: "array_wf ?p" and ep: "entries ?p = butlast (entries a)"
    using promote_facts [OF assms(1,2)] Delete_facts [of "promote a" ?k]
      delete_last [of "entries a"] distinct_entries [OF assms(1)] by (auto simp: e)
  obtain m where m: "a_values (promote a) = Some m" using promote_facts(3) [OF assms(1,2)] by blast
  have above: "index_above a"
    using assms(2,3,4) sint_of_nat_fits [OF fx] by (simp add: index_above_def index_exact_def)
  have np: "a_nextID ?p = of_nat (Suc (length xs))" and mp: "a_values ?p \<noteq> None"
    using m assms(2-4) Delete_nextID [OF promote_facts(1) [OF assms(1,2)]] promote_facts(4) [OF assms(1,2)]
    by (auto simp: index_exact_def Array_Delete_def delete_mapped_def split: option.splits)
  have "next_index ?p = of_nat (Suc (length xs))"
    using np mp of_nat_not_sentinel [OF fx] by (auto simp: next_index_def)
  moreover have "index_above ?p"
    using Delete_index_above promote_facts(1) promote_index_above assms(1,2) above by blast
  moreover have "fits (Suc (length (entries ?p)))" using fx by (simp add: ep e)
  ultimately show ?thesis using l Append_entries [OF wp] by (simp add: ep)
qed

lemma unset_last_reuses_index_witness:
  "entries (Array_Append (Array_Delete demo_list (VInt 1)) VNil) =
     [(VInt 0, VStr ''a''), (VInt 1, VNil)] \<and>
   entries (Array_Append (Array_Delete (promote demo_list) (VInt 1)) VNil) =
     [(VInt 0, VStr ''a''), (VInt 2, VNil)]"
  using unset_last_reuses_index [of demo_list "[VStr ''a'']" "VStr ''b''" VNil]
  by (simp add: fits_def demo_list_facts) (simp add: demo_list_def)

lemma Set_max_key_nextID:
  assumes "array_wf a" and "fits (Suc (length (entries a)))"
    and "length (a_list a) < 9223372036854775807" and "index_above a"
  shows "a_nextID (Array_Set a (VInt max_i64) v) = noIntKey" and "\<not> isList (Array_Set a (VInt max_i64) v)"
proof -
  let ?b = "if isList a then promote a else a"
  obtain m where m: "a_values ?b = Some m"
    using promote_facts(3) [OF assms(1)] by (cases "a_values a") auto
  have S: "Array_Set a (VInt max_i64) v = set_mapped ?b (VInt max_i64) v"
    using assms(3) by (auto simp: Array_Set_def)
  have "max_i64 + 1 = noIntKey"
    by (simp add: max_i64_def noIntKey_def min_i64_def)
  then show "a_nextID (Array_Set a (VInt max_i64) v) = noIntKey"
    using set_mapped_nextID(1) [OF m, of "VInt max_i64" v] by (simp add: S bump_def)
  show "\<not> isList (Array_Set a (VInt max_i64) v)"
    using set_mapped_nextID(2) [OF m, of "VInt max_i64" v] by (auto simp: S)
qed

text \<open>C35. Storing the largest int64 key wraps the append index onto its "no integer key" value:
  the next append writes key 0 and overwrites what the array held there.\<close>

theorem append_after_max_key_overwrites:
  assumes "array_wf a" and "fits (Suc (Suc (length (entries a))))"
    and "length (a_list a) < 9223372036854775807" and "index_above a"
  shows "entries (Array_Append (Array_Set a (VInt max_i64) v) w) =
    AList.update (VInt 0) w (AList.update (VInt max_i64) v (entries a))"
proof -
  let ?s = "Array_Set a (VInt max_i64) v"
  have r: "fits (Suc (length (entries a)))" by (rule fits_mono [OF assms(2)])
  note S = Set_facts [OF assms(1) r, of "VInt max_i64" v]
  note n = Set_max_key_nextID [OF assms(1) r assms(3,4), of v]
  have "length (entries ?s) \<le> Suc (length (entries a))" using S by (simp add: length_update)
  then have "fits (Suc (length (entries ?s)))"
    using assms(2) by (simp add: fits_def)
  then have "entries (Array_Append ?s w) = AList.update (VInt (next_index ?s)) w (entries ?s)"
    using Append_as_update S by blast
  moreover have "next_index ?s = 0" using n by (auto simp: next_index_def)
  ultimately show ?thesis using S by simp
qed

lemma append_after_max_key_overwrites_witness:
  "entries (Array_Append (Array_Set demo_list (VInt max_i64) VNil) (VBool True)) =
     [(VInt 0, VBool True), (VInt 1, VStr ''b''), (VInt max_i64, VNil)]"
  using append_after_max_key_overwrites [of demo_list VNil "VBool True"]
  by (simp add: fits_def demo_list_facts) (simp add: demo_list_def max_i64_def)

text \<open>Converting a native collection keeps its entries and their order, and the direct copy of
  a slice gives the array the entry-by-entry path gives.\<close>

theorem to_array_keeps_entries:
  assumes "fits (length es)" and "distinct (map fst es)" and "VInt min_i64 \<notin> fst ` set es"
  shows "entries (ToArray_entries es) = es \<and> array_wf (ToArray_entries es) \<and>
    (es = zip (int_keys (length items)) items \<longrightarrow>
       entries (ToArray_entries es) = entries (ToArray_slice items))"
proof -
  have "arr.put_all NewArray es = ToArray_entries es"
    by (simp add: ToArray_entries_fold assms)
  then show ?thesis
    using arr.entries_put_all_new [of NewArray es] arr.put_all_facts(1) [of NewArray es] assms
      ToArray_slice_facts(1) [of items] by auto
qed

lemma to_array_keeps_entries_witness:
  "entries (ToArray_entries [(VInt 0, VNil), (VInt 1, VBool True)]) =
     [(VInt 0, VNil), (VInt 1, VBool True)] \<and>
   entries (ToArray_slice [VNil, VBool True]) = [(VInt 0, VNil), (VInt 1, VBool True)]"
  using to_array_keeps_entries [of "[(VInt 0, VNil), (VInt 1, VBool True)]" "[VNil, VBool True]"]
  by (simp add: fits_def int_keys_def min_i64_def upt_conv_Cons) (metis (no_types))

text \<open>\<open>Reset\<close> gives an array no later operation tells from a fresh one.\<close>

theorem reset_as_fresh:
  assumes "array_wf a"
  shows "same_array (Array_Reset a) NewArray \<and> index_above (Array_Reset a)"
  using assms
  by (cases "a_values a")
     (auto simp: same_array_def Array_Reset_def array_wf_def index_exact_def index_above_def
       entries_def fits_def NewArray_def int_keys_def)

lemma reset_as_fresh_witness: "same_array (Array_Reset demo_list) NewArray"
  using reset_as_fresh [of demo_list] by (simp add: demo_list_facts)

end
