(* ===== verification/GoStrconv.thy ===== *)
theory GoStrconv
  imports GoFloat
begin

text \<open>
  The decimal side of Go's \<open>strconv\<close> and the few functions of \<open>strings\<close> the value code calls:
  \<open>ParseFloat\<close> on decimal literals (the code scans its argument first, so the hexadecimal forms
  and the spellings of infinity never reach it), \<open>FormatFloat\<close> with the formats the code asks
  for ('G' at a fixed precision, 'g' at the shortest 32-bit precision), and \<open>strings.Trim\<close>.
  Library code: no map entry names these.
\<close>

section \<open>Scanning\<close>

definition digit_run :: "string \<Rightarrow> string \<times> string" where
  "digit_run s = (takeWhile is_digit s, dropWhile is_digit s)"

definition is_sign :: "char \<Rightarrow> bool" where
  "is_sign c \<longleftrightarrow> c = CHR ''+'' \<or> c = CHR ''-''"

definition sign_run :: "string \<Rightarrow> string \<times> string" where
  "sign_run s = (case s of c # cs \<Rightarrow> if is_sign c then ([c], cs) else ([], s) | [] \<Rightarrow> ([], []))"

lemma digit_run_split: "digit_run s = (d, r) \<Longrightarrow> s = d @ r"
  by (auto simp: digit_run_def)

lemma digit_run_all: "(\<forall>c \<in> set s. is_digit c) \<Longrightarrow> digit_run s = (s, [])"
  by (auto simp: digit_run_def takeWhile_eq_all_conv dropWhile_eq_Nil_conv)

lemma digit_run_digits: "digit_run s = (d, r) \<Longrightarrow> \<forall>c \<in> set d. is_digit c"
  by (auto simp: digit_run_def dest: set_takeWhileD)

lemma sign_run_split: "sign_run s = (g, r) \<Longrightarrow> s = g @ r"
  by (auto simp: sign_run_def split: list.splits if_splits)

section \<open>ParseFloat\<close>

text \<open>Sign, all digits as one integer, power of ten; \<open>None\<close> is the syntax error.\<close>

definition decimal_parts :: "string \<Rightarrow> (bool \<times> int \<times> int) option" where
  "decimal_parts s =
     (case sign_run s of (g, s1) \<Rightarrow>
      case digit_run s1 of (whole, s2) \<Rightarrow>
      case (case s2 of c # cs \<Rightarrow> if c = CHR ''.'' then digit_run cs else ([], s2) | [] \<Rightarrow> ([], []))
        of (frac, s3) \<Rightarrow>
      if whole @ frac = [] then None
      else
        let neg = (g = ''-''); m = digits_val (whole @ frac); e = - int (length frac)
        in case s3 of
             [] \<Rightarrow> Some (neg, m, e)
           | c # cs \<Rightarrow>
               if c = CHR ''e'' \<or> c = CHR ''E''
               then (case sign_run cs of (eg, es) \<Rightarrow>
                       if all_digits es
                       then Some (neg, m, e + (if eg = ''-'' then - digits_val es else digits_val es))
                       else None)
               else None)"

definition pow10 :: "int \<Rightarrow> int" where "pow10 e = 10 ^ nat e"

definition decimal_value :: "bool \<times> int \<times> int \<Rightarrow> f64" where
  "decimal_value d =
     (case d of (neg, m, e) \<Rightarrow>
        if 0 \<le> e then round64 neg (m * pow10 e) 1 else round64 neg m (pow10 (- e)))"

text \<open>
  The value, where an out-of-range literal gives the infinity that accompanies \<open>ErrRange\<close>:
  every caller either ignores the error or accepts that one.
\<close>

definition ParseFloat :: "string \<Rightarrow> f64 option" where
  "ParseFloat s = map_option decimal_value (decimal_parts s)"

section \<open>FormatFloat\<close>

text \<open>
  \<open>dec_exp p q\<close> is the k with 10^(k-1) \<open>\<le>\<close> p/q < 10^k. \<open>digits_at n p q\<close> is p/q rounded to n
  significant digits: an integer d and an exponent e with the value d * 10^e.
\<close>

definition dec_exp :: "int \<Rightarrow> int \<Rightarrow> int" where
  "dec_exp p q =
     (let k = int (length (dec_digits p)) - int (length (dec_digits q))
      in if (if 0 \<le> k then q * pow10 k \<le> p else q \<le> p * pow10 (- k)) then k + 1 else k)"

definition at_scale :: "int \<Rightarrow> int \<Rightarrow> int \<Rightarrow> int \<times> int" where
  "at_scale p q e = (if 0 \<le> e then (p * pow10 e, q) else (p, q * pow10 (- e)))"

definition digits_at :: "int \<Rightarrow> int \<Rightarrow> int \<Rightarrow> int \<times> int" where
  "digits_at n p q =
     (let k = dec_exp p q
      in case at_scale p q (n - k) of (a, b) \<Rightarrow> (round_half_even a b, k - n))"

definition trim_zeros :: "string \<Rightarrow> string" where
  "trim_zeros s = rev (dropWhile (\<lambda>c. c = CHR ''0'') (rev s))"

definition pad_right :: "nat \<Rightarrow> string \<Rightarrow> string" where
  "pad_right n s = s @ replicate (n - length s) CHR ''0''"

text \<open>The exponent has a sign and at least two digits.\<close>

definition fmt_exp :: "char \<Rightarrow> int \<Rightarrow> string" where
  "fmt_exp e x =
     (let ds = dec_digits \<bar>x\<bar>
      in e # (if x < 0 then CHR ''-'' else CHR ''+'') #
         (if length ds < 2 then CHR ''0'' # ds else ds))"

text \<open>
  The layout of the formats 'g' and 'G': digits \<open>ds\<close> without trailing zeros, decimal point
  position \<open>dp\<close>, exponent form outside -4 \<open>\<le>\<close> exp < eprec.
\<close>

definition fmt_g :: "char \<Rightarrow> int \<Rightarrow> string \<Rightarrow> int \<Rightarrow> string" where
  "fmt_g e eprec ds dp =
     (let x = dp - 1
      in if x < - 4 \<or> eprec \<le> x
         then (case ds of
                 [] \<Rightarrow> CHR ''0'' # fmt_exp e x
               | d # r \<Rightarrow> (if r = [] then [d] else d # CHR ''.'' # r) @ fmt_exp e x)
         else
           let whole = (if 0 < dp then pad_right (nat dp) (take (nat dp) ds) else ''0'');
               frac = (if 0 < dp then drop (nat dp) ds
                       else if ds = [] then [] else replicate (nat (- dp)) CHR ''0'' @ ds)
           in if frac = [] then whole else whole @ CHR ''.'' # frac)"

definition fmt_decimal :: "char \<Rightarrow> int \<Rightarrow> int \<Rightarrow> int \<Rightarrow> string" where
  "fmt_decimal e eprec d k =
     (let ds = dec_digits d in fmt_g e eprec (trim_zeros ds) (int (length ds) + k))"

text \<open>\<open>FormatFloat(x, 'G', n, 64)\<close>.\<close>

definition FormatFloat_G :: "int \<Rightarrow> f64 \<Rightarrow> string" where
  "FormatFloat_G n x =
     (case x of
        FNaN \<Rightarrow> ''NaN''
      | FInf s \<Rightarrow> (if s then ''-Inf'' else ''+Inf'')
      | FFin s m e \<Rightarrow>
          (if s then ''-'' else []) @
          (if m = 0 then fmt_g CHR ''E'' n [] 0
           else (case digits_at n (if 0 \<le> e then m * pow2 e else m) (if 0 \<le> e then 1 else pow2 (- e))
                 of (d, k) \<Rightarrow> fmt_decimal CHR ''E'' n d k)))"

text \<open>
  \<open>FormatFloat(x, 'g', -1, 32)\<close>: the fewest digits that read back as x, the nearer of the two
  candidates of that length.
\<close>

definition reads_back32 :: "f64 \<Rightarrow> int \<Rightarrow> int \<Rightarrow> bool" where
  "reads_back32 x d e =
     (case x of
        FFin s m b \<Rightarrow> (if 0 \<le> e then round32 s (d * pow10 e) 1 else round32 s d (pow10 (- e))) = x
      | _ \<Rightarrow> True)"

fun shortest32 :: "nat \<Rightarrow> int \<Rightarrow> f64 \<Rightarrow> int \<Rightarrow> int \<Rightarrow> int \<times> int" where
  "shortest32 0 n x p q = digits_at n p q"
| "shortest32 (Suc fuel) n x p q =
     (let k = dec_exp p q
      in case at_scale p q (n - k) of (a, b) \<Rightarrow>
           let near = round_half_even a b; far = 2 * (a div b) + 1 - near
           in if reads_back32 x near (k - n) then (near, k - n)
              else if reads_back32 x far (k - n) then (far, k - n)
              else shortest32 fuel (n + 1) x p q)"

definition FormatFloat_32 :: "f64 \<Rightarrow> string" where
  "FormatFloat_32 x =
     (case x of
        FNaN \<Rightarrow> ''NaN''
      | FInf s \<Rightarrow> (if s then ''-Inf'' else ''+Inf'')
      | FFin s m e \<Rightarrow>
          (if s then ''-'' else []) @
          (if m = 0 then fmt_g CHR ''e'' 6 [] 0
           else (case shortest32 8 1 x (if 0 \<le> e then m * pow2 e else m)
                        (if 0 \<le> e then 1 else pow2 (- e))
                 of (d, k) \<Rightarrow> fmt_decimal CHR ''e'' 6 d k)))"

section \<open>strings.Trim and strings.IndexByte\<close>

definition span_char :: "char \<Rightarrow> string \<Rightarrow> (string \<times> string) option" where
  "span_char c s =
     (case dropWhile (\<lambda>x. x \<noteq> c) s of
        [] \<Rightarrow> None
      | _ # r \<Rightarrow> Some (takeWhile (\<lambda>x. x \<noteq> c) s, r))"

definition strings_Trim :: "string \<Rightarrow> string \<Rightarrow> string" where
  "strings_Trim s cs =
     rev (dropWhile (\<lambda>c. c \<in> set cs) (rev (dropWhile (\<lambda>c. c \<in> set cs) s)))"

text \<open>The six ASCII blanks of the cut set of the code, space, tab, line feed, return, \<open>\v\<close>, \<open>\f\<close>.\<close>

definition blanks :: string where
  "blanks = [CHR '' '', CHR 0x09, CHR 0x0A, CHR 0x0D, CHR 0x0B, CHR 0x0C]"

lemma dropWhile_head: "(xs \<noteq> [] \<longrightarrow> \<not> P (hd xs)) \<Longrightarrow> dropWhile P xs = xs"
  by (cases xs) auto

lemma strings_Trim_id:
  "(s \<noteq> [] \<longrightarrow> hd s \<notin> set cs \<and> last s \<notin> set cs) \<Longrightarrow> strings_Trim s cs = s"
  by (cases "s = []") (auto simp: strings_Trim_def dropWhile_head hd_rev)

end
