(* ===== verification/Numeric.thy ===== *)
theory Numeric
  imports OrderedArray GoStrconv
begin

unbundle bit_operations_syntax

text \<open>
  \<open>internal/phpval\<close>: how a value reads as a string, an integer, a float, a number, an array key
  and a truth value, and the walk over any collection of \<open>model/collection.go\<close>. The
  definitions follow \<open>phpval.go\<close>, \<open>dval.go\<close> and \<open>collection.go\<close> in order. Where the Go function
  calls itself on a widened value, that value is an int64 or a float64, and the second step is
  written out.
\<close>

section \<open>Collections (model/collection.go)\<close>

fun IsCollection :: "val \<Rightarrow> bool" where
  "IsCollection (VArray a) = True"
| "IsCollection (VColl c) = True"
| "IsCollection _ = False"

definition LenValues :: "heap \<Rightarrow> val \<Rightarrow> nat option" where
  "LenValues h v =
     (case v of
        VArray a \<Rightarrow> map_option Array_Len (h_arrays h a)
      | VColl c \<Rightarrow> map_option length (h_colls h c)
      | _ \<Rightarrow> None)"

definition RangeValues :: "heap \<Rightarrow> val \<Rightarrow> (val \<Rightarrow> val \<Rightarrow> 's \<Rightarrow> bool \<times> 's) \<Rightarrow> 's \<Rightarrow> 's" where
  "RangeValues h v fn s =
     (case v of
        VArray a \<Rightarrow> (case h_arrays h a of Some arr \<Rightarrow> Array_Range arr fn s | None \<Rightarrow> s)
      | VColl c \<Rightarrow> (case h_colls h c of Some es \<Rightarrow> snd (visit fn es s) | None \<Rightarrow> s)
      | _ \<Rightarrow> s)"

definition ToArray :: "heap \<Rightarrow> val \<Rightarrow> array" where
  "ToArray h v =
     (case v of
        VArray a \<Rightarrow> (case h_arrays h a of Some arr \<Rightarrow> arr | None \<Rightarrow> NewArray)
      | VColl c \<Rightarrow> (case h_colls h c of Some es \<Rightarrow> ToArray_entries es | None \<Rightarrow> NewArray)
      | _ \<Rightarrow> NewArray)"

section \<open>Floats as integers (dval.go)\<close>

definition twoPow63 :: f64 where "twoPow63 = FFin False 4503599627370496 11"
definition twoPow64 :: f64 where "twoPow64 = FFin False 4503599627370496 12"

definition ToInt64 :: "f64 \<Rightarrow> i64" where
  "ToInt64 f =
     (if f_le (f_neg twoPow63) f \<and> f_lt f twoPow63 then to_i64 f
      else if f_is_nan f \<or> f_is_inf f then 0
      else
        let md = f_mod_2_64 f;
            md = (if f_lt md f_zero then f_add md twoPow64 else md);
            md = (if f_le twoPow63 md then f_sub md twoPow64 else md)
        in to_i64 md)"

section \<open>Reading a numeric prefix\<close>

text \<open>The prefix and whether it spells an integer; the byte loop reads left to right.\<close>

definition leadingFloat :: "string \<Rightarrow> string \<times> bool" where
  "leadingFloat s =
     (case sign_run (dropWhile (\<lambda>c. c \<in> set blanks) s) of (sign, s1) \<Rightarrow>
      case digit_run s1 of (whole, s2) \<Rightarrow>
      case (case s2 of
              c # r \<Rightarrow>
                (case digit_run r of (fraction, s3) \<Rightarrow>
                   if c = CHR ''.'' \<and> (whole \<noteq> [] \<or> fraction \<noteq> [])
                   then (whole @ fraction, CHR ''.'' # fraction, s3, False)
                   else (whole, [], s2, True))
            | [] \<Rightarrow> (whole, [], s2, True))
      of (digits, point, s3, isInt) \<Rightarrow>
        if digits = [] then ([], True)
        else
          let body = sign @ whole @ point
          in case s3 of
               c # r \<Rightarrow>
                 if c = CHR ''e'' \<or> c = CHR ''E''
                 then (case sign_run r of (esign, r1) \<Rightarrow>
                       case digit_run r1 of (exponent, r2) \<Rightarrow>
                         if exponent \<noteq> [] then (body @ [c] @ esign @ exponent, False)
                         else (body, isInt))
                 else (body, isInt)
             | [] \<Rightarrow> (body, isInt))"

definition parseInt :: "string \<Rightarrow> i64" where
  "parseInt prefix =
     (case ParseInt prefix of
        Some n \<Rightarrow> n
      | None \<Rightarrow> if has_prefix ''-'' prefix then min_i64 else max_i64)"

definition parseFloat :: "string \<Rightarrow> f64" where
  "parseFloat prefix = (case ParseFloat prefix of Some f \<Rightarrow> f | None \<Rightarrow> f_zero)"

section \<open>Conversions (phpval.go)\<close>

fun GoString :: "val \<Rightarrow> string option" where
  "GoString (VBytes s) = Some s"
| "GoString (VNamed ty x s) = s"
| "GoString (VOpaque s i) = s"
| "GoString _ = None"

definition FloatString :: "f64 \<Rightarrow> string" where
  "FloatString x =
     (case x of
        FInf False \<Rightarrow> ''INF''
      | FInf True \<Rightarrow> ''-INF''
      | FNaN \<Rightarrow> ''NAN''
      | _ \<Rightarrow>
          let s = FormatFloat_G 14 x
          in case span_char CHR ''E'' s of
               None \<Rightarrow> s
             | Some (mant, exponent) \<Rightarrow>
                 let mant = (if CHR ''.'' \<in> set mant then mant else mant @ ''.0'');
                     (sign, digits) = sign_run exponent;
                     trimmed = dropWhile (\<lambda>c. c = CHR ''0'') digits;
                     digits = (if trimmed = [] then digits else trimmed)
                 in mant @ ''E'' @ sign @ digits)"

definition String :: "val \<Rightarrow> string" where
  "String v =
     (case v of
        VNil \<Rightarrow> ''''
      | VStr s \<Rightarrow> s
      | VBool b \<Rightarrow> if b then ''1'' else ''''
      | VInt x \<Rightarrow> FormatInt x
      | VGoInt x \<Rightarrow> FormatInt x
      | VFloat x \<Rightarrow> FloatString x
      | VUint64 x \<Rightarrow> FormatUint x
      | VUint x \<Rightarrow> FormatUint x
      | VFloat32 x \<Rightarrow> FormatFloat_32 x
      | _ \<Rightarrow>
          (case GoString v of
             Some s \<Rightarrow> s
           | None \<Rightarrow>
               (case GoWiden v of
                  Some (VInt x) \<Rightarrow> FormatInt x
                | Some (VFloat x) \<Rightarrow> FloatString x
                | _ \<Rightarrow> if IsCollection v then ''Array'' else '''')))"

definition classNameOf :: "heap \<Rightarrow> val \<Rightarrow> string" where
  "classNameOf h v =
     (case v of
        VObject a \<Rightarrow>
          (case h_objects h a of
             Some obj \<Rightarrow>
               (case o_Class obj of
                  Some c \<Rightarrow> (case h_classes h c of Some k \<Rightarrow> c_Name k | None \<Rightarrow> '''')
                | None \<Rightarrow> '''')
           | None \<Rightarrow> '''')
      | _ \<Rightarrow> '''')"

definition StringContext :: "heap \<Rightarrow> val \<Rightarrow> goerr + string" where
  "StringContext h v =
     (case v of
        VObject a \<Rightarrow> Inl (ConversionError (classNameOf h v))
      | _ \<Rightarrow> Inr (String v))"

definition ConversionError_Error :: "string \<Rightarrow> string" where
  "ConversionError_Error class_name =
     (let c = (if class_name = '''' then ''stdClass'' else class_name)
      in ''Object of class '' @ c @ '' could not be converted to string'')"

definition Int_of :: "val \<Rightarrow> i64" where
  "Int_of v =
     (case v of
        VInt x \<Rightarrow> x
      | VGoInt x \<Rightarrow> x
      | VFloat x \<Rightarrow> ToInt64 x
      | VBool b \<Rightarrow> if b then 1 else 0
      | VStr s \<Rightarrow>
          (case leadingFloat s of (prefix, isInt) \<Rightarrow>
             if prefix = [] then 0
             else if isInt then parseInt prefix
             else ToInt64 (parseFloat prefix))
      | _ \<Rightarrow>
          (case GoClipInt v of
             Some clipped \<Rightarrow> clipped
           | None \<Rightarrow>
               (case GoWiden v of
                  Some (VInt x) \<Rightarrow> x
                | Some (VFloat x) \<Rightarrow> ToInt64 x
                | _ \<Rightarrow> 0)))"

definition Digits :: "val \<Rightarrow> string \<times> bool" where
  "Digits v =
     (case GoWidthOf v of
        Some w \<Rightarrow>
          if \<not> w_Float w \<and> \<not> w_Signed w
          then (FormatUint (case GoUint v of Some bits \<Rightarrow> bits | None \<Rightarrow> 0), False)
          else (FormatInt (Int_of v), sint (Int_of v) < 0)
      | None \<Rightarrow> (FormatInt (Int_of v), sint (Int_of v) < 0))"

definition Uint :: "val \<Rightarrow> 64 word" where
  "Uint v = (case GoUint v of Some bits \<Rightarrow> bits | None \<Rightarrow> Int_of v)"

definition Float :: "val \<Rightarrow> f64" where
  "Float v =
     (case v of
        VFloat x \<Rightarrow> x
      | VInt x \<Rightarrow> of_i64 x
      | VGoInt x \<Rightarrow> of_i64 x
      | VBool b \<Rightarrow> if b then of_i64 1 else f_zero
      | VStr s \<Rightarrow> parseFloat (fst (leadingFloat s))
      | _ \<Rightarrow>
          (case GoWiden v of
             Some (VInt x) \<Rightarrow> of_i64 x
           | Some (VFloat x) \<Rightarrow> x
           | _ \<Rightarrow> f_zero))"

definition Number :: "val \<Rightarrow> val" where
  "Number v =
     (case v of
        VFloat x \<Rightarrow> v
      | VStr s \<Rightarrow>
          (case leadingFloat s of (prefix, isInt) \<Rightarrow>
             if prefix = [] then VInt 0
             else if isInt
                  then (case ParseInt prefix of
                          Some n \<Rightarrow> VInt n
                        | None \<Rightarrow> VFloat (parseFloat prefix))
                  else VFloat (parseFloat prefix))
      | _ \<Rightarrow> (case GoWiden v of Some widened \<Rightarrow> widened | None \<Rightarrow> VInt (Int_of v)))"

text \<open>The constants \<open>math.MaxInt64\<close> and \<open>math.MinInt64\<close> are the doubles 2^63 and -2^63 here.\<close>

definition floatKey :: "f64 \<Rightarrow> i64" where
  "floatKey f =
     (if f_is_nan f then 0
      else if f_le twoPow63 f then max_i64
      else if f_le f (f_neg twoPow63) then min_i64
      else to_i64 f)"

definition NumericKey :: "string \<Rightarrow> i64 option" where
  "NumericKey s =
     (let neg = has_prefix ''-'' s;
          digits = (if neg then tl s else s)
      in if neg \<and> digits = ''0'' then None
         else if digits = [] then None
         else if hd digits = CHR ''0'' \<and> 1 < length digits then None
         else if \<not> list_all is_digit digits then None
         else ParseInt s)"

definition Key :: "val \<Rightarrow> val" where
  "Key v =
     (case v of
        VNil \<Rightarrow> VStr ''''
      | VBool b \<Rightarrow> VInt (if b then 1 else 0)
      | VGoInt x \<Rightarrow> VInt x
      | VInt x \<Rightarrow> v
      | VFloat x \<Rightarrow> VInt (floatKey x)
      | VFloat32 x \<Rightarrow> VInt (floatKey x)
      | VStr s \<Rightarrow> (case NumericKey s of Some i \<Rightarrow> VInt i | None \<Rightarrow> v)
      | _ \<Rightarrow>
          (case GoWiden v of
             Some (VInt x) \<Rightarrow> VInt x
           | Some (VFloat x) \<Rightarrow> VInt (floatKey x)
           | _ \<Rightarrow> v))"

definition Truthy :: "heap \<Rightarrow> val \<Rightarrow> bool" where
  "Truthy h v =
     (case v of
        VNil \<Rightarrow> False
      | VBool b \<Rightarrow> b
      | VStr s \<Rightarrow> s \<noteq> '''' \<and> s \<noteq> ''0''
      | VInt x \<Rightarrow> x \<noteq> 0
      | VGoInt x \<Rightarrow> x \<noteq> 0
      | VFloat x \<Rightarrow> \<not> f_eq x f_zero
      | VArray a \<Rightarrow> (case h_arrays h a of Some arr \<Rightarrow> 0 < Array_Len arr | None \<Rightarrow> False)
      | _ \<Rightarrow>
          (case GoWiden v of
             Some (VInt x) \<Rightarrow> x \<noteq> 0
           | Some (VFloat x) \<Rightarrow> \<not> f_eq x f_zero
           | _ \<Rightarrow> (case LenValues h v of Some n \<Rightarrow> 0 < n | None \<Rightarrow> True)))"

section \<open>Collections as lists (collection.go)\<close>

definition Strings :: "heap \<Rightarrow> val \<Rightarrow> goerr + string list" where
  "Strings h a =
     (case (case LenValues h a of Some n \<Rightarrow> n | None \<Rightarrow> 0) of
        0 \<Rightarrow> Inr []
      | Suc _ \<Rightarrow>
          (case RangeValues h a
                  (\<lambda>_ v (out, refused).
                     case v of
                       VObject ob \<Rightarrow> (False, out, Some v)
                     | _ \<Rightarrow> (True, out @ [String v], refused))
                  ([], None) of
             (out, Some r) \<Rightarrow> Inl (ConversionError (classNameOf h r))
           | (out, None) \<Rightarrow> Inr out))"

definition Values :: "heap \<Rightarrow> val \<Rightarrow> val list" where
  "Values h a =
     (case (case LenValues h a of Some n \<Rightarrow> n | None \<Rightarrow> 0) of
        0 \<Rightarrow> []
      | Suc _ \<Rightarrow> RangeValues h a (\<lambda>_ v out. (True, out @ [v])) [])"

section \<open>Facts\<close>

lemma twoPow_int: "f_int twoPow63 9223372036854775808" "f_int twoPow64 18446744073709551616"
  by (simp_all add: twoPow63_def twoPow64_def signed_mant_def pow2_def)

lemma f_zero_int: "f_int f_zero 0"
  by (simp add: f_zero_def signed_mant_def)

text \<open>A finite value outside the int64 range has no fraction: its exponent is at least 11.\<close>

lemma out_of_range_exponent:
  assumes "f64_ok (FFin s m e)"
    and "\<not> (f_le (f_neg twoPow63) (FFin s m e) \<and> f_lt (FFin s m e) twoPow63)"
  shows "11 \<le> e"
proof (rule ccontr)
  assume e: "\<not> 11 \<le> e"
  have "m < 4503599627370496 * 2" using assms(1) by simp
  also have "2 \<le> pow2 (11 - e)"
  proof -
    have "1 \<le> pow2 (10 - e)" using pow2_pos(1) [of "10 - e"] by linarith
    then have "pow2 1 * 1 \<le> pow2 1 * pow2 (10 - e)" by (intro mult_left_mono) simp_all
    then show ?thesis using e by (simp flip: pow2_add) (simp add: pow2_def)
  qed
  finally have "m < 4503599627370496 * pow2 (11 - e)" by simp
  then show False using assms e
    by (simp add: f_le_def twoPow63_def signed_mant_def min_def split: if_splits)
qed

text \<open>php's conversion of an out-of-range float: the integer part modulo 2^64.\<close>

lemma ToInt64_wraps:
  assumes "f64_ok (FFin s m e)"
  shows "ToInt64 (FFin s m e) = word_of_int (f_trunc (FFin s m e))"
proof (cases "f_le (f_neg twoPow63) (FFin s m e) \<and> f_lt (FFin s m e) twoPow63")
  case True
  then show ?thesis by (simp add: ToInt64_def to_i64_def)
next
  case False
  let ?M = "18446744073709551616 :: int"
  have e: "11 \<le> e" by (rule out_of_range_exponent [OF assms False])
  define r where "r = m * pow2 e mod ?M"
  define n where "n = signed_mant s r"
  have "pow2 e = 2048 * pow2 (e - 11)" using e pow2_add [of 11 "e - 11"] by (simp add: pow2_def)
  then have d: "2048 dvd r" by (simp add: r_def dvd_mod)
  have rb: "0 \<le> r" "r < ?M" by (simp_all add: r_def)
  have hold: "holds_int j" if "j mod 2048 = 0" "\<bar>j\<bar> < ?M" for j
    using that by (intro holds_int_dvd) auto
  have dn: "n mod 2048 = 0" using d by (simp add: n_def signed_mant_def mod_eq_0_iff_dvd)
  define a where "a = f_mod_2_64 (FFin s m e)"
  have ia: "f_int a n"
  proof -
    have "\<bar>n\<bar> = r" "n = 0 \<or> s = (n < 0)" using rb by (auto simp: n_def signed_mant_def)
    moreover have "holds_int n" using hold dn rb by (simp add: n_def signed_mant_def)
    ultimately show ?thesis using round64_int [of n 1 s] e by (simp add: a_def r_def)
  qed
  define b where "b = (if f_lt a f_zero then f_add a twoPow64 else a)"
  define k where "k = (if n < 0 then n + ?M else n)"
  have kb: "0 \<le> k" "k < ?M" "k mod 2048 = 0"
    using rb dn by (auto simp: k_def n_def signed_mant_def mod_add_eq [symmetric, of n])
  have ib: "f_int b k"
    using f_add_int [OF ia twoPow_int(2)] hold [of k] kb ia
    by (auto simp: b_def k_def f_lt_int [OF ia f_zero_int])
  define c where "c = (if f_le twoPow63 b then f_sub b twoPow64 else b)"
  define l where "l = (if 9223372036854775808 \<le> k then k - ?M else k)"
  have dl: "(k - ?M) mod 2048 = 0" using kb(3) by (simp add: mod_diff_eq [symmetric, of k])
  have ic: "f_int c l"
    using f_sub_int [OF ib twoPow_int(2)] hold [OF dl] kb ib
    by (auto simp: c_def l_def f_le_int [OF twoPow_int(1) ib])
  have "ToInt64 (FFin s m e) = to_i64 c"
    using False unfolding ToInt64_def Let_def a_def [symmetric] b_def [symmetric] c_def [symmetric]
    by (auto simp: f_is_nan_def simp del: f_lt.simps f_mod_2_64.simps)
  also have "\<dots> = word_of_int l" by (simp add: to_i64_def f_int_trunc [OF ic])
  also have "\<dots> = word_of_int (f_trunc (FFin s m e))"
  proof -
    have "l mod ?M = n mod ?M" by (simp add: l_def k_def)
    also have "\<dots> = signed_mant s (m * pow2 e) mod ?M"
      by (simp add: n_def r_def signed_mant_def mod_minus_eq)
    finally show ?thesis using e by (simp add: word_of_int_eq_iff take_bit_eq_mod)
  qed
  finally show ?thesis .
qed

lemma digit_char_0 [simp]: "digit_char 0 = CHR ''0''"
  by (rule code_inject [THEN iffD1]) simp

lemma sint_neg_uint: "sint (x :: i64) < 0 \<Longrightarrow> 9223372036854775807 < uint x"
proof -
  assume n: "sint x < 0"
  have "uint x = (sint x + 18446744073709551616) mod 18446744073709551616" by (simp add: uint_i64)
  also have "\<dots> = sint x + 18446744073709551616"
    using n sint_i64_bounds [of x] by (intro mod_pos_pos_trivial) linarith+
  finally show ?thesis using sint_i64_bounds [of x] by linarith
qed

lemma sint_ucast_nonneg [simp]:
  "\<not> sint (ucast (w :: 8 word) :: i64) < 0" "\<not> sint (ucast (u :: 16 word) :: i64) < 0"
  "\<not> sint (ucast (t :: 32 word) :: i64) < 0"
  using sint_neg_uint [of "ucast w"] sint_neg_uint [of "ucast u"] sint_neg_uint [of "ucast t"]
    uint_lt2p [of w] uint_lt2p [of u] uint_lt2p [of t]
  by (auto simp: unsigned_ucast_eq take_bit_eq_mod)

lemma NumericKey_FormatInt [simp]: "NumericKey (FormatInt n) = Some n"
proof (cases "sint n < 0")
  case True
  have "dec_digits (- sint n) \<noteq> ''0''"
    using True digits_val_dec_digits [of "- sint n"] by (auto simp: digits_val_def digit_val_def)
  moreover have "hd (dec_digits (- sint n)) \<noteq> CHR ''0''" using True by (simp add: hd_dec_digits)
  moreover have "list_all is_digit (dec_digits (- sint n))"
    using all_digits_dec_digits [of "- sint n"] True by (auto simp: list_all_iff all_digits_def)
  moreover have "FormatInt n = CHR ''-'' # dec_digits (- sint n)"
    using True by (simp add: FormatInt_def format_int_def)
  moreover have "ParseInt (FormatInt n) = Some n" by simp
  ultimately show ?thesis by (simp add: NumericKey_def has_prefix_def)
next
  case False
  let ?d = "dec_digits (sint n)"
  have "hd ?d = CHR ''0'' \<Longrightarrow> \<not> 1 < length ?d"
    using False by (auto simp: hd_dec_digits dec_digits.simps [of 0])
  moreover have "list_all is_digit ?d"
    using all_digits_dec_digits [of "sint n"] False by (auto simp: list_all_iff all_digits_def)
  moreover have "hd ?d \<noteq> CHR ''-''" using False by (simp add: dec_digits_no_sign)
  moreover have "FormatInt n = ?d" using False by (simp add: FormatInt_def format_int_def)
  moreover have "ParseInt (FormatInt n) = Some n" by simp
  ultimately show ?thesis
    by (cases ?d) (auto simp: NumericKey_def has_prefix_def Let_def)
qed

lemma NumericKey_empty [simp]: "NumericKey [] = None"
  by (simp add: NumericKey_def has_prefix_def)

lemma NumericKey_canonical:
  assumes "NumericKey s = Some n" shows "s = FormatInt n"
proof -
  define neg where "neg = has_prefix ''-'' s"
  define ds where "ds = (if neg then tl s else s)"
  have c: "\<not> (neg \<and> ds = ''0'')" "ds \<noteq> []" "\<not> (hd ds = CHR ''0'' \<and> 1 < length ds)"
      "list_all is_digit ds" "ParseInt s = Some n"
    using assms by (auto simp: NumericKey_def Let_def neg_def ds_def split: if_splits)
  have ad: "all_digits ds" using c by (simp add: all_digits_def list_all_iff)
  have "hd ds \<noteq> CHR ''0'' \<or> ds = ''0''" using c(2,3) by (cases ds) auto
  then have spell: "dec_digits (digits_val ds) = ds" by (rule dec_digits_digits_val [OF ad])
  have nn: "0 \<le> digits_val ds" using ad by (simp add: all_digits_def digits_val_nonneg)
  show ?thesis
  proof (cases neg)
    case True
    then have s: "s = CHR ''-'' # ds" using c(2) by (cases s) (auto simp: neg_def ds_def has_prefix_def)
    then have "parse_dec s = Some (- digits_val ds)" using ad by (simp add: parse_dec_def)
    then have "sint n = - digits_val ds" and "- digits_val ds \<ge> - 9223372036854775808"
      using c(5) nn sint_of_int_i64 [of "- digits_val ds"] by (auto simp: ParseInt_def split: if_splits)
    moreover have "digits_val ds \<noteq> 0" using spell c(1) True by (auto simp: dec_digits.simps [of 0])
    ultimately show ?thesis using nn spell s by (simp add: FormatInt_def format_int_def)
  next
    case False
    then have s: "s = ds" by (simp add: ds_def)
    have "hd s \<noteq> CHR ''-'' \<and> hd s \<noteq> CHR ''+''"
      using c(2,4) s by (cases s) (auto simp: is_digit_def)
    then have "parse_dec s = Some (digits_val ds)" using ad s c(2) by (cases s) (auto simp: parse_dec_def)
    then have "sint n = digits_val ds"
      using c(5) nn by (auto simp: ParseInt_def sint_of_int_i64 split: if_splits)
    then show ?thesis using nn spell s by (simp add: FormatInt_def format_int_def)
  qed
qed

section \<open>Properties\<close>

text \<open>C26. A string is an integer key exactly when it is the decimal spelling of that int64: no
  leading zero, no plus sign, no \<open>-0\<close>, no blank, nothing past the int64 range. So the integer n and
  the string that prints it are one key, and no other string joins them.\<close>

theorem numeric_key_canonical:
  "(NumericKey s = Some n \<longleftrightarrow> s = FormatInt n) \<and>
   (Key (VStr s) = Key (VInt n) \<longleftrightarrow> s = String (VInt n))"
proof -
  have "NumericKey s = Some n \<longleftrightarrow> s = FormatInt n" using NumericKey_canonical by auto
  then show ?thesis by (auto simp: Key_def String_def split: option.splits)
qed

text \<open>C32. Normalising an array key: every scalar, null, a bool, an int or a float of any width, a string, becomes an int
  or a string, a string that spells an int64 the way php prints it becomes that int, and any other value stays what it
  is. Doing it twice is doing it once, and a typed go integer keys as the integer php reads out of it.\<close>

theorem key_normal_form:
  "(case v of
      VNil \<Rightarrow> Key v = VStr ''''
    | VBool b \<Rightarrow> Key v = VInt (if b then 1 else 0)
    | VInt x \<Rightarrow> Key v = v
    | VGoInt x \<Rightarrow> Key v = VInt x
    | VStr s \<Rightarrow> Key v = (case NumericKey s of Some i \<Rightarrow> VInt i | None \<Rightarrow> VStr s)
    | VFloat x \<Rightarrow> Key v = VInt (floatKey x)
    | _ \<Rightarrow> if GoWidthOf v = None then Key v = v else \<exists>i. Key v = VInt i) \<and>
   Key (Key v) = Key v \<and>
   (\<forall>x. GoWiden v = Some (VInt x) \<longrightarrow> Key v = VInt x \<and> Int_of v = x \<and> Number v = VInt x)"
proof -
  have "Key (Key v) = Key v"
    by (cases v) (auto simp: Key_def widenUnsigned_def split: option.splits)
  moreover have "GoWiden v = Some (VInt x) \<Longrightarrow> Key v = VInt x \<and> Int_of v = x \<and> Number v = VInt x" for x
    by (cases v) (auto simp: Key_def Int_of_def Number_def GoClipInt_def goWidths_def widenUnsigned_def
        dest: sint_neg_uint split: if_splits)
  moreover have "case v of
      VNil \<Rightarrow> Key v = VStr ''''
    | VBool b \<Rightarrow> Key v = VInt (if b then 1 else 0)
    | VInt x \<Rightarrow> Key v = v
    | VGoInt x \<Rightarrow> Key v = VInt x
    | VStr s \<Rightarrow> Key v = (case NumericKey s of Some i \<Rightarrow> VInt i | None \<Rightarrow> VStr s)
    | VFloat x \<Rightarrow> Key v = VInt (floatKey x)
    | _ \<Rightarrow> if GoWidthOf v = None then Key v = v else \<exists>i. Key v = VInt i"
    by (cases v) (simp_all add: Key_def goWidths_def widenUnsigned_def)
  ultimately show ?thesis by blast
qed

lemma key_normal_form_witness:
  "Key (VInt8 5) = VInt 5 \<and> Key (Key (VStr ''7'')) = Key (VStr ''7'') \<and> Key (VArray 3) = VArray 3"
  using key_normal_form [of "VInt8 5"] key_normal_form [of "VStr ''7''", THEN conjunct2, THEN conjunct1]
    key_normal_form [of "VArray 3"] by simp

text \<open>A float converts to the integer php gives it: the integer part inside the int64 range,
  wrapped modulo 2^64 outside it, 0 for the infinities and NaN. No step of the computation on
  doubles rounds.\<close>

theorem to_int64_wraps:
  assumes "f64_ok f"
  shows "ToInt64 f = (case f of FFin s m e \<Rightarrow> word_of_int (f_trunc f) | _ \<Rightarrow> 0)"
proof (cases f)
  case (FFin s m e)
  then show ?thesis using ToInt64_wraps assms by auto
qed (auto simp: ToInt64_def f_le_def twoPow63_def f_is_nan_def)

lemma to_int64_wraps_witness:
  "ToInt64 (FFin False 5 64) = 0 \<and> ToInt64 (FFin True 6442450945 32) = - 0x8000000100000000"
  using to_int64_wraps [of "FFin False 5 64"] to_int64_wraps [of "FFin True 6442450945 32"]
  by (simp add: signed_mant_def pow2_def)

end
