(* ===== verification/Arith.thy ===== *)
theory Arith
  imports Numeric
begin

unbundle bit_operations_syntax

text \<open>
  \<open>internal/phpval/arith.go\<close>: the int64 arithmetic both engines share. The \<open>Overflow\<close> functions
  answer \<open>None\<close> for the false flag. The lemmas show that they are exact, and with them what
  php's five integer operators compute.
\<close>

section \<open>Definitions\<close>

definition OverflowAddInt :: "i64 \<Rightarrow> i64 \<Rightarrow> i64 option" where
  "OverflowAddInt x y =
     (let z = x + y
      in if (0 < sint y \<and> sint z < sint x) \<or> (sint y < 0 \<and> sint x < sint z) then None else Some z)"

definition OverflowSubInt :: "i64 \<Rightarrow> i64 \<Rightarrow> i64 option" where
  "OverflowSubInt x y =
     (let z = x - y
      in if (sint y < 0 \<and> sint z < sint x) \<or> (0 < sint y \<and> sint x < sint z) then None else Some z)"

definition OverflowMulInt :: "i64 \<Rightarrow> i64 \<Rightarrow> i64 option" where
  "OverflowMulInt x y =
     (let z = x * y
      in if x \<noteq> 0 \<and> (go_quot z x \<noteq> y \<or> (x = - 1 \<and> y = min_i64)) then None else Some z)"

definition AddInt :: "i64 \<Rightarrow> i64 \<Rightarrow> val" where
  "AddInt x y =
     (case OverflowAddInt x y of Some z \<Rightarrow> VInt z | None \<Rightarrow> VFloat (f_add (of_i64 x) (of_i64 y)))"

definition SubInt :: "i64 \<Rightarrow> i64 \<Rightarrow> val" where
  "SubInt x y =
     (case OverflowSubInt x y of Some z \<Rightarrow> VInt z | None \<Rightarrow> VFloat (f_sub (of_i64 x) (of_i64 y)))"

definition MulInt :: "i64 \<Rightarrow> i64 \<Rightarrow> val" where
  "MulInt x y =
     (case OverflowMulInt x y of Some z \<Rightarrow> VInt z | None \<Rightarrow> VFloat (f_mul (of_i64 x) (of_i64 y)))"

definition DivInt :: "i64 \<Rightarrow> i64 \<Rightarrow> val" where
  "DivInt x y =
     (if y = 0 then VInt 0
      else if go_rem x y \<noteq> 0 then VFloat (f_div (of_i64 x) (of_i64 y))
      else VInt (go_quot x y))"

definition ModInt :: "i64 \<Rightarrow> i64 \<Rightarrow> val" where
  "ModInt x y = (if y = 0 then VInt 0 else VInt (go_rem x y))"

section \<open>Exactness\<close>

definition in_i64 :: "int \<Rightarrow> bool" where
  "in_i64 n \<longleftrightarrow> - 9223372036854775808 \<le> n \<and> n \<le> 9223372036854775807"

lemma in_i64_sint [simp]: "in_i64 (sint (x :: i64))"
  by (simp add: in_i64_def)

lemma sint_word_of_int [go_int]: "in_i64 n \<Longrightarrow> sint (word_of_int n :: i64) = n"
  by (simp add: in_i64_def sint_of_int_i64)

text \<open>The wrap-around of a 64-bit operation: the exact result, off by a multiple of 2^64.\<close>

lemma wrap_cases:
  obtains k where "sint (word_of_int n :: i64) = n - k * 18446744073709551616"
proof
  let ?k = "(n + 9223372036854775808) div 18446744073709551616"
  show "sint (word_of_int n :: i64) = n - ?k * 18446744073709551616"
    by (simp add: sint_word_of_int_shift) (simp add: minus_div_mult_eq_mod [symmetric])
qed

lemma add_i64: "x + y = word_of_int (sint x + sint (y :: i64))"
  and sub_i64: "x - y = word_of_int (sint x - sint (y :: i64))"
  and mul_i64: "x * y = word_of_int (sint x * sint (y :: i64))"
  by simp_all

lemma sint_eq_word_of_int: "in_i64 n \<Longrightarrow> sint (x :: i64) = n \<longleftrightarrow> x = word_of_int n"
  by (auto simp: sint_word_of_int)

lemma wrap_flag:
  fixes X Y Z :: int
  assumes "Z = X + Y - k * 18446744073709551616"
    and "in_i64 X" and "in_i64 Y" and "in_i64 Z" and "\<not> in_i64 (X + Y)"
  shows "(0 < Y \<and> Z < X) \<or> (Y < 0 \<and> X < Z)"
proof -
  have "k = 1 \<or> k = - 1" using assms unfolding in_i64_def by arith
  then show ?thesis using assms unfolding in_i64_def by arith
qed

lemma wrap_flag_sub:
  fixes X Y Z :: int
  assumes "Z = X - Y - k * 18446744073709551616"
    and "in_i64 X" and "in_i64 Y" and "in_i64 Z" and "\<not> in_i64 (X - Y)"
  shows "(Y < 0 \<and> Z < X) \<or> (0 < Y \<and> X < Z)"
proof -
  have "k = 1 \<or> k = - 1" using assms unfolding in_i64_def by arith
  then show ?thesis using assms unfolding in_i64_def by arith
qed

lemma OverflowAddInt_exact:
  "OverflowAddInt x y = (if in_i64 (sint x + sint y) then Some (word_of_int (sint x + sint y)) else None)"
proof -
  obtain k where k: "sint (x + y) = sint x + sint y - k * 18446744073709551616"
    using wrap_cases [of "sint x + sint y"] by (auto simp flip: add_i64)
  show ?thesis
  proof (cases "in_i64 (sint x + sint y)")
    case True
    then have "sint (x + y) = sint x + sint y" by (metis add_i64 sint_word_of_int)
    then show ?thesis using True by (simp add: OverflowAddInt_def)
  next
    case False
    then show ?thesis using wrap_flag [OF k] by (auto simp: OverflowAddInt_def)
  qed
qed

lemma OverflowSubInt_exact:
  "OverflowSubInt x y = (if in_i64 (sint x - sint y) then Some (word_of_int (sint x - sint y)) else None)"
proof -
  obtain k where k: "sint (x - y) = sint x - sint y - k * 18446744073709551616"
    using wrap_cases [of "sint x - sint y"] by (auto simp flip: sub_i64)
  show ?thesis
  proof (cases "in_i64 (sint x - sint y)")
    case True
    then have "sint (x - y) = sint x - sint y" by (metis sub_i64 sint_word_of_int)
    then show ?thesis using True by (simp add: OverflowSubInt_def)
  next
    case False
    then show ?thesis using wrap_flag_sub [OF k] by (auto simp: OverflowSubInt_def)
  qed
qed

text \<open>Truncating division.\<close>

lemma sdiv_smod_decomp: "(a :: int) sdiv b * b + a smod b = a"
  by (rule sdiv_mult_smod_eq [of a b, simplified algebra_simps, THEN trans [rotated]])
     (simp add: algebra_simps)

lemma abs_smod_less: "b \<noteq> 0 \<Longrightarrow> \<bar>(a :: int) smod b\<bar> < \<bar>b\<bar>"
  by (simp add: signed_modulo_int_def sgn_mult abs_mult abs_sgn_eq)

lemma sdiv_mult_cancel: "b \<noteq> 0 \<Longrightarrow> (c * b) sdiv b = (c :: int)"
  by (simp add: signed_divide_int_def abs_mult sgn_mult) (simp add: sgn_if)

lemma sdiv_in_i64:
  assumes "in_i64 a" and "b \<noteq> 0" and "\<not> (a = - 9223372036854775808 \<and> b = - 1)"
  shows "in_i64 (a sdiv b)"
proof (cases "\<bar>b\<bar> = 1")
  case True
  then have "b = 1 \<or> b = - 1" by auto
  then show ?thesis using assms by (auto simp: in_i64_def signed_divide_int_def mult_sgn_abs)
next
  case False
  have "\<bar>a sdiv b\<bar> = \<bar>a\<bar> div \<bar>b\<bar>"
    using assms(2) by (auto simp: signed_divide_int_def abs_mult abs_sgn_eq sgn_mult pos_imp_zdiv_nonneg_iff)
  also have "\<dots> \<le> \<bar>a\<bar> div 2" using False assms(2) by (intro zdiv_mono2) auto
  also have "\<dots> \<le> 4611686018427387904" using assms(1) by (auto simp: in_i64_def)
  finally show ?thesis by (auto simp: in_i64_def)
qed

lemma OverflowMulInt_exact:
  "OverflowMulInt x y = (if in_i64 (sint x * sint y) then Some (word_of_int (sint x * sint y)) else None)"
proof (cases "x = 0")
  case True
  then show ?thesis by (simp add: OverflowMulInt_def in_i64_def)
next
  case x0: False
  then have X0: "sint x \<noteq> 0" using i64_eq_iff_sint [of x 0] by simp
  let ?X = "sint x" and ?Y = "sint y" and ?Z = "sint (x * y)"
  obtain k where k: "?Z = ?X * ?Y - k * 18446744073709551616"
    using wrap_cases [of "sint x * sint y"] by (auto simp flip: mul_i64)
  have m1: "x = - 1 \<longleftrightarrow> ?X = - 1" using sint_eq_word_of_int [of "- 1" x] by (simp add: in_i64_def)
  show ?thesis
  proof (cases "in_i64 (?X * ?Y)")
    case True
    then have "?Z = ?X * ?Y" by (metis mul_i64 sint_word_of_int)
    then have "go_quot (x * y) x = y" using X0 sdiv_mult_cancel [of ?X ?Y]
      by (simp add: go_quot_def mult.commute)
    moreover have "\<not> (x = - 1 \<and> y = min_i64)" using True by (auto simp: in_i64_def)
    ultimately show ?thesis using True by (simp add: OverflowMulInt_def)
  next
    case False
    have "go_quot (x * y) x \<noteq> y \<or> (x = - 1 \<and> y = min_i64)"
    proof (cases "?Z = - 9223372036854775808 \<and> ?X = - 1")
      case True
      then have "x * y = min_i64" by (simp add: sint_eq_min_iff)
      then show ?thesis using True m1 by (auto simp: minus_equation_iff [of y] min_i64_def)
    next
      case False
      have "go_quot (x * y) x \<noteq> y"
      proof
        assume "go_quot (x * y) x = y"
        then have "?Z sdiv ?X = ?Y"
          using sdiv_in_i64 [OF in_i64_sint X0 False] by (metis go_quot_def sint_word_of_int)
        then have "?Y * ?X + ?Z smod ?X = ?Z" using sdiv_smod_decomp [of ?Z ?X] by simp
        then have "\<bar>k * 18446744073709551616\<bar> < \<bar>?X\<bar>"
          using k abs_smod_less [OF X0, of ?Z] by (simp add: mult.commute)
        moreover have "\<bar>?X\<bar> \<le> 9223372036854775808" using sint_i64_bounds [of x] by linarith
        ultimately have "k = 0" by (auto simp: abs_mult)
        then show False using k \<open>\<not> in_i64 (?X * ?Y)\<close> in_i64_sint [of "x * y"] by simp
      qed
      then show ?thesis by simp
    qed
    then show ?thesis using False x0 by (auto simp: OverflowMulInt_def Let_def)
  qed
qed

lemmas overflow_exact = OverflowAddInt_exact OverflowSubInt_exact OverflowMulInt_exact

definition exact_or :: "int \<Rightarrow> f64 \<Rightarrow> val" where
  "exact_or n f = (if in_i64 n then VInt (word_of_int n) else VFloat f)"

lemma smod_in_i64: "in_i64 b \<Longrightarrow> b \<noteq> 0 \<Longrightarrow> in_i64 (a smod b)"
  using abs_smod_less [of b a] by (auto simp: in_i64_def)

lemma smod_i64_0: "go_rem x y = 0 \<longleftrightarrow> sint x smod sint (y :: i64) = 0" if "y \<noteq> 0"
proof -
  have "sint y \<noteq> 0" using that i64_eq_iff_sint [of y 0] by simp
  then have "in_i64 (sint x smod sint y)" by (simp add: smod_in_i64)
  then show ?thesis using sint_eq_word_of_int [of "sint x smod sint y" 0]
    by (metis go_rem_def sint_word_of_int signed_0 word_of_int_0)
qed

text \<open>C24. Integer addition, subtraction and multiplication are exact: they answer the int64 with the
  mathematical result where it exists, and the operation on the operands as doubles exactly where
  it does not. No wrapped integer is ever answered.\<close>

theorem int_arithmetic_exact:
  "AddInt x y = exact_or (sint x + sint y) (f_add (of_i64 x) (of_i64 y)) \<and>
   SubInt x y = exact_or (sint x - sint y) (f_sub (of_i64 x) (of_i64 y)) \<and>
   MulInt x y = exact_or (sint x * sint y) (f_mul (of_i64 x) (of_i64 y))"
  by (simp add: AddInt_def SubInt_def MulInt_def exact_or_def overflow_exact)

text \<open>Division and modulo truncate towards zero: the remainder has the magnitude below the
  divisor's and the two recompose the dividend, \<open>%\<close> answers the remainder, and \<open>/\<close> answers an
  integer exactly where the remainder is 0. That integer is the quotient, except for the one pair
  \<open>MinInt64 / -1\<close>, where it is the dividend itself.\<close>

theorem div_mod_truncates:
  assumes "y \<noteq> 0"
  shows "(let q = sint x sdiv sint y; r = sint x smod sint y
          in q * sint y + r = sint x \<and> \<bar>r\<bar> < \<bar>sint y\<bar> \<and>
             ModInt x y = VInt (word_of_int r) \<and> sint (word_of_int r :: i64) = r \<and>
             DivInt x y = (if r \<noteq> 0 then VFloat (f_div (of_i64 x) (of_i64 y))
                           else if x = min_i64 \<and> y = - 1 then VInt min_i64
                           else VInt (word_of_int q)) \<and>
             (in_i64 q = (\<not> (x = min_i64 \<and> y = - 1))))"
proof -
  have y0: "sint y \<noteq> 0" using assms i64_eq_iff_sint [of y 0] by simp
  have m: "x = min_i64 \<and> y = - 1 \<longleftrightarrow> sint x = - 9223372036854775808 \<and> sint y = - 1"
    using sint_eq_word_of_int [of "- 1" y] by (simp add: in_i64_def sint_eq_min_iff)
  have q: "in_i64 (sint x sdiv sint y) = (\<not> (x = min_i64 \<and> y = - 1))"
    using sdiv_in_i64 [OF in_i64_sint y0, of x] m by (auto simp: in_i64_def signed_divide_int_def)
  have r: "in_i64 (sint x smod sint y)" by (simp add: smod_in_i64 y0)
  have "go_quot x y = word_of_int (sint x sdiv sint y)" by (simp add: go_quot_def)
  moreover have "x = min_i64 \<and> y = - 1 \<Longrightarrow> go_quot x y = min_i64"
    by (auto simp: go_quot_def min_i64_def signed_divide_int_def)
  ultimately have "DivInt x y = (if sint x smod sint y \<noteq> 0 then VFloat (f_div (of_i64 x) (of_i64 y))
      else if x = min_i64 \<and> y = - 1 then VInt min_i64 else VInt (word_of_int (sint x sdiv sint y)))"
    unfolding DivInt_def using smod_i64_0 [OF assms, of x] assms
    by (cases "sint x smod sint y = 0"; cases "x = min_i64 \<and> y = - 1"; simp add: min_i64_def)
  moreover have "ModInt x y = VInt (word_of_int (sint x smod sint y))"
    using assms by (simp add: ModInt_def go_rem_def)
  ultimately show ?thesis
    using q abs_smod_less [OF y0, of "sint x"] r by (simp only: Let_def sdiv_smod_decomp sint_word_of_int)
qed

lemma div_mod_truncates_witness: "DivInt min_i64 (- 1) = VInt min_i64 \<and> ModInt (- 7) 2 = VInt (- 1)"
  using div_mod_truncates [of "- 1" min_i64] div_mod_truncates [of 2 "- 7"]
  by (simp add: Let_def signed_divide_int_def signed_modulo_int_def min_i64_def)

text \<open>Php answers the float 9.2233720368547758E+18 for this division; the multiplication by -1 does.\<close>

lemma div_min_by_minus_one_wraps:
  "DivInt min_i64 (- 1) = VInt min_i64 \<and> MulInt min_i64 (- 1) = VFloat (f_mul (of_i64 min_i64) (of_i64 (- 1)))"
  by (simp add: DivInt_def MulInt_def OverflowMulInt_exact in_i64_def go_quot_def go_rem_def
      min_i64_def signed_divide_int_def signed_modulo_int_def)

end
