(* ===== verification/Objects.thy ===== *)
theory Objects
  imports Numeric
begin

text \<open>
  \<open>model/object.go\<close> and \<open>model/class.go\<close>: an instance's property bag and the order php reads it
  back in. \<open>Props\<close> is a Go map and is held as its entries; no definition depends on their order.
  \<open>order\<close> records the arrival of the properties. A class is the list of its declared fields.
\<close>

section \<open>Classes\<close>

definition declares :: "php_class \<Rightarrow> string \<Rightarrow> bool" where
  "declares c name \<longleftrightarrow> list_ex (\<lambda>field. field = name) (c_Fields c)"

definition Class_Field :: "php_class \<Rightarrow> string \<Rightarrow> string option" where
  "Class_Field c name = List.find (\<lambda>field. field = name) (c_Fields c)"

section \<open>Operations\<close>

definition NewObject :: "addr option \<Rightarrow> object" where
  "NewObject c = \<lparr>o_Class = c, o_Props = [], o_order = [], o_ID = ''''\<rparr>"

definition SetID :: "object \<Rightarrow> string \<Rightarrow> object" where
  "SetID ob i = ob\<lparr>o_ID := i\<rparr>"

definition SetProp :: "object \<Rightarrow> string \<Rightarrow> val \<Rightarrow> object" where
  "SetProp ob name v =
     (let ob1 = (case map_of (o_Props ob) name of
                   None \<Rightarrow> ob\<lparr>o_order := o_order ob @ [name]\<rparr>
                 | Some _ \<Rightarrow> ob)
      in ob1\<lparr>o_Props := AList.update name v (o_Props ob1)\<rparr>)"

definition Prop :: "object \<Rightarrow> string \<Rightarrow> val option" where
  "Prop ob name = map_of (o_Props ob) name"

definition DeleteProp :: "object \<Rightarrow> string \<Rightarrow> object" where
  "DeleteProp ob name =
     (case map_of (o_Props ob) name of
        None \<Rightarrow> ob
      | Some _ \<Rightarrow>
          ob\<lparr>o_Props := AList.delete name (o_Props ob), o_order := remove1 name (o_order ob)\<rparr>)"

definition Object_Len :: "object \<Rightarrow> nat" where
  "Object_Len ob = length (o_Props ob)"

definition appendUnrecorded :: "object \<Rightarrow> string list \<Rightarrow> string list" where
  "appendUnrecorded ob out =
     out @ sort_Strings (filter (\<lambda>name. name \<notin> set out) (map fst (o_Props ob)))"

text \<open>\<open>c\<close> is the class \<open>o.Class\<close> points at, \<open>None\<close> for a nil pointer.\<close>

definition Names :: "php_class option \<Rightarrow> object \<Rightarrow> string list" where
  "Names c ob =
     (let has = (\<lambda>name. map_of (o_Props ob) name \<noteq> None);
          declared = (case c of Some k \<Rightarrow> filter has (c_Fields k) | None \<Rightarrow> []);
          dynamic = filter (\<lambda>name. has name \<and> \<not> (case c of Some k \<Rightarrow> declares k name | None \<Rightarrow> False))
                      (o_order ob);
          out = declared @ dynamic
      in if length out < length (o_Props ob) then appendUnrecorded ob out else out)"

definition Object_Range ::
  "php_class option \<Rightarrow> object \<Rightarrow> (string \<Rightarrow> val \<Rightarrow> 's \<Rightarrow> bool \<times> 's) \<Rightarrow> 's \<Rightarrow> 's" where
  "Object_Range c ob fn s =
     snd (visit fn
       (map (\<lambda>name. (name, case map_of (o_Props ob) name of Some v \<Rightarrow> v | None \<Rightarrow> VNil)) (Names c ob)) s)"

section \<open>Invariant\<close>

text \<open>
  \<open>object_ok\<close> holds of every object the operations build: the bag is a map and \<open>order\<close> records
  each of its names once.
\<close>

definition object_ok :: "object \<Rightarrow> bool" where
  "object_ok ob \<longleftrightarrow>
     distinct (map fst (o_Props ob)) \<and> distinct (o_order ob) \<and>
     set (o_order ob) = fst ` set (o_Props ob)"

definition class_ok :: "php_class option \<Rightarrow> bool" where
  "class_ok c \<longleftrightarrow> (case c of Some k \<Rightarrow> distinct (c_Fields k) | None \<Rightarrow> True)"

text \<open>The names a class declares.\<close>

definition fields_of :: "php_class option \<Rightarrow> string list" where
  "fields_of c = (case c of Some k \<Rightarrow> c_Fields k | None \<Rightarrow> [])"

definition props :: "object \<Rightarrow> string set" where
  "props ob = fst ` set (o_Props ob)"

lemma has_prop:
  "(map_of (o_Props ob) name \<noteq> None) = (name \<in> props ob)"
  using map_of_eq_None_iff [of "o_Props ob" name] by (auto simp: props_def)

lemma SetProp_eq:
  "SetProp ob name v =
     ob\<lparr>o_Props := AList.update name v (o_Props ob),
        o_order := (if name \<in> props ob then o_order ob else o_order ob @ [name])\<rparr>"
  using has_prop [of ob name] by (cases "map_of (o_Props ob) name") (auto simp: SetProp_def)

lemma DeleteProp_eq:
  "DeleteProp ob name =
     (if name \<in> props ob
      then ob\<lparr>o_Props := AList.delete name (o_Props ob), o_order := remove1 name (o_order ob)\<rparr>
      else ob)"
  using has_prop [of ob name] by (cases "map_of (o_Props ob) name") (auto simp: DeleteProp_def)

lemma object_ok_New: "object_ok (NewObject c)"
  by (simp add: object_ok_def NewObject_def)

lemma SetProp_props [simp]: "props (SetProp ob name v) = insert name (props ob)"
  by (simp add: SetProp_eq props_def dom_update)

lemma DeleteProp_props [simp]: "props (DeleteProp ob name) = props ob - {name}"
  by (simp add: DeleteProp_eq props_def delete_keys flip: set_map)

lemma SetProp_order:
  "o_order (SetProp ob name v) = (if name \<in> props ob then o_order ob else o_order ob @ [name])"
  by (simp add: SetProp_eq)

lemma DeleteProp_order:
  "object_ok ob \<Longrightarrow> o_order (DeleteProp ob name) = filter (\<lambda>x. x \<noteq> name) (o_order ob)"
  by (auto simp: DeleteProp_eq object_ok_def props_def filter_neq_remove1 intro!: filter_True [symmetric])

lemma object_ok_SetProp: "object_ok ob \<Longrightarrow> object_ok (SetProp ob name v)"
  using SetProp_props [of ob name v]
  by (auto simp: object_ok_def SetProp_order props_def SetProp_eq distinct_update)

lemma object_ok_DeleteProp: "object_ok ob \<Longrightarrow> object_ok (DeleteProp ob name)"
  using DeleteProp_props [of ob name] DeleteProp_order [of ob name]
  by (simp add: object_ok_def flip: props_def) (auto simp: DeleteProp_eq distinct_delete)

interpretation obj: lookup_store Prop SetProp DeleteProp Object_Len "\<lambda>_. True" object_ok
proof
  show "Prop (SetProp m k v) k' = (if k' = k then Some v else Prop m k')" for m k v k'
    by (simp add: Prop_def SetProp_eq update_conv')
  show "Prop (DeleteProp m k) k' = (if k' = k then None else Prop m k')" for m k k'
    using has_prop [of m k] by (auto simp: Prop_def DeleteProp_eq delete_conv')
  show "Object_Len (SetProp m k v) \<le> Suc (Object_Len m)" for m k v
    by (simp add: Object_Len_def SetProp_eq length_update)
qed (auto intro: object_ok_SetProp object_ok_DeleteProp)

text \<open>On a well formed object \<open>Names\<close> needs no fallback.\<close>

lemma Names_eq:
  assumes "object_ok ob" and "class_ok c"
  shows "Names c ob =
    filter (\<lambda>x. x \<in> props ob) (fields_of c) @ filter (\<lambda>x. x \<notin> set (fields_of c)) (o_order ob)"
proof -
  have ord: "set (o_order ob) = props ob" "distinct (o_order ob)" "distinct (map fst (o_Props ob))"
    using assms(1) by (auto simp: object_ok_def props_def)
  let ?out = "filter (\<lambda>x. x \<in> props ob) (fields_of c) @ filter (\<lambda>x. x \<notin> set (fields_of c)) (o_order ob)"
  have d: "distinct ?out" "set ?out = props ob"
    using assms(2) ord by (auto simp: class_ok_def fields_of_def split: option.splits)
  then have "length ?out = length (o_Props ob)"
    using ord(3) distinct_card [of ?out] distinct_card [of "map fst (o_Props ob)"] by (simp add: props_def)
  moreover have "filter (\<lambda>name. name \<in> props ob \<and> \<not> (case c of Some k \<Rightarrow> declares k name | None \<Rightarrow> False))
      (o_order ob) = filter (\<lambda>x. x \<notin> set (fields_of c)) (o_order ob)"
    using ord(1) by (intro filter_cong) (auto simp: declares_def list_ex_iff fields_of_def split: option.splits)
  moreover have "(case c of Some k \<Rightarrow> filter (\<lambda>x. x \<in> props ob) (c_Fields k) | None \<Rightarrow> []) =
      filter (\<lambda>x. x \<in> props ob) (fields_of c)"
    by (simp add: fields_of_def split: option.splits)
  ultimately show ?thesis unfolding Names_def Let_def has_prop by simp
qed

section \<open>Properties\<close>

text \<open>Properties read back in php's order. Each one appears once, the declared fields first in
  declaration order, then the others by first write. Overwriting moves nothing, a new dynamic
  property comes last, an unset removes its name alone, and a declared field written again after an
  unset returns to its declared position.\<close>

theorem names_in_php_order:
  assumes "object_ok ob" and "class_ok c"
  shows "distinct (Names c ob) \<and> set (Names c ob) = props ob \<and>
    length (Names c ob) = Object_Len ob \<and>
    (p \<in> props ob \<longrightarrow> Names c (SetProp ob p v) = Names c ob) \<and>
    (p \<notin> props ob \<and> p \<notin> set (fields_of c) \<longrightarrow> Names c (SetProp ob p v) = Names c ob @ [p]) \<and>
    Names c (DeleteProp ob p) = filter (\<lambda>x. x \<noteq> p) (Names c ob) \<and>
    (p \<in> props ob \<and> p \<in> set (fields_of c) \<longrightarrow> Names c (SetProp (DeleteProp ob p) p v) = Names c ob)"
proof -
  have ord: "set (o_order ob) = props ob" "distinct (o_order ob)" "distinct (map fst (o_Props ob))"
    using assms(1) by (auto simp: object_ok_def props_def)
  have N: "object_ok x \<Longrightarrow> Names c x =
      filter (\<lambda>x'. x' \<in> props x) (fields_of c) @ filter (\<lambda>x. x \<notin> set (fields_of c)) (o_order x)" for x
    by (rule Names_eq [OF _ assms(2)])
  note ok = assms(1) object_ok_SetProp object_ok_DeleteProp
  have d: "distinct (Names c ob)" "set (Names c ob) = props ob"
    using assms(2) ord by (auto simp: N ok class_ok_def fields_of_def split: option.splits)
  then have "length (Names c ob) = Object_Len ob"
    using ord(3) distinct_card [of "Names c ob"] distinct_card [of "map fst (o_Props ob)"]
    by (simp add: props_def Object_Len_def)
  moreover have "Names c (DeleteProp ob p) = filter (\<lambda>x. x \<noteq> p) (Names c ob)"
    by (auto simp: N ok DeleteProp_order intro: filter_cong)
  moreover have "p \<in> props ob \<Longrightarrow> Names c (SetProp ob p v) = Names c ob"
    by (auto simp: N ok SetProp_order intro!: filter_cong)
  moreover have "p \<notin> props ob \<and> p \<notin> set (fields_of c) \<Longrightarrow> Names c (SetProp ob p v) = Names c ob @ [p]"
    by (auto simp: N ok SetProp_order intro!: filter_cong)
  moreover have "p \<in> props ob \<and> p \<in> set (fields_of c) \<Longrightarrow>
      Names c (SetProp (DeleteProp ob p) p v) = Names c ob"
    by (auto simp: N ok SetProp_order DeleteProp_order intro!: filter_cong arg_cong2 [where f = append])
  ultimately show ?thesis using d by blast
qed

lemma names_in_php_order_witness:
  "Names (Some \<lparr>c_Name = ''C'', c_Fields = [''a'', ''b'']\<rparr>)
     (SetProp (SetProp (SetProp (NewObject None) ''x'' VNil) ''b'' VNil) ''y'' VNil) =
   [''b'', ''x'', ''y'']"
proof -
  let ?c = "Some \<lparr>c_Name = ''C'', c_Fields = [''a'', ''b'']\<rparr>"
  let ?o = "SetProp (SetProp (NewObject None) ''x'' VNil) ''b'' VNil"
  have "object_ok ?o" by (intro object_ok_SetProp object_ok_New)
  moreover have "class_ok ?c" by (simp add: class_ok_def)
  ultimately have "Names ?c (SetProp ?o ''y'' VNil) = Names ?c ?o @ [''y'']"
    using names_in_php_order [of ?o ?c "''y''" VNil] by (simp add: fields_of_def) (simp add: props_def NewObject_def)
  then show ?thesis by code_simp
qed

end
