(* ===== verification/Compare.thy ===== *)
theory Compare
  imports Arith Objects
begin

unbundle bit_operations_syntax

text \<open>
  \<open>internal/phpval/compare.go\<close>, php's \<open><=>\<close>: the numeric strings, the scalar ladder, and the
  member-by-member order of arrays and instances. Go's call stack bounds the descent into nested
  values; here \<open>Compare\<close> takes that depth as its first argument and answers \<open>None\<close> below it. A heap
  whose values do not contain themselves has a depth that is enough (\<open>compare_terminates\<close>).
\<close>

section \<open>Numeric strings\<close>

record phpNum =
  n_i :: i64
  n_f :: f64
  n_isInt :: bool
  n_text :: string
  n_intText :: bool

definition phpNum_float :: "phpNum \<Rightarrow> f64" where
  "phpNum_float n = (if n_isInt n then of_i64 (n_i n) else n_f n)"

text \<open>The answer is (isInt, ok).\<close>

definition scanNumeric :: "string \<Rightarrow> bool \<times> bool" where
  "scanNumeric s =
     (case sign_run s of (sign, s1) \<Rightarrow>
      case digit_run s1 of (whole, s2) \<Rightarrow>
      case (case s2 of
              c # r \<Rightarrow>
                if c = CHR ''.'' then (case digit_run r of (fraction, s3) \<Rightarrow> (whole @ fraction, s3, False))
                else (whole, s2, True)
            | [] \<Rightarrow> (whole, [], True))
      of (digits, s3, isInt) \<Rightarrow>
        if digits = [] then (False, False)
        else
          case s3 of
            c # r \<Rightarrow>
              if c = CHR ''e'' \<or> c = CHR ''E''
              then (case sign_run r of (esign, r1) \<Rightarrow>
                    case digit_run r1 of (exponent, r2) \<Rightarrow>
                      if exponent = [] then (False, False) else (False, r2 = []))
              else (isInt, False)
          | [] \<Rightarrow> (isInt, True))"

definition numericString :: "string \<Rightarrow> phpNum option" where
  "numericString s =
     (let text = strings_Trim s blanks
      in case scanNumeric text of (isInt, ok) \<Rightarrow>
           if \<not> ok then None
           else if isInt
           then (case ParseInt text of
                   Some i \<Rightarrow> Some \<lparr>n_i = i, n_f = f_zero, n_isInt = True, n_text = text, n_intText = True\<rparr>
                 | None \<Rightarrow> Some \<lparr>n_i = 0, n_f = parseFloat text, n_isInt = False, n_text = text, n_intText = True\<rparr>)
           else (case ParseFloat text of
                   None \<Rightarrow> None
                 | Some f \<Rightarrow> Some \<lparr>n_i = 0, n_f = f, n_isInt = False, n_text = text, n_intText = False\<rparr>))"

definition num_of_int :: "i64 \<Rightarrow> phpNum" where
  "num_of_int x = \<lparr>n_i = x, n_f = f_zero, n_isInt = True, n_text = [], n_intText = False\<rparr>"

definition num_of_float :: "f64 \<Rightarrow> phpNum" where
  "num_of_float x = \<lparr>n_i = 0, n_f = x, n_isInt = False, n_text = [], n_intText = False\<rparr>"

definition phpNumeric :: "val \<Rightarrow> phpNum option" where
  "phpNumeric v =
     (case v of
        VGoInt x \<Rightarrow> Some (num_of_int x)
      | VInt x \<Rightarrow> Some (num_of_int x)
      | VFloat x \<Rightarrow> Some (num_of_float x)
      | VStr s \<Rightarrow> numericString s
      | _ \<Rightarrow>
          (case GoWiden v of
             Some (VInt x) \<Rightarrow> Some (num_of_int x)
           | Some (VFloat x) \<Rightarrow> Some (num_of_float x)
           | _ \<Rightarrow> None))"

definition compareBools :: "bool \<Rightarrow> bool \<Rightarrow> int" where
  "compareBools x y = (if x = y then 0 else if y then - 1 else 1)"

definition compareNumbers :: "phpNum \<Rightarrow> phpNum \<Rightarrow> int" where
  "compareNumbers x y =
     (if n_isInt x \<and> n_isInt y
      then compareBools (sint (n_i y) < sint (n_i x)) (sint (n_i x) < sint (n_i y))
      else
        let xf = phpNum_float x; yf = phpNum_float y
        in if \<not> f_eq xf yf then compareBools (f_lt yf xf) (f_lt xf yf)
           else if n_text x = [] \<or> n_text y = [] then 0
           else if (n_intText x \<and> n_intText y \<and> \<not> (n_isInt x \<and> n_isInt y)) \<or> f_is_inf xf
           then strings_Compare (n_text x) (n_text y)
           else 0)"

section \<open>The order of values\<close>

fun isBoolish :: "val \<Rightarrow> bool" where
  "isBoolish VNil = True"
| "isBoolish (VBool b) = True"
| "isBoolish _ = False"

fun toBool :: "val \<Rightarrow> bool" where
  "toBool VNil = False"
| "toBool (VBool b) = b"
| "toBool (VStr s) = (s \<noteq> '''' \<and> s \<noteq> ''0'')"
| "toBool (VGoInt x) = (x \<noteq> 0)"
| "toBool (VInt x) = (x \<noteq> 0)"
| "toBool (VFloat x) = (\<not> f_eq x f_zero)"
| "toBool _ = True"

fun is_object :: "val \<Rightarrow> bool" where
  "is_object (VObject a) = True"
| "is_object _ = False"

definition isObject :: "val \<Rightarrow> int \<Rightarrow> int" where
  "isObject v side = (if is_object v then side else - side)"

definition comparableArray :: "heap \<Rightarrow> val \<Rightarrow> array option" where
  "comparableArray h v =
     (case v of
        VArray a \<Rightarrow> h_arrays h a
      | _ \<Rightarrow> if IsCollection v then Some (ToArray h v) else None)"

text \<open>The two descents, over the comparison of the members.\<close>

definition compare_member :: "(val \<Rightarrow> val \<Rightarrow> int option) \<Rightarrow> val \<Rightarrow> val option \<Rightarrow> bool \<times> int option" where
  "compare_member cmp v other =
     (case other of
        None \<Rightarrow> (False, Some 1)
      | Some w \<Rightarrow> (case cmp v w of None \<Rightarrow> (False, None) | Some c \<Rightarrow> (c = 0, Some c)))"

definition compareArrays :: "(val \<Rightarrow> val \<Rightarrow> int option) \<Rightarrow> array \<Rightarrow> array \<Rightarrow> int option" where
  "compareArrays cmp x y =
     (if Array_Len x \<noteq> Array_Len y
      then Some (compareBools (Array_Len y < Array_Len x) (Array_Len x < Array_Len y))
      else Array_Range x (\<lambda>key v result. compare_member cmp v (Array_Get y key)) (Some 0))"

definition class_at :: "heap \<Rightarrow> object \<Rightarrow> php_class option" where
  "class_at h ob = (case o_Class ob of Some c \<Rightarrow> h_classes h c | None \<Rightarrow> None)"

definition compareObjects ::
  "(val \<Rightarrow> val \<Rightarrow> int option) \<Rightarrow> heap \<Rightarrow> addr \<Rightarrow> addr \<Rightarrow> int option" where
  "compareObjects cmp h a b =
     (if a = b then Some 0
      else
        case (h_objects h a, h_objects h b) of
          (Some x, Some y) \<Rightarrow>
            (case (class_at h x, class_at h y) of
               (Some cx, Some cy) \<Rightarrow>
                 if o_Class x \<noteq> o_Class y \<and> \<not> EqualFold (c_Name cx) (c_Name cy) then Some 1
                 else if Object_Len x \<noteq> Object_Len y
                 then Some (compareBools (Object_Len y < Object_Len x) (Object_Len x < Object_Len y))
                 else Object_Range (Some cx) x
                        (\<lambda>name v result. compare_member cmp v (Prop y name)) (Some 0)
             | _ \<Rightarrow> Some 1)
        | _ \<Rightarrow> Some 1)"

text \<open>The part of \<open>Compare\<close> below the arrays and the instances.\<close>

definition compare_scalars :: "val \<Rightarrow> val \<Rightarrow> int" where
  "compare_scalars x y =
     (case (phpNumeric x, phpNumeric y) of
        (Some xn, Some yn) \<Rightarrow> compareNumbers xn yn
      | _ \<Rightarrow> strings_Compare (String x) (String y))"

text \<open>The one pairing of a null that is not decided on truthiness.\<close>

definition null_string :: "val \<Rightarrow> val \<Rightarrow> int option" where
  "null_string x y =
     (case x of
        VNil \<Rightarrow> (case y of VStr s \<Rightarrow> Some (strings_Compare '''' s) | _ \<Rightarrow> None)
      | VStr s \<Rightarrow> (case y of VNil \<Rightarrow> Some (strings_Compare s '''') | _ \<Rightarrow> None)
      | _ \<Rightarrow> None)"

fun as_object :: "val \<Rightarrow> addr option" where
  "as_object (VObject a) = Some a"
| "as_object _ = None"

definition compare_non_arrays :: "(val \<Rightarrow> val \<Rightarrow> int option) \<Rightarrow> heap \<Rightarrow> val \<Rightarrow> val \<Rightarrow> int option" where
  "compare_non_arrays cmp h x y =
     (case null_string x y of
        Some c \<Rightarrow> Some c
      | None \<Rightarrow>
          if isBoolish x \<or> isBoolish y then Some (compareBools (toBool x) (toBool y))
          else
            case as_object x of
              Some a \<Rightarrow>
                (case as_object y of Some b \<Rightarrow> compareObjects cmp h a b | None \<Rightarrow> Some 1)
            | None \<Rightarrow>
                (case as_object y of Some b \<Rightarrow> Some (- 1) | None \<Rightarrow> Some (compare_scalars x y)))"

fun Compare :: "nat \<Rightarrow> heap \<Rightarrow> val \<Rightarrow> val \<Rightarrow> int option" where
  "Compare 0 h x y = None"
| "Compare (Suc n) h x y =
     (case comparableArray h x of
        Some xa \<Rightarrow>
          (case comparableArray h y of
             Some ya \<Rightarrow> compareArrays (Compare n h) xa ya
           | None \<Rightarrow>
               Some (if isBoolish y then compareBools (0 < Array_Len xa) (toBool y) else isObject y (- 1)))
      | None \<Rightarrow>
          (case comparableArray h y of
             Some ya \<Rightarrow>
               Some (if isBoolish x then compareBools (toBool x) (0 < Array_Len ya) else isObject x 1)
           | None \<Rightarrow> compare_non_arrays (Compare n h) h x y))"

section \<open>Facts\<close>

subsection \<open>The two scanners of numeric strings\<close>

definition ends_number :: "string \<Rightarrow> bool" where
  "ends_number r \<longleftrightarrow> (case r of [] \<Rightarrow> True | c # _ \<Rightarrow> c \<in> set blanks)"

lemma blank_facts: "c \<in> set blanks \<Longrightarrow>
    \<not> is_digit c \<and> \<not> is_sign c \<and> c \<noteq> CHR ''.'' \<and> c \<noteq> CHR ''e'' \<and> c \<noteq> CHR ''E''"
  by (auto simp: blanks_def is_digit_def is_sign_def code_def)

lemma digit_run_append:
  "digit_run s = (d, s') \<Longrightarrow> ends_number r \<Longrightarrow> digit_run (s @ r) = (d, s' @ r)"
  by (induction s arbitrary: d)
     (auto simp: digit_run_def ends_number_def dest: blank_facts split: list.splits if_splits)

lemma sign_run_append:
  "sign_run s = (g, s') \<Longrightarrow> ends_number r \<Longrightarrow> sign_run (s @ r) = (g, s' @ r)"
  by (auto simp: sign_run_def ends_number_def dest: blank_facts split: list.splits if_splits)

lemma scanNumeric_leadingFloat:
  assumes ok: "scanNumeric t = (isInt, True)" and r: "ends_number r" and hd: "hd t \<notin> set blanks"
  shows "leadingFloat (t @ r) = (t, isInt)"
proof -
  obtain g s1 where g: "sign_run t = (g, s1)" by (cases "sign_run t")
  obtain w s2 where w: "digit_run s1 = (w, s2)" by (cases "digit_run s1")
  have t: "t = g @ w @ s2" using sign_run_split [OF g] digit_run_split [OF w] by simp
  have "t \<noteq> []" using ok by (auto simp: scanNumeric_def sign_run_def digit_run_def)
  then have "dropWhile (\<lambda>c. c \<in> set blanks) (t @ r) = t @ r"
    using hd by (cases t) auto
  note unf = leadingFloat_def this sign_run_append [OF g r] digit_run_append [OF w r]
  note scan = ok [unfolded scanNumeric_def g prod.case w]
  have stop: "r = [] \<or> (\<exists>c cs. r = c # cs \<and> c \<noteq> CHR ''.'' \<and> c \<noteq> CHR ''e'' \<and> c \<noteq> CHR ''E'')"
    using r by (cases r) (auto simp: ends_number_def dest: blank_facts)
  show ?thesis
  proof (cases s2)
    case Nil
    then have "w \<noteq> []" "isInt" using scan by (auto split: if_splits)
    then have "leadingFloat (t @ r) = (g @ w, isInt)"
      using stop unfolding unf prod.case Nil append_Nil by (auto split: prod.splits)
    then show ?thesis using t Nil by simp
  next
    case (Cons c s3)
    show ?thesis
    proof (cases "c = CHR ''.''")
      case dot: True
      obtain f s4 where f: "digit_run s3 = (f, s4)" by (cases "digit_run s3")
      note fr = digit_run_append [OF f r]
      have s3: "s3 = f @ s4" by (rule digit_run_split [OF f])
      have ne: "w @ f \<noteq> []" using scan unfolding Cons dot by (auto simp: f split: if_splits)
      note scan1 = scan [unfolded Cons dot list.case f prod.case if_P [OF refl] if_not_P [OF ne]]
      show ?thesis
      proof (cases s4)
        case Nil
        then have "\<not> isInt" using scan1 by simp
        then have "leadingFloat (t @ r) = (g @ w @ CHR ''.'' # f, isInt)"
          using stop ne unfolding unf Cons dot append_Cons list.case fr prod.case Nil by auto
        then show ?thesis using t Cons dot s3 Nil by simp
      next
        case e: (Cons d s6)
        obtain eg s7 where eg: "sign_run s6 = (eg, s7)" by (cases "sign_run s6")
        obtain ex s8 where ex: "digit_run s7 = (ex, s8)" by (cases "digit_run s7")
        have s6: "s6 = eg @ ex @ s8" using sign_run_split [OF eg] digit_run_split [OF ex] by simp
        have d: "d = CHR ''e'' \<or> d = CHR ''E''" "ex \<noteq> []" "s8 = []" "\<not> isInt"
          using scan1 by (auto simp: e eg ex split: if_splits)
        have "leadingFloat (t @ r) = (g @ w @ CHR ''.'' # f @ d # eg @ ex, isInt)"
          using d ne unfolding unf Cons dot append_Cons list.case fr prod.case e
          by (auto simp: Let_def sign_run_append [OF eg r] digit_run_append [OF ex r])
        then show ?thesis using t Cons dot s3 e s6 d by simp
      qed
    next
      case False
      obtain eg s7 where eg: "sign_run s3 = (eg, s7)" by (cases "sign_run s3")
      obtain ex s8 where ex: "digit_run s7 = (ex, s8)" by (cases "digit_run s7")
      have s3: "s3 = eg @ ex @ s8" using sign_run_split [OF eg] digit_run_split [OF ex] by simp
      have d: "c = CHR ''e'' \<or> c = CHR ''E''" "ex \<noteq> []" "s8 = []" "\<not> isInt" "w \<noteq> []"
        using scan by (auto simp: Cons False eg ex split: if_splits)
      have "leadingFloat (t @ r) = (g @ w @ c # eg @ ex, isInt)"
        using d False unfolding unf Cons append_Cons list.case prod.case
        by (auto simp: sign_run_append [OF eg r] digit_run_append [OF ex r] split: prod.splits)
      then show ?thesis using t Cons s3 d by simp
    qed
  qed
qed

lemma Trim_split:
  obtains b r where "s = b @ strings_Trim s blanks @ r" "set b \<subseteq> set blanks" "set r \<subseteq> set blanks"
    "strings_Trim s blanks \<noteq> [] \<Longrightarrow> hd (strings_Trim s blanks) \<notin> set blanks"
proof -
  let ?P = "\<lambda>c. c \<in> set blanks"
  define m where "m = dropWhile ?P s"
  define r where "r = rev (takeWhile ?P (rev m))"
  have m: "m = strings_Trim s blanks @ r"
    by (simp add: strings_Trim_def r_def m_def flip: rev_append)
  have s: "s = takeWhile ?P s @ strings_Trim s blanks @ r"
    using takeWhile_dropWhile_id [of ?P s] by (simp flip: m add: m_def)
  have r: "set r \<subseteq> set blanks" by (auto simp: r_def dest: set_takeWhileD)
  have h: "hd (strings_Trim s blanks) \<notin> set blanks" if "strings_Trim s blanks \<noteq> []"
  proof -
    have "m \<noteq> []" using m that by simp
    then have "hd m \<notin> set blanks" using hd_dropWhile [of ?P s] by (simp add: m_def)
    then show ?thesis using m that by simp
  qed
  have b: "set (takeWhile ?P s) \<subseteq> set blanks" by (auto dest: set_takeWhileD)
  show ?thesis by (rule that [OF s b r h])
qed

lemma leadingFloat_blanks: "set b \<subseteq> set blanks \<Longrightarrow> leadingFloat (b @ s) = leadingFloat s"
  by (induction b) (auto simp: leadingFloat_def)

lemma numericString_prefix:
  assumes "numericString s = Some n"
  shows "leadingFloat s = (n_text n, n_intText n)" and "n_text n \<noteq> []"
proof -
  let ?t = "strings_Trim s blanks"
  obtain i where i: "scanNumeric ?t = (i, True)" "n_text n = ?t" "n_intText n = i"
    using assms by (auto simp: numericString_def Let_def split: prod.splits if_splits option.splits)
  have ne: "?t \<noteq> []" using i(1) by (auto simp: scanNumeric_def sign_run_def digit_run_def)
  obtain b r where s: "s = b @ ?t @ r" "set b \<subseteq> set blanks" "set r \<subseteq> set blanks" "hd ?t \<notin> set blanks"
    using Trim_split [of s] ne by metis
  have "ends_number r" using s(3) by (cases r) (auto simp: ends_number_def)
  then have "leadingFloat (?t @ r) = (?t, i)"
    using scanNumeric_leadingFloat [OF i(1)] s(4) by simp
  then show "leadingFloat s = (n_text n, n_intText n)"
    using leadingFloat_blanks [OF s(2), of "?t @ r"] i s(1) by simp
  show "n_text n \<noteq> []" using ne i by simp
qed

lemma numericString_cases:
  assumes "numericString s = Some n"
  shows "if n_intText n
         then (case ParseInt (n_text n) of
                 Some i \<Rightarrow> n_isInt n \<and> n_i n = i
               | None \<Rightarrow> \<not> n_isInt n \<and> n_f n = parseFloat (n_text n))
         else \<not> n_isInt n \<and> n_f n = parseFloat (n_text n)"
  using assms
  by (auto simp: numericString_def Let_def parseFloat_def split: prod.splits if_splits option.splits)

subsection \<open>Numbers and scalars\<close>

lemma compareBools_swap: "compareBools y x = - compareBools x y"
  by (simp add: compareBools_def)

lemma f_eq_inf: "f_eq x y \<Longrightarrow> f_is_inf x = f_is_inf y"
  by (cases x; cases y) auto

lemma compareNumbers_swap: "compareNumbers y x = - compareNumbers x y"
proof (cases "f_eq (phpNum_float x) (phpNum_float y)")
  case True
  then have "f_eq (phpNum_float y) (phpNum_float x)" "f_is_inf (phpNum_float x) = f_is_inf (phpNum_float y)"
    using f_eq_sym f_eq_inf by auto
  then show ?thesis using True strings_Compare_swap [of "n_text y" "n_text x"]
    by (auto simp: compareNumbers_def Let_def compareBools_def)
next
  case False
  then have "\<not> f_eq (phpNum_float y) (phpNum_float x)" using f_eq_sym by simp
  then show ?thesis using False by (simp add: compareNumbers_def Let_def compareBools_def)
qed

lemma compareNumbers_refl: "compareNumbers x x = 0"
  by (simp add: compareNumbers_def compareBools_def Let_def)

lemma compare_scalars_swap: "compare_scalars y x = - compare_scalars x y"
  using strings_Compare_swap [of "String y" "String x"]
    compareNumbers_swap [of "the (phpNumeric y)" "the (phpNumeric x)"]
  by (cases "phpNumeric x"; cases "phpNumeric y") (simp_all add: compare_scalars_def)

lemma compare_scalars_refl: "compare_scalars x x = 0"
  by (auto simp: compare_scalars_def compareNumbers_refl split: option.splits)

lemma null_string_swap: "null_string y x = map_option uminus (null_string x y)"
  by (cases x; cases y) (auto simp: null_string_def strings_Compare_swap [of "[]"])

lemma null_string_self: "null_string x x = None"
  by (cases x) (auto simp: null_string_def)

lemma comparableArray_scalar [simp]: "\<not> IsCollection x \<Longrightarrow> comparableArray h x = None"
  by (cases x) (auto simp: comparableArray_def)

lemma Compare_swap:
  assumes "\<not> IsCollection x" and "\<not> IsCollection y" and "\<not> (is_object x \<and> is_object y)"
  shows "Compare (Suc n) h y x = map_option uminus (Compare (Suc n) h x y)"
    and "Compare (Suc n) h x y \<noteq> None"
proof -
  have o: "as_object x \<noteq> None \<longleftrightarrow> is_object x" "as_object y \<noteq> None \<longleftrightarrow> is_object y"
    by (cases x; simp) (cases y; simp)
  have "Compare (Suc n) h y x = map_option uminus (Compare (Suc n) h x y) \<and> Compare (Suc n) h x y \<noteq> None"
  proof (cases "null_string x y")
    case (Some c)
    then show ?thesis using assms null_string_swap [of y x] by (simp add: compare_non_arrays_def)
  next
    case None
    then have "null_string y x = None" using null_string_swap [of y x] by simp
    then show ?thesis
      using assms o None compareBools_swap [of "toBool y" "toBool x"] compare_scalars_swap [of y x]
      by (cases "as_object x"; cases "as_object y") (auto simp: compare_non_arrays_def)
  qed
  then show "Compare (Suc n) h y x = map_option uminus (Compare (Suc n) h x y)"
    "Compare (Suc n) h x y \<noteq> None" by blast+
qed

lemma Compare_self:
  assumes "\<not> IsCollection x"
  shows "Compare (Suc n) h x x = Some 0"
  using assms
  by (cases "as_object x") (simp_all add: compare_non_arrays_def null_string_self compareBools_def
      compare_scalars_refl compareObjects_def)

subsection \<open>Members\<close>

lemma Array_Range_entries: "Array_Range a fn s = snd (visit fn (entries a) s)"
  by (simp add: Array_Range_def entries_def split: option.splits)

lemma visit_compare:
  assumes "\<forall>v \<in> snd ` set es. \<forall>w. cmp v w \<noteq> None"
  shows "snd (visit (\<lambda>k v result. compare_member cmp v (g k)) es (Some r)) \<noteq> None"
  using assms
proof (induction es arbitrary: r)
  case (Cons e es)
  obtain k v where e: "e = (k, v)" by (cases e)
  show ?case
  proof (cases "g k")
    case (Some w)
    have "cmp v w \<noteq> None" using Cons.prems by (simp add: e)
    then obtain c where "cmp v w = Some c" by blast
    then show ?thesis using Some Cons by (cases "c = 0") (auto simp: e compare_member_def)
  qed (simp add: e compare_member_def)
qed simp

lemma visit_compare_eq_0:
  "snd (visit (\<lambda>k v result. compare_member cmp v (g k)) es (Some 0)) = Some 0 \<longleftrightarrow>
     (\<forall>(k, v) \<in> set es. \<exists>w. g k = Some w \<and> cmp v w = Some 0)"
  by (induction es) (auto simp: compare_member_def split: option.splits bool.splits)

text \<open>The values one step below a value: what a comparison descends into.\<close>

definition members :: "heap \<Rightarrow> val \<Rightarrow> val list" where
  "members h v =
     (case comparableArray h v of
        Some a \<Rightarrow> map snd (entries a)
      | None \<Rightarrow>
          (case as_object v of
             Some o_addr \<Rightarrow>
               (case h_objects h o_addr of
                  Some ob \<Rightarrow>
                    map (\<lambda>name. case map_of (o_Props ob) name of Some v \<Rightarrow> v | None \<Rightarrow> VNil)
                      (Names (class_at h ob) ob)
                | None \<Rightarrow> [])
           | None \<Rightarrow> []))"

text \<open>\<open>depth_le h n v\<close>: no chain of n + 1 steps leads down from v.\<close>

fun depth_le :: "heap \<Rightarrow> nat \<Rightarrow> val \<Rightarrow> bool" where
  "depth_le h 0 v = (members h v = [])"
| "depth_le h (Suc n) v = list_all (depth_le h n) (members h v)"

lemma depth_le_member:
  "depth_le h n v \<Longrightarrow> w \<in> set (members h v) \<Longrightarrow> \<exists>m. n = Suc m \<and> depth_le h m w"
  by (cases n) (auto simp: list_all_iff)

lemma compareObjects_total:
  assumes "\<forall>v \<in> set (members h (VObject a)). \<forall>w. cmp v w \<noteq> None"
  shows "compareObjects cmp h a b \<noteq> None"
proof (cases "\<exists>x y cx cy. h_objects h a = Some x \<and> h_objects h b = Some y \<and>
    class_at h x = Some cx \<and> class_at h y = Some cy")
  case True
  then obtain x y cx cy where o: "h_objects h a = Some x" "h_objects h b = Some y"
      "class_at h x = Some cx" "class_at h y = Some cy" by blast
  let ?es = "map (\<lambda>name. (name, case map_of (o_Props x) name of Some v \<Rightarrow> v | None \<Rightarrow> VNil)) (Names (Some cx) x)"
  have "\<forall>v \<in> snd ` set ?es. \<forall>w. cmp v w \<noteq> None"
    using assms o by (simp add: members_def)
  from visit_compare [OF this, of "Prop y" 0] show ?thesis using o
    by (simp add: compareObjects_def Object_Range_def)
next
  case False
  then show ?thesis by (auto simp: compareObjects_def split: option.splits)
qed

lemma compareArrays_total:
  assumes "\<forall>v \<in> snd ` set (entries x). \<forall>w. cmp v w \<noteq> None"
  shows "compareArrays cmp x y \<noteq> None"
  using visit_compare [OF assms, of "Array_Get y" 0]
  by (simp add: compareArrays_def Array_Range_entries)

lemma Compare_total: "depth_le h n x \<Longrightarrow> Compare (Suc n) h x y \<noteq> None"
proof (induction n arbitrary: x y rule: less_induct)
  case (less n)
  have IH: "\<forall>v \<in> set (members h x). \<forall>w. Compare n h v w \<noteq> None"
    using depth_le_member [OF less.prems] less.IH by blast
  show ?case
  proof (cases "comparableArray h x")
    case (Some a)
    then have "\<forall>v \<in> snd ` set (entries a). \<forall>w. Compare n h v w \<noteq> None"
      using IH by (simp add: members_def)
    then show ?thesis using Some compareArrays_total [of a "Compare n h"] by (simp split: option.split)
  next
    case None
    have "compareObjects (Compare n h) h a b \<noteq> None" if "as_object x = Some a" for a b
    proof -
      have "x = VObject a" using that by (cases x) auto
      then show ?thesis using compareObjects_total IH by blast
    qed
    then show ?thesis using None by (simp add: compare_non_arrays_def split: option.split)
  qed
qed

subsection \<open>The answers\<close>

definition three_way :: "int option \<Rightarrow> bool" where
  "three_way r \<longleftrightarrow> r \<in> {None, Some (- 1), Some 0, Some 1}"

lemma three_way_parts [simp]:
  "three_way None" "three_way (Some 0)" "three_way (Some 1)" "three_way (Some (- 1))"
  "three_way (Some (compareBools a b))" "three_way (Some (strings_Compare s t))"
  "side = 1 \<or> side = - 1 \<Longrightarrow> three_way (Some (isObject v side))"
  using strings_Compare_range [of s t] by (auto simp: three_way_def compareBools_def isObject_def)

lemma three_way_scalars [simp]: "three_way (Some (compare_scalars x y))"
  by (auto simp: compare_scalars_def compareNumbers_def Let_def split: option.split)

lemma three_way_visit:
  assumes "\<And>v w. three_way (cmp v w)" and "three_way r"
  shows "three_way (snd (visit (\<lambda>k v result. compare_member cmp v (other k)) es r))"
  using assms(2)
proof (induction es arbitrary: r)
  case (Cons e es)
  obtain k v where e: "e = (k, v)" by (cases e)
  have "three_way (snd (compare_member cmp v (other k)))"
    using assms(1) [of v] by (auto simp: compare_member_def split: option.split) (metis option.sel)
  then show ?case using Cons.IH by (auto simp: e split: prod.split bool.split)
qed simp

lemma Compare_three_way: "three_way (Compare n h x y)"
proof (induction n arbitrary: x y)
  case (Suc n)
  have arrays: "three_way (compareArrays (Compare n h) a b)" for a b
    by (simp add: compareArrays_def Array_Range_entries three_way_visit [of "Compare n h", OF Suc.IH])
  have objects: "three_way (compareObjects (Compare n h) h a b)" for a b
    by (auto simp: compareObjects_def Object_Range_def three_way_visit [of "Compare n h", OF Suc.IH] split: option.split)
  have null: "three_way (null_string x y)"
    by (auto simp: null_string_def split: val.split)
  have "three_way (compare_non_arrays (Compare n h) h x y)"
    using objects null by (auto simp: compare_non_arrays_def split: option.splits)
  then show ?case using arrays by (simp split: option.split)
qed simp

section \<open>Properties\<close>

text \<open>C23. Comparing values that do not contain themselves returns -1, 0 or 1: a depth one above the nesting of
  the left operand is enough, whatever the right operand is.\<close>

theorem compare_terminates:
  assumes "depth_le h n x"
  shows "\<exists>c \<in> {- 1, 0, 1}. Compare (Suc n) h x y = Some c"
  using Compare_total [OF assms, of y] Compare_three_way [of "Suc n" h x y] by (auto simp: three_way_def)

definition sample_heap :: heap where
  "sample_heap =
     \<lparr>h_arrays = [0 \<mapsto> \<lparr>a_list = [VInt 1, VStr ''b''], a_keys = [], a_values = None, a_nextID = 2\<rparr>,
                  1 \<mapsto> \<lparr>a_list = [VArray 0, VNil], a_keys = [], a_values = None, a_nextID = 2\<rparr>],
      h_objects = Map.empty, h_classes = Map.empty, h_colls = Map.empty, h_next = 2\<rparr>"

lemma compare_terminates_witness: "\<exists>c \<in> {- 1, 0, 1}. Compare 4 sample_heap (VArray 1) (VArray 1) = Some c"
proof -
  have "depth_le sample_heap 3 (VArray 1)" by code_simp
  then show ?thesis using compare_terminates [of sample_heap 3 "VArray 1" "VArray 1"] by simp
qed



text \<open>C30. Two arrays are loosely equal exactly when they have as many entries and every key of the
  left one is in the right one with a loosely equal value. The order of the entries is free.\<close>

theorem compare_arrays_equal:
  assumes "h_arrays h a = Some x" and "h_arrays h b = Some y" and "array_wf x"
  shows "Compare (Suc n) h (VArray a) (VArray b) = Some 0 \<longleftrightarrow>
    Array_Len x = Array_Len y \<and>
    (\<forall>k v. Array_Get x k = Some v \<longrightarrow>
       (\<exists>w. Array_Get y k = Some w \<and> Compare n h v w = Some 0))"
proof -
  have *: "Compare (Suc n) h (VArray a) (VArray b) = Some 0 \<longleftrightarrow>
      Array_Len x = Array_Len y \<and>
      (\<forall>(k, v) \<in> set (entries x). \<exists>w. Array_Get y k = Some w \<and> Compare n h v w = Some 0)"
    using assms
    by (simp add: comparableArray_def compareArrays_def Array_Range_entries visit_compare_eq_0 compareBools_def)
  have "(k, v) \<in> set (entries x) \<longleftrightarrow> Array_Get x k = Some v" for k v
    using distinct_entries [OF assms(3)] by (simp add: Get_entries [OF assms(3)])
  then show ?thesis unfolding * by (simp add: Ball_def split_paired_All)
qed

lemma compare_arrays_equal_witness: "Compare 2 sample_heap (VArray 0) (VArray 0) = Some 0"
proof -
  let ?x = "\<lparr>a_list = [VInt 1, VStr ''b''], a_keys = [], a_values = None, a_nextID = 2\<rparr>"
  have h: "h_arrays sample_heap 0 = Some ?x" by (simp add: sample_heap_def)
  have wf: "array_wf ?x" by (simp add: array_wf_def fits_def entries_def int_keys_def)
  have "Compare 1 sample_heap v v = Some 0" if "Array_Get ?x k = Some v" for k v
  proof -
    have "v = VInt 1 \<or> v = VStr ''b''"
      using that by (auto simp: Get_entries [OF wf] entries_def int_keys_def upt_conv_Cons split: if_splits)
    then show ?thesis using Compare_self [of v 0 sample_heap] by auto
  qed
  with wf show ?thesis
    using compare_arrays_equal [OF h h, of 1] by (simp add: numeral_2_eq_2)
qed

text \<open>The two readers of a number in a string agree: whatever \<open>is_numeric\<close> accepts, blanks and
  all, the prefix reader behind \<open>(int)\<close>, \<open>(float)\<close> and arithmetic takes whole, with the same
  integer or float.\<close>

theorem numeric_readers_agree:
  assumes "numericString s = Some n"
  shows "leadingFloat s = (n_text n, n_intText n) \<and>
    Number (VStr s) = (if n_isInt n then VInt (n_i n) else VFloat (n_f n)) \<and>
    (n_isInt n \<longrightarrow> Int_of (VStr s) = n_i n) \<and>
    (\<not> n_isInt n \<longrightarrow> Float (VStr s) = n_f n)"
  using numericString_prefix [OF assms] numericString_cases [OF assms]
  by (auto simp: Number_def Int_of_def Float_def parseInt_def split: option.splits if_splits)

lemma numeric_readers_agree_witness:
  "Number (VStr '' 12 '') = VInt 12 \<and> Int_of (VStr '' 12 '') = 12"
proof -
  have "numericString '' 12 '' = Some \<lparr>n_i = 12, n_f = f_zero, n_isInt = True, n_text = ''12'', n_intText = True\<rparr>"
    by code_simp
  then show ?thesis using numeric_readers_agree by simp
qed

end
