(* ===== verification/IncDec.thy ===== *)
theory IncDec
  imports Compare
begin

unbundle bit_operations_syntax

text \<open>
  \<open>internal/phpval/incdec.go\<close>: php's \<open>++\<close> and \<open>--\<close>, and the alphanumeric increment of strings.
\<close>

section \<open>Definitions\<close>

text \<open>
  The loop runs from the last byte to the first: \<open>inc_carry\<close> takes the bytes in that order and
  answers them with the flag that the carry ran off the start.
\<close>

fun inc_carry :: "string \<Rightarrow> string \<times> bool" where
  "inc_carry [] = ([], True)"
| "inc_carry (c # cs) =
     (let carry = (\<lambda>d. case inc_carry cs of (r, off) \<Rightarrow> (d # r, off))
      in if c = CHR ''z'' then carry CHR ''a''
         else if c = CHR ''Z'' then carry CHR ''A''
         else if c = CHR ''9'' then carry CHR ''0''
         else if (97 \<le> code c \<and> code c < 122) \<or> (65 \<le> code c \<and> code c < 90) \<or>
                 (48 \<le> code c \<and> code c < 57)
         then (char_of (code c + 1) # cs, False)
         else (c # cs, False))"

definition incrementString :: "string \<Rightarrow> string" where
  "incrementString s =
     (if s = [] then ''1''
      else
        case inc_carry (rev s) of (r, off) \<Rightarrow>
          let b = rev r
          in if \<not> off then b
             else if hd b = CHR ''a'' then CHR ''a'' # b
             else if hd b = CHR ''A'' then CHR ''A'' # b
             else CHR ''1'' # b)"

definition Increment :: "val \<Rightarrow> val" where
  "Increment v =
     (case GoStep v 1 of
        Some next_v \<Rightarrow> next_v
      | None \<Rightarrow>
          (case phpNumeric v of
             Some num \<Rightarrow>
               if n_isInt num
               then (if n_i num = max_i64 then VFloat (f_add (of_i64 (n_i num)) (of_i64 1))
                     else VInt (n_i num + 1))
               else VFloat (f_add (n_f num) (of_i64 1))
           | None \<Rightarrow>
               (case v of
                  VNil \<Rightarrow> VInt 1
                | VStr s \<Rightarrow> VStr (incrementString s)
                | _ \<Rightarrow> v)))"

definition Decrement :: "val \<Rightarrow> val" where
  "Decrement v =
     (case GoStep v (- 1) of
        Some next_v \<Rightarrow> next_v
      | None \<Rightarrow>
          (case phpNumeric v of
             Some num \<Rightarrow>
               if n_isInt num
               then (if n_i num = min_i64 then VFloat (f_sub (of_i64 (n_i num)) (of_i64 1))
                     else VInt (n_i num - 1))
               else VFloat (f_sub (n_f num) (of_i64 1))
           | None \<Rightarrow> (case v of VStr s \<Rightarrow> if s = [] then VInt (- 1) else v | _ \<Rightarrow> v)))"

definition StringNumber :: "string \<Rightarrow> val option" where
  "StringNumber s =
     (case numericString s of
        None \<Rightarrow> None
      | Some num \<Rightarrow> if n_isInt num then Some (VInt (n_i num)) else Some (VFloat (n_f num)))"

section \<open>The alphanumeric increment counts\<close>

text \<open>
  The bytes that carry, with their position in their class and the size of the class. A string of
  such bytes is a counter: the last byte steps fastest. \<open>place s\<close> is what one step of the byte to
  the left of s is worth, \<open>rank_of s\<close> the position of s among the strings of its shape.
\<close>

definition alnum :: "char \<Rightarrow> bool" where
  "alnum c \<longleftrightarrow> (97 \<le> code c \<and> code c \<le> 122) \<or> (65 \<le> code c \<and> code c \<le> 90) \<or> is_digit c"

definition class_base :: "char \<Rightarrow> int" where
  "class_base c = (if 97 \<le> code c then 97 else if 65 \<le> code c then 65 else 48)"

definition class_size :: "char \<Rightarrow> int" where
  "class_size c = (if 65 \<le> code c then 26 else 10)"

text \<open>Least significant byte first, as \<open>inc_carry\<close> reads.\<close>

fun place_rev :: "string \<Rightarrow> int" where
  "place_rev [] = 1"
| "place_rev (c # cs) = class_size c * place_rev cs"

fun rank_rev :: "string \<Rightarrow> int" where
  "rank_rev [] = 0"
| "rank_rev (c # cs) = (code c - class_base c) + class_size c * rank_rev cs"

text \<open>The shape of a string: the class of each byte.\<close>

definition shape :: "string \<Rightarrow> int list" where
  "shape s = map class_base s"

lemma code_char_of [simp]: "0 \<le> n \<Longrightarrow> n < 256 \<Longrightarrow> code (char_of n) = n"
  by (simp add: code_def take_bit_eq_mod)

lemma alnum_literals [simp]:
  "code CHR ''z'' = 122" "code CHR ''Z'' = 90" "code CHR ''a'' = 97" "code CHR ''A'' = 65"
  by (simp_all add: code_def)

lemma alnum_last:
  "alnum c \<Longrightarrow> code c - class_base c = class_size c - 1 \<longleftrightarrow> c \<in> {CHR ''z'', CHR ''Z'', CHR ''9''}"
  using code_inject [of c "CHR ''z''"] code_inject [of c "CHR ''Z''"] code_inject [of c "CHR ''9''"]
  by (auto simp: alnum_def class_base_def class_size_def is_digit_def)

lemma inc_carry_wrap:
  assumes "alnum c" and "c \<in> {CHR ''z'', CHR ''Z'', CHR ''9''}"
  obtains d where "\<And>cs. inc_carry (c # cs) = (case inc_carry cs of (r, off) \<Rightarrow> (d # r, off))"
    and "code d = class_base c" "class_base d = class_base c" "class_size d = class_size c"
  using assms(2) that [of "CHR ''a''"] that [of "CHR ''A''"] that [of "CHR ''0''"]
  by (auto simp: class_base_def class_size_def Let_def)

lemma inc_carry_step:
  assumes "alnum c" and "c \<notin> {CHR ''z'', CHR ''Z'', CHR ''9''}"
  obtains d where "\<And>cs. inc_carry (c # cs) = (d # cs, False)" "alnum d"
    and "code d = code c + 1" "class_base d = class_base c" "class_size d = class_size c"
proof -
  have k: "(97 \<le> code c \<and> code c < 122) \<or> (65 \<le> code c \<and> code c < 90) \<or> (48 \<le> code c \<and> code c < 57)"
    using assms code_inject [of c "CHR ''z''"] code_inject [of c "CHR ''Z''"]
      code_inject [of c "CHR ''9''"] by (auto simp: alnum_def is_digit_def)
  have c: "code (char_of (code c + 1)) = code c + 1" using k by auto
  show ?thesis
  proof (rule that [of "char_of (code c + 1)"])
    show "inc_carry (c # cs) = (char_of (code c + 1) # cs, False)" for cs
      using assms(2) k by (simp add: Let_def)
    show "alnum (char_of (code c + 1))" using k by (auto simp: alnum_def is_digit_def c)
    show "class_base (char_of (code c + 1)) = class_base c"
      "class_size (char_of (code c + 1)) = class_size c"
      using k by (auto simp: class_base_def class_size_def c)
  qed (rule c)
qed

text \<open>A byte that carried is the first of its class.\<close>

definition first_byte :: "char \<Rightarrow> bool" where
  "first_byte c \<longleftrightarrow> code c = class_base c"

lemma rank_first: "list_all first_byte s \<Longrightarrow> rank_rev s = 0"
  by (induction s) (auto simp: first_byte_def)

lemma first_byte_alnum: "alnum c \<Longrightarrow> class_base d = class_base c \<Longrightarrow> code d = class_base c \<Longrightarrow> alnum d"
  by (auto simp: alnum_def class_base_def is_digit_def split: if_splits)

lemma inc_carry_counts:
  assumes "list_all alnum s" and "inc_carry s = (r, off)"
  shows "list_all alnum r \<and> shape r = shape s \<and> (off \<longrightarrow> list_all first_byte r) \<and>
    rank_rev r = rank_rev s + 1 - (if off then place_rev s else 0)"
  using assms
proof (induction s arbitrary: r off)
  case Nil
  then show ?case by simp
next
  case (Cons c cs)
  have c: "alnum c" using Cons.prems by simp
  show ?case
  proof (cases "c \<in> {CHR ''z'', CHR ''Z'', CHR ''9''}")
    case False
    obtain d where "inc_carry (c # cs) = (d # cs, False)" "alnum d" "code d = code c + 1"
        "class_base d = class_base c" "class_size d = class_size c"
      using inc_carry_step [OF c False] by metis
    then show ?thesis using Cons.prems by (auto simp: shape_def)
  next
    case True
    obtain d where d: "inc_carry (c # cs) = (case inc_carry cs of (r, off) \<Rightarrow> (d # r, off))"
        "code d = class_base c" "class_base d = class_base c" "class_size d = class_size c"
      using inc_carry_wrap [OF c True] by metis
    obtain r' where r': "inc_carry cs = (r', off)" "r = d # r'"
      using Cons.prems(2) unfolding d(1) by (cases "inc_carry cs") auto
    have "code c - class_base c = class_size c - 1" using alnum_last [OF c] True by simp
    moreover have IH: "list_all alnum r'" "shape r' = shape cs" "off \<longrightarrow> list_all first_byte r'"
        "rank_rev r' = rank_rev cs + 1 - (if off then place_rev cs else 0)"
      using Cons.IH [OF _ r'(1)] Cons.prems(1) by auto
    moreover have "class_size c * rank_rev r' =
        class_size c * rank_rev cs + class_size c - (if off then class_size c * place_rev cs else 0)"
      by (simp add: IH(4) algebra_simps)
    ultimately have "rank_rev r = rank_rev (c # cs) + 1 - (if off then place_rev (c # cs) else 0)"
      using d(2-4) unfolding r'(2) by (cases off) simp_all
    moreover have "first_byte d" "alnum d" using d(2,3) first_byte_alnum [OF c] by (simp_all add: first_byte_def)
    ultimately show ?thesis using IH(1-3) d(3) r'(2) by (simp add: shape_def)
  qed
qed

section \<open>Properties\<close>

text \<open>C27. On letters and digits the string increment is a counter. The result is letters and digits again. Either it
  has the same class of character at every position and ranks one higher among the strings of that shape, so that a
  \<open>z\<close>, \<open>Z\<close> or \<open>9\<close> carries, or the string was the last of its shape, and the result is the first string
  one character longer, led by a, A or 1 after the class of the first character.\<close>

theorem increment_string_counts:
  assumes "s \<noteq> []" and "list_all alnum s"
  defines "t \<equiv> incrementString s"
  shows "list_all alnum t \<and>
    ((shape t = shape s \<and> rank_rev (rev t) = rank_rev (rev s) + 1) \<or>
     (rank_rev (rev s) = place_rev (rev s) - 1 \<and> shape (tl t) = shape s \<and> rank_rev (rev (tl t)) = 0 \<and>
      hd t = (if class_base (hd s) = 97 then CHR ''a'' else if class_base (hd s) = 65 then CHR ''A'' else CHR ''1'')))"
proof -
  obtain r off where r: "inc_carry (rev s) = (r, off)" by (cases "inc_carry (rev s)")
  have "list_all alnum (rev s)" using assms(2) by simp
  note c = inc_carry_counts [OF this r]
  have sh: "shape (rev r) = shape s" using c by (metis rev_map rev_rev_ident shape_def)
  show ?thesis
  proof (cases off)
    case False
    then have "t = rev r" using assms(1) r by (simp add: t_def incrementString_def)
    then show ?thesis using c sh False by simp
  next
    case True
    have rank: "rank_rev r = 0" using c True rank_first by blast
    obtain d b where b: "rev r = d # b" using sh assms(1) by (cases "rev r") (auto simp: shape_def)
    then have "d \<in> set r" by (metis list.set_intros(1) set_rev)
    then have "code d = class_base d" using c True by (auto simp: list_all_iff first_byte_def)
    moreover have "class_base d = class_base (hd s)"
      using sh b assms(1) by (cases s) (auto simp: shape_def)
    ultimately have "d = CHR ''a'' \<longleftrightarrow> class_base (hd s) = 97" "d = CHR ''A'' \<longleftrightarrow> class_base (hd s) = 65"
      using code_inject [of d "CHR ''a''"] code_inject [of d "CHR ''A''"] by auto
    then have "t = (if class_base (hd s) = 97 then CHR ''a'' else if class_base (hd s) = 65 then CHR ''A''
        else CHR ''1'') # rev r"
      using assms(1) r True b by (auto simp: t_def incrementString_def)
    moreover have "alnum CHR ''a''" "alnum CHR ''A''" "alnum CHR ''1''"
      by (simp_all add: alnum_def is_digit_def code_def)
    ultimately show ?thesis using c rank sh True by simp
  qed
qed

lemma increment_string_counts_witness:
  "rank_rev (rev (incrementString ''Az9'')) = rank_rev (rev ''Az9'') + 1 \<and> list_all alnum (incrementString ''Az9'')"
proof -
  have "list_all alnum ''Az9''" "rank_rev (rev ''Az9'') \<noteq> place_rev (rev ''Az9'') - 1" by code_simp+
  then show ?thesis using increment_string_counts [of "''Az9''"] by simp
qed

text \<open>On integers the two operators step by one exactly, and at the end of the int64 range they
  go over to float where a word would wrap. They undo each other inside it. A typed go integer
  keeps its type and wraps at its width instead.\<close>

theorem inc_dec_integers:
  "Increment (VInt x) = (if x = max_i64 then VFloat (f_add (of_i64 x) (of_i64 1)) else VInt (x + 1)) \<and>
   Decrement (VInt x) = (if x = min_i64 then VFloat (f_sub (of_i64 x) (of_i64 1)) else VInt (x - 1)) \<and>
   (x \<noteq> max_i64 \<longrightarrow> sint (x + 1) = sint x + 1 \<and> Decrement (Increment (VInt x)) = VInt x) \<and>
   (x \<noteq> min_i64 \<longrightarrow> sint (x - 1) = sint x - 1 \<and> Increment (Decrement (VInt x)) = VInt x)"
proof -
  have step: "GoStep (VInt y) d = None" for y d by (simp add: GoStep_def)
  have i: "Increment (VInt y) = (if y = max_i64 then VFloat (f_add (of_i64 y) (of_i64 1)) else VInt (y + 1))"
    and d: "Decrement (VInt y) = (if y = min_i64 then VFloat (f_sub (of_i64 y) (of_i64 1)) else VInt (y - 1))" for y
    by (simp_all add: Increment_def Decrement_def step phpNumeric_def num_of_int_def)
  have up: "sint (x + 1) = sint x + 1" if "x \<noteq> max_i64"
  proof -
    have "sint x \<noteq> sint max_i64" using that i64_eq_iff_sint by blast
    then have "in_i64 (sint x + 1)" using sint_i64_bounds [of x] unfolding in_i64_def sint_max_i64 sint_min_i64 by linarith
    moreover have "x + 1 = word_of_int (sint x + 1)" by simp
    ultimately show ?thesis using sint_word_of_int by metis
  qed
  have down: "sint (x - 1) = sint x - 1" if "x \<noteq> min_i64"
  proof -
    have "sint x \<noteq> sint min_i64" using that i64_eq_iff_sint by blast
    then have "in_i64 (sint x - 1)" using sint_i64_bounds [of x] unfolding in_i64_def sint_max_i64 sint_min_i64 by linarith
    moreover have "x - 1 = word_of_int (sint x - 1)" by simp
    ultimately show ?thesis using sint_word_of_int by metis
  qed
  have "x + 1 \<noteq> min_i64" if "x \<noteq> max_i64"
  proof
    assume "x + 1 = min_i64"
    then have "sint x + 1 = - 9223372036854775808" using up [OF that] by simp
    then show False using sint_i64_bounds(1) [of x] by linarith
  qed
  moreover have "x - 1 \<noteq> max_i64" if "x \<noteq> min_i64"
  proof
    assume "x - 1 = max_i64"
    then have "sint x - 1 = 9223372036854775807" using down [OF that] by simp
    then show False using sint_i64_bounds(2) [of x] by linarith
  qed
  ultimately show ?thesis using up down by (simp add: i d)
qed

lemma inc_dec_integers_witness:
  "Increment (VInt max_i64) = VFloat (FFin False 4503599627370496 11) \<and> Decrement (Increment (VInt 7)) = VInt 7"
proof -
  have "f_add (of_i64 max_i64) (of_i64 1) = FFin False 4503599627370496 11" by code_simp
  moreover have "(7 :: i64) \<noteq> max_i64" by (simp add: max_i64_def)
  ultimately show ?thesis using inc_dec_integers [of max_i64] inc_dec_integers [of 7] by argo
qed

end
