(* ===== verification/AutoGlobals.thy ===== *)
theory AutoGlobals
  imports Compare
begin

text \<open>
  \<open>internal/phpval/autoglobals.go\<close>: php's superglobals in eight fields. A field that holds nil is
  unbound, so that assigning null to a superglobal and never assigning it are the same state.
\<close>

section \<open>Definitions\<close>

record AutoGlobals =
  g_Cookie :: val
  g_Env :: val
  g_Files :: val
  g_Get :: val
  g_Post :: val
  g_Request :: val
  g_Server :: val
  g_Session :: val

text \<open>\<open>field\<close> answers a pointer; here it is the pair of a reader and a writer of that field.\<close>

definition globals_field ::
  "string \<Rightarrow> ((AutoGlobals \<Rightarrow> val) \<times> (val \<Rightarrow> AutoGlobals \<Rightarrow> AutoGlobals)) option" where
  "globals_field name =
     (if length name < 4 \<or> hd name \<noteq> CHR ''_'' then None
      else if name = ''_COOKIE'' then Some (g_Cookie, \<lambda>v. g_Cookie_update (\<lambda>_. v))
      else if name = ''_ENV'' then Some (g_Env, \<lambda>v. g_Env_update (\<lambda>_. v))
      else if name = ''_FILES'' then Some (g_Files, \<lambda>v. g_Files_update (\<lambda>_. v))
      else if name = ''_GET'' then Some (g_Get, \<lambda>v. g_Get_update (\<lambda>_. v))
      else if name = ''_POST'' then Some (g_Post, \<lambda>v. g_Post_update (\<lambda>_. v))
      else if name = ''_REQUEST'' then Some (g_Request, \<lambda>v. g_Request_update (\<lambda>_. v))
      else if name = ''_SERVER'' then Some (g_Server, \<lambda>v. g_Server_update (\<lambda>_. v))
      else if name = ''_SESSION'' then Some (g_Session, \<lambda>v. g_Session_update (\<lambda>_. v))
      else None)"

definition Globals_Set :: "AutoGlobals \<Rightarrow> string \<Rightarrow> val \<Rightarrow> bool \<times> AutoGlobals" where
  "Globals_Set g name v =
     (case globals_field name of
        None \<Rightarrow> (False, g)
      | Some (rd, wr) \<Rightarrow> (True, wr v g))"

definition Globals_Claims :: "string \<Rightarrow> bool" where
  "Globals_Claims name \<longleftrightarrow> globals_field name \<noteq> None"

definition Globals_Lookup :: "AutoGlobals \<Rightarrow> string \<Rightarrow> val option" where
  "Globals_Lookup g name =
     (case globals_field name of
        None \<Rightarrow> None
      | Some (rd, wr) \<Rightarrow> (case rd g of VNil \<Rightarrow> None | _ \<Rightarrow> Some (rd g)))"

definition Globals_entries :: "AutoGlobals \<Rightarrow> (string \<times> val) list" where
  "Globals_entries g =
     [(''_COOKIE'', g_Cookie g), (''_ENV'', g_Env g), (''_FILES'', g_Files g), (''_GET'', g_Get g),
      (''_POST'', g_Post g), (''_REQUEST'', g_Request g), (''_SERVER'', g_Server g),
      (''_SESSION'', g_Session g)]"

definition Globals_Range :: "AutoGlobals \<Rightarrow> (string \<Rightarrow> val \<Rightarrow> 's \<Rightarrow> 's) \<Rightarrow> 's \<Rightarrow> 's" where
  "Globals_Range g fn s =
     fold (\<lambda>(name, v) s. case v of VNil \<Rightarrow> s | _ \<Rightarrow> fn name v s) (Globals_entries g) s"

definition Globals_Reset :: "AutoGlobals \<Rightarrow> AutoGlobals" where
  "Globals_Reset g =
     \<lparr>g_Cookie = VNil, g_Env = VNil, g_Files = VNil, g_Get = VNil, g_Post = VNil,
      g_Request = VNil, g_Server = VNil, g_Session = VNil\<rparr>"

section \<open>Facts\<close>

definition superglobals :: "string list" where
  "superglobals = [''_COOKIE'', ''_ENV'', ''_FILES'', ''_GET'', ''_POST'', ''_REQUEST'', ''_SERVER'', ''_SESSION'']"

definition bound :: "val \<Rightarrow> val option" where
  "bound v = (if v = VNil then None else Some v)"

lemma bound_case: "(case v of VNil \<Rightarrow> None | _ \<Rightarrow> Some v) = bound v"
  by (cases v) (auto simp: bound_def)

lemma Claims_superglobals: "Globals_Claims name \<longleftrightarrow> name \<in> set superglobals"
  by (auto simp: Globals_Claims_def globals_field_def superglobals_def)

lemma Lookup_entries:
  "Globals_Lookup g name = (case map_of (Globals_entries g) name of Some v \<Rightarrow> bound v | None \<Rightarrow> None)"
  by (auto simp: Globals_Lookup_def globals_field_def Globals_entries_def bound_case)

lemma Set_entries:
  "Globals_entries (snd (Globals_Set g name v)) =
     (if Globals_Claims name then AList.update name v (Globals_entries g) else Globals_entries g)"
  by (auto simp: Globals_Set_def Globals_Claims_def globals_field_def Globals_entries_def)

lemma entries_names: "map fst (Globals_entries g) = superglobals"
  by (simp add: Globals_entries_def superglobals_def)

lemma Range_entries_bound:
  "Globals_Range g fn s = fold (\<lambda>(name, v). fn name v) (filter (\<lambda>(name, v). v \<noteq> VNil) (Globals_entries g)) s"
proof -
  have "fold (\<lambda>(name, v) s. case v of VNil \<Rightarrow> s | _ \<Rightarrow> fn name v s) es s =
      fold (\<lambda>(name, v). fn name v) (filter (\<lambda>(name, v). v \<noteq> VNil) es) s" for es
    by (induction es arbitrary: s) (auto split: val.split)
  then show ?thesis by (simp add: Globals_Range_def)
qed

section \<open>Properties\<close>

text \<open>C40. The eight fields behave as one table over the superglobal names. A store to any other name
  is refused and changes nothing, a store to a superglobal is what the next read answers and leaves
  the other seven alone, storing null unbinds, the walk visits the bound ones once each in name
  order, and a reset unbinds all.\<close>

theorem autoglobals_table:
  "fst (Globals_Set g name v) = (name \<in> set superglobals) \<and>
   (name \<notin> set superglobals \<longrightarrow> snd (Globals_Set g name v) = g \<and> Globals_Lookup g name = None) \<and>
   (name \<in> set superglobals \<longrightarrow>
      Globals_Lookup (snd (Globals_Set g name v)) other =
        (if other = name then bound v else Globals_Lookup g other)) \<and>
   Globals_Range g (\<lambda>name v acc. acc @ [name]) [] =
     filter (\<lambda>name. Globals_Lookup g name \<noteq> None) superglobals \<and>
   Globals_Lookup (Globals_Reset g) other = None"
proof -
  have cl: "fst (Globals_Set g name v) = (name \<in> set superglobals)"
    using Claims_superglobals [of name] by (auto simp: Globals_Set_def Globals_Claims_def split: option.splits)
  have un: "snd (Globals_Set g name v) = g \<and> Globals_Lookup g name = None" if "name \<notin> set superglobals"
    using that Claims_superglobals [of name]
    by (cases "globals_field name") (auto simp: Globals_Set_def Globals_Lookup_def Globals_Claims_def)
  have st: "Globals_Lookup (snd (Globals_Set g name v)) other =
        (if other = name then bound v else Globals_Lookup g other)" if "name \<in> set superglobals"
    using that by (simp add: Lookup_entries Set_entries Claims_superglobals update_conv')
  have "fold (\<lambda>(name, v) acc. acc @ [name]) es acc = acc @ map fst es" for es :: "(string \<times> val) list" and acc
    by (induction es arbitrary: acc) auto
  moreover have "map fst (filter (\<lambda>(name, v). v \<noteq> VNil) es) =
      filter (\<lambda>name. (case map_of es name of Some v \<Rightarrow> bound v | None \<Rightarrow> None) \<noteq> None) (map fst es)"
    if "distinct (map fst es)" for es :: "(string \<times> val) list"
  proof -
    have "filter (\<lambda>e. snd e \<noteq> VNil) es =
        filter (\<lambda>e. (case map_of es (fst e) of Some v \<Rightarrow> bound v | None \<Rightarrow> None) \<noteq> None) es"
      using that by (intro filter_cong) (auto simp: bound_def)
    then show ?thesis by (simp add: filter_map o_def case_prod_unfold)
  qed
  moreover have "distinct (map fst (Globals_entries g))" by (simp add: entries_names superglobals_def)
  ultimately have rg: "Globals_Range g (\<lambda>name v acc. acc @ [name]) [] =
      filter (\<lambda>name. Globals_Lookup g name \<noteq> None) superglobals"
    by (simp add: Range_entries_bound Lookup_entries flip: entries_names [of g])
  have "Globals_Lookup (Globals_Reset g) other = None"
    by (simp add: Lookup_entries Globals_entries_def Globals_Reset_def bound_def)
  with cl un st rg show ?thesis by blast
qed

lemma autoglobals_table_witness:
  "let g = \<lparr>g_Cookie = VNil, g_Env = VNil, g_Files = VNil, g_Get = VNil, g_Post = VInt 7,
     g_Request = VNil, g_Server = VNil, g_Session = VNil\<rparr>
   in Globals_Lookup (snd (Globals_Set g ''_GET'' (VInt 1))) ''_POST'' = Some (VInt 7) \<and>
     \<not> fst (Globals_Set g ''_X'' VNil)"
  unfolding Let_def
  using autoglobals_table [of "\<lparr>g_Cookie = VNil, g_Env = VNil, g_Files = VNil, g_Get = VNil, g_Post = VInt 7,
      g_Request = VNil, g_Server = VNil, g_Session = VNil\<rparr>" "''_GET''" "VInt 1" "''_POST''"]
    autoglobals_table [of "\<lparr>g_Cookie = VNil, g_Env = VNil, g_Files = VNil, g_Get = VNil, g_Post = VInt 7,
      g_Request = VNil, g_Server = VNil, g_Session = VNil\<rparr>" "''_X''"]
  by (simp add: superglobals_def bound_def Globals_Lookup_def globals_field_def)

end
