(* ===== verification/MapMap.thy ===== *)
theory MapMap
  imports Compare
begin

text \<open>
  \<open>runner/mapmap/mapmap.go\<close>: a superglobal as a read-only source with a layer of edits over it. A
  source is what its interface shows: the answers of \<open>Get\<close>, the entries \<open>Range\<close> visits in order
  and the count \<open>Len\<close>. The locale \<open>source_contract\<close> states what the layer relies on, and every
  source of the file is an interpretation of it.
\<close>

section \<open>Sources\<close>

record source =
  s_Get :: "string \<Rightarrow> val option"
  s_entries :: "(string \<times> val) list"
  s_Len :: nat

definition source_Range :: "source \<Rightarrow> (string \<Rightarrow> val \<Rightarrow> 's \<Rightarrow> bool \<times> 's) \<Rightarrow> 's \<Rightarrow> bool \<times> 's" where
  "source_Range src fn s = visit fn (s_entries src) s"

definition source_ok :: "source \<Rightarrow> bool" where
  "source_ok src \<longleftrightarrow>
     distinct (map fst (s_entries src)) \<and> s_Get src = map_of (s_entries src) \<and>
     s_Len src = length (s_entries src)"

locale source_contract =
  fixes to_source :: "'a \<Rightarrow> source" and well_formed :: "'a \<Rightarrow> bool"
  assumes contract: "well_formed s \<Longrightarrow> source_ok (to_source s)"
begin

lemma Get_iff_visited:
  "well_formed s \<Longrightarrow> s_Get (to_source s) k = Some v \<longleftrightarrow> (k, v) \<in> set (s_entries (to_source s))"
  using contract [of s] by (auto simp: source_ok_def)

lemma Len_counts_visits: "well_formed s \<Longrightarrow> s_Len (to_source s) = length (s_entries (to_source s))"
  using contract [of s] by (simp add: source_ok_def)

end

text \<open>A Go map of strings or of values; the list is the order of one iteration over it.\<close>

definition MapSource :: "(string \<times> string) list \<Rightarrow> source" where
  "MapSource s =
     \<lparr>s_Get = (\<lambda>key. map_option VStr (map_of s key)),
      s_entries = map (\<lambda>(key, value). (key, VStr value)) s,
      s_Len = length s\<rparr>"

definition ValueSource :: "(string \<times> val) list \<Rightarrow> source" where
  "ValueSource s = \<lparr>s_Get = map_of s, s_entries = s, s_Len = length s\<rparr>"

section \<open>The request\<close>

text \<open>The fields of \<open>http.Request\<close> the source reads, and the header map in one iteration order.\<close>

record request =
  r_Method :: string
  r_RequestURI :: string
  r_RawQuery :: string
  r_Host :: string
  r_Proto :: string
  r_Header :: "(string \<times> string list) list"

text \<open>\<open>http.Header.Get\<close>: the first value under the canonical spelling of the name, or "".\<close>

definition is_lower :: "char \<Rightarrow> bool" where "is_lower c \<longleftrightarrow> 97 \<le> code c \<and> code c \<le> 122"
definition is_upper :: "char \<Rightarrow> bool" where "is_upper c \<longleftrightarrow> 65 \<le> code c \<and> code c \<le> 90"

definition token_char :: "char \<Rightarrow> bool" where
  "token_char c \<longleftrightarrow> is_lower c \<or> is_upper c \<or> is_digit c \<or> c \<in> set ''!#$%&*+-.^_|~'' \<or>
     code c = 39 \<or> code c = 96"

fun canonical_from :: "bool \<Rightarrow> string \<Rightarrow> string" where
  "canonical_from upper [] = []"
| "canonical_from upper (c # cs) =
     (if upper \<and> is_lower c then char_of (code c - 32)
      else if \<not> upper \<and> is_upper c then char_of (code c + 32)
      else c) # canonical_from (c = CHR ''-'') cs"

definition canonical_key :: "string \<Rightarrow> string" where
  "canonical_key name = (if list_all token_char name then canonical_from True name else name)"

definition Header_Get :: "(string \<times> string list) list \<Rightarrow> string \<Rightarrow> string" where
  "Header_Get hs name =
     (case map_of hs (canonical_key name) of
        Some (v # _) \<Rightarrow> v
      | _ \<Rightarrow> '''')"

text \<open>The byte loop of \<open>headerName\<close>, with its flag.\<close>

fun header_bytes :: "bool \<Rightarrow> string \<Rightarrow> string" where
  "header_bytes upper [] = []"
| "header_bytes upper (c # cs) =
     (if c = CHR ''_'' then CHR ''-'' # header_bytes True cs
      else if upper then c # header_bytes False cs
      else if is_upper c then char_of (code c + 32) # header_bytes upper cs
      else c # header_bytes upper cs)"

definition headerName :: "string \<Rightarrow> string option" where
  "headerName key =
     (if key = ''HTTP_HOST'' \<or> length key \<le> 5 \<or> take 5 key \<noteq> ''HTTP_'' then None
      else Some (header_bytes True (drop 5 key)))"

definition cgi_byte :: "char \<Rightarrow> char" where
  "cgi_byte c = (if c = CHR ''-'' then CHR ''_'' else if is_lower c then char_of (code c - 32) else c)"

definition cgiName :: "string \<Rightarrow> string" where
  "cgiName name = ''HTTP_'' @ map cgi_byte name"

record RequestSource =
  rs_Request :: "request option"
  rs_Extra :: "source option"

definition rs_extra :: "RequestSource \<Rightarrow> string \<Rightarrow> val option" where
  "rs_extra s key = (case rs_Extra s of None \<Rightarrow> None | Some e \<Rightarrow> s_Get e key)"

definition request_Get :: "RequestSource \<Rightarrow> string \<Rightarrow> val option" where
  "request_Get s key =
     (case rs_Request s of
        None \<Rightarrow> None
      | Some r \<Rightarrow>
          (case rs_extra s key of
             Some v \<Rightarrow> Some v
           | None \<Rightarrow>
               (case headerName key of
                  Some name \<Rightarrow>
                    (let v = Header_Get (r_Header r) name
                     in if v \<noteq> '''' then Some (VStr v) else None)
                | None \<Rightarrow>
                    if key = ''REQUEST_METHOD'' then Some (VStr (r_Method r))
                    else if key = ''REQUEST_URI'' then Some (VStr (r_RequestURI r))
                    else if key = ''QUERY_STRING'' then Some (VStr (r_RawQuery r))
                    else if key = ''HTTP_HOST'' then Some (VStr (r_Host r))
                    else if key = ''SERVER_PROTOCOL'' then Some (VStr (r_Proto r))
                    else None)))"

definition derived :: "string list" where
  "derived = [''REQUEST_METHOD'', ''REQUEST_URI'', ''QUERY_STRING'', ''HTTP_HOST'', ''SERVER_PROTOCOL'']"

text \<open>What \<open>Range\<close> visits, in order: its three loops only skip or call the callback.\<close>

definition request_entries :: "RequestSource \<Rightarrow> (string \<times> val) list" where
  "request_entries s =
     (case rs_Request s of
        None \<Rightarrow> []
      | Some r \<Rightarrow>
          List.map_filter
            (\<lambda>key. if rs_extra s key \<noteq> None then None
                   else map_option (\<lambda>v. (key, v)) (request_Get s key)) derived @
          List.map_filter
            (\<lambda>(name, values).
               case values of
                 [] \<Rightarrow> None
               | v # _ \<Rightarrow> if rs_extra s (cgiName name) \<noteq> None then None
                          else Some (cgiName name, VStr v)) (r_Header r) @
          (case rs_Extra s of None \<Rightarrow> [] | Some e \<Rightarrow> s_entries e))"

definition request_source :: "RequestSource \<Rightarrow> source" where
  "request_source s =
     \<lparr>s_Get = request_Get s, s_entries = request_entries s, s_Len = length (request_entries s)\<rparr>"

text \<open>\<open>Lazy\<close>: the source is built at the first use, once; \<open>l_builds\<close> counts the calls of \<open>build\<close>.\<close>

record lazySource =
  l_done :: bool
  l_build :: "(unit \<Rightarrow> source option) option"
  l_src :: "source option"
  l_builds :: nat

definition Lazy :: "(unit \<Rightarrow> source option) option \<Rightarrow> lazySource" where
  "Lazy build = \<lparr>l_done = False, l_build = build, l_src = None, l_builds = 0\<rparr>"

definition lazy_resolve :: "lazySource \<Rightarrow> source option \<times> lazySource" where
  "lazy_resolve s =
     (let s1 =
        (if l_done s then s
         else
           let s2 = (case l_build s of
                       None \<Rightarrow> s
                     | Some b \<Rightarrow> s\<lparr>l_src := b (), l_builds := l_builds s + 1\<rparr>)
           in s2\<lparr>l_build := None, l_done := True\<rparr>)
      in (l_src s1, s1))"

definition lazy_Get :: "lazySource \<Rightarrow> string \<Rightarrow> val option \<times> lazySource" where
  "lazy_Get s key =
     (case lazy_resolve s of
        (None, s1) \<Rightarrow> (None, s1)
      | (Some src, s1) \<Rightarrow> (s_Get src key, s1))"

definition lazy_Len :: "lazySource \<Rightarrow> nat \<times> lazySource" where
  "lazy_Len s =
     (case lazy_resolve s of
        (None, s1) \<Rightarrow> (0, s1)
      | (Some src, s1) \<Rightarrow> (s_Len src, s1))"

definition lazy_entries :: "lazySource \<Rightarrow> (string \<times> val) list \<times> lazySource" where
  "lazy_entries s =
     (case lazy_resolve s of
        (None, s1) \<Rightarrow> ([], s1)
      | (Some src, s1) \<Rightarrow> (s_entries src, s1))"

section \<open>The layer of edits\<close>

record edit =
  e_key :: string
  e_value :: val
  e_gone :: bool

record MapMap =
  m_src :: "source option"
  m_edits :: "edit list"

definition New :: "source option \<Rightarrow> MapMap" where
  "New src = \<lparr>m_src = src, m_edits = []\<rparr>"

text \<open>The position of a key in a list of edits, \<open>None\<close> for -1.\<close>

fun find_from :: "nat \<Rightarrow> edit list \<Rightarrow> string \<Rightarrow> nat option" where
  "find_from i [] key = None"
| "find_from i (e # es) key = (if e_key e = key then Some i else find_from (Suc i) es key)"

definition mm_find :: "MapMap \<Rightarrow> string \<Rightarrow> nat option" where
  "mm_find m key = find_from 0 (m_edits m) key"

definition src_Get :: "MapMap \<Rightarrow> string \<Rightarrow> val option" where
  "src_Get m key = (case m_src m of None \<Rightarrow> None | Some src \<Rightarrow> s_Get src key)"

definition src_entries :: "MapMap \<Rightarrow> (string \<times> val) list" where
  "src_entries m = (case m_src m of None \<Rightarrow> [] | Some src \<Rightarrow> s_entries src)"

text \<open>The readers accept a nil receiver, \<open>None\<close> here.\<close>

definition mm_Read :: "MapMap option \<Rightarrow> string \<Rightarrow> val" where
  "mm_Read om key =
     (case om of
        None \<Rightarrow> VNil
      | Some m \<Rightarrow>
          (case mm_find m key of
             Some i \<Rightarrow> if e_gone (m_edits m ! i) then VNil else e_value (m_edits m ! i)
           | None \<Rightarrow> (case src_Get m key of Some v \<Rightarrow> v | None \<Rightarrow> VNil)))"

definition mm_Has :: "MapMap option \<Rightarrow> string \<Rightarrow> bool" where
  "mm_Has om key =
     (case om of
        None \<Rightarrow> False
      | Some m \<Rightarrow>
          (case mm_find m key of
             Some i \<Rightarrow> \<not> e_gone (m_edits m ! i)
           | None \<Rightarrow> src_Get m key \<noteq> None))"

definition mm_Write :: "MapMap \<Rightarrow> string \<Rightarrow> val \<Rightarrow> MapMap" where
  "mm_Write m key v =
     (case mm_find m key of
        Some i \<Rightarrow> m\<lparr>m_edits := (m_edits m)[i := (m_edits m ! i)\<lparr>e_value := v, e_gone := False\<rparr>]\<rparr>
      | None \<Rightarrow> m\<lparr>m_edits := m_edits m @ [\<lparr>e_key = key, e_value = v, e_gone = False\<rparr>]\<rparr>)"

definition mm_Delete :: "MapMap \<Rightarrow> string \<Rightarrow> MapMap" where
  "mm_Delete m key =
     (let i = mm_find m key; inSource = (src_Get m key \<noteq> None)
      in case i of
           Some j \<Rightarrow>
             if \<not> inSource then m\<lparr>m_edits := take j (m_edits m) @ drop (Suc j) (m_edits m)\<rparr>
             else m\<lparr>m_edits := (m_edits m)[j := (m_edits m ! j)\<lparr>e_value := VNil, e_gone := True\<rparr>]\<rparr>
         | None \<Rightarrow>
             if \<not> inSource then m
             else m\<lparr>m_edits := m_edits m @ [\<lparr>e_key = key, e_value = VNil, e_gone = True\<rparr>]\<rparr>)"

definition mm_Len :: "MapMap option \<Rightarrow> nat" where
  "mm_Len om =
     (case om of
        None \<Rightarrow> 0
      | Some m \<Rightarrow>
          let n = length (filter (\<lambda>e. \<not> e_gone e) (m_edits m))
          in snd (visit (\<lambda>key _ n. (True, if mm_find m key = None then n + 1 else n)) (src_entries m) n))"

text \<open>\<open>Range\<close> as nested loops: the source with the edits laid over it, then the layer's own keys.\<close>

definition mm_Range :: "MapMap option \<Rightarrow> (string \<Rightarrow> val \<Rightarrow> 's \<Rightarrow> bool \<times> 's) \<Rightarrow> 's \<Rightarrow> 's" where
  "mm_Range om fn s =
     (case om of
        None \<Rightarrow> s
      | Some m \<Rightarrow>
          (case visit
                  (\<lambda>key value s.
                     case mm_find m key of
                       Some i \<Rightarrow> if e_gone (m_edits m ! i) then (True, s) else fn key (e_value (m_edits m ! i)) s
                     | None \<Rightarrow> fn key value s)
                  (src_entries m) s of
             (False, s1) \<Rightarrow> s1
           | (True, s1) \<Rightarrow>
               snd (visit
                      (\<lambda>key e s.
                         if e_gone e then (True, s)
                         else if src_Get m key \<noteq> None then (True, s)
                         else fn key (e_value e) s)
                      (map (\<lambda>e. (e_key e, e)) (m_edits m)) s1)))"

definition mm_Release :: "MapMap option \<Rightarrow> MapMap option" where
  "mm_Release om = map_option (\<lambda>m. m\<lparr>m_edits := []\<rparr>) om"

section \<open>Facts\<close>

lemma find_from_None: "find_from i es key = None \<longleftrightarrow> key \<notin> e_key ` set es"
  by (induction es arbitrary: i) auto

lemma find_from_Some:
  "find_from i es key = Some j \<Longrightarrow> i \<le> j \<and> j - i < length es \<and> e_key (es ! (j - i)) = key"
proof (induction es arbitrary: i)
  case (Cons e es)
  show ?case
  proof (cases "e_key e = key")
    case False
    then have "Suc i \<le> j \<and> j - Suc i < length es \<and> e_key (es ! (j - Suc i)) = key"
      using Cons by simp
    moreover have "j - i = Suc (j - Suc i)" using calculation by linarith
    ultimately show ?thesis by simp
  qed (use Cons.prems in auto)
qed simp

text \<open>The edits by key.\<close>

definition edit_map :: "edit list \<Rightarrow> (string \<times> edit) list" where
  "edit_map es = map (\<lambda>e. (e_key e, e)) es"

lemma edit_map_zip: "edit_map es = zip (map e_key es) es"
  by (induction es) (auto simp: edit_map_def)

lemma edit_map_keys [simp]: "map fst (edit_map es) = map e_key es"
  by (simp add: edit_map_def o_def)

lemma edit_map_of_key: "map_of (edit_map es) k = Some e \<Longrightarrow> e_key e = k \<and> e \<in> set es"
  by (induction es) (auto simp: edit_map_def split: if_splits)

lemma edit_map_of_None: "map_of (edit_map es) k = None \<longleftrightarrow> k \<notin> e_key ` set es"
  by (induction es) (auto simp: edit_map_def)

lemma find_edit_map:
  assumes "distinct (map e_key es)"
  shows "(case find_from 0 es k of Some i \<Rightarrow> f (es ! i) | None \<Rightarrow> d) =
    (case map_of (edit_map es) k of Some e \<Rightarrow> f e | None \<Rightarrow> d)"
proof (cases "find_from 0 es k")
  case None
  then have "map_of (edit_map es) k = None" by (simp add: find_from_None edit_map_of_None)
  then show ?thesis using None by simp
next
  case (Some j)
  then have "j < length es" "e_key (es ! j) = k" using find_from_Some [OF Some] by simp_all
  then have "map_of (edit_map es) k = Some (es ! j)"
    using assms by (auto simp: edit_map_def o_def intro!: map_of_is_SomeI)
  then show ?thesis using Some by simp
qed

lemma edit_map_update:
  assumes "distinct (map e_key es)" and "find_from 0 es k = Some j" and "e_key e = k"
  shows "edit_map (es[j := e]) = AList.update k e (edit_map es)"
proof -
  have j: "j < length es" "e_key (es ! j) = k" using find_from_Some [OF assms(2)] by simp_all
  have "map e_key (es[j := e]) = map e_key es"
    using j assms(3) by (simp add: map_update list_update_same_conv)
  then show ?thesis
    using update_zip_nth [of "map e_key es" es j e] assms(1) j by (simp add: edit_map_zip)
qed

lemma edit_map_delete:
  assumes "distinct (map e_key es)" and "find_from 0 es k = Some j"
  shows "edit_map (take j es @ drop (Suc j) es) = AList.delete k (edit_map es)"
proof -
  have j: "j < length es" "e_key (es ! j) = k" using find_from_Some [OF assms(2)] by simp_all
  then have es: "es = take j es @ es ! j # drop (Suc j) es" by (simp add: id_take_nth_drop)
  have "k \<notin> e_key ` set (take j es) \<and> k \<notin> e_key ` set (drop (Suc j) es)"
    using assms(1) j(2) by (subst (asm) es) auto
  then have "AList.delete k (edit_map (take j es)) = edit_map (take j es)"
    "AList.delete k (edit_map (drop (Suc j) es)) = edit_map (drop (Suc j) es)"
    by (auto simp: edit_map_def image_iff)
  moreover have "AList.delete k (xs @ ys) = AList.delete k xs @ AList.delete k ys" for xs ys :: "(string \<times> edit) list"
    by (simp add: AList.delete_eq)
  ultimately show ?thesis using j by (subst (2) es) (simp add: edit_map_def)
qed

definition mm_ok :: "MapMap \<Rightarrow> bool" where
  "mm_ok m \<longleftrightarrow>
     distinct (map e_key (m_edits m)) \<and> (\<forall>src. m_src m = Some src \<longrightarrow> source_ok src) \<and>
     (\<forall>e \<in> set (m_edits m). e_gone e \<longrightarrow> src_Get m (e_key e) \<noteq> None)"

text \<open>What the layered map holds under a key.\<close>

definition mm_get :: "MapMap \<Rightarrow> string \<Rightarrow> val option" where
  "mm_get m key = (if mm_Has (Some m) key then Some (mm_Read (Some m) key) else None)"

lemma mm_get_eq:
  assumes "mm_ok m"
  shows "mm_get m k =
    (case map_of (edit_map (m_edits m)) k of
       Some e \<Rightarrow> if e_gone e then None else Some (e_value e)
     | None \<Rightarrow> src_Get m k)"
proof -
  have d: "distinct (map e_key (m_edits m))" using assms by (simp add: mm_ok_def)
  have "mm_get m k = (case find_from 0 (m_edits m) k of
      Some i \<Rightarrow> (\<lambda>e. if e_gone e then None else Some (e_value e)) (m_edits m ! i)
    | None \<Rightarrow> src_Get m k)"
    by (auto simp: mm_get_def mm_Has_def mm_Read_def mm_find_def split: option.splits)
  then show ?thesis using find_edit_map [OF d, where k = k and f = "\<lambda>e. if e_gone e then None else Some (e_value e)"] by simp
qed

lemma update_member: "x \<in> set (AList.update k v al) \<Longrightarrow> x = (k, v) \<or> x \<in> set al"
  by (induction al) (auto split: if_splits)

lemma delete_member: "x \<in> set (AList.delete k al) \<Longrightarrow> x \<in> set al"
  by (simp add: AList.delete_eq)

lemma src_Get_cong: "m_src m = m_src m' \<Longrightarrow> src_Get m = src_Get m'"
  by (auto simp: src_Get_def)

lemma Write_facts:
  assumes "mm_ok m"
  shows "edit_map (m_edits (mm_Write m k v)) =
      AList.update k \<lparr>e_key = k, e_value = v, e_gone = False\<rparr> (edit_map (m_edits m))"
    and "m_src (mm_Write m k v) = m_src m" and "mm_ok (mm_Write m k v)"
proof -
  let ?e = "\<lparr>e_key = k, e_value = v, e_gone = False\<rparr>"
  have d: "distinct (map e_key (m_edits m))" using assms by (simp add: mm_ok_def)
  show al: "edit_map (m_edits (mm_Write m k v)) = AList.update k ?e (edit_map (m_edits m))"
  proof (cases "find_from 0 (m_edits m) k")
    case None
    then have "k \<notin> fst ` set (edit_map (m_edits m))"
      by (auto simp: find_from_None edit_map_def)
    then show ?thesis using None
      by (simp add: mm_Write_def mm_find_def update_append_new) (simp add: edit_map_def)
  next
    case (Some j)
    then have "(m_edits m ! j)\<lparr>e_value := v, e_gone := False\<rparr> = ?e"
      using find_from_Some [OF Some] by (cases "m_edits m ! j") simp
    then show ?thesis using Some edit_map_update [OF d Some, of ?e]
      by (simp add: mm_Write_def mm_find_def)
  qed
  show s: "m_src (mm_Write m k v) = m_src m"
    by (simp add: mm_Write_def split: option.splits)
  have "e_gone e \<longrightarrow> src_Get m (e_key e) \<noteq> None" if "e \<in> set (m_edits (mm_Write m k v))" for e
  proof -
    have "e = ?e \<or> e \<in> set (m_edits m)"
    proof (cases "find_from 0 (m_edits m) k")
      case None
      then show ?thesis using that by (auto simp: mm_Write_def mm_find_def)
    next
      case (Some j)
      then have "(m_edits m ! j)\<lparr>e_value := v, e_gone := False\<rparr> = ?e"
        using find_from_Some [OF Some] by (cases "m_edits m ! j") simp
      then show ?thesis using that Some set_update_subset_insert
        by (fastforce simp: mm_Write_def mm_find_def)
    qed
    then show ?thesis using assms by (auto simp: mm_ok_def)
  qed
  moreover have "distinct (map e_key (m_edits (mm_Write m k v)))"
    using d distinct_update [of "edit_map (m_edits m)" k ?e] al by (metis edit_map_keys)
  ultimately show "mm_ok (mm_Write m k v)"
    using assms s by (auto simp: mm_ok_def src_Get_def)
qed

lemma mm_Delete_facts:
  assumes "mm_ok m"
  shows "m_src (mm_Delete m k) = m_src m"
    and "edit_map (m_edits (mm_Delete m k)) =
      (if src_Get m k \<noteq> None
       then AList.update k \<lparr>e_key = k, e_value = VNil, e_gone = True\<rparr> (edit_map (m_edits m))
       else AList.delete k (edit_map (m_edits m)))"
    and "mm_ok (mm_Delete m k)"
proof -
  let ?e = "\<lparr>e_key = k, e_value = VNil, e_gone = True\<rparr>"
  have d: "distinct (map e_key (m_edits m))" using assms by (simp add: mm_ok_def)
  show s: "m_src (mm_Delete m k) = m_src m"
    by (simp add: mm_Delete_def Let_def split: option.splits)
  have up: "(m_edits m ! j)\<lparr>e_value := VNil, e_gone := True\<rparr> = ?e" if "find_from 0 (m_edits m) k = Some j" for j
    using find_from_Some [OF that] by (cases "m_edits m ! j") simp
  show al: "edit_map (m_edits (mm_Delete m k)) =
      (if src_Get m k \<noteq> None then AList.update k ?e (edit_map (m_edits m))
       else AList.delete k (edit_map (m_edits m)))"
  proof (cases "find_from 0 (m_edits m) k")
    case None
    then have "k \<notin> fst ` set (edit_map (m_edits m))" by (auto simp: find_from_None edit_map_def)
    then show ?thesis using None
      by (auto simp: mm_Delete_def mm_find_def update_append_new) (simp add: edit_map_def)
  next
    case (Some j)
    then show ?thesis using edit_map_update [OF d Some, of ?e] edit_map_delete [OF d Some] up [OF Some]
      by (auto simp: mm_Delete_def mm_find_def)
  qed
  have "e_gone e \<longrightarrow> src_Get m (e_key e) \<noteq> None" if e: "e \<in> set (m_edits (mm_Delete m k))" for e
  proof -
    have in_edits: "(e_key e, e) \<in> set (edit_map (m_edits (mm_Delete m k)))" using e by (auto simp: edit_map_def)
    have "(e = ?e \<and> src_Get m k \<noteq> None) \<or> (e_key e, e) \<in> set (edit_map (m_edits m))"
    proof (cases "src_Get m k \<noteq> None")
      case True
      then show ?thesis using update_member [OF in_edits [unfolded al if_P [OF True]]] by blast
    next
      case False
      then show ?thesis using delete_member [OF in_edits [unfolded al if_not_P [OF False]]] by blast
    qed
    then show ?thesis using assms by (auto simp: mm_ok_def edit_map_def)
  qed
  moreover have "distinct (map e_key (m_edits (mm_Delete m k)))"
  proof -
    have "distinct (map fst (edit_map (m_edits (mm_Delete m k))))"
      unfolding al by (simp add: distinct_update distinct_delete d)
    then show ?thesis by simp
  qed
  ultimately show "mm_ok (mm_Delete m k)"
    using assms s by (auto simp: mm_ok_def src_Get_def)
qed

lemma mm_get_Write:
  assumes "mm_ok m"
  shows "mm_get (mm_Write m k v) k' = (if k' = k then Some v else mm_get m k')"
  by (simp add: mm_get_eq assms Write_facts src_Get_cong [OF Write_facts(2) [OF assms]] update_conv'
      split: option.split)

lemma mm_get_Delete:
  assumes "mm_ok m"
  shows "mm_get (mm_Delete m k) k' = (if k' = k then None else mm_get m k')"
  by (simp add: mm_get_eq assms mm_Delete_facts src_Get_cong [OF mm_Delete_facts(1) [OF assms]] update_conv'
      delete_conv' split: option.split)

subsection \<open>The entries a walk visits\<close>

definition mm_entries :: "MapMap \<Rightarrow> (string \<times> val) list" where
  "mm_entries m =
     List.map_filter
       (\<lambda>(k, v). case map_of (edit_map (m_edits m)) k of
                   Some e \<Rightarrow> if e_gone e then None else Some (k, e_value e)
                 | None \<Rightarrow> Some (k, v)) (src_entries m) @
     map (\<lambda>e. (e_key e, e_value e)) (filter (\<lambda>e. \<not> e_gone e \<and> src_Get m (e_key e) = None) (m_edits m))"

lemma visit_map_filter:
  "visit fn (List.map_filter g es) s =
     visit (\<lambda>k v s. case g (k, v) of None \<Rightarrow> (True, s) | Some (k', v') \<Rightarrow> fn k' v' s) es s"
  by (induction es arbitrary: s) (auto simp: map_filter_def split: option.splits prod.splits bool.splits)

definition overlay :: "MapMap \<Rightarrow> string \<times> val \<Rightarrow> (string \<times> val) option" where
  "overlay m = (\<lambda>(k, v). case map_of (edit_map (m_edits m)) k of
                   Some e \<Rightarrow> if e_gone e then None else Some (k, e_value e)
                 | None \<Rightarrow> Some (k, v))"

lemma Range_step:
  assumes "mm_ok m"
  shows "(case mm_find m key of
        Some i \<Rightarrow> if e_gone (m_edits m ! i) then (True, s) else fn key (e_value (m_edits m ! i)) s
      | None \<Rightarrow> fn key value s) =
      (case overlay m (key, value) of None \<Rightarrow> (True, s) | Some (k', v') \<Rightarrow> fn k' v' s)"
proof -
  have d: "distinct (map e_key (m_edits m))" using assms by (simp add: mm_ok_def)
  show ?thesis
  proof (cases "find_from 0 (m_edits m) key")
    case None
    then have "map_of (edit_map (m_edits m)) key = None" by (simp add: find_from_None edit_map_of_None)
    then show ?thesis using None by (simp add: mm_find_def overlay_def)
  next
    case (Some j)
    then have "map_of (edit_map (m_edits m)) key = Some (m_edits m ! j)"
      using find_edit_map [OF d, where k = key and f = Some and d = None] by (auto split: option.splits)
    then show ?thesis using Some by (simp add: mm_find_def overlay_def)
  qed
qed

lemma Range_layer:
  "visit (\<lambda>key e s. if e_gone e then (True, s) else if src_Get m key \<noteq> None then (True, s)
        else fn key (e_value e) s) (map (\<lambda>e. (e_key e, e)) es) s =
      visit fn (map (\<lambda>e. (e_key e, e_value e)) (filter (\<lambda>e. \<not> e_gone e \<and> src_Get m (e_key e) = None) es)) s"
  by (induction es arbitrary: s) (auto split: prod.splits bool.splits)

lemma mm_Range_entries:
  assumes "mm_ok m"
  shows "mm_Range (Some m) fn s = snd (visit fn (mm_entries m) s)"
  unfolding mm_Range_def option.case Range_step [OF assms] Range_layer mm_entries_def visit_append
    visit_map_filter overlay_def [symmetric]
  by (simp split: prod.splits bool.splits)

text \<open>The keys of the two halves of the walk.\<close>

lemma overlay_keys:
  "map fst (List.map_filter (overlay m) es) =
     filter (\<lambda>k. case map_of (edit_map (m_edits m)) k of Some e \<Rightarrow> \<not> e_gone e | None \<Rightarrow> True) (map fst es)"
  by (induction es) (auto simp: map_filter_simps overlay_def split: option.splits if_splits)

lemma overlay_map_of:
  "map_of (List.map_filter (overlay m) es) k =
     (case map_of (edit_map (m_edits m)) k of
        Some e \<Rightarrow> if e_gone e \<or> k \<notin> fst ` set es then None else Some (e_value e)
      | None \<Rightarrow> map_of es k)"
proof (induction es)
  case (Cons e es)
  obtain j v where e: "e = (j, v)" by (cases e)
  show ?case using Cons
    by (cases "map_of (edit_map (m_edits m)) j") (auto simp: e map_filter_simps overlay_def split: option.splits)
qed (auto simp: map_filter_simps split: option.splits)

lemma layer_map_of:
  assumes "distinct (map e_key es)"
  shows "map_of (map (\<lambda>e. (e_key e, e_value e)) (filter P es)) k =
    (case map_of (edit_map es) k of Some e \<Rightarrow> if P e then Some (e_value e) else None | None \<Rightarrow> None)"
  using assms by (induction es) (auto simp: edit_map_def map_of_eq_None_iff image_iff split: option.splits)

lemma src_Get_visited:
  assumes "mm_ok m"
  shows "src_Get m = map_of (src_entries m)" "distinct (map fst (src_entries m))"
  using assms by (auto simp: mm_ok_def src_Get_def src_entries_def source_ok_def split: option.splits)

lemma mm_entries_map_of:
  assumes "mm_ok m"
  shows "map_of (mm_entries m) k = mm_get m k"
proof -
  have d: "distinct (map e_key (m_edits m))" using assms by (simp add: mm_ok_def)
  have key: "map_of (edit_map (m_edits m)) k = Some e \<Longrightarrow> e_key e = k" for e
    using edit_map_of_key by blast
  have vis: "k \<in> fst ` set (src_entries m) \<longleftrightarrow> src_Get m k \<noteq> None"
    using src_Get_visited(1) [OF assms] by (simp add: map_of_eq_None_iff)
  show ?thesis
  proof (cases "map_of (edit_map (m_edits m)) k")
    case None
    then show ?thesis using src_Get_visited(1) [OF assms]
      by (simp add: mm_entries_def overlay_def [symmetric] map_add_def overlay_map_of layer_map_of [OF d]
          mm_get_eq [OF assms] split: option.split)
  next
    case (Some e)
    then show ?thesis using key [OF Some] vis
      by (simp add: mm_entries_def overlay_def [symmetric] map_add_def overlay_map_of layer_map_of [OF d]
          mm_get_eq [OF assms])
  qed
qed

lemma mm_entries_distinct:
  assumes "mm_ok m"
  shows "distinct (map fst (mm_entries m))"
proof -
  have d: "distinct (map e_key (m_edits m))" using assms by (simp add: mm_ok_def)
  let ?layer = "filter (\<lambda>e. \<not> e_gone e \<and> src_Get m (e_key e) = None) (m_edits m)"
  have "distinct (map e_key ?layer)" using d by (rule distinct_map_filter)
  moreover have "e_key ` set ?layer \<inter> fst ` set (src_entries m) = {}"
    using src_Get_visited(1) [OF assms] by (auto simp: map_of_eq_None_iff image_iff)
  moreover have "distinct (map fst (List.map_filter (overlay m) (src_entries m)))"
    unfolding overlay_keys by (intro distinct_filter src_Get_visited(2) [OF assms])
  moreover have "fst ` set (List.map_filter (overlay m) (src_entries m)) \<subseteq> fst ` set (src_entries m)"
    by (metis (mono_tags, lifting) filter_is_subset list.set_map overlay_keys)
  ultimately show ?thesis
    by (simp add: mm_entries_def overlay_def [symmetric] o_def) blast
qed

lemma mm_Len_entries:
  assumes "mm_ok m"
  shows "mm_Len (Some m) = length (mm_entries m)"
proof -
  have d: "distinct (map e_key (m_edits m))" using assms by (simp add: mm_ok_def)
  let ?own = "map e_key (filter (\<lambda>e. \<not> e_gone e) (m_edits m))"
  let ?src = "filter (\<lambda>k. k \<notin> e_key ` set (m_edits m)) (map fst (src_entries m))"
  have "snd (visit (\<lambda>key _ n. (True, if mm_find m key = None then n + 1 else n)) es n) =
      n + length (filter (\<lambda>k. k \<notin> e_key ` set (m_edits m)) (map fst es))" for es :: "(string \<times> val) list" and n
    by (induction es arbitrary: n) (auto simp: mm_find_def find_from_None)
  then have len: "mm_Len (Some m) = length (?own @ ?src)" by (simp add: mm_Len_def)
  have "distinct (?own @ ?src)"
    using src_Get_visited(2) [OF assms] distinct_map_filter [OF d] by auto
  moreover have "set (?own @ ?src) = set (map fst (mm_entries m))"
  proof (rule set_eqI)
    fix k
    have "k \<in> set (map fst (mm_entries m)) \<longleftrightarrow> mm_get m k \<noteq> None"
      using mm_entries_map_of [OF assms, of k] map_of_eq_None_iff [of "mm_entries m" k] by auto
    also have "\<dots> \<longleftrightarrow> k \<in> set (?own @ ?src)"
    proof (cases "map_of (edit_map (m_edits m)) k")
      case None
      have "mm_get m k = map_of (src_entries m) k"
        using None mm_get_eq [OF assms, of k] src_Get_visited(1) [OF assms] by simp
      moreover have "k \<notin> e_key ` set (m_edits m)" using None by (simp add: edit_map_of_None)
      ultimately show ?thesis using map_of_eq_None_iff [of "src_entries m" k] by auto
    next
      case (Some e)
      have same: "e' = e" if "e' \<in> set (m_edits m)" "e_key e' = k" for e'
      proof -
        have "inj_on e_key (set (m_edits m))" using d by (simp add: distinct_map)
        moreover have "e_key e' = e_key e" "e \<in> set (m_edits m)"
          using that(2) edit_map_of_key [OF Some] by simp_all
        ultimately show ?thesis using that(1) by (auto dest: inj_onD)
      qed
      have e: "e_key e = k" "e \<in> set (m_edits m)" using edit_map_of_key [OF Some] by simp_all
      have "k \<in> set ?own \<longleftrightarrow> \<not> e_gone e"
      proof
        assume "k \<in> set ?own"
        then obtain e' where "e' \<in> set (m_edits m)" "e_key e' = k" "\<not> e_gone e'" by auto
        then show "\<not> e_gone e" using same by blast
      next
        assume "\<not> e_gone e"
        then show "k \<in> set ?own" using e by force
      qed
      moreover have "k \<in> e_key ` set (m_edits m)" using e by force
      moreover have "mm_get m k \<noteq> None \<longleftrightarrow> \<not> e_gone e"
        using Some mm_get_eq [OF assms, of k] by simp
      ultimately show ?thesis by auto
    qed
    finally show "k \<in> set (?own @ ?src) \<longleftrightarrow> k \<in> set (map fst (mm_entries m))" by blast
  qed
  ultimately have "length (?own @ ?src) = length (map fst (mm_entries m))"
    using mm_entries_distinct [OF assms] distinct_card by metis
  then show ?thesis using len by simp
qed

interpretation layered: lookup_store mm_get mm_Write mm_Delete "\<lambda>m. mm_Len (Some m)" "\<lambda>_. True" mm_ok
proof
  show "mm_ok m \<Longrightarrow> mm_get (mm_Write m k v) k' = (if k' = k then Some v else mm_get m k')" for m k v k'
    by (rule mm_get_Write)
  show "mm_ok m \<Longrightarrow> mm_get (mm_Delete m k) k' = (if k' = k then None else mm_get m k')" for m k k'
    by (rule mm_get_Delete)
  show "mm_ok m \<Longrightarrow> mm_ok (mm_Write m k v)" for m k v by (rule Write_facts)
  show "mm_ok m \<Longrightarrow> mm_ok (mm_Delete m k)" for m k by (rule mm_Delete_facts)
  show "mm_Len (Some (mm_Write m k v)) \<le> Suc (mm_Len (Some m))" if ok: "mm_ok m" for m k v
  proof -
    note ok' = Write_facts(3) [OF ok, of k v]
    let ?K = "\<lambda>m. set (map fst (mm_entries m))"
    have K: "x \<in> ?K m' \<longleftrightarrow> mm_get m' x \<noteq> None" if "mm_ok m'" for m' x
      using mm_entries_map_of [OF that, of x] map_of_eq_None_iff [of "mm_entries m'" x] by auto
    have "?K (mm_Write m k v) \<subseteq> insert k (?K m)"
    proof
      fix x assume "x \<in> ?K (mm_Write m k v)"
      then have "mm_get (mm_Write m k v) x \<noteq> None" using K [OF ok', of x] by simp
      then show "x \<in> insert k (?K m)"
        using mm_get_Write [OF ok, of k v x] K [OF ok, of x] by (cases "x = k") simp_all
    qed
    then have "card (?K (mm_Write m k v)) \<le> card (insert k (?K m))" by (intro card_mono) simp_all
    also have "\<dots> \<le> Suc (card (?K m))" by (simp add: card_insert_if)
    finally show ?thesis
      using distinct_card [OF mm_entries_distinct [OF ok]] distinct_card [OF mm_entries_distinct [OF ok']]
      by (simp add: mm_Len_entries ok ok')
  qed
qed simp

lemma mm_ok_New: "(\<forall>s. src = Some s \<longrightarrow> source_ok s) \<Longrightarrow> mm_ok (New src)"
  by (simp add: mm_ok_def New_def)

interpretation map_source: source_contract MapSource "\<lambda>s. distinct (map fst s)"
proof
  show "source_ok (MapSource s)" if "distinct (map fst s)" for s
  proof -
    have "map_option VStr (map_of s k) = map_of (map (\<lambda>(key, value). (key, VStr value)) s) k" for k
      by (induction s) auto
    then show ?thesis using that by (auto simp: source_ok_def MapSource_def o_def case_prod_unfold)
  qed
qed

interpretation value_source: source_contract ValueSource "\<lambda>s. distinct (map fst s)"
  by unfold_locales (simp add: source_ok_def ValueSource_def)

section \<open>Header names\<close>

text \<open>The spelling net/http stores a header under, and the CGI spelling of a name.\<close>

fun canonical :: "bool \<Rightarrow> string \<Rightarrow> bool" where
  "canonical upper [] = True"
| "canonical upper (c # cs) =
     (c \<noteq> CHR ''_'' \<and> (if upper then \<not> is_lower c else \<not> is_upper c) \<and> canonical (c = CHR ''-'') cs)"

definition cgi_spelling :: "string \<Rightarrow> bool" where
  "cgi_spelling k \<longleftrightarrow> (\<forall>c \<in> set k. \<not> is_lower c \<and> c \<noteq> CHR ''-'')"

lemma case_codes [simp]:
  "is_lower c \<Longrightarrow> code (char_of (code c - 32)) = code c - 32"
  "is_upper c \<Longrightarrow> code (char_of (code c + 32)) = code c + 32"
  by (simp_all add: is_lower_def is_upper_def code_def take_bit_eq_mod)

lemma code_marks [simp]: "code CHR ''_'' = 95"
  by (simp add: code_def)

lemma char_of_code [simp]: "char_of (code c) = c"
  by (simp add: code_def)

lemma upper_char [simp]:
  "is_lower c \<Longrightarrow> is_upper (char_of (code c - 32))" "is_upper c \<Longrightarrow> is_lower (char_of (code c + 32))"
  "is_lower c \<Longrightarrow> \<not> is_upper c"
proof -
  show "is_lower c \<Longrightarrow> is_upper (char_of (code c - 32))"
    unfolding is_upper_def case_codes(1) by (simp add: is_lower_def)
  show "is_upper c \<Longrightarrow> is_lower (char_of (code c + 32))"
    unfolding is_lower_def case_codes(2) by (simp add: is_upper_def)
  show "is_lower c \<Longrightarrow> \<not> is_upper c" by (simp add: is_lower_def is_upper_def)
qed

lemma marks_case [simp]:
  "\<not> is_lower CHR ''_''" "\<not> is_upper CHR ''_''" "\<not> is_lower CHR ''-''" "\<not> is_upper CHR ''-''"
  by (simp_all add: is_lower_def is_upper_def)

lemma cgi_byte_cases:
  "cgi_byte CHR ''-'' = CHR ''_''" "is_lower c \<Longrightarrow> cgi_byte c = char_of (code c - 32)"
  "\<not> is_lower c \<Longrightarrow> c \<noteq> CHR ''-'' \<Longrightarrow> cgi_byte c = c"
  by (auto simp: cgi_byte_def)

lemma lowered: "is_lower c \<Longrightarrow> char_of (code (char_of (code c - 32) :: char) + 32) = c"
  by simp

lemma upper_neq_mark: "is_upper c \<Longrightarrow> c \<noteq> CHR ''_'' \<and> c \<noteq> CHR ''-''"
  by auto

lemma header_bytes_cgi: "canonical upper n \<Longrightarrow> header_bytes upper (map cgi_byte n) = n"
proof (induction upper n rule: canonical.induct)
  case (2 upper c cs)
  consider "c = CHR ''-''" | "is_lower c" "\<not> upper" | "\<not> is_lower c" "c \<noteq> CHR ''-''" "c \<noteq> CHR ''_''"
    using 2 by (auto split: if_splits)
  then show ?case
  proof cases
    case 2
    then have "is_upper (cgi_byte c)" by (simp add: cgi_byte_cases)
    moreover have "c \<noteq> CHR ''-''" using 2 by auto
    ultimately show ?thesis using 2 "2.IH" "2.prems" upper_neq_mark [of "cgi_byte c"]
      by (simp add: cgi_byte_cases)
  qed (use 2 in \<open>auto simp: cgi_byte_cases split: if_splits\<close>)
qed simp

lemma cgi_header_bytes:
  "cgi_spelling k \<Longrightarrow> map cgi_byte (header_bytes upper k) = k \<and> canonical upper (header_bytes upper k)"
proof (induction upper k rule: header_bytes.induct)
  case (2 upper c cs)
  have c: "\<not> is_lower c" "c \<noteq> CHR ''-''" "cgi_spelling cs" using "2.prems" by (auto simp: cgi_spelling_def)
  consider "c = CHR ''_''" | "upper" "c \<noteq> CHR ''_''" | "\<not> upper" "is_upper c" | "\<not> upper" "\<not> is_upper c" "c \<noteq> CHR ''_''"
    by auto
  then show ?case
  proof cases
    case 3
    then have l: "is_lower (char_of (code c + 32))" by simp
    then have "char_of (code c + 32) \<noteq> CHR ''-''" "char_of (code c + 32) \<noteq> CHR ''_''" by auto
    then show ?thesis using 3 c "2.IH"(3) upper_neq_mark [of c] l
      by (simp add: cgi_byte_cases)
  qed (use c "2.IH" in \<open>auto simp: cgi_byte_cases\<close>)
qed simp

lemma canonical_from_id: "canonical upper n \<Longrightarrow> canonical_from upper n = n"
  by (induction upper n rule: canonical_from.induct) auto

lemma canonical_key_id: "canonical True n \<Longrightarrow> canonical_key n = n"
  by (simp add: canonical_key_def canonical_from_id)

lemma cgi_byte_spelling: "\<not> is_lower (cgi_byte c) \<and> cgi_byte c \<noteq> CHR ''-''"
proof (cases "is_lower c")
  case True
  then have "is_upper (cgi_byte c)" by (simp add: cgi_byte_cases)
  then show ?thesis by (auto simp: is_upper_def is_lower_def)
qed (auto simp: cgi_byte_def)

lemma cgiName_spelling: "cgi_spelling (cgiName n)"
proof -
  have "cgi_spelling ''HTTP_''" by (auto simp: cgi_spelling_def is_lower_def code_def)
  then show ?thesis using cgi_byte_spelling by (auto simp: cgi_spelling_def cgiName_def)
qed

lemma cgiName_not_host:
  assumes "canonical True n" and "n \<noteq> ''Host''"
  shows "cgiName n \<noteq> ''HTTP_HOST''"
proof
  assume "cgiName n = ''HTTP_HOST''"
  then have "map cgi_byte n = ''HOST''" by (simp add: cgiName_def)
  then have "n = header_bytes True ''HOST''" using header_bytes_cgi [OF assms(1)] by simp
  also have "header_bytes True ''HOST'' = ''Host''" by code_simp
  finally show False using assms(2) by simp
qed

lemma headerName_cgiName:
  "canonical True n \<Longrightarrow> n \<noteq> [] \<Longrightarrow> n \<noteq> ''Host'' \<Longrightarrow> headerName (cgiName n) = Some n"
  using cgiName_not_host [of n] header_bytes_cgi [of True n]
  by (simp add: headerName_def) (simp add: cgiName_def)

lemma cgiName_headerName:
  assumes "headerName k = Some n" and "cgi_spelling k"
  shows "cgiName n = k" and "canonical True n" and "n \<noteq> []"
proof -
  have t: "take 5 k = ''HTTP_''" "n = header_bytes True (drop 5 k)" "5 < length k"
    using assms(1) by (auto simp: headerName_def split: if_splits)
  then have k: "k = ''HTTP_'' @ drop 5 k" "n = header_bytes True (drop 5 k)" "5 < length k"
    using append_take_drop_id [of 5 k] by (metis, simp_all)
  have "cgi_spelling (drop 5 k)" using assms(2) by (auto simp: cgi_spelling_def dest: in_set_dropD)
  note c = cgi_header_bytes [OF this, of True]
  show "cgiName n = k" using c k by (simp add: cgiName_def)
  show "canonical True n" using c k by simp
  show "n \<noteq> []" using c k(2,3) by auto
qed

section \<open>The request source\<close>

definition header_ok :: "(string \<times> string list) list \<Rightarrow> bool" where
  "header_ok hs \<longleftrightarrow>
     distinct (map fst hs) \<and>
     (\<forall>(n, vs) \<in> set hs. canonical True n \<and> n \<noteq> [] \<and> n \<noteq> ''Host'' \<and> vs \<noteq> [] \<and> hd vs \<noteq> [])"

definition request_ok :: "RequestSource \<Rightarrow> bool" where
  "request_ok s \<longleftrightarrow>
     (\<exists>r. rs_Request s = Some r \<and> header_ok (r_Header r)) \<and>
     (\<forall>e. rs_Extra s = Some e \<longrightarrow> source_ok e)"

lemma derived_keys:
  "map_of (List.map_filter (\<lambda>key. if x key \<noteq> None then None else map_option (\<lambda>v. (key, v)) (g key)) ks) k =
     (if k \<in> set ks \<and> x k = None then g k else None)"
  by (induction ks) (auto simp: map_filter_simps split: option.splits)

definition header_entry :: "RequestSource \<Rightarrow> string \<times> string list \<Rightarrow> (string \<times> val) option" where
  "header_entry s = (\<lambda>(name, values).
     case values of
       [] \<Rightarrow> None
     | v # _ \<Rightarrow> if rs_extra s (cgiName name) \<noteq> None then None else Some (cgiName name, VStr v))"

lemma header_entry_Cons:
  "header_entry s (n, v # vs) =
     (if rs_extra s (cgiName n) \<noteq> None then None else Some (cgiName n, VStr v))"
  by (simp add: header_entry_def)

lemma header_entry_Some:
  "header_entry s h = Some kv \<Longrightarrow> fst kv = cgiName (fst h) \<and> rs_extra s (fst kv) = None"
  by (cases h) (auto simp: header_entry_def split: list.splits if_splits)

lemma header_keys:
  assumes "header_ok hs" and "cgi_spelling k"
  shows "map_of (List.map_filter (header_entry s) hs) k =
    (if rs_extra s k = None
     then (case headerName k of
             Some n \<Rightarrow> if Header_Get hs n \<noteq> [] then Some (VStr (Header_Get hs n)) else None
           | None \<Rightarrow> None)
     else None)"
  using assms(1)
proof (induction hs)
  case Nil
  then show ?case by (simp add: map_filter_simps Header_Get_def split: option.splits)
next
  case (Cons h hs)
  obtain n v vs where h: "h = (n, v # vs)" "canonical True n" "n \<noteq> []" "n \<noteq> ''Host''" "v \<noteq> []"
      "n \<notin> fst ` set hs"
    using Cons.prems by (cases h; cases "snd h") (auto simp: header_ok_def)
  have IH: "map_of (List.map_filter (header_entry s) hs) k = (if rs_extra s k = None
     then (case headerName k of
             Some n \<Rightarrow> if Header_Get hs n \<noteq> [] then Some (VStr (Header_Get hs n)) else None
           | None \<Rightarrow> None)
     else None)"
    using Cons.IH Cons.prems by (simp add: header_ok_def)
  have hn: "headerName (cgiName n) = Some n" by (rule headerName_cgiName [OF h(2,3,4)])
  show ?case
  proof (cases "cgiName n = k")
    case True
    then show ?thesis using IH hn h canonical_key_id [OF h(2)]
      by (auto simp: map_filter_simps header_entry_Cons Header_Get_def)
  next
    case False
    have "canonical_key m \<noteq> n" if "headerName k = Some m" for m
      using cgiName_headerName [OF that assms(2)] canonical_key_id [of m] False by auto
    then have "Header_Get (h # hs) m = Header_Get hs m" if "headerName k = Some m" for m
      using that by (auto simp: Header_Get_def h)
    then show ?thesis using IH False
      by (auto simp: map_filter_simps header_entry_Cons h split: option.splits)
  qed
qed

lemma header_entry_keys:
  assumes "header_ok hs"
  shows "distinct (map fst (List.map_filter (header_entry s) hs))"
    and "key \<in> fst ` set (List.map_filter (header_entry s) hs) \<Longrightarrow>
      rs_extra s key = None \<and> key \<notin> set derived"
proof -
  have sub: "\<exists>n vs. (n, vs) \<in> set hs \<and> k = cgiName n \<and> rs_extra s k = None"
    if "k \<in> fst ` set (List.map_filter (header_entry s) hs)" for k hs
  proof -
    obtain h kv where "h \<in> set hs" "header_entry s h = Some kv" "k = fst kv"
      using \<open>k \<in> _\<close> by (auto simp: map_filter_def)
    then have "(fst h, snd h) \<in> set hs \<and> k = cgiName (fst h) \<and> rs_extra s k = None"
      using header_entry_Some [of s h kv] by auto
    then show ?thesis by blast
  qed
  show "distinct (map fst (List.map_filter (header_entry s) hs))"
    using assms
  proof (induction hs)
    case (Cons h hs)
    have ok: "header_ok hs" using Cons.prems by (simp add: header_ok_def)
    obtain n v vs where h: "h = (n, v # vs)" "canonical True n" "n \<noteq> []" "n \<noteq> ''Host''"
        "n \<notin> fst ` set hs"
      using Cons.prems by (cases h; cases "snd h") (auto simp: header_ok_def)
    have "cgiName n \<notin> fst ` set (List.map_filter (header_entry s) hs)"
    proof
      assume "cgiName n \<in> fst ` set (List.map_filter (header_entry s) hs)"
      then obtain m ws where m: "(m, ws) \<in> set hs" "cgiName n = cgiName m"
        using sub by blast
      then have "headerName (cgiName m) = Some m"
        using ok headerName_cgiName [of m] by (auto simp: header_ok_def)
      then have "m = n" using m(2) headerName_cgiName [OF h(2,3,4)] by (metis option.inject)
      then show False using m(1) h(5) by force
    qed
    then show ?case using Cons.IH [OF ok]
      by (cases "rs_extra s (cgiName n)") (simp_all add: map_filter_simps header_entry_Cons h)
  qed (simp add: map_filter_simps)
  assume "key \<in> fst ` set (List.map_filter (header_entry s) hs)"
  then obtain n vs where n: "(n, vs) \<in> set hs" "key = cgiName n" "rs_extra s key = None"
    using sub by blast
  have "cgiName n \<noteq> ''HTTP_HOST''" using assms n(1) cgiName_not_host by (auto simp: header_ok_def)
  moreover have "take 5 (cgiName n) = ''HTTP_''" by (simp add: cgiName_def)
  ultimately have "key \<notin> set derived" using n(2) by (auto simp: derived_def)
  then show "rs_extra s key = None \<and> key \<notin> set derived" using n(3) by simp
qed

lemma request_entries_eq:
  assumes "rs_Request s = Some r"
  shows "request_entries s =
    List.map_filter (\<lambda>key. if rs_extra s key \<noteq> None then None
                   else map_option (\<lambda>v. (key, v)) (request_Get s key)) derived @
    List.map_filter (header_entry s) (r_Header r) @
    (case rs_Extra s of None \<Rightarrow> [] | Some e \<Rightarrow> s_entries e)"
  using assms by (simp add: request_entries_def header_entry_def cong: list.case_cong)

lemma extra_entries:
  assumes "request_ok s"
  shows "map_of (case rs_Extra s of None \<Rightarrow> [] | Some e \<Rightarrow> s_entries e) k = rs_extra s k"
    and "distinct (map fst (case rs_Extra s of None \<Rightarrow> [] | Some e \<Rightarrow> s_entries e))"
  using assms by (auto simp: request_ok_def rs_extra_def source_ok_def split: option.splits)

definition derived_entry :: "RequestSource \<Rightarrow> string \<Rightarrow> (string \<times> val) option" where
  "derived_entry s key =
     (if rs_extra s key \<noteq> None then None else map_option (\<lambda>v. (key, v)) (request_Get s key))"

lemma derived_entry_keys:
  "k \<in> fst ` set (List.map_filter (derived_entry s) ks) \<Longrightarrow> k \<in> set ks \<and> rs_extra s k = None"
  by (auto simp: map_filter_def derived_entry_def split: if_splits)

lemma derived_entry_Some: "derived_entry s k = Some kv \<Longrightarrow> fst kv = k"
  by (auto simp: derived_entry_def split: if_splits)

lemma derived_entry_distinct:
  "distinct ks \<Longrightarrow> distinct (map fst (List.map_filter (derived_entry s) ks))"
proof (induction ks)
  case (Cons k ks)
  then show ?case using derived_entry_keys [of k s ks]
    by (cases "derived_entry s k") (auto simp: map_filter_simps dest: derived_entry_Some)
qed (simp add: map_filter_simps)

lemma headerName_derived: "k \<in> set derived \<Longrightarrow> headerName k = None"
  by (auto simp: derived_def headerName_def)

lemma request_map_of:
  assumes "request_ok s" and "cgi_spelling k"
  shows "map_of (request_entries s) k = request_Get s k"
proof -
  obtain r where r: "rs_Request s = Some r" "header_ok (r_Header r)"
    using assms(1) by (auto simp: request_ok_def)
  let ?H = "map_of (List.map_filter (header_entry s) (r_Header r)) k"
  let ?D = "if k \<in> set derived \<and> rs_extra s k = None then request_Get s k else None"
  have parts: "map_of (request_entries s) k =
      (case ?D of Some v \<Rightarrow> Some v | None \<Rightarrow> (case ?H of Some v \<Rightarrow> Some v | None \<Rightarrow> rs_extra s k))"
    unfolding request_entries_eq [OF r(1)] map_of_append map_add_def extra_entries(1) [OF assms(1)]
      derived_keys by (simp split: option.split)
  note H = header_keys [OF r(2) assms(2), of s]
  show ?thesis
  proof (cases "rs_extra s k")
    case (Some v)
    then show ?thesis using parts H by (simp add: request_Get_def r(1))
  next
    case None
    show ?thesis
    proof (cases "headerName k")
      case (Some n)
      then have "k \<notin> set derived" using headerName_derived by force
      then show ?thesis using parts H None Some by (simp add: request_Get_def r(1) Let_def split: option.split)
    next
      case no_header: None
      have "k \<notin> set derived \<Longrightarrow> request_Get s k = None"
        using None no_header by (simp add: request_Get_def r(1) derived_def)
      then show ?thesis using parts H None no_header
        by (cases "k \<in> set derived"; cases "request_Get s k") simp_all
    qed
  qed
qed

lemma request_distinct:
  assumes "request_ok s"
  shows "distinct (map fst (request_entries s))"
proof -
  obtain r where r: "rs_Request s = Some r" "header_ok (r_Header r)"
    using assms(1) by (auto simp: request_ok_def)
  let ?D = "List.map_filter (derived_entry s) derived"
  let ?H = "List.map_filter (header_entry s) (r_Header r)"
  let ?E = "case rs_Extra s of None \<Rightarrow> [] | Some e \<Rightarrow> s_entries e"
  have "request_entries s = ?D @ ?H @ ?E"
    unfolding request_entries_eq [OF r(1)] derived_entry_def ..
  moreover have "fst ` set ?D \<inter> fst ` set ?H = {}"
    using derived_entry_keys header_entry_keys(2) [OF r(2)] by blast
  moreover have e: "rs_extra s k \<noteq> None" if "k \<in> fst ` set ?E" for k
    using that extra_entries(1) [OF assms, of k] map_of_eq_None_iff [of ?E k] by auto
  have "fst ` set ?D \<inter> fst ` set ?E = {}"
    by (intro equals0I) (metis IntD1 IntD2 e derived_entry_keys)
  moreover have "fst ` set ?H \<inter> fst ` set ?E = {}"
    by (intro equals0I) (metis IntD1 IntD2 e header_entry_keys(2) [OF r(2)])
  moreover have "distinct (map fst ?D)" "distinct (map fst ?H)" "distinct (map fst ?E)"
    by (rule derived_entry_distinct, simp add: derived_def)
       (rule header_entry_keys(1) [OF r(2)] extra_entries(2) [OF assms])+
  ultimately show ?thesis by (simp only: map_append distinct_append set_append set_map) blast
qed

text \<open>Two requests on which answering and visiting part.\<close>

definition sample_request :: "(string \<times> string list) list \<Rightarrow> RequestSource" where
  "sample_request hs =
     \<lparr>rs_Request = Some \<lparr>r_Method = ''GET'', r_RequestURI = ''/'', r_RawQuery = [], r_Host = ''h'',
        r_Proto = ''HTTP/1.1'', r_Header = hs\<rparr>, rs_Extra = None\<rparr>"

lemma request_answers_other_spellings:
  "request_Get (sample_request [(''Accept'', [''t''])]) ''HTTP_accept'' = Some (VStr ''t'') \<and>
   ''HTTP_accept'' \<notin> fst ` set (request_entries (sample_request [(''Accept'', [''t''])]))"
  by (simp add: sample_request_def request_Get_def rs_extra_def headerName_def is_upper_def is_lower_def
      code_def Header_Get_def canonical_key_def token_char_def request_entries_def derived_def
      map_filter_simps cgiName_def cgi_byte_def char_of_def)

lemma request_visits_empty_header:
  "request_Get (sample_request [(''Accept'', [''''])]) ''HTTP_ACCEPT'' = None \<and>
   (''HTTP_ACCEPT'', VStr '''') \<in> set (request_entries (sample_request [(''Accept'', [''''])]))"
  by (simp add: sample_request_def request_Get_def rs_extra_def headerName_def is_upper_def is_lower_def
      code_def Header_Get_def canonical_key_def token_char_def request_entries_def derived_def
      map_filter_simps cgiName_def cgi_byte_def char_of_def)

section \<open>Lazy sources\<close>

text \<open>Any run of reads on a lazy source.\<close>

fun lazy_reads :: "string list \<Rightarrow> lazySource \<Rightarrow> val option list \<times> lazySource" where
  "lazy_reads [] s = ([], s)"
| "lazy_reads (k # ks) s =
     (case lazy_Get s k of (v, s1) \<Rightarrow>
      case lazy_reads ks s1 of (vs, s2) \<Rightarrow> (v # vs, s2))"

lemma lazy_reads_done:
  "l_done s \<Longrightarrow> lazy_reads ks s = (map (\<lambda>k. case l_src s of None \<Rightarrow> None | Some src \<Rightarrow> s_Get src k) ks, s)"
  by (induction ks) (auto simp: lazy_Get_def lazy_resolve_def Let_def split: option.splits)

section \<open>The order of the entries\<close>

text \<open>The two halves of the walk under a change of one key.\<close>

lemma update_append:
  "AList.update k v (xs @ ys) = (if k \<in> fst ` set xs then AList.update k v xs @ ys else xs @ AList.update k v ys)"
  by (induction xs) auto

lemma delete_append: "AList.delete k (xs @ ys) = AList.delete k xs @ AList.delete k ys"
  by (simp add: AList.delete_eq)

lemma map_filter_set: "q \<in> set (List.map_filter g es) \<longleftrightarrow> (\<exists>p \<in> set es. g p = Some q)"
  by (induction es) (auto simp: map_filter_simps split: option.splits)

lemma map_filter_same:
  assumes "\<And>p. p \<in> set es \<Longrightarrow> g' p = g p"
  shows "List.map_filter g' es = List.map_filter g es"
  using assms by (induction es) (auto simp: map_filter_simps split: option.split)

lemma map_filter_update:
  assumes "\<And>p. fst p \<noteq> k \<Longrightarrow> g' p = g p" and "\<And>x. g (k, x) \<noteq> None" and "\<And>x. g' (k, x) = Some (k, v)"
    and "\<And>p q. g p = Some q \<Longrightarrow> fst q = fst p"
  shows "distinct (map fst es) \<Longrightarrow> k \<in> fst ` set es \<Longrightarrow>
    List.map_filter g' es = AList.update k v (List.map_filter g es)"
proof (induction es)
  case (Cons p es)
  have rest: "List.map_filter g' es = List.map_filter g es" if "k \<notin> fst ` set es"
    by (rule map_filter_same, rule assms(1)) (use that in force)
  show ?case
  proof (cases "fst p = k")
    case True
    then obtain x where p: "p = (k, x)" by (cases p) auto
    obtain q where q: "g (k, x) = Some q" "fst q = k" using assms(2) [of x] assms(4) [of p] p by fastforce
    have "k \<notin> fst ` set es" using Cons.prems(1) p by simp
    then show ?thesis using rest q by (cases q) (simp add: p map_filter_simps assms(3))
  next
    case False
    have "List.map_filter g' es = AList.update k v (List.map_filter g es)" using Cons False by auto
    then show ?thesis using assms(1) [OF False] assms(4) [of p] False
      by (cases "g p") (auto simp: map_filter_simps)
  qed
qed simp

lemma map_filter_delete:
  assumes "\<And>p. fst p \<noteq> k \<Longrightarrow> g' p = g p" and "\<And>p q. g p = Some q \<Longrightarrow> fst q = fst p" and "\<And>p q. g' p = Some q \<Longrightarrow> fst q = fst p"
  shows "AList.delete k (List.map_filter g' es) = AList.delete k (List.map_filter g es)"
proof (induction es)
  case (Cons p es)
  then show ?case
    using assms(1) [of p] assms(2,3) [of p]
    by (cases "fst p = k"; cases "g p"; cases "g' p") (auto simp: map_filter_simps AList.delete_eq)
qed simp

text \<open>The keys the source does not hold, of a list of edits by key.\<close>

definition own_entries :: "(string \<Rightarrow> bool) \<Rightarrow> (string \<times> edit) list \<Rightarrow> (string \<times> val) list" where
  "own_entries own al = map (\<lambda>(j, e). (j, e_value e)) (filter (\<lambda>(j, e). \<not> e_gone e \<and> own j) al)"

lemma own_entries_edits:
  "own_entries own (edit_map es) = map (\<lambda>e. (e_key e, e_value e)) (filter (\<lambda>e. \<not> e_gone e \<and> own (e_key e)) es)"
  by (induction es) (auto simp: own_entries_def edit_map_def)

lemma entries_halves:
  "mm_entries m = List.map_filter (overlay m) (src_entries m) @ own_entries (\<lambda>j. src_Get m j = None) (edit_map (m_edits m))"
  by (simp add: mm_entries_def overlay_def [symmetric] own_entries_edits)

lemma own_entries_update:
  "own k \<Longrightarrow> \<not> e_gone e \<Longrightarrow> (\<And>e'. (k, e') \<in> set al \<Longrightarrow> \<not> e_gone e') \<Longrightarrow>
   own_entries own (AList.update k e al) = AList.update k (e_value e) (own_entries own al)"
  by (induction al) (auto simp: own_entries_def)

lemma own_entries_other: "\<not> own k \<Longrightarrow> own_entries own (AList.update k e al) = own_entries own al"
  by (induction al) (auto simp: own_entries_def)

lemma own_entries_delete: "own_entries own (AList.delete k al) = AList.delete k (own_entries own al)"
  by (induction al) (auto simp: own_entries_def)

lemma own_entries_keys: "(j, x) \<in> set (own_entries own al) \<Longrightarrow> own j"
  by (auto simp: own_entries_def)

lemma overlay_key: "overlay m p = Some q \<Longrightarrow> fst q = fst p"
  by (cases p) (auto simp: overlay_def split: option.splits if_splits)
text \<open>Where a write goes: in place, or behind everything, unless it brings a removed source key back.\<close>

lemma entries_Write:
  assumes "mm_ok m" and "mm_get m k \<noteq> None \<or> src_Get m k = None"
  shows "mm_entries (mm_Write m k v) = AList.update k v (mm_entries m)"
proof -
  note w = Write_facts [OF assms(1), of k v]
  have src: "src_Get (mm_Write m k v) = src_Get m" "src_entries (mm_Write m k v) = src_entries m"
    using w(2) by (auto simp: src_Get_def src_entries_def)
  have other: "overlay (mm_Write m k v) p = overlay m p" if "fst p \<noteq> k" for p
    using that by (cases p) (simp add: overlay_def w(1) update_conv')
  have there: "overlay (mm_Write m k v) (k, x) = Some (k, v)" for x by (simp add: overlay_def w(1) update_conv')
  let ?src = "List.map_filter (overlay m) (src_entries m)"
  let ?own = "own_entries (\<lambda>j. src_Get m j = None) (edit_map (m_edits m))"
  note halves = entries_halves [of "mm_Write m k v", unfolded src w(1)] entries_halves [of m]
  have in_src: "j \<in> fst ` set (src_entries m) \<longleftrightarrow> src_Get m j \<noteq> None" for j
    using src_Get_visited(1) [OF assms(1)] by (auto simp: map_of_eq_None_iff)
  show ?thesis
  proof (cases "src_Get m k = None")
    case True
    have no: "p \<in> set (src_entries m) \<Longrightarrow> fst p \<noteq> k" for p using True in_src [of k] by force
    have "\<not> e_gone e'" if "(k, e') \<in> set (edit_map (m_edits m))" for e'
      using that assms(1) True by (auto simp: edit_map_def mm_ok_def)
    then have own: "own_entries (\<lambda>j. src_Get m j = None) (AList.update k \<lparr>e_key = k, e_value = v, e_gone = False\<rparr> (edit_map (m_edits m))) =
        AList.update k v ?own"
      using own_entries_update [of "\<lambda>j. src_Get m j = None" k "\<lparr>e_key = k, e_value = v, e_gone = False\<rparr>"] True by simp
    have "List.map_filter (overlay (mm_Write m k v)) (src_entries m) = ?src"
      by (rule map_filter_same) (use other no in blast)
    moreover have "k \<notin> fst ` set ?src"
      using no overlay_key [of m] by (force simp: List.map_filter_def)
    ultimately show ?thesis using halves own by (simp add: update_append)
  next
    case False
    have alive: "overlay m (k, x) \<noteq> None" for x
      using False assms by (auto simp: mm_get_eq overlay_def split: option.splits)
    have "List.map_filter (overlay (mm_Write m k v)) (src_entries m) = AList.update k v ?src"
      by (rule map_filter_update [where g = "overlay m"])
        (use other alive there overlay_key src_Get_visited(2) [OF assms(1)] in_src [of k] False in blast)+
    moreover have "k \<in> fst ` set ?src"
    proof -
      obtain x where x: "(k, x) \<in> set (src_entries m)" using in_src [of k] False by force
      obtain q where "overlay m (k, x) = Some q" using alive by blast
      then show ?thesis using x overlay_key [of m "(k, x)" q] by (force simp: List.map_filter_def)
    qed
    ultimately show ?thesis using halves False by (simp add: update_append own_entries_other)
  qed
qed

lemma entries_Write_others:
  assumes "mm_ok m"
  shows "AList.delete k (mm_entries (mm_Write m k v)) = AList.delete k (mm_entries m)"
proof (cases "mm_get m k \<noteq> None \<or> src_Get m k = None")
  case True
  then show ?thesis by (simp add: entries_Write [OF assms] delete_update_same)
next
  case False
  note w = Write_facts [OF assms, of k v]
  have src: "src_Get (mm_Write m k v) = src_Get m" "src_entries (mm_Write m k v) = src_entries m"
    using w(2) by (auto simp: src_Get_def src_entries_def)
  have other: "overlay (mm_Write m k v) p = overlay m p" if "fst p \<noteq> k" for p
    using that by (cases p) (simp add: overlay_def w(1) update_conv')
  show ?thesis
    using False map_filter_delete [OF other overlay_key overlay_key]
    by (simp add: entries_halves [of "mm_Write m k v", unfolded src w(1)] entries_halves [of m] delete_append own_entries_other)
qed

lemma entries_Delete:
  assumes "mm_ok m"
  shows "mm_entries (mm_Delete m k) = AList.delete k (mm_entries m)"
proof -
  note d = mm_Delete_facts [OF assms, of k]
  have src: "src_Get (mm_Delete m k) = src_Get m" "src_entries (mm_Delete m k) = src_entries m"
    using d(1) by (auto simp: src_Get_def src_entries_def)
  have other: "overlay (mm_Delete m k) p = overlay m p" if "fst p \<noteq> k" for p
    using that by (cases p) (auto simp: overlay_def d(2) update_conv' delete_conv')
  have gone: "overlay (mm_Delete m k) p = None" if "fst p = k" "src_Get m k \<noteq> None" for p
    using that by (cases p) (auto simp: overlay_def d(2) update_conv')
  let ?g = "List.map_filter (overlay (mm_Delete m k)) (src_entries m)"
  have "AList.delete k ?g = AList.delete k (List.map_filter (overlay m) (src_entries m))"
    by (rule map_filter_delete [OF other overlay_key overlay_key])
  moreover have "AList.delete k ?g = ?g"
  proof -
    have "k \<notin> fst ` set ?g"
    proof
      assume "k \<in> fst ` set ?g"
      then obtain p q where p: "p \<in> set (src_entries m)" "overlay (mm_Delete m k) p = Some q" "fst q = k"
        unfolding image_iff Bex_def map_filter_set by blast
      then have "fst p = k" using overlay_key by metis
      moreover from this have "src_Get m k \<noteq> None"
        using p(1) src_Get_visited(1) [OF assms] map_of_eq_None_iff [of "src_entries m" k] by (metis image_eqI)
      ultimately show False using gone p(2) by simp
    qed
    then show ?thesis by (simp add: AList.delete_eq filter_id_conv) force
  qed
  moreover have "own_entries (\<lambda>j. src_Get m j = None) (edit_map (m_edits (mm_Delete m k))) =
      AList.delete k (own_entries (\<lambda>j. src_Get m j = None) (edit_map (m_edits m)))"
  proof (cases "src_Get m k = None")
    case False
    then have "k \<notin> fst ` set (own_entries (\<lambda>j. src_Get m j = None) (edit_map (m_edits m)))"
      using own_entries_keys by fastforce
    then show ?thesis using False by (simp add: d(2) own_entries_other delete_idem)
  qed (simp add: d(2) own_entries_delete)
  ultimately show ?thesis
    by (simp add: entries_halves [of "mm_Delete m k", unfolded src] entries_halves [of m] delete_append)
qed

lemma entries_order:
  assumes "mm_ok m"
  shows "map fst (mm_entries m) =
    filter (\<lambda>j. mm_get m j \<noteq> None) (map fst (src_entries m)) @ filter (\<lambda>j. src_Get m j = None) (map fst (mm_entries m))"
proof -
  let ?own = "own_entries (\<lambda>j. src_Get m j = None) (edit_map (m_edits m))"
  have in_src: "j \<in> set (map fst (src_entries m)) \<longleftrightarrow> src_Get m j \<noteq> None" for j
    using src_Get_visited(1) [OF assms] by (auto simp: map_of_eq_None_iff)
  have "map fst (List.map_filter (overlay m) (src_entries m)) = filter (\<lambda>j. mm_get m j \<noteq> None) (map fst (src_entries m))"
    unfolding overlay_keys
  proof (rule filter_cong [OF refl])
    fix j assume "j \<in> set (map fst (src_entries m))"
    then have "src_Get m j \<noteq> None" using in_src by blast
    then show "(case map_of (edit_map (m_edits m)) j of None \<Rightarrow> True | Some e \<Rightarrow> \<not> e_gone e) = (mm_get m j \<noteq> None)"
      by (simp add: mm_get_eq [OF assms] split: option.split)
  qed
  moreover have "filter (\<lambda>j. src_Get m j = None) (map fst (List.map_filter (overlay m) (src_entries m))) = []"
    unfolding overlay_keys using in_src by (simp add: filter_empty_conv)
  moreover have "filter (\<lambda>j. src_Get m j = None) (map fst ?own) = map fst ?own"
    using own_entries_keys by (auto simp: filter_id_conv)
  ultimately show ?thesis by (simp add: entries_halves [of m])
qed


lemma entries_rewritten:
  assumes "mm_ok m" and "mm_get m k \<noteq> None"
  shows "mm_entries (mm_Write (mm_Delete m k) k v) =
    (if src_Get m k \<noteq> None then AList.update k v (mm_entries m) else AList.delete k (mm_entries m) @ [(k, v)])"
proof (cases "src_Get m k = None")
  case True
  note d = mm_Delete_facts [OF assms(1), of k]
  have "src_Get (mm_Delete m k) k = None" using True d(1) by (simp add: src_Get_def)
  then have "mm_entries (mm_Write (mm_Delete m k) k v) = AList.update k v (AList.delete k (mm_entries m))"
    using entries_Write [OF d(3)] by (simp add: entries_Delete [OF assms(1)])
  moreover have "k \<notin> fst ` set (AList.delete k (mm_entries m))" by (auto simp: AList.delete_eq)
  ultimately show ?thesis using True by (simp add: update_append_new)
next
  case False
  let ?a = "mm_Write (mm_Delete m k) k v" and ?b = "mm_Write m k v"
  have e: "edit_map (m_edits ?a) = edit_map (m_edits ?b)"
    using assms False by (simp add: Write_facts(1) mm_Delete_facts)
  then have "m_edits ?a = m_edits ?b"
    by (metis (no_types, lifting) edit_map_zip map_snd_zip length_map)
  moreover have "m_src ?a = m_src ?b" using assms by (simp add: Write_facts(2) mm_Delete_facts)
  ultimately have "?a = ?b" by (cases ?a; cases ?b) simp
  then show ?thesis using entries_Write [OF assms(1)] assms(2) False by simp
qed

section \<open>Properties\<close>

text \<open>C16. A layered map is an ordered map. What \<open>Has\<close> and \<open>Read\<close> answer, what \<open>Range\<close> visits and
  what \<open>Len\<close> counts are one list of entries with distinct keys: the source's keys that are not removed, in the source's
  order, then the layer's own. A write is read back at its key alone; it changes a key that is there in place, appends
  a key neither half holds, and moves no other entry when it brings a removed source key back. A delete takes its
  entry out and leaves the rest in order. All this whether the key is in the source, in the layer, in both or in neither,
  and the source is never changed.\<close>

theorem mapmap_is_a_map:
  assumes "mm_ok m"
  shows "distinct (map fst (mm_entries m)) \<and> map_of (mm_entries m) k = mm_get m k \<and>
    mm_Len (Some m) = length (mm_entries m) \<and>
    mm_Range (Some m) fn s = snd (visit fn (mm_entries m) s) \<and>
    mm_get (mm_Write m j v) k = (if k = j then Some v else mm_get m k) \<and>
    mm_get (mm_Delete m j) k = (if k = j then None else mm_get m k) \<and>
    mm_ok (mm_Write m j v) \<and> mm_ok (mm_Delete m j) \<and>
    m_src (mm_Write m j v) = m_src m \<and> m_src (mm_Delete m j) = m_src m \<and>
    map fst (mm_entries m) = filter (\<lambda>i. mm_get m i \<noteq> None) (map fst (src_entries m)) @
      filter (\<lambda>i. src_Get m i = None) (map fst (mm_entries m)) \<and>
    (mm_get m j \<noteq> None \<or> src_Get m j = None \<longrightarrow> mm_entries (mm_Write m j v) = AList.update j v (mm_entries m)) \<and>
    AList.delete j (mm_entries (mm_Write m j v)) = AList.delete j (mm_entries m) \<and>
    mm_entries (mm_Delete m j) = AList.delete j (mm_entries m)"
  using mm_entries_distinct [OF assms] mm_entries_map_of [OF assms, of k] mm_Len_entries [OF assms]
    mm_Range_entries [OF assms, of fn s] layered.get_put [OF assms, of j v k] layered.get_del [OF assms, of j k]
    Write_facts [OF assms, of j v] mm_Delete_facts [OF assms, of j] entries_order [OF assms] entries_Write [OF assms, of j v]
    entries_Write_others [OF assms, of j v] entries_Delete [OF assms, of j] by blast

definition sample_layer :: MapMap where
  "sample_layer = mm_Delete (mm_Write (New (Some (MapSource [(''a'', ''1''), (''b'', ''2'')]))) ''c'' VNil) ''a''"

lemma sample_layer_ok: "mm_ok sample_layer"
  unfolding sample_layer_def
  by (intro mm_Delete_facts(3) Write_facts(3) mm_ok_New) (auto intro!: map_source.contract)

lemma mapmap_is_a_map_witness:
  "mm_Len (Some sample_layer) = length (mm_entries sample_layer) \<and>
   mm_get (mm_Write sample_layer ''a'' (VBool True)) ''a'' = Some (VBool True) \<and>
   mm_get (mm_Delete sample_layer ''c'') ''c'' = None \<and>
   mm_entries (mm_Delete sample_layer ''c'') = AList.delete ''c'' (mm_entries sample_layer)"
  using mapmap_is_a_map [OF sample_layer_ok, of "''a''" "\<lambda>_ _ s. (True, s)" "()" "''a''" "VBool True"]
    mapmap_is_a_map [OF sample_layer_ok, of "''c''" "\<lambda>_ _ s. (True, s)" "()" "''c''" VNil] by simp

text \<open>C37. Deleting a key and writing it again: a key of the source takes its old position back, with the new
  value, while a key only the layer holds goes last, where an array puts both. So the walk visits a rewritten source key
  where it stood.\<close>

theorem mapmap_rewrite_keeps_source_position:
  assumes "mm_ok m" and "mm_get m k \<noteq> None"
  shows "mm_Range (Some (mm_Write (mm_Delete m k) k v)) fn s =
    snd (visit fn
      (if src_Get m k \<noteq> None then AList.update k v (mm_entries m) else AList.delete k (mm_entries m) @ [(k, v)]) s)"
  by (simp only: mm_Range_entries [OF Write_facts(3) [OF mm_Delete_facts(3) [OF assms(1)]]] entries_rewritten [OF assms])

lemma mapmap_rewrite_keeps_source_position_witness:
  "mm_Range (Some (mm_Write (mm_Delete (New (Some (MapSource [(''a'', ''1''), (''b'', ''2'')]))) ''a'') ''a'' VNil))
     (\<lambda>j v out. (True, out @ [(j, v)])) [] = [(''a'', VNil), (''b'', VStr ''2'')]"
proof -
  let ?m = "New (Some (MapSource [(''a'', ''1''), (''b'', ''2'')]))"
  have "mm_ok ?m" by (intro mm_ok_New) (auto intro!: map_source.contract)
  moreover have "mm_get ?m ''a'' \<noteq> None" "src_Get ?m ''a'' \<noteq> None"
    by (simp_all add: mm_get_def mm_Has_def mm_find_def src_Get_def New_def MapSource_def)
  moreover have "mm_entries ?m = [(''a'', VStr ''1''), (''b'', VStr ''2'')]"
    by (simp add: mm_entries_def New_def MapSource_def src_entries_def map_filter_simps edit_map_def)
  ultimately show ?thesis by (simp add: mapmap_rewrite_keeps_source_position)
qed

text \<open>C38. A request source answers what it visits, for a name in CGI spelling (no lower case letter, no dash) and a
  request whose headers are distinct, canonical, free of underscores and not empty, as most clients send them:
  \<open>Get\<close> and \<open>Range\<close> agree on every derived name, every header and every extra, an extra wins over the request,
  and \<open>Range\<close> visits no name twice. The two lemmas above show that without those conditions they do part: an empty
  header is visited and not answered, another spelling is answered and not visited.\<close>

theorem request_source_visits_what_it_answers:
  assumes "request_ok s" and "cgi_spelling k"
  shows "map_of (request_entries s) k = request_Get s k \<and> distinct (map fst (request_entries s)) \<and>
    (\<forall>v. rs_extra s k = Some v \<longrightarrow> request_Get s k = Some v)"
  using request_map_of [OF assms] request_distinct [OF assms(1)] assms(1)
  by (auto simp: request_ok_def request_Get_def)

lemma request_source_visits_what_it_answers_witness:
  "map_of (request_entries (sample_request [(''Accept'', [''t''])])) ''HTTP_ACCEPT'' =
     request_Get (sample_request [(''Accept'', [''t''])]) ''HTTP_ACCEPT''"
proof -
  have "header_ok [(''Accept'', [''t''])]" by code_simp
  then have "request_ok (sample_request [(''Accept'', [''t''])])"
    by (simp add: request_ok_def sample_request_def)
  moreover have "cgi_spelling ''HTTP_ACCEPT''" by code_simp
  ultimately show ?thesis using request_source_visits_what_it_answers by blast
qed

text \<open>C39. The name of a header other than \<open>Host\<close>, in canonical spelling and without an underscore, survives the trip
  to its CGI spelling and back, and so does every name in CGI spelling that \<open>headerName\<close> takes for a header. An
  underscore does not: CGI has one spelling for it and for the dash.\<close>

theorem header_name_round_trip:
  "(canonical True n \<and> n \<noteq> [] \<and> n \<noteq> ''Host'' \<longrightarrow> headerName (cgiName n) = Some n) \<and>
   (headerName k = Some m \<and> cgi_spelling k \<longrightarrow> cgiName m = k)"
  using headerName_cgiName cgiName_headerName(1) by blast

lemma header_name_round_trip_witness: "headerName (cgiName ''Accept-Encoding'') = Some ''Accept-Encoding''"
proof -
  have "canonical True ''Accept-Encoding''" by code_simp
  then show ?thesis using header_name_round_trip [of "''Accept-Encoding''"] by simp
qed

text \<open>A lazy source is built at most once, at the first read, and every read answers what the
  built source answers.\<close>

theorem lazy_source_builds_once:
  "lazy_reads (k # ks) (Lazy (Some build)) =
     (map (\<lambda>k. case build () of None \<Rightarrow> None | Some src \<Rightarrow> s_Get src k) (k # ks),
      \<lparr>l_done = True, l_build = None, l_src = build (), l_builds = 1\<rparr>)"
  by (auto simp: lazy_Get_def lazy_resolve_def Lazy_def Let_def lazy_reads_done split: option.splits)

end
