(* ===== verification/Copy.thy ===== *)
theory Copy
  imports Objects OrderedArray
begin

text \<open>
  \<open>model/copy.go\<close>: php's assignment semantics for a value. An array is copied with the arrays
  nested in it, anything else is a handle and answered as it is. The code recurses over the store
  and would not return on an array that contains itself; the model bounds the nesting it descends
  and answers \<open>None\<close> where the bound does not reach. \<open>Copy_value\<close> takes the bound from the
  store: no nesting is deeper than the number of arrays it holds.
\<close>

section \<open>Definitions\<close>

definition alloc_array :: "array \<Rightarrow> heap \<Rightarrow> addr \<times> heap" where
  "alloc_array a h = (h_next h, h\<lparr>h_arrays := (h_arrays h)(h_next h \<mapsto> a), h_next := Suc (h_next h)\<rparr>)"

definition copy_entry ::
  "(heap \<Rightarrow> val \<Rightarrow> (val \<times> heap) option) \<Rightarrow> val \<Rightarrow> val \<Rightarrow> (array \<times> heap) option \<Rightarrow> bool \<times> (array \<times> heap) option"
where
  "copy_entry copy key v s =
     (case s of
        None \<Rightarrow> (False, None)
      | Some (out, h) \<Rightarrow>
          (case copy h v of
             None \<Rightarrow> (False, None)
           | Some (w, h') \<Rightarrow> (True, Some (Array_Set out key w, h'))))"

definition CopyArray ::
  "(heap \<Rightarrow> val \<Rightarrow> (val \<times> heap) option) \<Rightarrow> heap \<Rightarrow> array \<Rightarrow> (addr \<times> heap) option"
where
  "CopyArray copy h a =
     map_option (\<lambda>(out, h'). alloc_array out h')
       (Array_Range a (copy_entry copy) (Some (NewArraySize (int (Array_Len a)), h)))"

fun CopyValue :: "nat \<Rightarrow> heap \<Rightarrow> val \<Rightarrow> (val \<times> heap) option" where
  "CopyValue n h (VArray a) =
     (case h_arrays h a of
        None \<Rightarrow> Some (VArray a, h)
      | Some arr \<Rightarrow>
          (case n of
             0 \<Rightarrow> None
           | Suc m \<Rightarrow> map_option (\<lambda>(p, h'). (VArray p, h')) (CopyArray (CopyValue m) h arr)))"
| "CopyValue n h v = Some (v, h)"

definition Copy_value :: "heap \<Rightarrow> val \<Rightarrow> (val \<times> heap) option" where
  "Copy_value h v = CopyValue (Suc (h_next h)) h v"

end
