(* ===== verification/Bytecode.thy ===== *)
theory Bytecode
  imports Arith Copy
begin

text \<open>
  \<open>flatstack/engine/program.go\<close>: the instruction set of the flat virtual machine, the compiled
  program and the host interface, with \<open>fastBinary\<close> and the two name lookups of \<open>vm.go\<close> that need
  no machine state.

  An instruction's integer fields keep their Go type, a plain \<open>int\<close> that may be negative. The map
  types of a \<open>Program\<close> are association lists with distinct keys.
\<close>

section \<open>Instructions\<close>

datatype opcode =
    OpPushConst | OpPop | OpDup | OpLoad | OpLoadConst | OpStore | OpArray | OpIndex | OpSetIndex
  | OpIncDecLocal | OpIncDecIndex | OpBinary | OpUnary | OpTruthy
  | OpJump | OpJumpFalse | OpJumpTrue | OpJumpNotNil | OpCall | OpRef | OpConstruct | OpCallMethod
  | OpGetProperty | OpSetProperty | OpEcho | OpIterInit | OpIterNext | OpIterSet | OpIterClose
  | OpCopyValue | OpUnsetLocal | OpUnsetIndex | OpTryPush | OpTryPop | OpThrow | OpRethrow | OpReturn
  | OpInclude | OpEnsureArray | OpVivifyIndex | OpVivifyProperty | OpClassConst | OpCast | OpClosure
  | OpDefineConst | OpDefer | OpInvoke | OpIncDecProp | OpUnsetProp
  | OpCompactInit | OpCompactEntry | OpCompactDynamic | OpCallStatic | OpStaticProp | OpSetStaticProp
  | OpStaticSeeded | OpStaticLoad | OpStaticStore | OpIncDecStatic | OpInitialized | OpCallable
  | OpBinLL | OpBinLC | OpBinTC

record instruction =
  i_op :: opcode
  i_a :: int
  i_b :: int
  i_c :: int
  i_target :: int
  i_name :: string
  i_extra :: string

text \<open>Go's composite literal \<open>instruction{op: ...}\<close> leaves the other fields zero.\<close>

definition instr :: "opcode \<Rightarrow> instruction" where
  "instr c = \<lparr>i_op = c, i_a = 0, i_b = 0, i_c = 0, i_target = 0, i_name = '''', i_extra = ''''\<rparr>"

abbreviation (input) "binNone \<equiv> (0 :: int)"
abbreviation (input) "binAdd \<equiv> (1 :: int)"
abbreviation (input) "binSub \<equiv> (2 :: int)"
abbreviation (input) "binMul \<equiv> (3 :: int)"
abbreviation (input) "binDiv \<equiv> (4 :: int)"
abbreviation (input) "binMod \<equiv> (5 :: int)"
abbreviation (input) "binLt \<equiv> (6 :: int)"
abbreviation (input) "binLe \<equiv> (7 :: int)"
abbreviation (input) "binGt \<equiv> (8 :: int)"
abbreviation (input) "binGe \<equiv> (9 :: int)"
abbreviation (input) "binEq \<equiv> (10 :: int)"
abbreviation (input) "binNe \<equiv> (11 :: int)"
abbreviation (input) "binIdent \<equiv> (12 :: int)"
abbreviation (input) "binNotIdent \<equiv> (13 :: int)"
abbreviation (input) "binConcat \<equiv> (14 :: int)"

definition binOpClass :: "string \<Rightarrow> int" where
  "binOpClass s =
     (if s = ''+'' then binAdd
      else if s = ''-'' then binSub
      else if s = ''*'' then binMul
      else if s = ''/'' then binDiv
      else if s = ''%'' then binMod
      else if s = ''<'' then binLt
      else if s = ''<='' then binLe
      else if s = ''>'' then binGt
      else if s = ''>='' then binGe
      else if s = ''=='' then binEq
      else if s = ''!='' then binNe
      else if s = ''==='' then binIdent
      else if s = ''!=='' then binNotIdent
      else if s = ''.'' then binConcat
      else binNone)"

section \<open>Programs\<close>

record userFuncDef =
  f_entryPC :: int
  f_paramSlots :: "int list"
  f_variadicSlot :: int

record closureDef =
  k_entryPC :: int
  k_paramSlots :: "int list"
  k_captures :: "int list"
  k_thisSlot :: int

record catchClause =
  t_declaredType :: string
  t_local :: int
  t_target :: int

text \<open>\<open>Program.classes\<close> only travels to the host's \<open>RegisterClass\<close> and is not part of the record.\<close>

record Program =
  p_code :: "instruction list"
  p_constants :: "val list"
  p_localNames :: "string list"
  p_nameSlots :: "(string \<times> nat) list"
  p_userFuncs :: "(string \<times> userFuncDef) list"
  p_userFuncsFold :: "(string \<times> userFuncDef) list"
  p_catchGroups :: "catchClause list list"
  p_closures :: "closureDef list"

definition lookupUserFunc :: "Program \<Rightarrow> string \<Rightarrow> userFuncDef option" where
  "lookupUserFunc p key =
     (case map_of (p_userFuncs p) key of
        Some def \<Rightarrow> Some def
      | None \<Rightarrow> map_of (p_userFuncsFold p) (map to_lower key))"

section \<open>Inlined operators\<close>

text \<open>\<open>fastBinary\<close> answers \<open>None\<close> for its false flag.\<close>

definition fast_concat :: "val \<Rightarrow> val \<Rightarrow> val option" where
  "fast_concat left right =
     (case (left, right) of
        (VStr l, VStr r) \<Rightarrow> Some (VStr (l @ r))
      | (VStr l, VInt r) \<Rightarrow> Some (VStr (l @ FormatInt r))
      | (VInt l, VStr r) \<Rightarrow> Some (VStr (FormatInt l @ r))
      | _ \<Rightarrow> None)"

definition fast_ints :: "int \<Rightarrow> i64 \<Rightarrow> i64 \<Rightarrow> val option" where
  "fast_ints class x y =
     (if class = binAdd then Some (AddInt x y)
      else if class = binSub then Some (SubInt x y)
      else if class = binMul then Some (MulInt x y)
      else if class = binDiv then (if y = 0 then None else Some (DivInt x y))
      else if class = binMod then (if y = 0 then None else Some (ModInt x y))
      else if class = binLt then Some (VBool (sint x < sint y))
      else if class = binLe then Some (VBool (sint x \<le> sint y))
      else if class = binGt then Some (VBool (sint x > sint y))
      else if class = binGe then Some (VBool (sint x \<ge> sint y))
      else if class = binEq \<or> class = binIdent then Some (VBool (x = y))
      else if class = binNe \<or> class = binNotIdent then Some (VBool (x \<noteq> y))
      else None)"

definition fastBinary :: "int \<Rightarrow> val \<Rightarrow> val \<Rightarrow> val option" where
  "fastBinary class left right =
     (if class = binConcat then fast_concat left right
      else
        (case (left, right) of
           (VInt x, VInt y) \<Rightarrow> fast_ints class x y
         | _ \<Rightarrow> None))"

section \<open>The host\<close>

text \<open>
  The host is code outside the engine, a parameter of every definition of the machine. What one
  host call does is a tree of interactions: it may invoke compiled closures it holds (each a
  nested run of the machine), read or write the variables of the frame in flight through
  \<open>FrameLocals\<close>, and call a by-reference setter it was passed, and it ends with an answer, the
  store and the rest of the world as the call left them. An answer of type \<open>goerr + 'r\<close> is Go's
  pair of a value and an error.
\<close>

type_synonym closure = "nat \<times> (nat \<times> val) list"
type_synonym vars = "(string \<times> val) list"

datatype ('w, 'r) hact =
    HReturn 'r heap 'w
  | HInvoke closure "val list" heap 'w "goerr + val \<Rightarrow> heap \<Rightarrow> 'w \<Rightarrow> ('w, 'r) hact"
  | HSnapshot "vars \<Rightarrow> ('w, 'r) hact"
  | HWriteBack vars "('w, 'r) hact"
  | HSetRef nat nat val "('w, 'r) hact"

type_synonym ('w, 'r) hop = "heap \<Rightarrow> 'w \<Rightarrow> ('w, 'r) hact"

record 'w Host =
  h_Construct :: "string \<Rightarrow> val list \<Rightarrow> ('w, goerr + val) hop"
  h_CallMethod :: "val \<Rightarrow> string \<Rightarrow> val list \<Rightarrow> ('w, goerr + val) hop"
  h_Call :: "string \<Rightarrow> string \<Rightarrow> val list \<Rightarrow> ('w, goerr + val) hop"
  h_GetProperty :: "val \<Rightarrow> string \<Rightarrow> ('w, val) hop"
  h_SetProperty :: "val \<Rightarrow> string \<Rightarrow> val \<Rightarrow> string \<Rightarrow> ('w, goerr option) hop"
  h_Lookup :: "string \<Rightarrow> ('w, val) hop"
  h_SetGlobal :: "string \<Rightarrow> val \<Rightarrow> ('w, bool) hop"
  h_Constant :: "string \<Rightarrow> ('w, goerr + val) hop"
  h_SetConstant :: "string \<Rightarrow> val \<Rightarrow> ('w, unit) hop"
  h_Array :: "(val \<times> val) list \<Rightarrow> ('w, val) hop"
  h_Index :: "val \<Rightarrow> val \<Rightarrow> ('w, val) hop"
  h_SetIndex :: "val \<Rightarrow> val \<Rightarrow> val \<Rightarrow> bool \<Rightarrow> string \<Rightarrow> ('w, goerr option) hop"
  h_SetEntry :: "val \<Rightarrow> val \<Rightarrow> val \<Rightarrow> ('w, goerr option) hop"
  h_UnsetIndex :: "val \<Rightarrow> val \<Rightarrow> ('w, goerr + val) hop"
  h_MatchCatch :: "string \<Rightarrow> goerr \<Rightarrow> ('w, bool) hop"
  h_Throw :: "val \<Rightarrow> ('w, goerr) hop"
  h_CatchValue :: "goerr \<Rightarrow> ('w, val) hop"
  h_ClassConst :: "string \<Rightarrow> string \<Rightarrow> ('w, goerr + val) hop"
  h_Cast :: "string \<Rightarrow> val \<Rightarrow> ('w, val) hop"
  h_Binary :: "string \<Rightarrow> val \<Rightarrow> val \<Rightarrow> ('w, goerr + val) hop"
  h_Unary :: "string \<Rightarrow> val \<Rightarrow> ('w, goerr + val) hop"
  h_Truthy :: "val \<Rightarrow> ('w, bool) hop"
  h_Entries :: "val \<Rightarrow> ('w, (val \<times> val) list) hop"
  h_Echo :: "val \<Rightarrow> ('w, goerr option) hop"
  h_InvokeCallable :: "val \<Rightarrow> ('w, goerr option) hop"
  h_SetID :: "val \<Rightarrow> string \<Rightarrow> ('w, unit) hop"

text \<open>The optional capabilities the machine finds by type assertion, \<open>None\<close> on a host without them.\<close>

record 'w FullHost = "'w Host" +
  h_InvokeValue :: "(val list \<Rightarrow> val \<Rightarrow> ('w, goerr + val) hop) option"
  h_UnsetProperty :: "(val \<Rightarrow> string \<Rightarrow> ('w, goerr option) hop) option"
  h_CallStatic :: "(string \<Rightarrow> val \<Rightarrow> val list \<Rightarrow> ('w, goerr + val) hop) option"
  h_GetStaticProp :: "(string \<Rightarrow> string \<Rightarrow> ('w, goerr + val) hop) option"
  h_SetStaticProp :: "(string \<Rightarrow> string \<Rightarrow> val \<Rightarrow> string \<Rightarrow> ('w, goerr option) hop) option"
  h_CallableValue :: "(val \<Rightarrow> string \<Rightarrow> ('w, goerr + val) hop) option"
  h_CallableMember :: "(val \<Rightarrow> val \<Rightarrow> ('w, goerr + val) hop) option"
  h_StaticVarBag :: "(val option \<Rightarrow> ('w, addr \<times> bool) hop) option"
  h_Include :: "(val \<Rightarrow> string \<Rightarrow> bool \<Rightarrow> vars \<Rightarrow> ('w, goerr + val \<times> vars) hop) option"
  h_Globals :: "('w \<Rightarrow> vars) option"

end
