(* ===== verification/Machine.thy ===== *)
theory Machine
  imports IncDec Bytecode
begin

text \<open>
  \<open>flatstack/engine/vm.go\<close>: the state of one run, its operand stack, locals, call frames, error
  handlers and deferred callables, and the instruction cycle.

  A computation of the machine (\<open>comp\<close>) takes the state to an interaction tree: it ends with an
  answer and the new state, or it asks for a compiled closure to be invoked and continues with
  what the invocation answers. The answer is a value or an \<open>exit\<close> that leaves the instruction:
  \<open>Raise\<close> offers an error to \<open>handle\<close>, \<open>Fail\<close> returns one from \<open>run\<close>, \<open>Halt\<close> ends the run
  with a result, \<open>Crash\<close> is a Go panic (an index out of range). The texts of the engine's own
  errors leave out the program counter they mention.

  Stacks are lists with the top in front. The frame and buffer pools of \<open>execState\<close> are storage
  reuse and not modelled, and neither are the deadline and memory checks between instructions.
\<close>

section \<open>State\<close>

record iteratorState =
  it_entries :: "(val \<times> val) list"
  it_index :: nat
  it_source :: val
  it_key :: val

record errorHandler =
  eh_target :: int
  eh_group :: int
  eh_pending :: int
  eh_start :: int
  eh_end :: int
  eh_stackDepth :: nat
  eh_frameDepth :: nat

record callFrame =
  cf_returnPC :: int
  cf_locals :: "val list"
  cf_initialized :: "bool list"
  cf_extras :: vars
  cf_refWrites :: "bool list"
  cf_iterators :: "iteratorState option list"
  cf_deferMark :: nat

record 'w execState =
  st_stack :: "val list"
  st_locals :: "val list"
  st_initialized :: "bool list"
  st_extras :: vars
  st_refWrites :: "bool list"
  st_iterators :: "iteratorState option list"
  st_handlers :: "errorHandler list"
  st_callFrames :: "callFrame list"
  st_deferred :: "val list"
  st_pc :: int
  st_heap :: heap
  st_world :: 'w

section \<open>Computations\<close>

datatype exit = Raise goerr | Fail goerr | Halt val | Crash

datatype ('w, 'r) act =
    Ret 'r
  | Invoke closure "val list" heap 'w "goerr + val \<Rightarrow> heap \<Rightarrow> 'w \<Rightarrow> ('w, 'r) act"

type_synonym ('w, 'a) comp = "'w execState \<Rightarrow> ('w, (exit + 'a) \<times> 'w execState) act"

primrec act_bind :: "('w, 'r) act \<Rightarrow> ('r \<Rightarrow> ('w, 's) act) \<Rightarrow> ('w, 's) act" where
  "act_bind (Ret r) f = f r"
| "act_bind (Invoke c args h w k) f = Invoke c args h w (\<lambda>r h' w'. act_bind (k r h' w') f)"

definition ret :: "'a \<Rightarrow> ('w, 'a) comp" where
  "ret a = (\<lambda>s. Ret (Inr a, s))"

definition leave :: "exit \<Rightarrow> ('w, 'a) comp" where
  "leave x = (\<lambda>s. Ret (Inl x, s))"

definition mbind :: "('w, 'a) comp \<Rightarrow> ('a \<Rightarrow> ('w, 'b) comp) \<Rightarrow> ('w, 'b) comp" where
  "mbind m f = (\<lambda>s. act_bind (m s) (\<lambda>(r, s'). case r of Inl x \<Rightarrow> Ret (Inl x, s') | Inr a \<Rightarrow> f a s'))"

definition mthen :: "('w, unit) comp \<Rightarrow> ('w, 'b) comp \<Rightarrow> ('w, 'b) comp" where
  "mthen m m' = mbind m (\<lambda>_. m')"

definition gets :: "('w execState \<Rightarrow> 'a) \<Rightarrow> ('w, 'a) comp" where
  "gets f = (\<lambda>s. Ret (Inr (f s), s))"

definition modify :: "('w execState \<Rightarrow> 'w execState) \<Rightarrow> ('w, unit) comp" where
  "modify f = (\<lambda>s. Ret (Inr (), f s))"

definition from_some :: "exit \<Rightarrow> 'a option \<Rightarrow> ('w, 'a) comp" where
  "from_some x r = (case r of None \<Rightarrow> leave x | Some a \<Rightarrow> ret a)"

definition or_raise :: "goerr + 'a \<Rightarrow> ('w, 'a) comp" where
  "or_raise r = (case r of Inl e \<Rightarrow> leave (Raise e) | Inr a \<Rightarrow> ret a)"

definition none_or_raise :: "goerr option \<Rightarrow> ('w, unit) comp" where
  "none_or_raise r = (case r of Some e \<Rightarrow> leave (Raise e) | None \<Rightarrow> ret ())"

abbreviation fail :: "string \<Rightarrow> ('w, 'a) comp" where
  "fail msg \<equiv> leave (Fail (ErrorString msg))"

text \<open>Indexing a Go slice: out of range panics.\<close>

definition index_at :: "'a list \<Rightarrow> int \<Rightarrow> 'a option" where
  "index_at xs i = (if 0 \<le> i \<and> nat i < length xs then Some (xs ! nat i) else None)"

definition slice_at :: "'a list \<Rightarrow> int \<Rightarrow> ('w, 'a) comp" where
  "slice_at xs i = from_some Crash (index_at xs i)"

section \<open>Stack and slots\<close>

definition push :: "val \<Rightarrow> ('w, unit) comp" where
  "push v = modify (\<lambda>s. s\<lparr>st_stack := v # st_stack s\<rparr>)"

definition pop :: "('w, val) comp" where
  "pop = mbind (gets st_stack) (\<lambda>stack.
     case stack of
       [] \<Rightarrow> fail ''operand stack underflow''
     | v # rest \<Rightarrow> mthen (modify (\<lambda>s. s\<lparr>st_stack := rest\<rparr>)) (ret v))"

definition peek :: "exit \<Rightarrow> ('w, val) comp" where
  "peek x = mbind (gets st_stack) (\<lambda>stack. case stack of [] \<Rightarrow> leave x | v # _ \<Rightarrow> ret v)"

definition args :: "int \<Rightarrow> ('w, val list) comp" where
  "args count = mbind (gets st_stack) (\<lambda>stack.
     if count < 0 \<or> int (length stack) < count then fail ''argument stack underflow''
     else mthen (modify (\<lambda>s. s\<lparr>st_stack := drop (nat count) stack\<rparr>)) (ret (rev (take (nat count) stack))))"

definition local_at :: "int \<Rightarrow> ('w, val) comp" where
  "local_at i = mbind (gets st_locals) (\<lambda>xs. slice_at xs i)"

definition initialized_at :: "int \<Rightarrow> ('w, bool) comp" where
  "initialized_at i = mbind (gets st_initialized) (\<lambda>xs. slice_at xs i)"

definition set_slot :: "int \<Rightarrow> val \<Rightarrow> bool \<Rightarrow> ('w, unit) comp" where
  "set_slot i v b = mbind (gets st_locals) (\<lambda>xs. mbind (slice_at xs i) (\<lambda>_.
     mbind (gets st_initialized) (\<lambda>bs. mbind (slice_at bs i) (\<lambda>_.
       modify (\<lambda>s. s\<lparr>st_locals := xs[nat i := v], st_initialized := bs[nat i := b]\<rparr>)))))"

definition set_cold :: "int \<Rightarrow> ('w, unit) comp" where
  "set_cold i = mbind (gets st_initialized) (\<lambda>bs. mbind (slice_at bs i) (\<lambda>_.
     modify (\<lambda>s. s\<lparr>st_initialized := bs[nat i := False]\<rparr>)))"

section \<open>The variables of a frame\<close>

definition hidden :: "string \<Rightarrow> bool" where
  "hidden name \<longleftrightarrow> name \<noteq> [] \<and> hd name = CHR 0x00"

definition Snapshot :: "Program \<Rightarrow> 'w execState \<Rightarrow> vars" where
  "Snapshot p s =
     (let vars = fold (\<lambda>(i, name) vars.
                   if st_initialized s ! i \<and> \<not> hidden name then AList.update name (st_locals s ! i) vars else vars)
                 (enumerate 0 (p_localNames p)) []
      in fold (\<lambda>(name, v) vars. if map_of vars name = None then AList.update name v vars else vars)
           (st_extras s) vars)"

definition lookupName :: "Program \<Rightarrow> 'w execState \<Rightarrow> string \<Rightarrow> val option" where
  "lookupName p s name =
     (case map_of (p_nameSlots p) name of
        Some slot \<Rightarrow> if st_initialized s ! slot then Some (st_locals s ! slot) else map_of (st_extras s) name
      | None \<Rightarrow> map_of (st_extras s) name)"

definition apply_name :: "Program \<Rightarrow> string \<Rightarrow> val \<Rightarrow> 'w execState \<Rightarrow> 'w execState" where
  "apply_name p name v s =
     (if name = [] \<or> hidden name then s
      else
        (case map_of (p_nameSlots p) name of
           Some i \<Rightarrow>
             if length (st_refWrites s) \<le> i \<or> \<not> st_refWrites s ! i
             then s\<lparr>st_locals := (st_locals s)[i := v], st_initialized := (st_initialized s)[i := True]\<rparr>
             else s
         | None \<Rightarrow> s\<lparr>st_extras := AList.update name v (st_extras s)\<rparr>))"

definition applyNamedValues :: "Program \<Rightarrow> vars \<Rightarrow> 'w execState \<Rightarrow> 'w execState" where
  "applyNamedValues p names s = fold (\<lambda>(name, v). apply_name p name v) names s"

definition WriteBack :: "Program \<Rightarrow> vars \<Rightarrow> 'w execState \<Rightarrow> 'w execState" where
  "WriteBack p vars s = applyNamedValues p vars s"

text \<open>
  A by-reference setter writes the frame that was in flight when \<open>opRef\<close> made it, which its depth
  names: the running one, or one that waits in a call frame. A setter is consumed by the host call
  it is passed to, so its frame is alive.
\<close>

definition set_ref :: "nat \<Rightarrow> nat \<Rightarrow> val \<Rightarrow> 'w execState \<Rightarrow> 'w execState" where
  "set_ref depth slot v s =
     (let n = length (st_callFrames s)
      in if depth = n
         then s\<lparr>st_locals := (st_locals s)[slot := v], st_initialized := (st_initialized s)[slot := True],
                st_refWrites := (st_refWrites s)[slot := True]\<rparr>
         else if depth < n
         then (let i = n - 1 - depth; f = st_callFrames s ! i
               in s\<lparr>st_callFrames := (st_callFrames s)[i :=
                      f\<lparr>cf_locals := (cf_locals f)[slot := v],
                        cf_initialized := (cf_initialized f)[slot := True],
                        cf_refWrites := (cf_refWrites f)[slot := True]\<rparr>]\<rparr>)
         else s)"

section \<open>Host calls\<close>

primrec run_hact :: "Program \<Rightarrow> ('w, 'r) hact \<Rightarrow> ('w, 'r) comp" where
  "run_hact p (HReturn r h w) = (\<lambda>s. Ret (Inr r, s\<lparr>st_heap := h, st_world := w\<rparr>))"
| "run_hact p (HInvoke c xs h w k) = (\<lambda>s. Invoke c xs h w (\<lambda>r h' w'. run_hact p (k r h' w') s))"
| "run_hact p (HSnapshot k) = (\<lambda>s. run_hact p (k (Snapshot p s)) s)"
| "run_hact p (HWriteBack vars k) = (\<lambda>s. run_hact p k (WriteBack p vars s))"
| "run_hact p (HSetRef depth slot v k) = (\<lambda>s. run_hact p k (set_ref depth slot v s))"

definition host :: "Program \<Rightarrow> ('w, 'r) hop \<Rightarrow> ('w, 'r) comp" where
  "host p f = (\<lambda>s. run_hact p (f (st_heap s) (st_world s)) s)"

definition host_val :: "Program \<Rightarrow> ('w, goerr + 'a) hop \<Rightarrow> ('w, 'a) comp" where
  "host_val p f = mbind (host p f) or_raise"

definition host_err :: "Program \<Rightarrow> ('w, goerr option) hop \<Rightarrow> ('w, unit) comp" where
  "host_err p f = mbind (host p f) none_or_raise"

definition loadLocal :: "Program \<Rightarrow> 'w FullHost \<Rightarrow> int \<Rightarrow> ('w, val) comp" where
  "loadLocal p H slot =
     mbind (initialized_at slot) (\<lambda>warm.
       if warm then local_at slot
       else mbind (slice_at (p_localNames p) slot) (\<lambda>name.
         mbind (gets st_extras) (\<lambda>extras.
           case map_of extras name of
             Some v \<Rightarrow> ret v
           | None \<Rightarrow> host p (h_Lookup H name))))"

end
