(* ===== verification/Unwinding.thy ===== *)
theory Unwinding
  imports Machine
begin

text \<open>
  The control half of \<open>flatstack/engine/vm.go\<close>: the deferred callables of a frame, the unwinding
  of an error to a handler, and the call frame a user function pushes.
\<close>

section \<open>Errors\<close>

text \<open>\<open>errors.Unwrap\<close> to the innermost error, and \<open>errors.As\<close> against \<open>scriptExit\<close>.\<close>

fun innermost :: "goerr \<Rightarrow> goerr" where
  "innermost (Wrapped msg e) = innermost e"
| "innermost e = e"

fun exiting :: "goerr \<Rightarrow> bool" where
  "exiting (ScriptExit n) = True"
| "exiting (Wrapped msg e) = exiting e"
| "exiting (Joined es) = list_ex exiting es"
| "exiting e = False"

definition errors_Join :: "goerr list \<Rightarrow> goerr option" where
  "errors_Join errs = (if errs = [] then None else Some (Joined errs))"

section \<open>Deferred callables\<close>

text \<open>The loop pops one registration per round: the count is how many lie above the mark.\<close>

primrec unwind_loop :: "Program \<Rightarrow> 'w FullHost \<Rightarrow> nat \<Rightarrow> goerr list \<Rightarrow> ('w, goerr list) comp" where
  "unwind_loop p H 0 errs = ret errs"
| "unwind_loop p H (Suc n) errs =
     mbind (gets st_deferred) (\<lambda>ds.
       case ds of
         [] \<Rightarrow> ret errs
       | cb # rest \<Rightarrow>
           mthen (modify (\<lambda>s. s\<lparr>st_deferred := rest\<rparr>))
             (if cb = VNil then unwind_loop p H n errs
              else mbind (host p (h_InvokeCallable H cb)) (\<lambda>r.
                case r of
                  None \<Rightarrow> unwind_loop p H n errs
                | Some e \<Rightarrow> unwind_loop p H n (errs @ [e]))))"

definition unwindDeferred :: "Program \<Rightarrow> 'w FullHost \<Rightarrow> nat \<Rightarrow> ('w, goerr option) comp" where
  "unwindDeferred p H mark =
     mbind (gets st_deferred) (\<lambda>ds.
       mbind (unwind_loop p H (length ds - mark) []) (\<lambda>errs. ret (errors_Join errs)))"

section \<open>Frames\<close>

definition push_frame :: "('w, unit) comp" where
  "push_frame = modify (\<lambda>s. s\<lparr>st_callFrames :=
     \<lparr>cf_returnPC = st_pc s, cf_locals = st_locals s, cf_initialized = st_initialized s,
      cf_extras = st_extras s, cf_refWrites = st_refWrites s, cf_iterators = st_iterators s,
      cf_deferMark = length (st_deferred s)\<rparr> # st_callFrames s\<rparr>)"

text \<open>Leaving a frame puts its caller's variables back; \<open>opReturn\<close> also resumes behind the call.\<close>

definition restore_frame :: "callFrame \<Rightarrow> 'w execState \<Rightarrow> 'w execState" where
  "restore_frame f s = s\<lparr>st_callFrames := tl (st_callFrames s), st_locals := cf_locals f,
     st_initialized := cf_initialized f, st_extras := cf_extras f, st_refWrites := cf_refWrites f,
     st_iterators := cf_iterators f\<rparr>"

definition frameSlots :: "nat \<Rightarrow> val list \<times> bool list" where
  "frameSlots n = (replicate n VNil, replicate n False)"

definition fresh_frame :: "Program \<Rightarrow> ('w, unit) comp" where
  "fresh_frame p = modify (\<lambda>s. s\<lparr>st_locals := fst (frameSlots (length (p_localNames p))),
     st_initialized := snd (frameSlots (length (p_localNames p))),
     st_extras := [], st_refWrites := [], st_iterators := []\<rparr>)"

fun bind_params :: "int list \<Rightarrow> val list \<Rightarrow> ('w, unit) comp" where
  "bind_params (slot # slots) (v # vs) = mthen (set_slot slot v True) (bind_params slots vs)"
| "bind_params _ _ = ret ()"

definition goto_pc :: "int \<Rightarrow> ('w, unit) comp" where
  "goto_pc t = modify (\<lambda>s. s\<lparr>st_pc := t\<rparr>)"

definition bind_receiver :: "userFuncDef \<Rightarrow> val option \<Rightarrow> ('w, int list) comp" where
  "bind_receiver def receiver =
     (case receiver of
        None \<Rightarrow> ret (f_paramSlots def)
      | Some v \<Rightarrow>
          (case f_paramSlots def of
             [] \<Rightarrow> leave Crash
           | slot # slots \<Rightarrow> mthen (set_slot slot v True) (ret slots)))"

definition enterUserFrame :: "Program \<Rightarrow> 'w FullHost \<Rightarrow> userFuncDef \<Rightarrow> val option \<Rightarrow> val list \<Rightarrow> ('w, unit) comp" where
  "enterUserFrame p H def receiver arguments =
     mthen push_frame
       (mthen (fresh_frame p)
         (mbind (bind_receiver def receiver) (\<lambda>slots.
           mthen (bind_params slots arguments)
             (mthen
               (if f_variadicSlot def < 0 then ret ()
                else mbind (host p (h_Array H (map (\<lambda>v. (VNil, v)) (drop (length slots) arguments)))) (\<lambda>rest.
                  set_slot (f_variadicSlot def) rest True))
               (goto_pc (f_entryPC def))))))"

section \<open>Handlers\<close>

primrec unwind_frames :: "Program \<Rightarrow> 'w FullHost \<Rightarrow> nat \<Rightarrow> ('w, unit) comp" where
  "unwind_frames p H 0 = ret ()"
| "unwind_frames p H (Suc n) =
     mbind (gets st_callFrames) (\<lambda>frames.
       case frames of
         [] \<Rightarrow> ret ()
       | f # _ \<Rightarrow>
           mbind (unwindDeferred p H (cf_deferMark f)) (\<lambda>_.
             mthen (modify (restore_frame f)) (unwind_frames p H n)))"

text \<open>
  The search over a try's clauses: a match binds the throwable where the clause names a variable,
  arms the handler that only leads to the finally block, and enters the clause.
\<close>

primrec select_clause ::
  "Program \<Rightarrow> 'w FullHost \<Rightarrow> errorHandler \<Rightarrow> goerr \<Rightarrow> catchClause list \<Rightarrow> ('w, bool) comp"
where
  "select_clause p H handler e [] = ret False"
| "select_clause p H handler e (clause # clauses) =
     mbind (host p (h_MatchCatch H (t_declaredType clause) e)) (\<lambda>matches.
       if \<not> matches then select_clause p H handler e clauses
       else
         mbind (gets st_locals) (\<lambda>locals.
           mthen
             (if 0 \<le> t_local clause \<and> t_local clause < int (length locals)
              then mbind (host p (h_CatchValue H e)) (\<lambda>v. set_slot (t_local clause) v True)
              else ret ())
             (mthen
               (modify (\<lambda>s. s\<lparr>st_handlers :=
                  \<lparr>eh_target = eh_target handler, eh_group = - 1, eh_pending = eh_pending handler,
                   eh_start = t_target clause, eh_end = eh_target handler - 1,
                   eh_stackDepth = eh_stackDepth handler, eh_frameDepth = eh_frameDepth handler\<rparr>
                  # st_handlers s\<rparr>))
               (mthen (goto_pc (t_target clause)) (ret True)))))"

definition park_pending :: "errorHandler \<Rightarrow> goerr \<Rightarrow> ('w, bool) comp" where
  "park_pending handler e =
     mbind (gets st_locals) (\<lambda>locals.
       if eh_pending handler < 0 \<or> int (length locals) \<le> eh_pending handler then ret False
       else mthen (set_slot (eh_pending handler) (VError e) True)
              (mthen (goto_pc (eh_target handler)) (ret True)))"

definition enter_handler :: "Program \<Rightarrow> 'w FullHost \<Rightarrow> errorHandler \<Rightarrow> goerr \<Rightarrow> ('w, bool) comp" where
  "enter_handler p H handler e =
     mbind (gets (\<lambda>s. length (st_callFrames s))) (\<lambda>depth.
       mthen (unwind_frames p H (depth - eh_frameDepth handler))
         (mbind (if eh_group handler < 0 then ret [] else slice_at (p_catchGroups p) (eh_group handler)) (\<lambda>clauses.
           mbind (select_clause p H handler (innermost e) clauses) (\<lambda>entered.
             if entered then ret True else park_pending handler (innermost e)))))"

definition drop_handler :: "errorHandler \<Rightarrow> ('w, unit) comp" where
  "drop_handler handler = modify (\<lambda>s. s\<lparr>st_handlers := tl (st_handlers s),
     st_stack := drop (length (st_stack s) - eh_stackDepth handler) (st_stack s)\<rparr>)"

definition handle :: "Program \<Rightarrow> 'w FullHost \<Rightarrow> goerr \<Rightarrow> ('w, bool) comp" where
  "handle p H e =
     mbind (gets st_handlers) (\<lambda>handlers.
       case handlers of
         [] \<Rightarrow> ret False
       | handler # _ \<Rightarrow>
           if exiting e then ret False
           else mthen (drop_handler handler) (enter_handler p H handler e))"

end
