(* ===== verification/Opcodes.thy ===== *)
theory Opcodes
  imports Unwinding
begin

text \<open>
  The instruction cycle of \<open>flatstack/engine/vm.go\<close>: one definition per case of the switch in
  \<open>run\<close>. An instruction answers whether control advances or the program counter is set already
  (Go's \<open>continue\<close>). \<open>cycle\<close> is one round of the loop, \<open>exec\<close> the loop itself under a bound on
  the rounds, which nested runs of closures share.
\<close>

datatype flow = Advance | Goto

definition next_pc :: "('w, flow) comp" where
  "next_pc = ret Advance"

definition push_next :: "val \<Rightarrow> ('w, flow) comp" where
  "push_next v = mthen (push v) next_pc"

definition jump :: "int \<Rightarrow> ('w, flow) comp" where
  "jump t = mthen (goto_pc t) (ret Goto)"

definition push_if :: "bool \<Rightarrow> val \<Rightarrow> ('w, flow) comp" where
  "push_if b v = (if b then push_next v else next_pc)"

section \<open>Loads, stores and the operand stack\<close>

definition exec_PushConst :: "Program \<Rightarrow> instruction \<Rightarrow> ('w, flow) comp" where
  "exec_PushConst p i = mbind (slice_at (p_constants p) (i_a i)) push_next"

definition exec_Pop :: "('w, flow) comp" where
  "exec_Pop = mbind pop (\<lambda>_. next_pc)"

definition exec_Dup :: "('w, flow) comp" where
  "exec_Dup = mbind (peek (Fail (ErrorString ''flatstack: duplicate st.stack underflow''))) push_next"

definition exec_Load :: "Program \<Rightarrow> 'w FullHost \<Rightarrow> instruction \<Rightarrow> ('w, flow) comp" where
  "exec_Load p H i = mbind (loadLocal p H (i_a i)) push_next"

definition exec_LoadConst :: "Program \<Rightarrow> 'w FullHost \<Rightarrow> instruction \<Rightarrow> ('w, flow) comp" where
  "exec_LoadConst p H i =
     mbind (slice_at (p_localNames p) (i_a i)) (\<lambda>name.
       mbind (initialized_at (i_a i)) (\<lambda>warm.
         if warm then mbind (local_at (i_a i)) push_next
         else mbind (gets st_extras) (\<lambda>extras.
           case map_of extras name of
             Some v \<Rightarrow> push_next v
           | None \<Rightarrow> mbind (host_val p (h_Constant H name)) push_next)))"

text \<open>A slot's value for an operator that updates it: the local, or what the host knows.\<close>

definition current_local :: "Program \<Rightarrow> 'w FullHost \<Rightarrow> int \<Rightarrow> ('w, val) comp" where
  "current_local p H slot =
     mbind (initialized_at slot) (\<lambda>warm.
       if warm then local_at slot
       else mbind (slice_at (p_localNames p) slot) (\<lambda>name. host p (h_Lookup H name)))"

definition store_slot :: "Program \<Rightarrow> 'w FullHost \<Rightarrow> int \<Rightarrow> val \<Rightarrow> ('w, unit) comp" where
  "store_slot p H slot v =
     mbind (slice_at (p_localNames p) slot) (\<lambda>name.
       mbind (host p (h_SetGlobal H name v)) (\<lambda>claimed.
         if claimed then set_cold slot else set_slot slot v True))"

definition set_identity :: "Program \<Rightarrow> 'w FullHost \<Rightarrow> val \<Rightarrow> string \<Rightarrow> ('w, unit) comp" where
  "set_identity p H v extra =
     (if extra = '''' then ret ()
      else
        (case v of
           VObject a \<Rightarrow>
             modify (\<lambda>s. s\<lparr>st_heap := (st_heap s)\<lparr>h_objects :=
               (h_objects (st_heap s))(a := map_option (\<lambda>ob. SetID ob extra) (h_objects (st_heap s) a))\<rparr>\<rparr>)
         | VOpaque t n \<Rightarrow> host p (h_SetID H v extra)
         | _ \<Rightarrow> ret ()))"

definition exec_Store :: "Program \<Rightarrow> 'w FullHost \<Rightarrow> instruction \<Rightarrow> ('w, flow) comp" where
  "exec_Store p H i =
     mbind pop (\<lambda>popped.
       mbind
         (if i_name i \<noteq> '''' \<and> i_name i \<noteq> ''=''
          then mbind (current_local p H (i_a i)) (\<lambda>cur. host_val p (h_Binary H (butlast (i_name i)) cur popped))
          else ret popped)
         (\<lambda>v.
           mthen (set_identity p H v (i_extra i))
             (mthen (store_slot p H (i_a i) v) (push_if (i_b i \<noteq> 0) v))))"

definition exec_UnsetLocal :: "instruction \<Rightarrow> ('w, flow) comp" where
  "exec_UnsetLocal i = mthen (set_slot (i_a i) VNil False) next_pc"

definition exec_Initialized :: "instruction \<Rightarrow> ('w, flow) comp" where
  "exec_Initialized i = mbind (initialized_at (i_a i)) (\<lambda>b. push_next (VBool b))"

definition exec_Ref :: "instruction \<Rightarrow> ('w, flow) comp" where
  "exec_Ref i =
     mthen (modify (\<lambda>s. if st_refWrites s = []
              then s\<lparr>st_refWrites := replicate (length (st_locals s)) False\<rparr> else s))
       (mbind (gets (\<lambda>s. length (st_callFrames s))) (\<lambda>depth. push_next (VSetter depth (nat (i_a i)))))"

section \<open>Operators\<close>

definition pop2 :: "('w, val \<times> val) comp" where
  "pop2 = mbind pop (\<lambda>upper. mbind pop (\<lambda>lower. ret (lower, upper)))"

definition binary_value :: "Program \<Rightarrow> 'w FullHost \<Rightarrow> instruction \<Rightarrow> val \<Rightarrow> val \<Rightarrow> ('w, val) comp" where
  "binary_value p H i left right =
     (case (if i_b i \<noteq> binNone then fastBinary (i_b i) left right else None) of
        Some v \<Rightarrow> ret v
      | None \<Rightarrow> host_val p (h_Binary H (i_name i) left right))"

definition binary_result :: "Program \<Rightarrow> 'w FullHost \<Rightarrow> instruction \<Rightarrow> val \<Rightarrow> ('w, flow) comp" where
  "binary_result p H i v =
     (if i_target i = 0 then push_next v
      else mthen (store_slot p H (i_target i - 1) v) next_pc)"

definition binary_operands :: "Program \<Rightarrow> 'w FullHost \<Rightarrow> instruction \<Rightarrow> ('w, val \<times> val) comp" where
  "binary_operands p H i =
     (case i_op i of
        OpBinLL \<Rightarrow> mbind (loadLocal p H (i_a i)) (\<lambda>left.
                     mbind (loadLocal p H (i_c i)) (\<lambda>right. ret (left, right)))
      | OpBinLC \<Rightarrow> mbind (loadLocal p H (i_a i)) (\<lambda>left.
                     mbind (slice_at (p_constants p) (i_c i)) (\<lambda>right. ret (left, right)))
      | OpBinTC \<Rightarrow> mbind pop (\<lambda>left.
                     mbind (slice_at (p_constants p) (i_c i)) (\<lambda>right. ret (left, right)))
      | _ \<Rightarrow> pop2)"

definition exec_Binary :: "Program \<Rightarrow> 'w FullHost \<Rightarrow> instruction \<Rightarrow> ('w, flow) comp" where
  "exec_Binary p H i =
     mbind (binary_operands p H i) (\<lambda>(left, right).
       mbind (binary_value p H i left right) (binary_result p H i))"

definition exec_Unary :: "Program \<Rightarrow> 'w FullHost \<Rightarrow> instruction \<Rightarrow> ('w, flow) comp" where
  "exec_Unary p H i = mbind pop (\<lambda>v. mbind (host_val p (h_Unary H (i_name i) v)) push_next)"

definition exec_Cast :: "Program \<Rightarrow> 'w FullHost \<Rightarrow> instruction \<Rightarrow> ('w, flow) comp" where
  "exec_Cast p H i = mbind pop (\<lambda>v. mbind (host p (h_Cast H (i_name i) v)) push_next)"

definition exec_Truthy :: "Program \<Rightarrow> 'w FullHost \<Rightarrow> ('w, flow) comp" where
  "exec_Truthy p H = mbind pop (\<lambda>v. mbind (host p (h_Truthy H v)) (\<lambda>b. push_next (VBool b)))"

definition exec_ClassConst :: "Program \<Rightarrow> 'w FullHost \<Rightarrow> instruction \<Rightarrow> ('w, flow) comp" where
  "exec_ClassConst p H i = mbind (host_val p (h_ClassConst H (i_name i) (i_extra i))) push_next"

definition exec_DefineConst :: "Program \<Rightarrow> 'w FullHost \<Rightarrow> instruction \<Rightarrow> ('w, flow) comp" where
  "exec_DefineConst p H i = mbind pop (\<lambda>v. mthen (host p (h_SetConstant H (i_name i) v)) next_pc)"

definition exec_Echo :: "Program \<Rightarrow> 'w FullHost \<Rightarrow> ('w, flow) comp" where
  "exec_Echo p H = mbind pop (\<lambda>v. mthen (host_err p (h_Echo H v)) next_pc)"

section \<open>Increment and decrement\<close>

definition stepped :: "string \<Rightarrow> val \<Rightarrow> val" where
  "stepped operator v = (if operator = ''--'' then Decrement v else Increment v)"

definition push_stepped :: "instruction \<Rightarrow> val \<Rightarrow> val \<Rightarrow> ('w, flow) comp" where
  "push_stepped i cur nxt = push_next (if i_b i \<noteq> 0 then cur else nxt)"

definition exec_IncDecLocal :: "Program \<Rightarrow> 'w FullHost \<Rightarrow> instruction \<Rightarrow> ('w, flow) comp" where
  "exec_IncDecLocal p H i =
     mbind (current_local p H (i_a i)) (\<lambda>cur.
       mthen (set_slot (i_a i) (stepped (i_name i) cur) True) (push_stepped i cur (stepped (i_name i) cur)))"

definition exec_IncDecIndex :: "Program \<Rightarrow> 'w FullHost \<Rightarrow> instruction \<Rightarrow> ('w, flow) comp" where
  "exec_IncDecIndex p H i =
     mbind pop2 (\<lambda>(base, index).
       mbind (host p (h_Index H base index)) (\<lambda>cur.
         mthen (host_err p (h_SetIndex H base index (stepped (i_name i) cur) False ''=''))
           (push_stepped i cur (stepped (i_name i) cur))))"

definition exec_IncDecProp :: "Program \<Rightarrow> 'w FullHost \<Rightarrow> instruction \<Rightarrow> ('w, flow) comp" where
  "exec_IncDecProp p H i =
     mbind pop (\<lambda>receiver.
       mbind (host p (h_GetProperty H receiver (i_name i))) (\<lambda>cur.
         mthen (host_err p (h_SetProperty H receiver (i_name i) (stepped (i_extra i) cur) ''=''))
           (push_stepped i cur (stepped (i_extra i) cur))))"

section \<open>Containers\<close>

text \<open>The compiler emits key and value alternately, so the items come off in pairs from the end.\<close>

primrec pop_items :: "nat \<Rightarrow> (val \<times> val) list \<Rightarrow> ('w, (val \<times> val) list) comp" where
  "pop_items 0 items = ret items"
| "pop_items (Suc n) items = mbind pop2 (\<lambda>(key, v). pop_items n ((key, v) # items))"

definition exec_Array :: "Program \<Rightarrow> 'w FullHost \<Rightarrow> instruction \<Rightarrow> ('w, flow) comp" where
  "exec_Array p H i =
     (if i_a i < 0 then leave Crash
      else mbind (pop_items (nat (i_a i)) []) (\<lambda>items. mbind (host p (h_Array H items)) push_next))"

definition exec_Index :: "Program \<Rightarrow> 'w FullHost \<Rightarrow> ('w, flow) comp" where
  "exec_Index p H = mbind pop2 (\<lambda>(base, index). mbind (host p (h_Index H base index)) push_next)"

definition pop_key :: "instruction \<Rightarrow> ('w, val) comp" where
  "pop_key i = (if i_b i = 0 then pop else ret VNil)"

definition exec_SetIndex :: "Program \<Rightarrow> 'w FullHost \<Rightarrow> instruction \<Rightarrow> ('w, flow) comp" where
  "exec_SetIndex p H i =
     mbind
       (if i_a i \<noteq> 0
        then mbind pop (\<lambda>v. mbind (pop_key i) (\<lambda>index. mbind pop (\<lambda>base. ret (base, index, v))))
        else mbind (pop_key i) (\<lambda>index. mbind pop (\<lambda>base. mbind pop (\<lambda>v. ret (base, index, v)))))
       (\<lambda>(base, index, v).
         mthen (host_err p (h_SetIndex H base index v (i_b i \<noteq> 0) (i_name i)))
           (push_if (i_c i \<noteq> 0) v))"

definition exec_UnsetIndex :: "Program \<Rightarrow> 'w FullHost \<Rightarrow> instruction \<Rightarrow> ('w, flow) comp" where
  "exec_UnsetIndex p H i =
     mbind pop2 (\<lambda>(base, index).
       mbind (host_val p (h_UnsetIndex H base index)) (\<lambda>replacement.
         if replacement \<noteq> VNil \<and> 0 \<le> i_a i
         then mthen (set_slot (i_a i) replacement True) next_pc
         else next_pc))"

definition is_array :: "val \<Rightarrow> bool" where
  "is_array v = (case v of VArray a \<Rightarrow> True | _ \<Rightarrow> False)"

definition phpEmptyContainer :: "val \<Rightarrow> bool" where
  "phpEmptyContainer v \<longleftrightarrow> v = VNil"

definition exec_EnsureArray :: "Program \<Rightarrow> 'w FullHost \<Rightarrow> ('w, flow) comp" where
  "exec_EnsureArray p H =
     mbind pop (\<lambda>v.
       if \<not> is_array v \<and> phpEmptyContainer v then mbind (host p (h_Array H [])) push_next
       else push_next v)"

definition exec_VivifyIndex :: "Program \<Rightarrow> 'w FullHost \<Rightarrow> instruction \<Rightarrow> ('w, flow) comp" where
  "exec_VivifyIndex p H i =
     mbind pop2 (\<lambda>(base, index).
       mbind (host p (h_Index H base index)) (\<lambda>v.
         if \<not> is_array v \<and> phpEmptyContainer v
         then mbind (host p (h_Array H [])) (\<lambda>fresh.
                mthen (host_err p (h_SetIndex H base index fresh False ''='')) (push_next fresh))
         else push_next v))"

definition exec_VivifyProperty :: "Program \<Rightarrow> 'w FullHost \<Rightarrow> instruction \<Rightarrow> ('w, flow) comp" where
  "exec_VivifyProperty p H i =
     mbind pop (\<lambda>receiver.
       mbind (host p (h_GetProperty H receiver (i_name i))) (\<lambda>v.
         if \<not> is_array v \<and> phpEmptyContainer v
         then mbind (host p (h_Array H [])) (\<lambda>fresh.
                mthen (host_err p (h_SetProperty H receiver (i_name i) fresh ''='')) (push_next fresh))
         else push_next v))"

definition exec_CopyValue :: "('w, flow) comp" where
  "exec_CopyValue =
     mbind pop (\<lambda>v.
       mbind (gets st_heap) (\<lambda>h.
         case Copy_value h v of
           None \<Rightarrow> leave Crash
         | Some (w, h') \<Rightarrow> mthen (modify (\<lambda>s. s\<lparr>st_heap := h'\<rparr>)) (push_next w)))"

section \<open>Properties\<close>

definition exec_GetProperty :: "Program \<Rightarrow> 'w FullHost \<Rightarrow> instruction \<Rightarrow> ('w, flow) comp" where
  "exec_GetProperty p H i = mbind pop (\<lambda>receiver. mbind (host p (h_GetProperty H receiver (i_name i))) push_next)"

definition exec_SetProperty :: "Program \<Rightarrow> 'w FullHost \<Rightarrow> instruction \<Rightarrow> ('w, flow) comp" where
  "exec_SetProperty p H i =
     mbind pop2 (\<lambda>(lower, upper).
       let receiver = (if i_a i \<noteq> 0 then lower else upper); v = (if i_a i \<noteq> 0 then upper else lower)
       in mthen (host_err p (h_SetProperty H receiver (i_name i) v (i_extra i))) (push_if (i_b i \<noteq> 0) v))"

definition capability :: "string \<Rightarrow> 'a option \<Rightarrow> ('w, 'a) comp" where
  "capability what c = from_some (Fail (ErrorString (''flatstack: host does not implement '' @ what))) c"

definition exec_UnsetProp :: "Program \<Rightarrow> 'w FullHost \<Rightarrow> instruction \<Rightarrow> ('w, flow) comp" where
  "exec_UnsetProp p H i =
     mbind pop (\<lambda>receiver.
       mbind (capability ''property unset'' (h_UnsetProperty H)) (\<lambda>unset.
         mthen (host_err p (unset receiver (i_name i))) next_pc))"

definition exec_StaticProp :: "Program \<Rightarrow> 'w FullHost \<Rightarrow> instruction \<Rightarrow> ('w, flow) comp" where
  "exec_StaticProp p H i =
     mbind (capability ''static properties'' (h_GetStaticProp H)) (\<lambda>prop.
       mbind (host_val p (prop (i_name i) (i_extra i))) push_next)"

definition as_string :: "val \<Rightarrow> string" where
  "as_string v = (case v of VStr s \<Rightarrow> s | _ \<Rightarrow> '''')"

definition exec_SetStaticProp :: "Program \<Rightarrow> 'w FullHost \<Rightarrow> instruction \<Rightarrow> ('w, flow) comp" where
  "exec_SetStaticProp p H i =
     mbind pop (\<lambda>v.
       mbind (capability ''static properties'' (h_SetStaticProp H)) (\<lambda>set_prop.
         mbind (slice_at (p_constants p) (i_a i)) (\<lambda>operator.
           mthen (host_err p (set_prop (i_name i) (i_extra i) v (as_string operator)))
             (push_if (i_b i \<noteq> 0) v))))"

section \<open>Function statics\<close>

text \<open>The constant pool holds a \<open>*model.StaticVar\<close> node as a value with an identity only.\<close>

definition static_node :: "val \<Rightarrow> val option" where
  "static_node c = (case c of VOpaque t n \<Rightarrow> Some c | _ \<Rightarrow> None)"

definition static_bag :: "Program \<Rightarrow> 'w FullHost \<Rightarrow> instruction \<Rightarrow> ('w, addr \<times> bool) comp" where
  "static_bag p H i =
     mbind (capability ''function statics'' (h_StaticVarBag H)) (\<lambda>bag.
       mbind (slice_at (p_constants p) (i_a i)) (\<lambda>c. host p (bag (static_node c))))"

definition bag_read :: "addr \<Rightarrow> string \<Rightarrow> ('w, val) comp" where
  "bag_read a name = gets (\<lambda>s.
     case h_colls (st_heap s) a of
       None \<Rightarrow> VNil
     | Some es \<Rightarrow> (case map_of es (VStr name) of Some v \<Rightarrow> v | None \<Rightarrow> VNil))"

text \<open>A write into a nil map panics.\<close>

definition bag_write :: "addr \<Rightarrow> string \<Rightarrow> val \<Rightarrow> ('w, unit) comp" where
  "bag_write a name v =
     mbind (gets st_heap) (\<lambda>h.
       case h_colls h a of
         None \<Rightarrow> leave Crash
       | Some es \<Rightarrow> modify (\<lambda>s. s\<lparr>st_heap := (st_heap s)\<lparr>h_colls :=
           (h_colls (st_heap s))(a \<mapsto> AList.update (VStr name) v es)\<rparr>\<rparr>))"

definition exec_StaticSeeded :: "Program \<Rightarrow> 'w FullHost \<Rightarrow> instruction \<Rightarrow> ('w, flow) comp" where
  "exec_StaticSeeded p H i = mbind (static_bag p H i) (\<lambda>(a, seeded). push_next (VBool seeded))"

definition exec_StaticLoad :: "Program \<Rightarrow> 'w FullHost \<Rightarrow> instruction \<Rightarrow> ('w, flow) comp" where
  "exec_StaticLoad p H i = mbind (static_bag p H i) (\<lambda>(a, seeded). mbind (bag_read a (i_name i)) push_next)"

definition strings_TrimSuffix_eq :: "string \<Rightarrow> string" where
  "strings_TrimSuffix_eq s = (if s \<noteq> [] \<and> last s = CHR ''='' then butlast s else s)"

definition exec_StaticStore :: "Program \<Rightarrow> 'w FullHost \<Rightarrow> instruction \<Rightarrow> ('w, flow) comp" where
  "exec_StaticStore p H i =
     mbind pop (\<lambda>popped.
       mbind (static_bag p H i) (\<lambda>(a, seeded).
         mbind
           (if i_extra i \<noteq> '''' \<and> i_extra i \<noteq> ''=''
            then mbind (bag_read a (i_name i)) (\<lambda>cur.
                   host_val p (h_Binary H (strings_TrimSuffix_eq (i_extra i)) cur popped))
            else ret popped)
           (\<lambda>v. mthen (bag_write a (i_name i) v) (push_if (i_b i \<noteq> 0) v))))"

definition exec_IncDecStatic :: "Program \<Rightarrow> 'w FullHost \<Rightarrow> instruction \<Rightarrow> ('w, flow) comp" where
  "exec_IncDecStatic p H i =
     mbind (static_bag p H i) (\<lambda>(a, seeded).
       mbind (bag_read a (i_name i)) (\<lambda>cur.
         mthen (bag_write a (i_name i) (stepped (i_extra i) cur)) (push_stepped i cur (stepped (i_extra i) cur))))"

section \<open>compact()\<close>

text \<open>
  \<open>compact()\<close> fills a \<open>map[string]any\<close> that stays on the stack. The store does not record a
  collection's Go type; the assertion holds for a collection all of whose keys are strings.
\<close>

definition string_map :: "heap \<Rightarrow> val \<Rightarrow> addr option" where
  "string_map h v =
     (case v of
        VColl a \<Rightarrow>
          (case h_colls h a of
             Some es \<Rightarrow> if list_all (\<lambda>(k, _). case k of VStr s \<Rightarrow> True | _ \<Rightarrow> False) es then Some a else None
           | None \<Rightarrow> None)
      | _ \<Rightarrow> None)"

definition compact_map :: "('w, addr) comp" where
  "compact_map =
     mbind (peek Crash) (\<lambda>v. mbind (gets st_heap) (\<lambda>h.
       from_some (Fail (ErrorString ''compact: no map to go into'')) (string_map h v)))"

definition exec_CompactInit :: "('w, flow) comp" where
  "exec_CompactInit =
     mbind (gets st_heap) (\<lambda>h.
       mthen (modify (\<lambda>s. s\<lparr>st_heap := h\<lparr>h_colls := (h_colls h)(h_next h \<mapsto> []), h_next := Suc (h_next h)\<rparr>\<rparr>))
         (push_next (VColl (h_next h))))"

definition exec_CompactEntry :: "instruction \<Rightarrow> ('w, flow) comp" where
  "exec_CompactEntry i =
     mbind compact_map (\<lambda>a.
       mbind (initialized_at (i_a i)) (\<lambda>warm.
         if warm then mbind (local_at (i_a i)) (\<lambda>v. mthen (bag_write a (i_name i) v) next_pc)
         else mbind (gets st_extras) (\<lambda>extras.
           case map_of extras (i_name i) of
             Some v \<Rightarrow> mthen (bag_write a (i_name i) v) next_pc
           | None \<Rightarrow> next_pc)))"

definition exec_CompactDynamic :: "Program \<Rightarrow> ('w, flow) comp" where
  "exec_CompactDynamic p =
     mbind pop (\<lambda>name.
       mbind compact_map (\<lambda>a.
         case name of
           VStr key \<Rightarrow>
             mbind (gets (\<lambda>s. lookupName p s key)) (\<lambda>found.
               case found of
                 Some v \<Rightarrow> mthen (bag_write a key v) next_pc
               | None \<Rightarrow> next_pc)
         | _ \<Rightarrow> next_pc))"

end
