(* ===== verification/Cycle.thy ===== *)
theory Cycle
  imports Opcodes
begin

text \<open>
  Calls, iteration and control flow of \<open>flatstack/engine/vm.go\<close>, the cycle over one instruction,
  the loop of \<open>run\<close>, and what invoking a compiled closure does.
\<close>

section \<open>Calls\<close>

definition clear_refs :: "('w, unit) comp" where
  "clear_refs = modify (\<lambda>s. s\<lparr>st_refWrites := map (\<lambda>_. False) (st_refWrites s)\<rparr>)"

definition enter_user :: "Program \<Rightarrow> 'w FullHost \<Rightarrow> userFuncDef \<Rightarrow> val option \<Rightarrow> val list \<Rightarrow> ('w, flow) comp" where
  "enter_user p H def receiver arguments = mthen (enterUserFrame p H def receiver arguments) (ret Goto)"

text \<open>A host call whose by-reference marks are cleared before its error is looked at.\<close>

definition host_call :: "Program \<Rightarrow> ('w, goerr + val) hop \<Rightarrow> ('w, flow) comp" where
  "host_call p f = mbind (host p f) (\<lambda>r. mthen clear_refs (mbind (or_raise r) push_next))"

definition exec_Call :: "Program \<Rightarrow> 'w FullHost \<Rightarrow> instruction \<Rightarrow> ('w, flow) comp" where
  "exec_Call p H i =
     mbind (args (i_a i)) (\<lambda>arguments.
       case lookupUserFunc p (i_name i) of
         Some def \<Rightarrow> enter_user p H def None arguments
       | None \<Rightarrow> host_call p (h_Call H (i_name i) (i_extra i) arguments))"

text \<open>A name held in a value lies beneath the arguments; the host casts it to a string.\<close>

definition dynamic_name :: "Program \<Rightarrow> 'w FullHost \<Rightarrow> instruction \<Rightarrow> ('w, string) comp" where
  "dynamic_name p H i =
     (if i_b i = 0 then ret (i_name i)
      else mbind pop (\<lambda>v. mbind (host p (h_Cast H ''string'' v)) (\<lambda>w. ret (as_string w))))"

definition exec_Construct :: "Program \<Rightarrow> 'w FullHost \<Rightarrow> instruction \<Rightarrow> ('w, flow) comp" where
  "exec_Construct p H i =
     mbind (args (i_a i)) (\<lambda>arguments.
       mbind (dynamic_name p H i) (\<lambda>class. host_call p (h_Construct H class arguments)))"

definition class_name :: "heap \<Rightarrow> val \<Rightarrow> string option" where
  "class_name h v =
     (case v of
        VObject a \<Rightarrow>
          (case h_objects h a of
             Some ob \<Rightarrow> (case o_Class ob of Some c \<Rightarrow> map_option c_Name (h_classes h c) | None \<Rightarrow> None)
           | None \<Rightarrow> None)
      | _ \<Rightarrow> None)"

definition exec_CallMethod :: "Program \<Rightarrow> 'w FullHost \<Rightarrow> instruction \<Rightarrow> ('w, flow) comp" where
  "exec_CallMethod p H i =
     mbind (args (i_a i)) (\<lambda>arguments.
       mbind (dynamic_name p H i) (\<lambda>method.
         mbind pop (\<lambda>receiver.
           mbind (gets st_heap) (\<lambda>h.
             case (case class_name h receiver of
                     Some class \<Rightarrow> lookupUserFunc p (class @ ''::'' @ method)
                   | None \<Rightarrow> None) of
               Some def \<Rightarrow> enter_user p H def (Some receiver) arguments
             | None \<Rightarrow> host_call p (h_CallMethod H receiver method arguments)))))"

definition exec_Invoke :: "Program \<Rightarrow> 'w FullHost \<Rightarrow> instruction \<Rightarrow> ('w, flow) comp" where
  "exec_Invoke p H i =
     mbind (args (i_a i)) (\<lambda>arguments.
       mbind pop (\<lambda>callee.
         case (case callee of VStr name \<Rightarrow> lookupUserFunc p name | _ \<Rightarrow> None) of
           Some def \<Rightarrow> enter_user p H def None arguments
         | None \<Rightarrow>
             mbind (capability ''value invocation'' (h_InvokeValue H)) (\<lambda>invoke.
               mbind (host_val p (invoke arguments callee)) push_next)))"

definition exec_Callable :: "Program \<Rightarrow> 'w FullHost \<Rightarrow> instruction \<Rightarrow> ('w, flow) comp" where
  "exec_Callable p H i =
     mbind (capability ''first-class callables'' (h_CallableMember H)) (\<lambda>member.
       mbind (capability ''first-class callables'' (h_CallableValue H)) (\<lambda>callable.
         if i_b i \<noteq> 0
         then mbind pop2 (\<lambda>(target, method). mbind (host_val p (member target method)) push_next)
         else mbind pop (\<lambda>target. mbind (host_val p (callable target (i_name i))) push_next)))"

definition exec_CallStatic :: "Program \<Rightarrow> 'w FullHost \<Rightarrow> instruction \<Rightarrow> ('w, flow) comp" where
  "exec_CallStatic p H i =
     mbind (args (i_a i)) (\<lambda>arguments.
       mbind (if i_b i \<noteq> 0 then pop else ret (VStr (i_extra i))) (\<lambda>method.
         mbind (capability ''static calls'' (h_CallStatic H)) (\<lambda>call.
           mbind (host_val p (call (i_name i) method arguments)) push_next)))"

definition exec_Include :: "Program \<Rightarrow> 'w FullHost \<Rightarrow> instruction \<Rightarrow> ('w, flow) comp" where
  "exec_Include p H i =
     mbind pop (\<lambda>path.
       mbind (gets (Snapshot p)) (\<lambda>vars.
         mbind (capability ''include'' (h_Include H)) (\<lambda>include.
           mbind (host_val p (include path (i_name i) (i_a i \<noteq> 0) vars)) (\<lambda>(v, exported).
             mthen (modify (applyNamedValues p exported)) (push_next v)))))"

primrec capture :: "Program \<Rightarrow> 'w FullHost \<Rightarrow> int list \<Rightarrow> ('w, (nat \<times> val) list) comp" where
  "capture p H [] = ret []"
| "capture p H (slot # slots) =
     mbind (loadLocal p H slot) (\<lambda>v. mbind (capture p H slots) (\<lambda>rest. ret ((nat slot, v) # rest)))"

definition capture_this :: "closureDef \<Rightarrow> ('w, (nat \<times> val) list) comp" where
  "capture_this def =
     (if k_thisSlot def < 0 then ret []
      else mbind (initialized_at (k_thisSlot def)) (\<lambda>warm.
        if warm then mbind (local_at (k_thisSlot def)) (\<lambda>v. ret [(nat (k_thisSlot def), v)]) else ret []))"

text \<open>A closure's own definition and its parameters and captures travel as the definition's index.\<close>

definition exec_Closure :: "Program \<Rightarrow> 'w FullHost \<Rightarrow> instruction \<Rightarrow> ('w, flow) comp" where
  "exec_Closure p H i =
     mbind (slice_at (map (\<lambda>d. (k_captures d, k_thisSlot d)) (p_closures p)) (i_a i)) (\<lambda>(captures, thisSlot).
       mbind (capture p H captures) (\<lambda>captured.
         mbind (capture_this \<lparr>k_entryPC = 0, k_paramSlots = [], k_captures = captures, k_thisSlot = thisSlot\<rparr>)
           (\<lambda>this. push_next (VClosure (nat (i_a i)) (captured @ this)))))"

definition exec_Defer :: "('w, flow) comp" where
  "exec_Defer = mbind pop (\<lambda>v.
     mthen (modify (\<lambda>s. s\<lparr>st_deferred := v # st_deferred s\<rparr>)) (push_next VNil))"

section \<open>Iteration\<close>

definition setIterator :: "int \<Rightarrow> iteratorState \<Rightarrow> ('w, unit) comp" where
  "setIterator n it =
     (if n < 0 then leave Crash
      else modify (\<lambda>s. s\<lparr>st_iterators :=
        (st_iterators s @ replicate (Suc (nat n) - length (st_iterators s)) None)[nat n := Some it]\<rparr>))"

definition iterator_at :: "int \<Rightarrow> ('w, iteratorState option) comp" where
  "iterator_at n = mbind (gets st_iterators) (\<lambda>its.
     if n < 0 then leave Crash
     else if nat n < length its then ret (its ! nat n) else ret None)"

definition exec_IterInit :: "Program \<Rightarrow> 'w FullHost \<Rightarrow> instruction \<Rightarrow> ('w, flow) comp" where
  "exec_IterInit p H i =
     mbind pop (\<lambda>v.
       mbind (host p (h_Entries H v)) (\<lambda>es.
         mthen (setIterator (i_a i) \<lparr>it_entries = es, it_index = 0, it_source = v, it_key = VNil\<rparr>) next_pc))"

text \<open>\<open>iter_next i\<close> answers the entry of the round, or \<open>None\<close> to leave the loop.\<close>

definition iter_next :: "instruction \<Rightarrow> ('w, (val \<times> val) option) comp" where
  "iter_next i =
     mbind (iterator_at (i_a i)) (\<lambda>iterator.
       case iterator of
         None \<Rightarrow> ret None
       | Some it \<Rightarrow>
           if length (it_entries it) \<le> it_index it then ret None
           else
             (let entry = it_entries it ! it_index it
              in mthen (setIterator (i_a i) (it\<lparr>it_index := Suc (it_index it), it_key := fst entry\<rparr>))
                   (ret (Some entry))))"

definition exec_IterNext :: "instruction \<Rightarrow> ('w, flow) comp" where
  "exec_IterNext i =
     mbind (iter_next i) (\<lambda>entry.
       case entry of
         None \<Rightarrow> jump (i_target i)
       | Some (key, v) \<Rightarrow>
           mthen (if 0 \<le> i_b i then set_slot (i_b i) key True else ret ())
             (mthen (set_slot (i_c i) v True) next_pc))"

definition exec_IterSet :: "Program \<Rightarrow> 'w FullHost \<Rightarrow> instruction \<Rightarrow> ('w, flow) comp" where
  "exec_IterSet p H i =
     mbind pop (\<lambda>v.
       mbind (iterator_at (i_a i)) (\<lambda>iterator.
         case iterator of
           None \<Rightarrow> fail ''flatstack: write-back to a closed iterator''
         | Some it \<Rightarrow> mthen (host_err p (h_SetEntry H (it_source it) (it_key it) v)) next_pc))"

definition exec_IterClose :: "instruction \<Rightarrow> ('w, flow) comp" where
  "exec_IterClose i =
     mbind (gets st_iterators) (\<lambda>its.
       if int (length its) \<le> i_a i then next_pc
       else if i_a i < 0 then leave Crash
       else mthen (modify (\<lambda>s. s\<lparr>st_iterators := its[nat (i_a i) := None]\<rparr>)) next_pc)"

section \<open>Jumps and errors\<close>

text \<open>Leaving a try's range discards its handler, in the frame that armed it.\<close>

definition leaves_range :: "nat \<Rightarrow> int \<Rightarrow> errorHandler \<Rightarrow> bool" where
  "leaves_range depth t handler \<longleftrightarrow>
     eh_frameDepth handler = depth \<and> \<not> (eh_start handler \<le> t \<and> t \<le> eh_end handler)"

definition exec_Jump :: "instruction \<Rightarrow> ('w, flow) comp" where
  "exec_Jump i =
     mthen (modify (\<lambda>s. s\<lparr>st_handlers :=
              dropWhile (leaves_range (length (st_callFrames s)) (i_target i)) (st_handlers s)\<rparr>))
       (jump (i_target i))"

definition branch :: "bool \<Rightarrow> instruction \<Rightarrow> ('w, flow) comp" where
  "branch b i = (if b then jump (i_target i) else next_pc)"

definition exec_JumpBool :: "Program \<Rightarrow> 'w FullHost \<Rightarrow> bool \<Rightarrow> instruction \<Rightarrow> ('w, flow) comp" where
  "exec_JumpBool p H b i =
     mbind pop (\<lambda>v. mbind (host p (h_Truthy H v)) (\<lambda>truthy. branch (truthy = b) i))"

definition exec_JumpNotNil :: "instruction \<Rightarrow> ('w, flow) comp" where
  "exec_JumpNotNil i = mbind pop (\<lambda>v. branch (v \<noteq> VNil) i)"

definition exec_TryPush :: "instruction \<Rightarrow> ('w, flow) comp" where
  "exec_TryPush i =
     mthen (modify (\<lambda>s. s\<lparr>st_handlers :=
       \<lparr>eh_target = i_target i, eh_group = i_a i, eh_pending = i_c i, eh_start = st_pc s + 1, eh_end = i_b i,
        eh_stackDepth = length (st_stack s), eh_frameDepth = length (st_callFrames s)\<rparr> # st_handlers s\<rparr>)) next_pc"

definition exec_TryPop :: "('w, flow) comp" where
  "exec_TryPop =
     mbind (gets (\<lambda>s. st_handlers s = [])) (\<lambda>none.
       if none then fail ''flatstack: exception handler underflow''
       else mthen (modify (\<lambda>s. s\<lparr>st_handlers := tl (st_handlers s)\<rparr>)) next_pc)"

definition exec_Throw :: "Program \<Rightarrow> 'w FullHost \<Rightarrow> ('w, flow) comp" where
  "exec_Throw p H = mbind pop (\<lambda>v. mbind (host p (h_Throw H v)) (\<lambda>e. leave (Raise e)))"

definition exec_Rethrow :: "instruction \<Rightarrow> ('w, flow) comp" where
  "exec_Rethrow i =
     mbind (initialized_at (i_a i)) (\<lambda>warm.
       if \<not> warm then next_pc
       else mbind (local_at (i_a i)) (\<lambda>pending.
         mthen (set_slot (i_a i) VNil False)
           (case pending of VError e \<Rightarrow> leave (Raise e) | _ \<Rightarrow> next_pc)))"

definition exec_Return :: "Program \<Rightarrow> 'w FullHost \<Rightarrow> ('w, flow) comp" where
  "exec_Return p H =
     mbind pop (\<lambda>v.
       mbind (gets st_callFrames) (\<lambda>frames.
         case frames of
           f # _ \<Rightarrow>
             mbind (unwindDeferred p H (cf_deferMark f)) (\<lambda>e.
               mthen (none_or_raise e)
                 (mthen (goto_pc (cf_returnPC f))
                   (mthen (modify (restore_frame f)) (push_next v))))
         | [] \<Rightarrow>
             mbind (unwindDeferred p H 0) (\<lambda>e.
               mthen (none_or_raise e) (leave (Halt v)))))"

section \<open>The cycle\<close>

definition exec_op :: "Program \<Rightarrow> 'w FullHost \<Rightarrow> instruction \<Rightarrow> ('w, flow) comp" where
  "exec_op p H i =
     (case i_op i of
        OpPushConst \<Rightarrow> exec_PushConst p i
      | OpPop \<Rightarrow> exec_Pop
      | OpDup \<Rightarrow> exec_Dup
      | OpLoad \<Rightarrow> exec_Load p H i
      | OpLoadConst \<Rightarrow> exec_LoadConst p H i
      | OpStore \<Rightarrow> exec_Store p H i
      | OpArray \<Rightarrow> exec_Array p H i
      | OpIndex \<Rightarrow> exec_Index p H
      | OpSetIndex \<Rightarrow> exec_SetIndex p H i
      | OpIncDecLocal \<Rightarrow> exec_IncDecLocal p H i
      | OpIncDecIndex \<Rightarrow> exec_IncDecIndex p H i
      | OpBinary \<Rightarrow> exec_Binary p H i
      | OpUnary \<Rightarrow> exec_Unary p H i
      | OpTruthy \<Rightarrow> exec_Truthy p H
      | OpJump \<Rightarrow> exec_Jump i
      | OpJumpFalse \<Rightarrow> exec_JumpBool p H False i
      | OpJumpTrue \<Rightarrow> exec_JumpBool p H True i
      | OpJumpNotNil \<Rightarrow> exec_JumpNotNil i
      | OpCall \<Rightarrow> exec_Call p H i
      | OpRef \<Rightarrow> exec_Ref i
      | OpConstruct \<Rightarrow> exec_Construct p H i
      | OpCallMethod \<Rightarrow> exec_CallMethod p H i
      | OpGetProperty \<Rightarrow> exec_GetProperty p H i
      | OpSetProperty \<Rightarrow> exec_SetProperty p H i
      | OpEcho \<Rightarrow> exec_Echo p H
      | OpIterInit \<Rightarrow> exec_IterInit p H i
      | OpIterNext \<Rightarrow> exec_IterNext i
      | OpIterSet \<Rightarrow> exec_IterSet p H i
      | OpIterClose \<Rightarrow> exec_IterClose i
      | OpCopyValue \<Rightarrow> exec_CopyValue
      | OpUnsetLocal \<Rightarrow> exec_UnsetLocal i
      | OpUnsetIndex \<Rightarrow> exec_UnsetIndex p H i
      | OpTryPush \<Rightarrow> exec_TryPush i
      | OpTryPop \<Rightarrow> exec_TryPop
      | OpThrow \<Rightarrow> exec_Throw p H
      | OpRethrow \<Rightarrow> exec_Rethrow i
      | OpReturn \<Rightarrow> exec_Return p H
      | OpInclude \<Rightarrow> exec_Include p H i
      | OpEnsureArray \<Rightarrow> exec_EnsureArray p H
      | OpVivifyIndex \<Rightarrow> exec_VivifyIndex p H i
      | OpVivifyProperty \<Rightarrow> exec_VivifyProperty p H i
      | OpClassConst \<Rightarrow> exec_ClassConst p H i
      | OpCast \<Rightarrow> exec_Cast p H i
      | OpClosure \<Rightarrow> exec_Closure p H i
      | OpDefineConst \<Rightarrow> exec_DefineConst p H i
      | OpDefer \<Rightarrow> exec_Defer
      | OpInvoke \<Rightarrow> exec_Invoke p H i
      | OpIncDecProp \<Rightarrow> exec_IncDecProp p H i
      | OpUnsetProp \<Rightarrow> exec_UnsetProp p H i
      | OpCompactInit \<Rightarrow> exec_CompactInit
      | OpCompactEntry \<Rightarrow> exec_CompactEntry i
      | OpCompactDynamic \<Rightarrow> exec_CompactDynamic p
      | OpCallStatic \<Rightarrow> exec_CallStatic p H i
      | OpStaticProp \<Rightarrow> exec_StaticProp p H i
      | OpSetStaticProp \<Rightarrow> exec_SetStaticProp p H i
      | OpStaticSeeded \<Rightarrow> exec_StaticSeeded p H i
      | OpStaticLoad \<Rightarrow> exec_StaticLoad p H i
      | OpStaticStore \<Rightarrow> exec_StaticStore p H i
      | OpIncDecStatic \<Rightarrow> exec_IncDecStatic p H i
      | OpInitialized \<Rightarrow> exec_Initialized i
      | OpCallable \<Rightarrow> exec_Callable p H i
      | OpBinLL \<Rightarrow> exec_Binary p H i
      | OpBinLC \<Rightarrow> exec_Binary p H i
      | OpBinTC \<Rightarrow> exec_Binary p H i)"

text \<open>
  The end of a run: the deferred callables of the frame run, and their error counts only where the
  run itself had none. A panic is reported as an error too; its text is left out.
\<close>

definition vm_panic :: goerr where
  "vm_panic = ErrorString ''flatstack: VM panic''"

definition finish :: "Program \<Rightarrow> 'w FullHost \<Rightarrow> goerr + val \<Rightarrow> ('w, (goerr + val) option) comp" where
  "finish p H r =
     mbind (unwindDeferred p H 0) (\<lambda>e.
       ret (Some (case (r, e) of (Inr v, Some err) \<Rightarrow> Inl err | _ \<Rightarrow> r)))"

definition settle :: "Program \<Rightarrow> 'w FullHost \<Rightarrow> exit + flow \<Rightarrow> ('w, (goerr + val) option) comp" where
  "settle p H r =
     (case r of
        Inr Advance \<Rightarrow> mthen (modify (\<lambda>s. s\<lparr>st_pc := st_pc s + 1\<rparr>)) (ret None)
      | Inr Goto \<Rightarrow> ret None
      | Inl (Raise e) \<Rightarrow> mbind (handle p H e) (\<lambda>handled. if handled then ret None else finish p H (Inl e))
      | Inl (Fail e) \<Rightarrow> finish p H (Inl e)
      | Inl (Halt v) \<Rightarrow> finish p H (Inr v)
      | Inl Crash \<Rightarrow> finish p H (Inl vm_panic))"

text \<open>Running on with the outcome of a computation, the exits included.\<close>

definition attempt :: "('w, 'a) comp \<Rightarrow> (exit + 'a \<Rightarrow> ('w, 'b) comp) \<Rightarrow> ('w, 'b) comp" where
  "attempt m f = (\<lambda>s. act_bind (m s) (\<lambda>(r, s'). f r s'))"

text \<open>
  One round of the loop: \<open>Some r\<close> when the run has ended with r. A panic in \<open>handle\<close> (a clause
  group out of range) leaves the round as an exit.
\<close>

definition cycle :: "Program \<Rightarrow> 'w FullHost \<Rightarrow> ('w, (goerr + val) option) comp" where
  "cycle p H =
     mbind (gets st_pc) (\<lambda>pc.
       if int (length (p_code p)) \<le> pc then finish p H (Inr VNil)
       else attempt
         (attempt (mbind (slice_at (p_code p) pc) (exec_op p H)) (settle p H))
         (\<lambda>r. case r of
            Inr outcome \<Rightarrow> ret outcome
          | Inl _ \<Rightarrow> finish p H (Inl vm_panic)))"

section \<open>Runs\<close>

primrec interp ::
  "(closure \<Rightarrow> val list \<Rightarrow> heap \<Rightarrow> 'w \<Rightarrow> ((goerr + val) \<times> heap \<times> 'w) option) \<Rightarrow> ('w, 'r) act \<Rightarrow> 'r option"
where
  "interp invoke (Ret r) = Some r"
| "interp invoke (Invoke c xs h w k) =
     (case invoke c xs h w of None \<Rightarrow> None | Some (r, h', w') \<Rightarrow> interp invoke (k r h' w'))"

definition seed_locals :: "(nat \<times> val) list \<Rightarrow> 'w execState \<Rightarrow> 'w execState" where
  "seed_locals seeds s = fold (\<lambda>(slot, v) s. s\<lparr>st_locals := (st_locals s)[slot := v],
     st_initialized := (st_initialized s)[slot := True]\<rparr>) seeds s"

definition start_state ::
  "Program \<Rightarrow> int \<Rightarrow> (nat \<times> val) list \<Rightarrow> vars \<Rightarrow> heap \<Rightarrow> 'w \<Rightarrow> 'w execState"
where
  "start_state p entry seeds globals h w =
     applyNamedValues p globals
       (seed_locals seeds
         \<lparr>st_stack = [], st_locals = replicate (length (p_localNames p)) VNil,
          st_initialized = replicate (length (p_localNames p)) False, st_extras = [], st_refWrites = [],
          st_iterators = [], st_handlers = [], st_callFrames = [], st_deferred = [], st_pc = entry,
          st_heap = h, st_world = w\<rparr>)"

text \<open>The seeds of a closure call: the captures, then every parameter, null where the caller stopped short.\<close>

definition closure_seeds :: "closureDef \<Rightarrow> (nat \<times> val) list \<Rightarrow> val list \<Rightarrow> (nat \<times> val) list" where
  "closure_seeds def captured xs =
     captured @ map (\<lambda>(i, slot). (nat slot, if i < length xs then xs ! i else VNil)) (enumerate 0 (k_paramSlots def))"

definition closure_call ::
  "Program \<Rightarrow> ('w execState \<Rightarrow> ((goerr + val) \<times> heap \<times> 'w) option) \<Rightarrow>
   closure \<Rightarrow> val list \<Rightarrow> heap \<Rightarrow> 'w \<Rightarrow> ((goerr + val) \<times> heap \<times> 'w) option"
where
  "closure_call p run c xs h w =
     (if fst c < length (p_closures p)
      then run (start_state p (k_entryPC (p_closures p ! fst c)) (closure_seeds (p_closures p ! fst c) (snd c) xs) [] h w)
      else Some (Inl vm_panic, h, w))"

primrec exec :: "nat \<Rightarrow> Program \<Rightarrow> 'w FullHost \<Rightarrow> 'w execState \<Rightarrow> ((goerr + val) \<times> heap \<times> 'w) option" where
  "exec 0 p H s = None"
| "exec (Suc n) p H s =
     (case interp (closure_call p (exec n p H)) (cycle p H s) of
        None \<Rightarrow> None
      | Some (Inr None, s') \<Rightarrow> exec n p H s'
      | Some (Inr (Some r), s') \<Rightarrow> Some (r, st_heap s', st_world s')
      | Some (Inl _, s') \<Rightarrow> Some (Inl vm_panic, st_heap s', st_world s'))"

definition globals_of :: "'w FullHost \<Rightarrow> 'w \<Rightarrow> vars" where
  "globals_of H w = (case h_Globals H of None \<Rightarrow> [] | Some globals \<Rightarrow> globals w)"

definition Run :: "nat \<Rightarrow> Program \<Rightarrow> 'w FullHost \<Rightarrow> heap \<Rightarrow> 'w \<Rightarrow> ((goerr + val) \<times> heap \<times> 'w) option" where
  "Run n p H h w = exec n p H (start_state p 0 [] (globals_of H w) h w)"

text \<open>What a run answers, whatever the bound: \<open>None\<close> only for a run that never ends.\<close>

definition Run_to :: "Program \<Rightarrow> 'w FullHost \<Rightarrow> heap \<Rightarrow> 'w \<Rightarrow> (goerr + val) \<times> heap \<times> 'w \<Rightarrow> bool" where
  "Run_to p H h w r \<longleftrightarrow> (\<exists>n. Run n p H h w = Some r)"

end
