(* ===== verification/Renaming.thy ===== *)
theory Renaming
  imports Cycle
begin

text \<open>
  Two runs of the machine that differ in the numbering of the program counters only. \<open>quiet\<close>
  relates computations that touch neither the operand stack nor the control part of the state;
  \<open>sim\<close> relates computations of two states with equal stacks and renumbered control; \<open>sim_flow\<close>
  relates whole instructions. Each relation is closed under the machine's combinators, so an
  instruction is related to its renumbered self by one rule per combinator.
\<close>

named_theorems quiet
named_theorems sim

section \<open>Related interaction trees\<close>

lemma act_tree_induct [case_names Ret Invoke]:
  assumes "\<And>r. P (Ret r)" and "\<And>c xs h w k. (\<And>r h' w'. P (k r h' w')) \<Longrightarrow> P (Invoke c xs h w k)"
  shows "P a"
proof (induction a)
  case (Invoke c xs h w k)
  then show ?case by (blast intro: assms(2))
qed (rule assms(1))

lemma hact_tree_induct [case_names HReturn HInvoke HSnapshot HWriteBack HSetRef]:
  assumes "\<And>r h w. P (HReturn r h w)"
    and "\<And>c xs h w k. (\<And>r h' w'. P (k r h' w')) \<Longrightarrow> P (HInvoke c xs h w k)"
    and "\<And>k. (\<And>vars. P (k vars)) \<Longrightarrow> P (HSnapshot k)"
    and "\<And>vars k. P k \<Longrightarrow> P (HWriteBack vars k)"
    and "\<And>depth slot v k. P k \<Longrightarrow> P (HSetRef depth slot v k)"
  shows "P a"
proof (induction a)
  case (HInvoke c xs h w k)
  then show ?case by (blast intro: assms(2))
qed (blast intro: assms)+

lemma rel_act_bind:
  assumes "rel_act R a b" and "\<And>x y. R x y \<Longrightarrow> rel_act S (f x) (g y)"
  shows "rel_act S (act_bind a f) (act_bind b g)"
  using assms(1)
proof (induction a b rule: act.rel_induct)
  case (Ret x y)
  then show ?case by (simp add: assms(2))
next
  case (Invoke c xs h w k c' xs' h' w' k')
  then show ?case by (simp add: rel_fun_def)
qed

lemma act_bind_assoc: "act_bind (act_bind a f) g = act_bind a (\<lambda>x. act_bind (f x) g)"
  by (induction a rule: act_tree_induct) auto

lemma mbind_assoc: "mbind (mbind m f) g = mbind m (\<lambda>a. mbind (f a) g)"
  by (rule ext) (auto simp: mbind_def act_bind_assoc split: sum.splits intro!: arg_cong [where f = "act_bind _"] ext)

lemma act_bind_Ret [simp]: "act_bind a Ret = a"
  by (induction a rule: act_tree_induct) auto

lemma mbind_ret [simp]: "mbind (ret a) f = f a"
  by (simp add: mbind_def ret_def)

lemma mbind_leave [simp]: "mbind (leave x) f = leave x"
  by (simp add: mbind_def leave_def)

lemma interp_bind:
  "interp run (act_bind a f) = (case interp run a of None \<Rightarrow> None | Some r \<Rightarrow> interp run (f r))"
  by (induction a rule: act_tree_induct) (auto split: option.splits)

lemma interp_rel:
  assumes "rel_act R a b" and "interp run a = Some x"
    and "\<And>c xs h w r. run c xs h w = Some r \<Longrightarrow> run' c xs h w = Some r"
  shows "\<exists>y. interp run' b = Some y \<and> R x y"
  using assms(1,2)
proof (induction a b rule: act.rel_induct)
  case (Ret x y)
  then show ?case by simp
next
  case (Invoke c xs h w k c' xs' h' w' k')
  then show ?case by (fastforce simp: rel_fun_def split: option.splits dest: assms(3))
qed

section \<open>The data both runs share\<close>

definition renumber_frame :: "(int \<Rightarrow> int) \<Rightarrow> callFrame \<Rightarrow> callFrame" where
  "renumber_frame N f = f\<lparr>cf_returnPC := N (cf_returnPC f)\<rparr>"

definition same_data :: "(int \<Rightarrow> int) \<Rightarrow> 'w execState \<Rightarrow> 'w execState \<Rightarrow> bool" where
  "same_data N s t \<longleftrightarrow>
     st_locals t = st_locals s \<and> st_initialized t = st_initialized s \<and> st_extras t = st_extras s \<and>
     st_refWrites t = st_refWrites s \<and> st_iterators t = st_iterators s \<and> st_deferred t = st_deferred s \<and>
     st_heap t = st_heap s \<and> st_world t = st_world s \<and>
     st_callFrames t = map (renumber_frame N) (st_callFrames s)"

definition control :: "'w execState \<Rightarrow> val list \<times> int \<times> errorHandler list \<times> int list" where
  "control s = (st_stack s, st_pc s, st_handlers s, map cf_returnPC (st_callFrames s))"

definition quiet :: "(int \<Rightarrow> int) \<Rightarrow> ('w, 'a) comp \<Rightarrow> ('w, 'a) comp \<Rightarrow> bool" where
  "quiet N m m' \<longleftrightarrow>
     (\<forall>s t. same_data N s t \<longrightarrow>
        rel_act (\<lambda>(r, s1) (r', t1). r' = r \<and> same_data N s1 t1 \<and> control s1 = control s \<and> control t1 = control t)
          (m s) (m' t))"

definition same_names :: "Program \<Rightarrow> Program \<Rightarrow> bool" where
  "same_names p p' \<longleftrightarrow>
     p_constants p' = p_constants p \<and> p_localNames p' = p_localNames p \<and> p_nameSlots p' = p_nameSlots p"

lemma quiet_ret [quiet]: "quiet N (ret a) (ret a)"
  by (simp add: quiet_def ret_def)

lemma quiet_leave [quiet]: "quiet N (leave x) (leave x)"
  by (simp add: quiet_def leave_def)



lemma quietD:
  "quiet N m m' \<Longrightarrow> same_data N s t \<Longrightarrow>
   rel_act (\<lambda>(r, s1) (r', t1). r' = r \<and> same_data N s1 t1 \<and> control s1 = control s \<and> control t1 = control t)
     (m s) (m' t)"
  by (simp add: quiet_def)

lemma quiet_bind [quiet]:
  assumes "quiet N m m'" and "\<And>a. quiet N (f a) (f' a)"
  shows "quiet N (mbind m f) (mbind m' f')"
  unfolding quiet_def mbind_def
  by (intro allI impI rel_act_bind [OF quietD [OF assms(1)]])
    (force split: sum.splits dest: quietD [OF assms(2)])+

lemma quiet_then [quiet]: "quiet N m m' \<Longrightarrow> quiet N k k' \<Longrightarrow> quiet N (mthen m k) (mthen m' k')"
  unfolding mthen_def by (rule quiet_bind)

lemma quiet_gets: "(\<And>s t. same_data N s t \<Longrightarrow> g t = f s) \<Longrightarrow> quiet N (gets f) (gets g)"
  by (simp add: quiet_def gets_def)

lemma quiet_modify:
  "(\<And>s t. same_data N s t \<Longrightarrow> same_data N (f s) (g t)) \<Longrightarrow> (\<And>s. control (f s) = control s) \<Longrightarrow>
   (\<And>s. control (g s) = control s) \<Longrightarrow> quiet N (modify f) (modify g)"
  by (simp add: quiet_def modify_def)

lemma quiet_if [quiet]: "(b \<Longrightarrow> quiet N m m') \<Longrightarrow> (\<not> b \<Longrightarrow> quiet N k k') \<Longrightarrow>
    quiet N (if b then m else k) (if b then m' else k')"
  by simp

lemma quiet_option [quiet]: "quiet N m m' \<Longrightarrow> (\<And>a. quiet N (f a) (f' a)) \<Longrightarrow>
    quiet N (case x of None \<Rightarrow> m | Some a \<Rightarrow> f a) (case x of None \<Rightarrow> m' | Some a \<Rightarrow> f' a)"
  by (cases x) auto

lemma quiet_sum [quiet]: "(\<And>a. quiet N (g a) (g' a)) \<Longrightarrow> (\<And>a. quiet N (f a) (f' a)) \<Longrightarrow>
    quiet N (case x of Inl a \<Rightarrow> g a | Inr a \<Rightarrow> f a) (case x of Inl a \<Rightarrow> g' a | Inr a \<Rightarrow> f' a)"
  by (cases x) auto

lemma quiet_list [quiet]: "quiet N m m' \<Longrightarrow> (\<And>a xs. quiet N (f a xs) (f' a xs)) \<Longrightarrow>
    quiet N (case x of [] \<Rightarrow> m | a # xs \<Rightarrow> f a xs) (case x of [] \<Rightarrow> m' | a # xs \<Rightarrow> f' a xs)"
  by (cases x) auto

lemma quiet_prod [quiet]: "(\<And>a b. quiet N (f a b) (f' a b)) \<Longrightarrow>
    quiet N (case x of (a, b) \<Rightarrow> f a b) (case x of (a, b) \<Rightarrow> f' a b)"
  by (cases x) auto

lemma quiet_val_str [quiet]: "(\<And>a. quiet N (f a) (f' a)) \<Longrightarrow> quiet N m m' \<Longrightarrow>
    quiet N (case x of VStr a \<Rightarrow> f a | _ \<Rightarrow> m) (case x of VStr a \<Rightarrow> f' a | _ \<Rightarrow> m')"
  by (cases x) auto

lemma same_data_frames: "same_data N s t \<Longrightarrow> length (st_callFrames t) = length (st_callFrames s)"
  by (simp add: same_data_def)

lemma quiet_from_some [quiet]: "quiet N (from_some x r) (from_some x r)"
  unfolding from_some_def by (intro quiet)

lemma quiet_slice_at [quiet]: "quiet N (slice_at xs i) (slice_at xs i)"
  unfolding slice_at_def by (intro quiet)

lemma quiet_or_raise [quiet]: "quiet N (or_raise r) (or_raise r)"
  unfolding or_raise_def by (intro quiet)

lemma quiet_none_or_raise [quiet]: "quiet N (none_or_raise r) (none_or_raise r)"
  unfolding none_or_raise_def by (intro quiet)

lemma quiet_capability [quiet]: "quiet N (capability what c) (capability what c)"
  unfolding capability_def by (intro quiet)

lemma quiet_fields [quiet]:
  "quiet N (gets st_locals) (gets st_locals)" "quiet N (gets st_initialized) (gets st_initialized)"
  "quiet N (gets st_extras) (gets st_extras)" "quiet N (gets st_iterators) (gets st_iterators)"
  "quiet N (gets st_deferred) (gets st_deferred)" "quiet N (gets st_heap) (gets st_heap)"
  "quiet N (gets (\<lambda>s. length (st_callFrames s))) (gets (\<lambda>s. length (st_callFrames s)))"
  by (rule quiet_gets, simp add: same_data_def)+

section \<open>Slots and host calls\<close>

lemma quiet_set_slot [quiet]: "quiet N (set_slot i v b) (set_slot i v b)"
  unfolding set_slot_def by (intro quiet quiet_modify) (auto simp: same_data_def control_def)

lemma quiet_set_cold [quiet]: "quiet N (set_cold i) (set_cold i)"
  unfolding set_cold_def by (intro quiet quiet_modify) (auto simp: same_data_def control_def)

lemma quiet_local_at [quiet]: "quiet N (local_at i) (local_at i)"
  unfolding local_at_def by (intro quiet)

lemma quiet_initialized_at [quiet]: "quiet N (initialized_at i) (initialized_at i)"
  unfolding initialized_at_def by (intro quiet)

lemma Snapshot_same: "same_names p p' \<Longrightarrow> same_data N s t \<Longrightarrow> Snapshot p' t = Snapshot p s"
  by (simp add: Snapshot_def same_names_def same_data_def cong: if_cong)

lemma apply_name_same:
  "same_names p p' \<Longrightarrow> same_data N s t \<Longrightarrow> same_data N (apply_name p name v s) (apply_name p' name v t)"
  by (auto simp: apply_name_def same_names_def same_data_def split: option.splits)

lemma apply_name_control: "control (apply_name p name v s) = control s"
  by (auto simp: apply_name_def control_def split: option.splits)

lemma applyNamedValues_same:
  assumes "same_names p p'"
  shows "same_data N s t \<Longrightarrow> same_data N (applyNamedValues p names s) (applyNamedValues p' names t)"
  unfolding applyNamedValues_def
  by (induction names arbitrary: s t) (auto intro: apply_name_same [OF assms])

lemma applyNamedValues_control: "control (applyNamedValues p names s) = control s"
  unfolding applyNamedValues_def by (induction names arbitrary: s) (auto simp: apply_name_control)

lemma renumber_frame_data:
  "renumber_frame N (f\<lparr>cf_locals := a, cf_initialized := b, cf_refWrites := c\<rparr>) =
     (renumber_frame N f)\<lparr>cf_locals := a, cf_initialized := b, cf_refWrites := c\<rparr>"
  "cf_locals (renumber_frame N f) = cf_locals f" "cf_initialized (renumber_frame N f) = cf_initialized f"
  "cf_refWrites (renumber_frame N f) = cf_refWrites f" "cf_extras (renumber_frame N f) = cf_extras f"
  "cf_iterators (renumber_frame N f) = cf_iterators f" "cf_deferMark (renumber_frame N f) = cf_deferMark f"
  by (cases f; simp add: renumber_frame_def)+

lemma set_ref_same: "same_data N s t \<Longrightarrow> same_data N (set_ref depth slot v s) (set_ref depth slot v t)"
  by (auto simp: set_ref_def same_data_def Let_def map_update renumber_frame_data)

lemma map_update_same: "f x = f (xs ! i) \<Longrightarrow> map f (xs[i := x]) = map f xs"
  by (induction xs arbitrary: i) (auto split: nat.splits)

lemma set_ref_control: "control (set_ref depth slot v s) = control s"
  by (auto simp: set_ref_def control_def Let_def map_update_same)

lemma quiet_run_hact:
  assumes "same_names p p'"
  shows "quiet N (run_hact p a) (run_hact p' a)"
proof (induction a rule: hact_tree_induct)
  case (HReturn r h w)
  then show ?case by (auto simp: quiet_def same_data_def control_def)
next
  case (HInvoke c xs h w k)
  then show ?case by (simp add: quiet_def rel_fun_def)
next
  case (HSnapshot k)
  have "Snapshot p' t = Snapshot p s" if "same_data N s t" for s t :: "'a execState"
    by (rule Snapshot_same [OF assms that])
  with HSnapshot show ?case by (simp add: quiet_def)
next
  case (HWriteBack vars k)
  show ?case unfolding quiet_def
  proof (intro allI impI)
    fix s t :: "'a execState"
    assume "same_data N s t"
    from quietD [OF HWriteBack applyNamedValues_same [OF assms this, of vars]]
    show "rel_act (\<lambda>(r, s1) (r', t1). r' = r \<and> same_data N s1 t1 \<and> control s1 = control s \<and> control t1 = control t)
        (run_hact p (HWriteBack vars k) s) (run_hact p' (HWriteBack vars k) t)"
      by (simp add: WriteBack_def applyNamedValues_control)
  qed
next
  case (HSetRef depth slot v k)
  show ?case unfolding quiet_def
  proof (intro allI impI)
    fix s t :: "'a execState"
    assume "same_data N s t"
    from quietD [OF HSetRef set_ref_same [OF this, of depth slot v]]
    show "rel_act (\<lambda>(r, s1) (r', t1). r' = r \<and> same_data N s1 t1 \<and> control s1 = control s \<and> control t1 = control t)
        (run_hact p (HSetRef depth slot v k) s) (run_hact p' (HSetRef depth slot v k) t)"
      by (simp add: set_ref_control)
  qed
qed

lemma same_data_env: "same_data N s t \<Longrightarrow> st_heap t = st_heap s \<and> st_world t = st_world s"
  by (simp add: same_data_def)

lemma quiet_host [quiet]:
  assumes "same_names p p'"
  shows "quiet N (host p f) (host p' f)"
  unfolding quiet_def host_def
proof (intro allI impI)
  fix s t :: "'a execState"
  assume st: "same_data N s t"
  from quietD [OF quiet_run_hact [OF assms, of N "f (st_heap s) (st_world s)"] this] same_data_env [OF this]
  show "rel_act (\<lambda>(r, s1) (r', t1). r' = r \<and> same_data N s1 t1 \<and> control s1 = control s \<and> control t1 = control t)
      (run_hact p (f (st_heap s) (st_world s)) s) (run_hact p' (f (st_heap t) (st_world t)) t)"
    by simp
qed

lemma quiet_host_val [quiet]: "same_names p p' \<Longrightarrow> quiet N (host_val p f) (host_val p' f)"
  unfolding host_val_def by (intro quiet)

lemma quiet_host_err [quiet]: "same_names p p' \<Longrightarrow> quiet N (host_err p f) (host_err p' f)"
  unfolding host_err_def by (intro quiet)


section \<open>Renumbered control\<close>

record renum =
  rn :: "int \<Rightarrow> int"
  dests :: "int set"

text \<open>The counters whose successor is a destination too and stays the next one.\<close>

definition singles :: "renum \<Rightarrow> int set" where
  "singles R = {i. i \<in> dests R \<and> i + 1 \<in> dests R \<and> rn R (i + 1) = rn R i + 1}"

definition renumber_handler :: "renum \<Rightarrow> errorHandler \<Rightarrow> errorHandler" where
  "renumber_handler R h = h\<lparr>eh_target := rn R (eh_target h), eh_start := rn R (eh_start h), eh_end := rn R (eh_end h)\<rparr>"

definition handler_ok :: "renum \<Rightarrow> errorHandler \<Rightarrow> bool" where
  "handler_ok R h \<longleftrightarrow> eh_target h \<in> dests R \<and> eh_start h \<in> dests R \<and> (eh_end h \<in> dests R \<or> eh_end h + 1 \<in> dests R)"

definition ctrl :: "renum \<Rightarrow> val list \<times> int \<times> errorHandler list \<times> int list \<Rightarrow> val list \<times> int \<times> errorHandler list \<times> int list \<Rightarrow> bool" where
  "ctrl R c c' = (case (c, c') of
     ((stack, pc, handlers, returns), (stack', pc', handlers', returns')) \<Rightarrow>
       stack' = stack \<and> handlers' = map (renumber_handler R) handlers \<and>
       (\<forall>h \<in> set handlers. handler_ok R h) \<and> set returns \<subseteq> singles R)"

text \<open>Everything but the counter is related; and the counters are.\<close>

definition related0 :: "renum \<Rightarrow> 'w execState \<Rightarrow> 'w execState \<Rightarrow> bool" where
  "related0 R s t \<longleftrightarrow> same_data (rn R) s t \<and> ctrl R (control s) (control t)"

definition at_same :: "renum \<Rightarrow> 'w execState \<Rightarrow> 'w execState \<Rightarrow> bool" where
  "at_same R s t \<longleftrightarrow> st_pc s \<in> dests R \<and> st_pc t = rn R (st_pc s)"

definition related :: "renum \<Rightarrow> 'w execState \<Rightarrow> 'w execState \<Rightarrow> bool" where
  "related R s t \<longleftrightarrow> related0 R s t \<and> at_same R s t"

definition sim :: "renum \<Rightarrow> ('w, 'a) comp \<Rightarrow> ('w, 'a) comp \<Rightarrow> bool" where
  "sim R m m' \<longleftrightarrow>
     (\<forall>s t. related0 R s t \<longrightarrow>
        rel_act (\<lambda>(r, s1) (r', t1). r' = r \<and> related0 R s1 t1 \<and> st_pc s1 = st_pc s \<and> st_pc t1 = st_pc t)
          (m s) (m' t))"

text \<open>\<open>sim_to R P\<close>: an answer that satisfies \<open>P\<close> leaves the two runs at one destination.
  \<open>sim_flow\<close> is about an instruction at a counter of its own.\<close>

definition sim_to :: "renum \<Rightarrow> ('a \<Rightarrow> bool) \<Rightarrow> ('w, 'a) comp \<Rightarrow> ('w, 'a) comp \<Rightarrow> bool" where
  "sim_to R P m m' \<longleftrightarrow>
     (\<forall>s t. related0 R s t \<longrightarrow>
        rel_act (\<lambda>(r, s1) (r', t1). r' = r \<and> related0 R s1 t1 \<and> (\<forall>a. r = Inr a \<longrightarrow> P a \<longrightarrow> at_same R s1 t1))
          (m s) (m' t))"

definition flow_done :: "renum \<Rightarrow> exit + flow \<Rightarrow> 'w execState \<Rightarrow> 'w execState \<Rightarrow> bool" where
  "flow_done R r s t \<longleftrightarrow>
     related0 R s t \<and> (\<forall>f. r = Inr f \<longrightarrow> at_same R s t) \<and> (r = Inr Advance \<longrightarrow> st_pc s \<in> singles R)"

definition sim_flow :: "renum \<Rightarrow> ('w, flow) comp \<Rightarrow> ('w, flow) comp \<Rightarrow> bool" where
  "sim_flow R m m' \<longleftrightarrow>
     (\<forall>s t. related R s t \<longrightarrow> st_pc s \<in> singles R \<longrightarrow>
        rel_act (\<lambda>(r, s1) (r', t1). r' = r \<and> flow_done R r s1 t1) (m s) (m' t))"

lemma simD:
  "sim R m m' \<Longrightarrow> related0 R s t \<Longrightarrow>
   rel_act (\<lambda>(r, s1) (r', t1). r' = r \<and> related0 R s1 t1 \<and> st_pc s1 = st_pc s \<and> st_pc t1 = st_pc t) (m s) (m' t)"
  by (simp add: sim_def)

lemma sim_toD:
  "sim_to R P m m' \<Longrightarrow> related0 R s t \<Longrightarrow>
   rel_act (\<lambda>(r, s1) (r', t1). r' = r \<and> related0 R s1 t1 \<and> (\<forall>a. r = Inr a \<longrightarrow> P a \<longrightarrow> at_same R s1 t1)) (m s) (m' t)"
  by (simp add: sim_to_def)

lemma sim_flowD:
  "sim_flow R m m' \<Longrightarrow> related R s t \<Longrightarrow> st_pc s \<in> singles R \<Longrightarrow>
   rel_act (\<lambda>(r, s1) (r', t1). r' = r \<and> flow_done R r s1 t1) (m s) (m' t)"
  by (simp add: sim_flow_def)

lemma control_pc: "control s1 = control s \<Longrightarrow> st_pc s1 = st_pc s"
  by (simp add: control_def)

lemma same_pcs: "st_pc s1 = st_pc s \<Longrightarrow> st_pc t1 = st_pc t \<Longrightarrow> at_same R s1 t1 = at_same R s t"
  by (simp add: at_same_def)

lemma sim_quiet: "quiet (rn R) m m' \<Longrightarrow> sim R m m'"
  unfolding sim_def
  by (auto simp: related0_def intro!: act.rel_mono_strong [OF quietD] dest: control_pc)

lemma sim_bind [sim]:
  assumes "sim R m m'" and "\<And>a. sim R (f a) (f' a)"
  shows "sim R (mbind m f) (mbind m' f')"
  unfolding sim_def mbind_def
  by (intro allI impI rel_act_bind [OF simD [OF assms(1)]])
    (force split: sum.splits dest: simD [OF assms(2)])+

lemma sim_to_bind:
  assumes "sim R m m'" and "\<And>a. sim_to R P (f a) (f' a)"
  shows "sim_to R P (mbind m f) (mbind m' f')"
  unfolding sim_to_def mbind_def
  by (intro allI impI rel_act_bind [OF simD [OF assms(1)]])
    (force split: sum.splits dest: sim_toD [OF assms(2)])+

text \<open>A search that goes on where it has not found anything.\<close>

lemma sim_to_orelse:
  assumes "sim_to R (\<lambda>b. b) m m'" and "sim_to R (\<lambda>b. b) k k'"
  shows "sim_to R (\<lambda>b. b) (mbind m (\<lambda>b. if b then ret True else k)) (mbind m' (\<lambda>b. if b then ret True else k'))"
  unfolding sim_to_def mbind_def
  by (intro allI impI rel_act_bind [OF sim_toD [OF assms(1)]])
    (force simp: ret_def split: sum.splits dest: sim_toD [OF assms(2)])+

lemma related_pcs:
  "related R s t \<Longrightarrow> related0 R s1 t1 \<Longrightarrow> st_pc s1 = st_pc s \<Longrightarrow> st_pc t1 = st_pc t \<Longrightarrow> related R s1 t1"
  by (simp add: related_def at_same_def)

lemma sim_flow_bind:
  assumes "sim R m m'" and "\<And>a. sim_flow R (f a) (f' a)"
  shows "sim_flow R (mbind m f) (mbind m' f')"
  unfolding sim_flow_def mbind_def
proof (intro allI impI rel_act_bind)
  fix s t :: "'a execState"
  assume st: "related R s t" "st_pc s \<in> singles R"
  then have "related0 R s t" by (simp add: related_def)
  from simD [OF assms(1) this]
  show "rel_act (\<lambda>(r, s1) (r', t1). r' = r \<and> related R s1 t1 \<and> st_pc s1 \<in> singles R) (m s) (m' t)"
    by (rule act.rel_mono_strong) (use st in \<open>auto intro: related_pcs\<close>)
next
  fix x y :: "(exit + 'b) \<times> 'a execState"
  assume "(\<lambda>(r, s1) (r', t1). r' = r \<and> related R s1 t1 \<and> st_pc s1 \<in> singles R) x y"
  then show "rel_act (\<lambda>(r, s1) (r', t1). r' = r \<and> flow_done R r s1 t1)
      (case x of (Inl x, s') \<Rightarrow> Ret (Inl x, s') | (Inr a, s') \<Rightarrow> f a s')
      (case y of (Inl x, s') \<Rightarrow> Ret (Inl x, s') | (Inr a, s') \<Rightarrow> f' a s')"
    using sim_flowD [OF assms(2)] by (cases x; cases y; cases "fst x") (auto simp: flow_done_def related_def)
qed

lemma sim_imp_to: "sim R m m' \<Longrightarrow> (\<And>a. \<not> P a) \<Longrightarrow> sim_to R P m m'"
  unfolding sim_to_def by (auto intro!: act.rel_mono_strong [OF simD])

lemma sim_to_False: "sim_to R (\<lambda>b. b) (ret False) (ret False)"
  by (simp add: sim_to_def ret_def)

lemma sim_to_leave: "sim_to R P (leave x) (leave x)"
  by (simp add: sim_to_def leave_def)

lemma flow_done_same:
  "related R s t \<Longrightarrow> st_pc s \<in> singles R \<Longrightarrow> related0 R s1 t1 \<Longrightarrow> st_pc s1 = st_pc s \<Longrightarrow> st_pc t1 = st_pc t \<Longrightarrow>
   flow_done R r s1 t1"
  by (simp add: flow_done_def related_def at_same_def)

lemma sim_imp_flow:
  assumes "sim R m m'"
  shows "sim_flow R m m'"
  unfolding sim_flow_def
proof (intro allI impI)
  fix s t :: "'a execState"
  assume st: "related R s t" "st_pc s \<in> singles R"
  then have "related0 R s t" by (simp add: related_def)
  from simD [OF assms this] show "rel_act (\<lambda>(r, s1) (r', t1). r' = r \<and> flow_done R r s1 t1) (m s) (m' t)"
    by (rule act.rel_mono_strong) (use st in \<open>auto intro: flow_done_same\<close>)
qed

lemma sim_then [sim]: "sim R m m' \<Longrightarrow> sim R k k' \<Longrightarrow> sim R (mthen m k) (mthen m' k')"
  unfolding mthen_def by (rule sim_bind)

lemma sim_flow_then: "sim R m m' \<Longrightarrow> sim_flow R k k' \<Longrightarrow> sim_flow R (mthen m k) (mthen m' k')"
  unfolding mthen_def by (rule sim_flow_bind)

lemma sim_to_then: "sim R m m' \<Longrightarrow> sim_to R P k k' \<Longrightarrow> sim_to R P (mthen m k) (mthen m' k')"
  unfolding mthen_def by (rule sim_to_bind)

lemma sim_if [sim]: "(b \<Longrightarrow> sim R m m') \<Longrightarrow> (\<not> b \<Longrightarrow> sim R k k') \<Longrightarrow>
    sim R (if b then m else k) (if b then m' else k')"
  by simp

lemma sim_option [sim]: "sim R m m' \<Longrightarrow> (\<And>a. sim R (f a) (f' a)) \<Longrightarrow>
    sim R (case x of None \<Rightarrow> m | Some a \<Rightarrow> f a) (case x of None \<Rightarrow> m' | Some a \<Rightarrow> f' a)"
  by (cases x) auto

lemma sim_prod [sim]: "(\<And>a b. sim R (f a b) (f' a b)) \<Longrightarrow>
    sim R (case x of (a, b) \<Rightarrow> f a b) (case x of (a, b) \<Rightarrow> f' a b)"
  by (cases x) auto

lemma sim_list [sim]: "sim R m m' \<Longrightarrow> (\<And>a xs. sim R (f a xs) (f' a xs)) \<Longrightarrow>
    sim R (case x of [] \<Rightarrow> m | a # xs \<Rightarrow> f a xs) (case x of [] \<Rightarrow> m' | a # xs \<Rightarrow> f' a xs)"
  by (cases x) auto

lemma sim_val_str [sim]: "(\<And>a. sim R (f a) (f' a)) \<Longrightarrow> sim R m m' \<Longrightarrow>
    sim R (case x of VStr a \<Rightarrow> f a | _ \<Rightarrow> m) (case x of VStr a \<Rightarrow> f' a | _ \<Rightarrow> m')"
  by (cases x) auto

section \<open>The operand stack\<close>

lemma related_simps:
  "related0 R s t \<longleftrightarrow>
     same_data (rn R) s t \<and> st_stack t = st_stack s \<and>
     st_handlers t = map (renumber_handler R) (st_handlers s) \<and>
     (\<forall>h \<in> set (st_handlers s). handler_ok R h) \<and> (\<forall>f \<in> set (st_callFrames s). cf_returnPC f \<in> singles R)"
  by (auto simp: related0_def ctrl_def control_def)

lemma sim_modify:
  "(\<And>s t. related0 R s t \<Longrightarrow> related0 R (f s) (g t)) \<Longrightarrow> (\<And>s. st_pc (f s) = st_pc s) \<Longrightarrow>
   (\<And>s. st_pc (g s) = st_pc s) \<Longrightarrow> sim R (modify f) (modify g)"
  by (simp add: sim_def modify_def)

lemma sim_gets: "(\<And>s t. related0 R s t \<Longrightarrow> g t = f s) \<Longrightarrow> sim R (gets f) (gets g)"
  by (simp add: sim_def gets_def)

lemma sim_ret [sim]: "sim R (ret a) (ret a)"
  by (rule sim_quiet) (rule quiet)

lemma sim_leave [sim]: "sim R (leave x) (leave x)"
  by (rule sim_quiet) (rule quiet)

lemma sim_push [sim]: "sim R (push v) (push v)"
  unfolding push_def by (rule sim_modify) (simp_all add: related_simps same_data_def)

lemma sim_pop [sim]: "sim R pop pop"
  unfolding pop_def by (intro sim sim_gets sim_modify) (auto simp: related_simps same_data_def)

lemma sim_peek [sim]: "sim R (peek x) (peek x)"
  unfolding peek_def by (intro sim sim_gets) (auto simp: related_simps)

lemma sim_args [sim]: "sim R (args n) (args n)"
  unfolding args_def by (intro sim sim_gets sim_modify) (auto simp: related_simps same_data_def)

lemma sim_push_next [sim]: "sim R (push_next v) (push_next v)"
  unfolding push_next_def next_pc_def by (intro sim)

lemma sim_next_pc [sim]: "sim R next_pc next_pc"
  unfolding next_pc_def by (intro sim)

lemma sim_push_if [sim]: "sim R (push_if b v) (push_if b v)"
  unfolding push_if_def by (intro sim)

lemma sim_pop2 [sim]: "sim R pop2 pop2"
  unfolding pop2_def by (intro sim)

lemma sim_pop_items [sim]: "sim R (pop_items n items) (pop_items n items)"
  by (induction n arbitrary: items) (auto intro!: sim)

lemma sim_pop_key [sim]: "sim R (pop_key i) (pop_key i)"
  unfolding pop_key_def by (intro sim)

lemma sim_push_stepped [sim]: "sim R (push_stepped i a b) (push_stepped i a b)"
  unfolding push_stepped_def by (intro sim)

lemmas sim_micro [sim] =
  sim_quiet [OF quiet_from_some] sim_quiet [OF quiet_slice_at] sim_quiet [OF quiet_or_raise]
  sim_quiet [OF quiet_none_or_raise] sim_quiet [OF quiet_capability]
  sim_quiet [OF quiet_fields(1)] sim_quiet [OF quiet_fields(2)] sim_quiet [OF quiet_fields(3)]
  sim_quiet [OF quiet_fields(4)] sim_quiet [OF quiet_fields(5)] sim_quiet [OF quiet_fields(6)]
  sim_quiet [OF quiet_fields(7)]
  sim_quiet [OF quiet_set_slot] sim_quiet [OF quiet_set_cold] sim_quiet [OF quiet_local_at]
  sim_quiet [OF quiet_initialized_at] sim_quiet [OF quiet_host] sim_quiet [OF quiet_host_val]
  sim_quiet [OF quiet_host_err]

end
