(* ===== verification/Fusion.thy ===== *)
theory Fusion
  imports Cycle
begin

text \<open>
  \<open>flatstack/engine/fuse.go\<close>: the peephole pass that rewrites a compiled stream into register
  forms and renumbers every recorded program counter. \<open>None\<close> is a panic of the pass (a recorded
  counter outside the stream), which \<open>Compile\<close> recovers into an error.
\<close>

section \<open>The pass\<close>

definition jumps :: "opcode \<Rightarrow> bool" where
  "jumps c \<longleftrightarrow> c \<in> {OpJump, OpJumpFalse, OpJumpTrue, OpJumpNotNil, OpIterNext}"

definition recorded :: "instruction \<Rightarrow> int list" where
  "recorded i =
     (if jumps (i_op i) then [i_target i]
      else if i_op i = OpTryPush then [i_target i, i_b i]
      else [])"

definition protectedPCs :: "Program \<Rightarrow> int list" where
  "protectedPCs p =
     concat (map recorded (p_code p)) @ map t_target (concat (p_catchGroups p)) @
     map k_entryPC (p_closures p) @ map (\<lambda>(name, def). f_entryPC def) (p_userFuncs p)"

definition fusable :: "Program \<Rightarrow> int list \<Rightarrow> nat \<Rightarrow> bool" where
  "fusable p prot j \<longleftrightarrow> j < length (p_code p) \<and> int j \<notin> set prot"

definition fused_operands :: "Program \<Rightarrow> int list \<Rightarrow> nat \<Rightarrow> (instruction \<times> nat) option" where
  "fused_operands p prot i =
     (let src = p_code p; inst = src ! i
      in if i_op inst = OpLoad \<and> fusable p prot (i + 1) \<and> fusable p prot (i + 2) \<and>
            i_op (src ! (i + 1)) = OpLoad \<and> i_op (src ! (i + 2)) = OpBinary
         then Some ((instr OpBinLL)\<lparr>i_a := i_a inst, i_c := i_a (src ! (i + 1)),
                      i_b := i_b (src ! (i + 2)), i_name := i_name (src ! (i + 2))\<rparr>, 3)
         else if i_op inst = OpLoad \<and> fusable p prot (i + 1) \<and> fusable p prot (i + 2) \<and>
            i_op (src ! (i + 1)) = OpPushConst \<and> i_op (src ! (i + 2)) = OpBinary
         then Some ((instr OpBinLC)\<lparr>i_a := i_a inst, i_c := i_a (src ! (i + 1)),
                      i_b := i_b (src ! (i + 2)), i_name := i_name (src ! (i + 2))\<rparr>, 3)
         else if i_op inst = OpPushConst \<and> fusable p prot (i + 1) \<and> i_op (src ! (i + 1)) = OpBinary
         then Some ((instr OpBinTC)\<lparr>i_c := i_a inst,
                      i_b := i_b (src ! (i + 1)), i_name := i_name (src ! (i + 1))\<rparr>, 2)
         else if i_op inst = OpBinary then Some (inst, 1)
         else None)"

definition plain_store :: "instruction \<Rightarrow> bool" where
  "plain_store i \<longleftrightarrow> i_op i = OpStore \<and> (i_name i = '''' \<or> i_name i = ''='') \<and> i_b i = 0 \<and> i_extra i = ''''"

definition fuseAt :: "Program \<Rightarrow> int list \<Rightarrow> nat \<Rightarrow> instruction \<times> nat" where
  "fuseAt p prot i =
     (case fused_operands p prot i of
        None \<Rightarrow> (p_code p ! i, 1)
      | Some (fused, width) \<Rightarrow>
          (let j = i + width
           in if fusable p prot j \<and> plain_store (p_code p ! j)
              then (fused\<lparr>i_target := i_a (p_code p ! j) + 1\<rparr>, width + 1)
              else (fused, width)))"

lemma fuseAt_width: "fuseAt p prot i = (inst, w) \<Longrightarrow> 0 < w"
  by (auto simp: fuseAt_def fused_operands_def Let_def split: option.splits if_splits)

text \<open>The fused stream from source position i on, its next index k, and the new index of every
  position, which the loop records as it goes.\<close>

function fuse_loop :: "Program \<Rightarrow> int list \<Rightarrow> nat \<Rightarrow> nat \<Rightarrow> instruction list \<times> nat list" where
  "fuse_loop p prot i k =
     (if length (p_code p) \<le> i then ([], [k])
      else
        (let (inst, width) = fuseAt p prot i; (fused, newPC) = fuse_loop p prot (i + width) (Suc k)
         in (inst # fused, replicate width k @ newPC)))"
  by pat_completeness auto

termination
  by (relation "measure (\<lambda>(p, prot, i, k). length (p_code p) - i)") (auto dest!: fuseAt_width [OF sym])

declare fuse_loop.simps [simp del]

definition moved :: "nat list \<Rightarrow> int \<Rightarrow> int option" where
  "moved newPC t = map_option int (index_at newPC t)"

definition retarget :: "nat list \<Rightarrow> instruction \<Rightarrow> instruction option" where
  "retarget newPC i =
     (if jumps (i_op i) then map_option (\<lambda>t. i\<lparr>i_target := t\<rparr>) (moved newPC (i_target i))
      else if i_op i = OpTryPush
      then (case (moved newPC (i_target i), moved newPC (i_b i)) of
              (Some t, Some b) \<Rightarrow> Some (i\<lparr>i_target := t, i_b := b\<rparr>)
            | _ \<Rightarrow> None)
      else Some i)"

definition retarget_clause :: "nat list \<Rightarrow> catchClause \<Rightarrow> catchClause option" where
  "retarget_clause newPC c = map_option (\<lambda>t. c\<lparr>t_target := t\<rparr>) (moved newPC (t_target c))"

definition retarget_closure :: "nat list \<Rightarrow> closureDef \<Rightarrow> closureDef option" where
  "retarget_closure newPC d = map_option (\<lambda>t. d\<lparr>k_entryPC := t\<rparr>) (moved newPC (k_entryPC d))"

definition retarget_func :: "nat list \<Rightarrow> string \<times> userFuncDef \<Rightarrow> (string \<times> userFuncDef) option" where
  "retarget_func newPC nd =
     map_option (\<lambda>t. (fst nd, (snd nd)\<lparr>f_entryPC := t\<rparr>)) (moved newPC (f_entryPC (snd nd)))"

definition fuseProgram :: "Program \<Rightarrow> Program option" where
  "fuseProgram p =
     (if p_code p = [] then Some p
      else
        (let (fused, newPC) = fuse_loop p (protectedPCs p) 0 0
         in case (those (map (retarget newPC) fused),
                  those (map (\<lambda>g. those (map (retarget_clause newPC) g)) (p_catchGroups p)),
                  those (map (retarget_closure newPC) (p_closures p)),
                  those (map (retarget_func newPC) (p_userFuncs p))) of
              (Some stream, Some groups, Some closures, Some funcs) \<Rightarrow>
                Some (p\<lparr>p_code := stream, p_catchGroups := groups, p_closures := closures, p_userFuncs := funcs\<rparr>)
            | _ \<Rightarrow> None))"

text \<open>
  The end of \<open>Compile\<close>: the folded index of the functions is built from the table the pass left.
  A fold collision is a redeclaration error before this point.
\<close>

definition index_functions :: "Program \<Rightarrow> Program" where
  "index_functions p =
     p\<lparr>p_userFuncsFold := map (\<lambda>(name, def). (map to_lower name, def)) (p_userFuncs p)\<rparr>"

definition finish_program :: "Program \<Rightarrow> Program option" where
  "finish_program p = map_option index_functions (fuseProgram p)"

end
