(* ===== verification/RenamedOps.thy ===== *)
theory RenamedOps
  imports Renaming Fusion
begin

text \<open>
  Every instruction of the machine under a renumbering of the program: the operations that do not
  move control do the same in both runs, and the jumps, calls, returns and handlers take related
  states to related states.
\<close>

section \<open>Operations without control\<close>

lemma same_names_fields:
  "same_names p p' \<Longrightarrow> p_constants p' = p_constants p"
  "same_names p p' \<Longrightarrow> p_localNames p' = p_localNames p"
  "same_names p p' \<Longrightarrow> p_nameSlots p' = p_nameSlots p"
  by (simp_all add: same_names_def)

lemma quiet_loadLocal [quiet]: "same_names p p' \<Longrightarrow> quiet N (loadLocal p H slot) (loadLocal p' H slot)"
  unfolding loadLocal_def by (simp only: same_names_fields) (intro quiet)

lemma quiet_current_local [quiet]: "same_names p p' \<Longrightarrow> quiet N (current_local p H slot) (current_local p' H slot)"
  unfolding current_local_def by (simp only: same_names_fields) (intro quiet)

lemma quiet_store_slot [quiet]: "same_names p p' \<Longrightarrow> quiet N (store_slot p H slot v) (store_slot p' H slot v)"
  unfolding store_slot_def by (simp only: same_names_fields) (intro quiet)

lemma quiet_binary_value [quiet]:
  "same_names p p' \<Longrightarrow> i_b i = i_b j \<Longrightarrow> i_name i = i_name j \<Longrightarrow>
   quiet N (binary_value p H i left right) (binary_value p' H j left right)"
  unfolding binary_value_def by (simp only:) (intro quiet)

lemma quiet_set_identity [quiet]: "same_names p p' \<Longrightarrow> quiet N (set_identity p H v x) (set_identity p' H v x)"
  unfolding set_identity_def
  by (cases v) (auto intro!: quiet quiet_modify simp: same_data_def control_def)

lemma quiet_bag_read [quiet]: "quiet N (bag_read a name) (bag_read a name)"
  unfolding bag_read_def by (rule quiet_gets) (simp add: same_data_def)

lemma quiet_bag_write [quiet]: "quiet N (bag_write a name v) (bag_write a name v)"
  unfolding bag_write_def by (intro quiet quiet_modify) (auto simp: same_data_def control_def)

lemma quiet_static_bag [quiet]: "same_names p p' \<Longrightarrow> quiet N (static_bag p H i) (static_bag p' H i)"
  unfolding static_bag_def by (simp only: same_names_fields) (intro quiet)

lemma quiet_setIterator [quiet]: "quiet N (setIterator n it) (setIterator n it)"
  unfolding setIterator_def by (intro quiet quiet_modify) (auto simp: same_data_def control_def)

lemma quiet_iterator_at [quiet]: "quiet N (iterator_at n) (iterator_at n)"
  unfolding iterator_at_def by (intro quiet)

lemma quiet_iter_next [quiet]: "i_a i = i_a j \<Longrightarrow> quiet N (iter_next i) (iter_next j)"
  unfolding iter_next_def by (simp only: Let_def) (intro quiet)

lemma quiet_clear_refs [quiet]: "quiet N clear_refs clear_refs"
  unfolding clear_refs_def by (rule quiet_modify) (auto simp: same_data_def control_def)

lemma quiet_dynamic_name [sim]: "same_names p p' \<Longrightarrow> sim R (dynamic_name p H i) (dynamic_name p' H i)"
  unfolding dynamic_name_def by (intro sim)

lemma quiet_capture [quiet]: "same_names p p' \<Longrightarrow> quiet N (capture p H slots) (capture p' H slots)"
  by (induction slots) (auto intro!: quiet)

lemma quiet_capture_this [quiet]: "quiet N (capture_this d) (capture_this d)"
  unfolding capture_this_def by (intro quiet)

lemma sim_compact_map [sim]: "sim R compact_map compact_map"
  unfolding compact_map_def by (intro sim)

lemma sim_host_call [sim]: "same_names p p' \<Longrightarrow> sim R (host_call p f) (host_call p' f)"
  unfolding host_call_def by (intro sim sim_quiet [OF quiet_clear_refs])

lemmas sim_data [sim] =
  sim_quiet [OF quiet_loadLocal] sim_quiet [OF quiet_current_local] sim_quiet [OF quiet_store_slot]
  sim_quiet [OF quiet_binary_value] sim_quiet [OF quiet_set_identity] sim_quiet [OF quiet_bag_read]
  sim_quiet [OF quiet_bag_write] sim_quiet [OF quiet_static_bag] sim_quiet [OF quiet_setIterator]
  sim_quiet [OF quiet_iterator_at] sim_quiet [OF quiet_clear_refs] sim_quiet [OF quiet_capture]
  sim_quiet [OF quiet_capture_this]

lemma sim_binary_result [sim]: "same_names p p' \<Longrightarrow> sim R (binary_result p H i v) (binary_result p' H i v)"
  unfolding binary_result_def by (intro sim)

lemma sim_binary_operands [sim]: "same_names p p' \<Longrightarrow> sim R (binary_operands p H i) (binary_operands p' H i)"
  unfolding binary_operands_def by (simp only: same_names_fields) (cases "i_op i"; simp; intro sim)

lemmas data_op_defs =
  exec_PushConst_def exec_Pop_def exec_Dup_def exec_Load_def exec_LoadConst_def exec_Store_def
  exec_UnsetLocal_def exec_Initialized_def exec_Binary_def exec_Unary_def exec_Cast_def
  exec_Truthy_def exec_ClassConst_def exec_DefineConst_def exec_Echo_def exec_IncDecLocal_def
  exec_IncDecIndex_def exec_IncDecProp_def exec_Array_def exec_Index_def exec_SetIndex_def
  exec_UnsetIndex_def exec_EnsureArray_def exec_VivifyIndex_def exec_VivifyProperty_def
  exec_GetProperty_def exec_SetProperty_def exec_UnsetProp_def exec_StaticProp_def
  exec_SetStaticProp_def exec_StaticSeeded_def exec_StaticLoad_def exec_StaticStore_def
  exec_IncDecStatic_def exec_CompactEntry_def exec_Construct_def exec_Callable_def
  exec_CallStatic_def exec_IterInit_def exec_Throw_def

text \<open>The instructions built from the related parts alone.\<close>

lemma sim_data_ops:
  assumes "same_names p p'"
  shows "sim R (exec_PushConst p i) (exec_PushConst p' i)"
    and "sim R exec_Pop exec_Pop"
    and "sim R exec_Dup exec_Dup"
    and "sim R (exec_Load p H i) (exec_Load p' H i)"
    and "sim R (exec_LoadConst p H i) (exec_LoadConst p' H i)"
    and "sim R (exec_Store p H i) (exec_Store p' H i)"
    and "sim R (exec_UnsetLocal i) (exec_UnsetLocal i)"
    and "sim R (exec_Initialized i) (exec_Initialized i)"
    and "sim R (exec_Binary p H i) (exec_Binary p' H i)"
    and "sim R (exec_Unary p H i) (exec_Unary p' H i)"
    and "sim R (exec_Cast p H i) (exec_Cast p' H i)"
    and "sim R (exec_Truthy p H) (exec_Truthy p' H)"
    and "sim R (exec_ClassConst p H i) (exec_ClassConst p' H i)"
    and "sim R (exec_DefineConst p H i) (exec_DefineConst p' H i)"
    and "sim R (exec_Echo p H) (exec_Echo p' H)"
    and "sim R (exec_IncDecLocal p H i) (exec_IncDecLocal p' H i)"
    and "sim R (exec_IncDecIndex p H i) (exec_IncDecIndex p' H i)"
    and "sim R (exec_IncDecProp p H i) (exec_IncDecProp p' H i)"
    and "sim R (exec_Array p H i) (exec_Array p' H i)"
    and "sim R (exec_Index p H) (exec_Index p' H)"
    and "sim R (exec_SetIndex p H i) (exec_SetIndex p' H i)"
    and "sim R (exec_UnsetIndex p H i) (exec_UnsetIndex p' H i)"
    and "sim R (exec_EnsureArray p H) (exec_EnsureArray p' H)"
    and "sim R (exec_VivifyIndex p H i) (exec_VivifyIndex p' H i)"
    and "sim R (exec_VivifyProperty p H i) (exec_VivifyProperty p' H i)"
    and "sim R (exec_GetProperty p H i) (exec_GetProperty p' H i)"
    and "sim R (exec_SetProperty p H i) (exec_SetProperty p' H i)"
    and "sim R (exec_UnsetProp p H i) (exec_UnsetProp p' H i)"
    and "sim R (exec_StaticProp p H i) (exec_StaticProp p' H i)"
    and "sim R (exec_SetStaticProp p H i) (exec_SetStaticProp p' H i)"
    and "sim R (exec_StaticSeeded p H i) (exec_StaticSeeded p' H i)"
    and "sim R (exec_StaticLoad p H i) (exec_StaticLoad p' H i)"
    and "sim R (exec_StaticStore p H i) (exec_StaticStore p' H i)"
    and "sim R (exec_IncDecStatic p H i) (exec_IncDecStatic p' H i)"
    and "sim R (exec_CompactEntry i) (exec_CompactEntry i)"
    and "sim R (exec_Construct p H i) (exec_Construct p' H i)"
    and "sim R (exec_Callable p H i) (exec_Callable p' H i)"
    and "sim R (exec_CallStatic p H i) (exec_CallStatic p' H i)"
    and "sim R (exec_IterInit p H i) (exec_IterInit p' H i)"
    and "sim R (exec_Throw p H) (exec_Throw p' H)"
  using assms unfolding data_op_defs
  by (simp_all only: same_names_fields [OF assms] Let_def) (intro sim assms refl; fail)+


lemma sim_heap_ops:
  assumes "same_names p p'"
  shows sim_CopyValue: "sim R exec_CopyValue exec_CopyValue"
    and sim_CompactInit: "sim R exec_CompactInit exec_CompactInit"
    and sim_Ref: "sim R (exec_Ref i) (exec_Ref i)"
    and sim_Defer: "sim R exec_Defer exec_Defer"
  unfolding exec_CopyValue_def exec_CompactInit_def exec_Ref_def exec_Defer_def
  by ((intro sim sim_modify; auto simp: related_simps same_data_def; fail)+)

lemma lookupName_same: "same_names p p' \<Longrightarrow> same_data N s t \<Longrightarrow> lookupName p' t name = lookupName p s name"
  by (auto simp: lookupName_def same_names_def same_data_def split: option.splits)

lemma sim_CompactDynamic: "same_names p p' \<Longrightarrow> sim R (exec_CompactDynamic p) (exec_CompactDynamic p')"
  unfolding exec_CompactDynamic_def
  by (intro sim sim_gets) (auto simp: related_simps lookupName_same)

lemma sim_Include: "same_names p p' \<Longrightarrow> sim R (exec_Include p H i) (exec_Include p' H i)"
  unfolding exec_Include_def
  by (intro sim sim_gets sim_quiet [OF quiet_modify])
    (auto simp: related_simps Snapshot_same applyNamedValues_same applyNamedValues_control)

lemma sim_iterators:
  assumes "same_names p p'"
  shows sim_IterSet: "sim R (exec_IterSet p H i) (exec_IterSet p' H i)"
    and sim_IterClose: "sim R (exec_IterClose i) (exec_IterClose i)"
  unfolding exec_IterSet_def exec_IterClose_def using assms
  by ((intro sim sim_modify; auto simp: related_simps same_data_def; fail)+)

lemma sim_Rethrow: "sim R (exec_Rethrow i) (exec_Rethrow i)"
proof -
  have "sim R (case v of VError e \<Rightarrow> leave (Raise e) | _ \<Rightarrow> next_pc) (case v of VError e \<Rightarrow> leave (Raise e) | _ \<Rightarrow> next_pc)"
    for v by (cases v) (simp_all add: sim_leave sim_next_pc)
  then show ?thesis unfolding exec_Rethrow_def by (intro sim)
qed

section \<open>Renumbered programs\<close>

definition renumber_clause :: "renum \<Rightarrow> catchClause \<Rightarrow> catchClause" where
  "renumber_clause R c = c\<lparr>t_target := rn R (t_target c)\<rparr>"

definition renumber_func :: "renum \<Rightarrow> userFuncDef \<Rightarrow> userFuncDef" where
  "renumber_func R d = d\<lparr>f_entryPC := rn R (f_entryPC d)\<rparr>"

definition renumber_closure :: "renum \<Rightarrow> closureDef \<Rightarrow> closureDef" where
  "renumber_closure R d = d\<lparr>k_entryPC := rn R (k_entryPC d)\<rparr>"

text \<open>The numbering is increasing on the destinations, and the counter before one goes before it.\<close>

definition renum_ok :: "renum \<Rightarrow> bool" where
  "renum_ok R \<longleftrightarrow>
     (\<forall>a \<in> dests R. \<forall>b \<in> dests R. a < b \<longrightarrow> rn R a < rn R b) \<and>
     (\<forall>a \<in> dests R. rn R (a - 1) = rn R a - 1)"

definition renumbers :: "renum \<Rightarrow> Program \<Rightarrow> Program \<Rightarrow> bool" where
  "renumbers R p p' \<longleftrightarrow>
     renum_ok R \<and> same_names p p' \<and>
     p_catchGroups p' = map (map (renumber_clause R)) (p_catchGroups p) \<and>
     t_target ` set (concat (p_catchGroups p)) \<subseteq> dests R \<and>
     p_closures p' = map (renumber_closure R) (p_closures p) \<and> k_entryPC ` set (p_closures p) \<subseteq> dests R \<and>
     (\<forall>name. lookupUserFunc p' name = map_option (renumber_func R) (lookupUserFunc p name)) \<and>
     (\<forall>name def. lookupUserFunc p name = Some def \<longrightarrow> f_entryPC def \<in> dests R)"

lemma renumbers_names: "renumbers R p p' \<Longrightarrow> same_names p p'"
  by (simp add: renumbers_def)

lemma renum_less: "renum_ok R \<Longrightarrow> a \<in> dests R \<Longrightarrow> b \<in> dests R \<Longrightarrow> rn R a < rn R b \<longleftrightarrow> a < b"
  unfolding renum_ok_def by (metis less_asym linorder_neqE)

lemma renum_le: "renum_ok R \<Longrightarrow> a \<in> dests R \<Longrightarrow> b \<in> dests R \<Longrightarrow> rn R a \<le> rn R b \<longleftrightarrow> a \<le> b"
  by (meson linorder_not_le renum_less)

lemma renum_pred: "renum_ok R \<Longrightarrow> a \<in> dests R \<Longrightarrow> rn R (a - 1) = rn R a - 1"
  by (simp add: renum_ok_def)

text \<open>A destination is in a handler's range exactly when its new number is in the new range.\<close>

lemma renum_range:
  assumes "renum_ok R" and "handler_ok R h" and "t \<in> dests R"
  shows "leaves_range depth (rn R t) (renumber_handler R h) = leaves_range depth t h"
proof -
  have "rn R t \<le> rn R (eh_end h) \<longleftrightarrow> t \<le> eh_end h"
  proof (cases "eh_end h \<in> dests R")
    case True
    then show ?thesis using assms by (simp add: renum_le)
  next
    case False
    then have e: "eh_end h + 1 \<in> dests R" using assms(2) by (simp add: handler_ok_def)
    then have "rn R (eh_end h) = rn R (eh_end h + 1) - 1" using renum_pred [OF assms(1) e] by simp
    then show ?thesis using renum_less [OF assms(1) assms(3) e] by simp
  qed
  then show ?thesis
    using assms by (simp add: leaves_range_def renumber_handler_def handler_ok_def renum_le)
qed

section \<open>Jumps\<close>

lemma sim_to_goto: "t \<in> dests R \<Longrightarrow> sim_to R P (goto_pc t) (goto_pc (rn R t))"
  by (simp add: sim_to_def goto_pc_def modify_def related_simps same_data_def at_same_def)

lemma sim_to_goto_ret: "t \<in> dests R \<Longrightarrow> sim_to R P (mthen (goto_pc t) (ret b)) (mthen (goto_pc (rn R t)) (ret b))"
  by (simp add: sim_to_def goto_pc_def mthen_def mbind_def ret_def modify_def related_simps same_data_def at_same_def)

lemma sim_flow_jump: "t \<in> dests R \<Longrightarrow> sim_flow R (jump t) (jump (rn R t))"
  by (simp add: sim_flow_def flow_done_def jump_def goto_pc_def mthen_def mbind_def modify_def ret_def
      related_def related_simps same_data_def at_same_def)

lemma sim_flow_branch:
  "i_target i \<in> dests R \<Longrightarrow> i_target j = rn R (i_target i) \<Longrightarrow> sim_flow R (branch b i) (branch b j)"
  by (cases b) (simp_all add: branch_def sim_flow_jump sim_imp_flow sim_next_pc)

lemma dropWhile_map_cong:
  "(\<And>x. x \<in> set xs \<Longrightarrow> P' (f x) = P x) \<Longrightarrow> dropWhile P' (map f xs) = map f (dropWhile P xs)"
  by (induction xs) auto

lemma sim_flow_Jump:
  assumes "renum_ok R" and "i_target i \<in> dests R" and "i_target j = rn R (i_target i)"
  shows "sim_flow R (exec_Jump i) (exec_Jump j)"
  unfolding exec_Jump_def assms(3)
proof (rule sim_flow_then [OF _ sim_flow_jump [OF assms(2)]], rule sim_modify)
  fix s t :: "'a execState"
  assume st: "related0 R s t"
  have "dropWhile (leaves_range (length (st_callFrames t)) (rn R (i_target i))) (st_handlers t) =
      map (renumber_handler R) (dropWhile (leaves_range (length (st_callFrames s)) (i_target i)) (st_handlers s))"
    using st renum_range [OF assms(1) _ assms(2)] same_data_frames [of "rn R" s t]
    by (simp add: related_simps dropWhile_map_cong)
  then show "related0 R
      (s\<lparr>st_handlers := dropWhile (leaves_range (length (st_callFrames s)) (i_target i)) (st_handlers s)\<rparr>)
      (t\<lparr>st_handlers := dropWhile (leaves_range (length (st_callFrames t)) (rn R (i_target i))) (st_handlers t)\<rparr>)"
    using st by (auto simp: related_simps same_data_def dest: set_dropWhileD)
qed simp_all

lemma sim_flow_JumpBool:
  "same_names p p' \<Longrightarrow> i_target i \<in> dests R \<Longrightarrow> i_target j = rn R (i_target i) \<Longrightarrow>
   sim_flow R (exec_JumpBool p H b i) (exec_JumpBool p' H b j)"
  unfolding exec_JumpBool_def by (intro sim_flow_bind sim sim_flow_branch)

lemma sim_flow_JumpNotNil:
  "i_target i \<in> dests R \<Longrightarrow> i_target j = rn R (i_target i) \<Longrightarrow>
   sim_flow R (exec_JumpNotNil i) (exec_JumpNotNil j)"
  unfolding exec_JumpNotNil_def by (intro sim_flow_bind sim sim_flow_branch)

lemma sim_flow_IterNext:
  assumes "i_target i \<in> dests R" and "j = i\<lparr>i_target := rn R (i_target i)\<rparr>"
  shows "sim_flow R (exec_IterNext i) (exec_IterNext j)"
  unfolding exec_IterNext_def
proof (rule sim_flow_bind)
  show "sim R (iter_next i) (iter_next j)" by (rule sim_quiet [OF quiet_iter_next]) (simp add: assms)
next
  fix entry
  show "sim_flow R
      (case entry of None \<Rightarrow> jump (i_target i)
       | Some (key, v) \<Rightarrow> mthen (if 0 \<le> i_b i then set_slot (i_b i) key True else ret ())
           (mthen (set_slot (i_c i) v True) next_pc))
      (case entry of None \<Rightarrow> jump (i_target j)
       | Some (key, v) \<Rightarrow> mthen (if 0 \<le> i_b j then set_slot (i_b j) key True else ret ())
           (mthen (set_slot (i_c j) v True) next_pc))"
    using assms by (cases entry) (auto simp: sim_flow_jump intro!: sim_imp_flow sim)
qed

section \<open>Handlers, frames and errors\<close>

lemma sim_flow_TryPush:
  assumes "i_target i \<in> dests R" and "i_b i \<in> dests R"
  shows "sim_flow R (exec_TryPush i) (exec_TryPush (i\<lparr>i_target := rn R (i_target i), i_b := rn R (i_b i)\<rparr>))"
  using assms
  by (auto simp: sim_flow_def exec_TryPush_def mthen_def mbind_def modify_def next_pc_def ret_def flow_done_def
      related_def related_simps at_same_def same_data_def renumber_handler_def handler_ok_def singles_def)

lemma set_tl: "x \<in> set (tl xs) \<Longrightarrow> x \<in> set xs"
  by (cases xs) auto

lemma sim_TryPop: "sim R exec_TryPop exec_TryPop"
  unfolding exec_TryPop_def
  by (intro sim sim_gets sim_modify) (auto simp: related_simps same_data_def map_tl dest: set_tl)

lemma quiet_unwind_loop [quiet]: "same_names p p' \<Longrightarrow> quiet N (unwind_loop p H n errs) (unwind_loop p' H n errs)"
  by (induction n arbitrary: errs) (auto intro!: quiet quiet_modify simp: same_data_def control_def)

lemma quiet_unwindDeferred [quiet]: "same_names p p' \<Longrightarrow> quiet N (unwindDeferred p H mark) (unwindDeferred p' H mark)"
  unfolding unwindDeferred_def by (intro quiet)

lemmas sim_unwindDeferred [sim] = sim_quiet [OF quiet_unwindDeferred]

text \<open>Leaving a frame: the two top frames hold the same data.\<close>

lemma related_frames:
  "related0 R s t \<Longrightarrow> st_callFrames s = f # fs \<Longrightarrow>
   st_callFrames t = renumber_frame (rn R) f # map (renumber_frame (rn R)) fs \<and> cf_returnPC f \<in> singles R"
  by (simp add: related_simps same_data_def)

lemma related_restore:
  "related0 R s t \<Longrightarrow> related0 R (restore_frame f s) (restore_frame (renumber_frame (rn R) f) t)"
  by (auto simp: related_simps same_data_def restore_frame_def renumber_frame_data map_tl dest: set_tl)

lemma sim_unwind_frames [sim]:
  assumes "same_names p p'"
  shows "sim R (unwind_frames p H n) (unwind_frames p' H n)"
proof (induction n)
  case 0
  then show ?case by (simp add: sim_ret)
next
  case (Suc n)
  show ?case unfolding sim_def
  proof (intro allI impI)
    fix s t :: "'a execState"
    assume st: "related0 R s t"
    show "rel_act (\<lambda>(r, s1) (r', t1). r' = r \<and> related0 R s1 t1 \<and> st_pc s1 = st_pc s \<and> st_pc t1 = st_pc t)
        (unwind_frames p H (Suc n) s) (unwind_frames p' H (Suc n) t)"
    proof (cases "st_callFrames s")
      case Nil
      then have "st_callFrames t = []" using st by (simp add: related_simps same_data_def)
      then show ?thesis using st Nil by (simp add: mbind_def gets_def ret_def)
    next
      case (Cons f fs)
      have "sim R (mbind (unwindDeferred p H (cf_deferMark f)) (\<lambda>_. mthen (modify (restore_frame f)) (unwind_frames p H n)))
          (mbind (unwindDeferred p' H (cf_deferMark f))
             (\<lambda>_. mthen (modify (restore_frame (renumber_frame (rn R) f))) (unwind_frames p' H n)))"
        by (intro sim assms Suc sim_modify related_restore) (simp_all add: restore_frame_def)
      from simD [OF this st] show ?thesis
        using related_frames [OF st Cons] Cons by (simp add: mbind_def gets_def renumber_frame_data)
    qed
  qed
qed

lemma sim_to_if:
  "(b \<Longrightarrow> sim_to R P m m') \<Longrightarrow> (\<not> b \<Longrightarrow> sim_to R P k k') \<Longrightarrow>
   sim_to R P (if b then m else k) (if b then m' else k')"
  by simp

lemma sim_to_park:
  assumes "handler_ok R h"
  shows "sim_to R (\<lambda>b. b) (park_pending h e) (park_pending (renumber_handler R h) e)"
proof -
  have t: "eh_target h \<in> dests R" using assms by (simp add: handler_ok_def)
  have f: "eh_pending (renumber_handler R h) = eh_pending h" "eh_target (renumber_handler R h) = rn R (eh_target h)"
    by (simp_all add: renumber_handler_def)
  show ?thesis unfolding park_pending_def f
    by (intro sim_to_bind [OF sim_micro(6)] sim_to_if sim_to_False
        sim_to_then [OF sim_quiet [OF quiet_set_slot]] sim_to_goto_ret t)
qed

lemma sim_push_handler:
  assumes "handler_ok R h"
  shows "sim R (modify (\<lambda>s. s\<lparr>st_handlers := h # st_handlers s\<rparr>))
           (modify (\<lambda>s. s\<lparr>st_handlers := renumber_handler R h # st_handlers s\<rparr>))"
  by (rule sim_modify) (use assms in \<open>auto simp: related_simps same_data_def\<close>)

lemma sim_to_select:
  assumes "renum_ok R" and "same_names p p'" and "handler_ok R h" and "t_target ` set clauses \<subseteq> dests R"
  shows "sim_to R (\<lambda>b. b) (select_clause p H h e clauses)
           (select_clause p' H (renumber_handler R h) e (map (renumber_clause R) clauses))"
  using assms(4)
proof (induction clauses)
  case Nil
  then show ?case by (simp add: sim_to_False)
next
  case (Cons c clauses)
  have t: "t_target c \<in> dests R" using Cons.prems by simp
  let ?new = "\<lparr>eh_target = eh_target h, eh_group = - 1, eh_pending = eh_pending h, eh_start = t_target c,
      eh_end = eh_target h - 1, eh_stackDepth = eh_stackDepth h, eh_frameDepth = eh_frameDepth h\<rparr>"
  have ok: "handler_ok R ?new" using assms(3) t by (simp add: handler_ok_def)
  have eq: "renumber_handler R ?new =
      \<lparr>eh_target = rn R (eh_target h), eh_group = - 1, eh_pending = eh_pending h, eh_start = rn R (t_target c),
       eh_end = rn R (eh_target h) - 1, eh_stackDepth = eh_stackDepth h, eh_frameDepth = eh_frameDepth h\<rparr>"
    using renum_pred [OF assms(1), of "eh_target h"] assms(3) by (simp add: renumber_handler_def handler_ok_def)
  have f: "t_declaredType (renumber_clause R c) = t_declaredType c" "t_local (renumber_clause R c) = t_local c"
    "t_target (renumber_clause R c) = rn R (t_target c)"
    "eh_target (renumber_handler R h) = rn R (eh_target h)" "eh_pending (renumber_handler R h) = eh_pending h"
    "eh_stackDepth (renumber_handler R h) = eh_stackDepth h" "eh_frameDepth (renumber_handler R h) = eh_frameDepth h"
    by (simp_all add: renumber_clause_def renumber_handler_def)
  have IH: "sim_to R (\<lambda>b. b) (select_clause p H h e clauses)
      (select_clause p' H (renumber_handler R h) e (map (renumber_clause R) clauses))"
    using Cons by simp
  note push = sim_push_handler [OF ok, unfolded eq]
  show ?case
    unfolding list.map select_clause.simps f
    by (intro sim_to_bind [OF sim_quiet [OF quiet_host]] assms(2) sim_to_if IH sim_to_bind [OF sim_micro(6)]
        sim_to_then [OF push] sim_to_goto_ret t sim_to_then [OF sim_if] sim_ret
        sim_bind [OF sim_quiet [OF quiet_host]] sim_quiet [OF quiet_set_slot])
qed


lemma renumbered_groups:
  assumes "renumbers R p p'"
  shows "index_at (p_catchGroups p') g = map_option (map (renumber_clause R)) (index_at (p_catchGroups p) g)"
    and "index_at (p_catchGroups p) g = Some clauses \<Longrightarrow> t_target ` set clauses \<subseteq> dests R"
proof -
  have "clauses \<in> set (p_catchGroups p)" if "index_at (p_catchGroups p) g = Some clauses" for clauses
    using that by (auto simp: index_at_def split: if_splits)
  then show "index_at (p_catchGroups p) g = Some clauses \<Longrightarrow> t_target ` set clauses \<subseteq> dests R"
    using assms by (fastforce simp: renumbers_def)
  show "index_at (p_catchGroups p') g = map_option (map (renumber_clause R)) (index_at (p_catchGroups p) g)"
    using assms by (auto simp: renumbers_def index_at_def)
qed

lemma sim_to_enter_handler:
  assumes "renumbers R p p'" and "handler_ok R h"
  shows "sim_to R (\<lambda>b. b) (enter_handler p H h e) (enter_handler p' H (renumber_handler R h) e)"
proof -
  have n: "same_names p p'" and ok: "renum_ok R" using assms(1) by (simp_all add: renumbers_def)
  have f: "eh_group (renumber_handler R h) = eh_group h" "eh_frameDepth (renumber_handler R h) = eh_frameDepth h"
    by (simp_all add: renumber_handler_def)
  have search: "sim_to R (\<lambda>b. b)
      (mbind (select_clause p H h (innermost e) clauses)
        (\<lambda>entered. if entered then ret True else park_pending h (innermost e)))
      (mbind (select_clause p' H (renumber_handler R h) (innermost e) (map (renumber_clause R) clauses))
        (\<lambda>entered. if entered then ret True else park_pending (renumber_handler R h) (innermost e)))"
    if "t_target ` set clauses \<subseteq> dests R" for clauses
    by (intro sim_to_orelse sim_to_select sim_to_park ok n assms(2) that)
  have "sim_to R (\<lambda>b. b)
      (mbind (if eh_group h < 0 then ret [] else slice_at (p_catchGroups p) (eh_group h)) (\<lambda>clauses.
         mbind (select_clause p H h (innermost e) clauses)
           (\<lambda>entered. if entered then ret True else park_pending h (innermost e))))
      (mbind (if eh_group h < 0 then ret [] else slice_at (p_catchGroups p') (eh_group h)) (\<lambda>clauses.
         mbind (select_clause p' H (renumber_handler R h) (innermost e) clauses)
           (\<lambda>entered. if entered then ret True else park_pending (renumber_handler R h) (innermost e))))"
  proof (cases "eh_group h < 0")
    case True
    then show ?thesis using True search [of "[]"] by simp
  next
    case False
    show ?thesis
    proof (cases "index_at (p_catchGroups p) (eh_group h)")
      case None
      then show ?thesis using False renumbered_groups(1) [OF assms(1)]
        by (simp add: slice_at_def from_some_def sim_to_leave)
    next
      case (Some clauses)
      then show ?thesis
        using False renumbered_groups(1) [OF assms(1)] search [OF renumbered_groups(2) [OF assms(1) Some]]
        by (simp add: slice_at_def from_some_def)
    qed
  qed
  then show ?thesis unfolding enter_handler_def f
    by (rule sim_to_bind [OF sim_micro(12) sim_to_then [OF sim_unwind_frames [OF n]]])
qed

lemma sim_to_handle:
  assumes "renumbers R p p'"
  shows "sim_to R (\<lambda>b. b) (handle p H e) (handle p' H e)"
  unfolding sim_to_def
proof (intro allI impI)
  fix s t :: "'a execState"
  assume st: "related0 R s t"
  show "rel_act (\<lambda>(r, s1) (r', t1). r' = r \<and> related0 R s1 t1 \<and> (\<forall>a. r = Inr a \<longrightarrow> a \<longrightarrow> at_same R s1 t1)) (handle p H e s) (handle p' H e t)"
  proof (cases "st_handlers s")
    case Nil
    then show ?thesis using st by (simp add: handle_def mbind_def gets_def ret_def related_simps)
  next
    case (Cons h hs)
    have ok: "handler_ok R h" using st Cons by (simp add: related_simps)
    have t: "st_handlers t = renumber_handler R h # map (renumber_handler R) hs" using st Cons by (simp add: related_simps)
    have "sim_to R (\<lambda>b. b) (if exiting e then ret False else mthen (drop_handler h) (enter_handler p H h e))
        (if exiting e then ret False else mthen (drop_handler (renumber_handler R h)) (enter_handler p' H (renumber_handler R h) e))"
      unfolding drop_handler_def
      by (intro sim_to_if sim_to_False sim_to_then [OF sim_modify] sim_to_enter_handler assms ok)
        (auto simp: related_simps same_data_def map_tl renumber_handler_def dest: set_tl)
    from sim_toD [OF this st] show ?thesis using Cons t by (simp add: handle_def mbind_def gets_def)
  qed
qed


section \<open>Calls and returns\<close>

lemma sim_bind_params [sim]: "sim R (bind_params slots vs) (bind_params slots vs)"
  by (induction slots vs rule: bind_params.induct) (auto intro!: sim)

lemma sim_bind_receiver [sim]:
  "f_paramSlots def' = f_paramSlots def \<Longrightarrow> sim R (bind_receiver def receiver) (bind_receiver def' receiver)"
  unfolding bind_receiver_def by (simp only:) (intro sim)

lemma sim_fresh_frame [sim]: "same_names p p' \<Longrightarrow> sim R (fresh_frame p) (fresh_frame p')"
  unfolding fresh_frame_def
  by (simp only: same_names_fields) (rule sim_modify, simp_all add: related_simps same_data_def)

text \<open>The call's own counter goes into the frame: it must be one whose successor stays behind it.\<close>

lemma rel_push_frame:
  assumes "related R s t" and "st_pc s \<in> singles R"
  shows "related0 R
      (s\<lparr>st_callFrames := \<lparr>cf_returnPC = st_pc s, cf_locals = st_locals s, cf_initialized = st_initialized s,
         cf_extras = st_extras s, cf_refWrites = st_refWrites s, cf_iterators = st_iterators s,
         cf_deferMark = length (st_deferred s)\<rparr> # st_callFrames s\<rparr>)
      (t\<lparr>st_callFrames := \<lparr>cf_returnPC = st_pc t, cf_locals = st_locals t, cf_initialized = st_initialized t,
         cf_extras = st_extras t, cf_refWrites = st_refWrites t, cf_iterators = st_iterators t,
         cf_deferMark = length (st_deferred t)\<rparr> # st_callFrames t\<rparr>)"
  using assms by (auto simp: related_def at_same_def related_simps same_data_def renumber_frame_def)

lemma sim_flow_enter:
  assumes "sim_to R (\<lambda>_. True) m m'"
  shows "sim_flow R (mthen (mthen push_frame m) (ret Goto)) (mthen (mthen push_frame m') (ret Goto))"
  unfolding sim_flow_def
proof (intro allI impI)
  fix s t :: "'a execState"
  assume "related R s t" and "st_pc s \<in> singles R"
  from sim_toD [OF assms rel_push_frame [OF this]]
  show "rel_act (\<lambda>(r, s1) (r', t1). r' = r \<and> flow_done R r s1 t1)
      (mthen (mthen push_frame m) (ret Goto) s) (mthen (mthen push_frame m') (ret Goto) t)"
    unfolding mthen_def mbind_def push_frame_def modify_def act_bind.simps prod.case sum.case
    by (rule rel_act_bind) (auto simp: ret_def flow_done_def split: sum.splits)
qed

lemma sim_enter_user:
  assumes "renumbers R p p'" and "f_entryPC def \<in> dests R"
  shows "sim_flow R (enter_user p H def receiver xs) (enter_user p' H (renumber_func R def) receiver xs)"
proof -
  have n: "same_names p p'" using assms(1) by (simp add: renumbers_def)
  have f: "f_paramSlots (renumber_func R def) = f_paramSlots def" "f_variadicSlot (renumber_func R def) = f_variadicSlot def"
    "f_entryPC (renumber_func R def) = rn R (f_entryPC def)"
    by (simp_all add: renumber_func_def)
  have "sim_to R (\<lambda>_. True)
      (mthen (fresh_frame p) (mbind (bind_receiver def receiver) (\<lambda>slots. mthen (bind_params slots xs)
        (mthen (if f_variadicSlot def < 0 then ret ()
           else mbind (host p (h_Array H (map (\<lambda>v. (VNil, v)) (drop (length slots) xs)))) (\<lambda>rest. set_slot (f_variadicSlot def) rest True))
          (goto_pc (f_entryPC def))))))
      (mthen (fresh_frame p') (mbind (bind_receiver (renumber_func R def) receiver) (\<lambda>slots. mthen (bind_params slots xs)
        (mthen (if f_variadicSlot def < 0 then ret ()
           else mbind (host p' (h_Array H (map (\<lambda>v. (VNil, v)) (drop (length slots) xs)))) (\<lambda>rest. set_slot (f_variadicSlot def) rest True))
          (goto_pc (rn R (f_entryPC def)))))))"
    by (intro sim_to_then [OF sim_fresh_frame] sim_to_bind [OF sim_bind_receiver] sim_to_then [OF sim_bind_params]
        sim_to_then [OF sim_if] sim_ret sim_bind [OF sim_quiet [OF quiet_host]] sim_quiet [OF quiet_set_slot]
        sim_to_goto assms(2) n f(1))
  from sim_flow_enter [OF this] show ?thesis
    by (simp only: enter_user_def enterUserFrame_def f)
qed

lemma sim_flow_user_call:
  assumes "renumbers R p p'" and "sim R m m'"
  shows "sim_flow R
      (case lookupUserFunc p name of Some def \<Rightarrow> enter_user p H def receiver xs | None \<Rightarrow> m)
      (case lookupUserFunc p' name of Some def \<Rightarrow> enter_user p' H def receiver xs | None \<Rightarrow> m')"
proof (cases "lookupUserFunc p name")
  case None
  then have "lookupUserFunc p' name = None" using assms(1) by (simp add: renumbers_def)
  then show ?thesis using None assms(2) by (simp add: sim_imp_flow)
next
  case (Some def)
  then have "lookupUserFunc p' name = Some (renumber_func R def)" "f_entryPC def \<in> dests R"
    using assms(1) by (auto simp: renumbers_def)
  then show ?thesis using Some sim_enter_user [OF assms(1)] by simp
qed

lemma sim_flow_Call:
  assumes "renumbers R p p'"
  shows "sim_flow R (exec_Call p H i) (exec_Call p' H i)"
  unfolding exec_Call_def
  by (rule sim_flow_bind [OF sim_args sim_flow_user_call [OF assms sim_host_call [OF renumbers_names [OF assms]]]])

lemma sim_flow_Invoke:
  assumes "renumbers R p p'"
  shows "sim_flow R (exec_Invoke p H i) (exec_Invoke p' H i)"
  unfolding exec_Invoke_def
proof (rule sim_flow_bind [OF sim_args], rule sim_flow_bind [OF sim_pop])
  fix xs callee
  let ?m = "\<lambda>p. mbind (capability ''value invocation'' (h_InvokeValue H))
    (\<lambda>invoke. mbind (host_val p (invoke xs callee)) push_next)"
  have m: "sim R (?m p) (?m p')" using renumbers_names [OF assms] by (intro sim)
  then show "sim_flow R
      (case case callee of VStr name \<Rightarrow> lookupUserFunc p name | _ \<Rightarrow> None of
         None \<Rightarrow> ?m p | Some def \<Rightarrow> enter_user p H def None xs)
      (case case callee of VStr name \<Rightarrow> lookupUserFunc p' name | _ \<Rightarrow> None of
         None \<Rightarrow> ?m p' | Some def \<Rightarrow> enter_user p' H def None xs)"
    by (cases callee) (use sim_flow_user_call [OF assms m] in \<open>simp_all add: sim_imp_flow\<close>)
qed

lemma sim_flow_CallMethod:
  assumes "renumbers R p p'"
  shows "sim_flow R (exec_CallMethod p H i) (exec_CallMethod p' H i)"
  unfolding exec_CallMethod_def
proof (intro sim_flow_bind sim_args quiet_dynamic_name sim_pop sim_micro(11) renumbers_names [OF assms])
  fix xs name receiver h
  let ?m = "\<lambda>p. host_call p (h_CallMethod H receiver name xs)"
  have m: "sim R (?m p) (?m p')" using renumbers_names [OF assms] by (intro sim)
  then show "sim_flow R
      (case case class_name h receiver of None \<Rightarrow> None | Some class \<Rightarrow> lookupUserFunc p (class @ ''::'' @ name) of
         None \<Rightarrow> ?m p | Some def \<Rightarrow> enter_user p H def (Some receiver) xs)
      (case case class_name h receiver of None \<Rightarrow> None | Some class \<Rightarrow> lookupUserFunc p' (class @ ''::'' @ name) of
         None \<Rightarrow> ?m p' | Some def \<Rightarrow> enter_user p' H def (Some receiver) xs)"
    by (cases "class_name h receiver") (use sim_flow_user_call [OF assms m] in \<open>simp_all add: sim_imp_flow\<close>)
qed

lemma sim_Closure:
  assumes "renumbers R p p'"
  shows "sim R (exec_Closure p H i) (exec_Closure p' H i)"
proof -
  have "map (\<lambda>d. (k_captures d, k_thisSlot d)) (p_closures p') = map (\<lambda>d. (k_captures d, k_thisSlot d)) (p_closures p)"
    using assms by (auto simp: renumbers_def renumber_closure_def)
  then show ?thesis unfolding exec_Closure_def
    using renumbers_names [OF assms] by (simp only:) (intro sim)
qed

lemma sim_flow_Return:
  assumes "same_names p p'"
  shows "sim_flow R (exec_Return p H) (exec_Return p' H)"
  unfolding exec_Return_def
proof (rule sim_flow_bind [OF sim_pop])
  fix v
  let ?k = "\<lambda>p frames. case frames of
      f # _ \<Rightarrow> mbind (unwindDeferred p H (cf_deferMark f)) (\<lambda>e. mthen (none_or_raise e)
        (mthen (goto_pc (cf_returnPC f)) (mthen (modify (restore_frame f)) (push_next v))))
    | [] \<Rightarrow> mbind (unwindDeferred p H 0) (\<lambda>e. mthen (none_or_raise e) (leave (Halt v)))"
  show "sim_flow R (mbind (gets st_callFrames) (?k p)) (mbind (gets st_callFrames) (?k p'))"
    unfolding sim_flow_def
  proof (intro allI impI)
    fix s t :: "'a execState"
    assume st: "related R s t" "st_pc s \<in> singles R"
    have st0: "related0 R s t" using st by (simp add: related_def)
    show "rel_act (\<lambda>(r, s1) (r', t1). r' = r \<and> flow_done R r s1 t1)
        (mbind (gets st_callFrames) (?k p) s) (mbind (gets st_callFrames) (?k p') t)"
    proof (cases "st_callFrames s")
      case Nil
      have "sim R (?k p []) (?k p' [])" using assms by (simp, intro sim)
      from sim_flowD [OF sim_imp_flow [OF this] st] show ?thesis
        using Nil st0 by (simp add: mbind_def gets_def related_simps same_data_def)
    next
      case (Cons f fs)
      from related_frames [OF st0 Cons] have f: "cf_returnPC f \<in> singles R"
        and t: "st_callFrames t = renumber_frame (rn R) f # map (renumber_frame (rn R)) fs" by auto
      have d: "cf_returnPC f \<in> dests R" using f by (simp add: singles_def)
      have "sim_flow R (?k p (f # fs)) (?k p' (renumber_frame (rn R) f # fs))"
      proof -
        have "sim_flow R (mthen (goto_pc (cf_returnPC f)) (mthen (modify (restore_frame f)) (push_next v)))
            (mthen (goto_pc (rn R (cf_returnPC f))) (mthen (modify (restore_frame (renumber_frame (rn R) f))) (push_next v)))"
          using d f
          by (simp add: sim_flow_def mthen_def mbind_def goto_pc_def modify_def push_next_def push_def next_pc_def ret_def)
            (auto simp: flow_done_def related_def at_same_def related_simps same_data_def restore_frame_def renumber_frame_data map_tl dest: set_tl)
        moreover have "cf_returnPC (renumber_frame (rn R) f) = rn R (cf_returnPC f)"
          by (simp add: renumber_frame_def)
        ultimately show ?thesis
          by (simp only: list.case renumber_frame_data)
            (rule sim_flow_bind [OF sim_unwindDeferred [OF assms] sim_flow_then [OF sim_micro(4)]])
      qed
      from sim_flowD [OF this st] show ?thesis using Cons t by (simp add: mbind_def gets_def)
    qed
  qed
qed


section \<open>One instruction\<close>

text \<open>What the pass makes of an instruction it keeps: its recorded counters move.\<close>

definition renumber_instr :: "renum \<Rightarrow> instruction \<Rightarrow> instruction" where
  "renumber_instr R i =
     (if jumps (i_op i) then i\<lparr>i_target := rn R (i_target i)\<rparr>
      else if i_op i = OpTryPush then i\<lparr>i_target := rn R (i_target i), i_b := rn R (i_b i)\<rparr>
      else i)"

definition targets_ok :: "renum \<Rightarrow> instruction \<Rightarrow> bool" where
  "targets_ok R i \<longleftrightarrow>
     (jumps (i_op i) \<longrightarrow> i_target i \<in> dests R) \<and>
     (i_op i = OpTryPush \<longrightarrow> i_target i \<in> dests R \<and> i_b i \<in> dests R)"

lemma sim_flow_op:
  assumes "renumbers R p p'" and "targets_ok R i"
  shows "sim_flow R (exec_op p H i) (exec_op p' H (renumber_instr R i))"
proof -
  note n = renumbers_names [OF assms(1)]
  have ok: "renum_ok R" using assms(1) by (simp add: renumbers_def)
  note ops = sim_data_ops [OF n, THEN sim_imp_flow] sim_heap_ops [OF n, THEN sim_imp_flow]
    sim_CompactDynamic [OF n, THEN sim_imp_flow] sim_Include [OF n, THEN sim_imp_flow]
    sim_iterators [OF n, THEN sim_imp_flow] sim_Rethrow [THEN sim_imp_flow] sim_TryPop [THEN sim_imp_flow]
    sim_Closure [OF assms(1), THEN sim_imp_flow]
    sim_flow_Call [OF assms(1)] sim_flow_Invoke [OF assms(1)] sim_flow_CallMethod [OF assms(1)] sim_flow_Return [OF n]
  note jumps = sim_flow_Jump [OF ok] sim_flow_JumpBool [OF n] sim_flow_JumpNotNil sim_flow_IterNext
  show ?thesis
  proof (cases "jumps (i_op i)")
    case True
    then have t: "i_target i \<in> dests R" using assms(2) by (simp add: targets_ok_def)
    from True t show ?thesis
      by (auto simp: jumps_def renumber_instr_def exec_op_def intro!: jumps)
  next
    case False
    show ?thesis
    proof (cases "i_op i = OpTryPush")
      case True
      then show ?thesis using assms(2)
        by (simp add: jumps_def renumber_instr_def exec_op_def targets_ok_def sim_flow_TryPush)
    next
      case False
      with \<open>\<not> jumps (i_op i)\<close> show ?thesis
        unfolding renumber_instr_def exec_op_def
        by (cases "i_op i") (simp_all add: jumps_def ops)
    qed
  qed
qed

section \<open>One round\<close>

text \<open>Two rounds end alike: with one outcome and one environment, in related states if the run goes on.\<close>

definition round_done :: "renum \<Rightarrow> exit + (goerr + val) option \<Rightarrow> 'w execState \<Rightarrow> 'w execState \<Rightarrow> bool" where
  "round_done R r s t \<longleftrightarrow> same_data (rn R) s t \<and> (r = Inr None \<longrightarrow> related R s t)"

lemma rel_finish:
  assumes "same_names p p'" and "same_data (rn R) s t"
  shows "rel_act (\<lambda>(r, s1) (r', t1). r' = r \<and> round_done R r s1 t1) (finish p H x s) (finish p' H x t)"
proof -
  have "rel_act (\<lambda>(r, s1) (r', t1). r' = r \<and> same_data (rn R) s1 t1) (unwindDeferred p H 0 s) (unwindDeferred p' H 0 t)"
    by (rule act.rel_mono_strong [OF quietD [OF quiet_unwindDeferred [OF assms(1)] assms(2)]]) auto
  then show ?thesis unfolding finish_def mbind_def
    by (rule rel_act_bind) (auto simp: ret_def round_done_def split: sum.splits)
qed

lemma rel_settle:
  assumes "renumbers R p p'" and "flow_done R r s t"
  shows "rel_act (\<lambda>(r, s1) (r', t1). r' = r \<and> round_done R r s1 t1) (settle p H r s) (settle p' H r t)"
proof -
  note n = renumbers_names [OF assms(1)]
  have st: "related0 R s t" and d: "same_data (rn R) s t"
    using assms(2) by (simp_all add: flow_done_def related0_def)
  show ?thesis
  proof (cases r)
    case (Inr flow)
    then show ?thesis using assms(2)
      by (cases flow) (auto simp: settle_def mthen_def mbind_def modify_def ret_def round_done_def flow_done_def
          related_def at_same_def related_simps same_data_def singles_def)
  next
    case (Inl x)
    have h: "rel_act (\<lambda>(r, s1) (r', t1). r' = r \<and> round_done R r s1 t1)
        (mbind (handle p H e) (\<lambda>b. if b then ret None else finish p H (Inl e)) s)
        (mbind (handle p' H e) (\<lambda>b. if b then ret None else finish p' H (Inl e)) t)" for e
      unfolding mbind_def
    proof (rule rel_act_bind [OF sim_toD [OF sim_to_handle [OF assms(1)] st]])
      fix x y :: "(exit + bool) \<times> 'a execState"
      assume "(\<lambda>(r, s1) (r', t1). r' = r \<and> related0 R s1 t1 \<and> (\<forall>a. r = Inr a \<longrightarrow> a \<longrightarrow> at_same R s1 t1)) x y"
      then show "rel_act (\<lambda>(r, s1) (r', t1). r' = r \<and> round_done R r s1 t1)
          (case x of (Inl x, s') \<Rightarrow> Ret (Inl x, s') | (Inr b, s') \<Rightarrow> (if b then ret None else finish p H (Inl e)) s')
          (case y of (Inl x, s') \<Rightarrow> Ret (Inl x, s') | (Inr b, s') \<Rightarrow> (if b then ret None else finish p' H (Inl e)) s')"
        using rel_finish [OF n, of R "snd x" "snd y"]
        by (cases x; cases y; cases "fst x") (auto simp: ret_def round_done_def related_def related0_def)
    qed
    show ?thesis using Inl by (cases x) (auto simp: settle_def intro: h rel_finish [OF n d])
  qed
qed

definition after :: "Program \<Rightarrow> 'w FullHost \<Rightarrow> (exit + flow) \<times> 'w execState \<Rightarrow>
    ('w, (exit + (goerr + val) option) \<times> 'w execState) act" where
  "after p H = (\<lambda>(r, s). attempt (settle p H r)
     (\<lambda>r. case r of Inr outcome \<Rightarrow> ret outcome | Inl _ \<Rightarrow> finish p H (Inl vm_panic)) s)"

lemma cycle_eq:
  assumes "0 \<le> st_pc s" and "nat (st_pc s) < length (p_code p)"
  shows "cycle p H s = act_bind (exec_op p H (p_code p ! nat (st_pc s)) s) (after p H)"
  using assms
  by (auto simp: cycle_def mbind_def gets_def attempt_def after_def slice_at_def index_at_def from_some_def ret_def
      act_bind_assoc split_def)

lemma rel_after:
  assumes "renumbers R p p'" and "flow_done R r s t"
  shows "rel_act (\<lambda>(r, s1) (r', t1). r' = r \<and> round_done R r s1 t1) (after p H (r, s)) (after p' H (r, t))"
  unfolding after_def prod.case attempt_def
  by (rule rel_act_bind [OF rel_settle [OF assms]])
    (auto split: sum.splits simp: ret_def round_done_def
      intro: rel_finish [OF renumbers_names [OF assms(1)], unfolded round_done_def])

text \<open>A round at a counter that keeps its instruction.\<close>

lemma rel_cycle_single:
  assumes "renumbers R p p'" and "related R s t" and "st_pc s \<in> singles R"
    and "0 \<le> st_pc s" and "nat (st_pc s) < length (p_code p)"
    and "0 \<le> st_pc t" and "nat (st_pc t) < length (p_code p')"
    and "targets_ok R (p_code p ! nat (st_pc s))"
    and "p_code p' ! nat (st_pc t) = renumber_instr R (p_code p ! nat (st_pc s))"
  shows "rel_act (\<lambda>(r, s1) (r', t1). r' = r \<and> round_done R r s1 t1) (cycle p H s) (cycle p' H t)"
  unfolding cycle_eq [OF assms(4,5)] cycle_eq [OF assms(6,7)] assms(9)
  by (rule rel_act_bind [OF sim_flowD [OF sim_flow_op [OF assms(1,8)] assms(2,3)]])
    (auto intro: rel_after [OF assms(1)])

end
