(* ===== verification/FusedBlocks.thy ===== *)
theory FusedBlocks
  imports RenamedOps
begin

text \<open>
  A fused instruction against the instructions it stands for. \<open>burst\<close> runs rounds of the source
  program until the run ends or stands at a destination again; for every block the pass forms, it
  does what one round of the fused program does.
\<close>

section \<open>Rounds up to the next destination\<close>

definition resume :: "renum \<Rightarrow> ('w, (goerr + val) option) comp \<Rightarrow>
    (exit + (goerr + val) option) \<times> 'w execState \<Rightarrow> ('w, (exit + (goerr + val) option) \<times> 'w execState) act" where
  "resume R m = (\<lambda>(r, s). if r = Inr None \<and> st_pc s \<notin> dests R then m s else Ret (r, s))"

primrec burst :: "nat \<Rightarrow> renum \<Rightarrow> Program \<Rightarrow> 'w FullHost \<Rightarrow> ('w, (goerr + val) option) comp" where
  "burst 0 R p H = cycle p H"
| "burst (Suc n) R p H = (\<lambda>s. act_bind (cycle p H s) (resume R (burst n R p H)))"

definition alike :: "renum \<Rightarrow> (exit + (goerr + val) option) \<times> 'w execState \<Rightarrow>
    (exit + (goerr + val) option) \<times> 'w execState \<Rightarrow> bool" where
  "alike R = (\<lambda>(r, s) (r', t). r' = r \<and> round_done R r s t)"

lemmas alike_finish = rel_finish [folded alike_def]
lemmas alike_after = rel_after [folded alike_def]

lemma alike_data: "alike R (r, s) (r', t) \<longleftrightarrow> r' = r \<and> same_data (rn R) s t \<and> (r = Inr None \<longrightarrow> related R s t)"
  by (simp add: alike_def round_done_def)

lemma resume_alike: "alike R x y \<Longrightarrow> resume R m x = Ret x"
  by (auto simp: alike_def resume_def round_done_def related_def at_same_def split_def)

lemma burst_stops:
  assumes "rel_act (alike R) a b"
  shows "rel_act (alike R) (act_bind a (resume R m)) b"
proof -
  have "rel_act (alike R) (act_bind a (resume R m)) (act_bind b Ret)"
    by (rule rel_act_bind [OF assms]) (simp add: resume_alike)
  then show ?thesis by simp
qed

lemma rel_burst_single: "rel_act (alike R) (cycle p H s) b \<Longrightarrow> rel_act (alike R) (burst n R p H s) b"
  by (cases n) (auto intro: burst_stops)

section \<open>Inside a block\<close>

text \<open>The source run stands k instructions behind the head i and has pushed vs.\<close>

definition skew :: "renum \<Rightarrow> int \<Rightarrow> nat \<Rightarrow> val list \<Rightarrow> 'w execState \<Rightarrow> 'w execState \<Rightarrow> bool" where
  "skew R i k vs s t \<longleftrightarrow>
     i \<in> dests R \<and> st_pc s = i + int k \<and> st_pc t = rn R i \<and> st_stack s = vs @ st_stack t \<and>
     same_data (rn R) s t \<and> st_handlers t = map (renumber_handler R) (st_handlers s) \<and>
     (\<forall>h \<in> set (st_handlers s). handler_ok R h) \<and> set (map cf_returnPC (st_callFrames s)) \<subseteq> singles R"

lemma skew_start: "related R s t \<Longrightarrow> st_pc s = i \<Longrightarrow> skew R i 0 [] s t"
  by (auto simp: skew_def related_def at_same_def related_simps)

lemma skew_related0: "skew R i k [] s t \<Longrightarrow> related0 R s t"
  by (auto simp: skew_def related_simps)

lemma skew_cong:
  assumes "skew R i k vs s t" and "same_data (rn R) s1 t1" and "control s1 = control s" and "control t1 = control t"
  shows "skew R i k vs s1 t1"
  using assms unfolding skew_def control_def by (simp del: set_map)

lemma skew_quiet:
  assumes "quiet (rn R) m m'" and "skew R i k vs s t"
  shows "rel_act (\<lambda>(r, s1) (r', t1). r' = r \<and> skew R i k vs s1 t1) (m s) (m' t)"
proof -
  have "same_data (rn R) s t" using assms(2) by (simp add: skew_def)
  from quietD [OF assms(1) this] show ?thesis
    by (rule act.rel_mono_strong) (use assms(2) in \<open>auto intro: skew_cong\<close>)
qed

text \<open>Reading an operand fails with an index out of range or not at all.\<close>

definition crash_only :: "exit + 'a \<Rightarrow> bool" where
  "crash_only r \<longleftrightarrow> (case r of Inl x \<Rightarrow> x = Crash | Inr _ \<Rightarrow> True)"

definition only_crashes :: "('w, 'a) comp \<Rightarrow> bool" where
  "only_crashes m \<longleftrightarrow> (\<forall>s. pred_act (\<lambda>(r, _). crash_only r) (m s))"

lemma pred_act_bind:
  assumes "pred_act P a" and "\<And>x. P x \<Longrightarrow> pred_act Q (f x)"
  shows "pred_act Q (act_bind a f)"
  using assms(1) by (induction a rule: act_tree_induct) (auto simp: assms(2))

lemma rel_act_pred:
  assumes "rel_act R a b" and "pred_act P a"
  shows "rel_act (\<lambda>x y. R x y \<and> P x) a b"
  using assms by (induction a b rule: act.rel_induct) (auto simp: rel_fun_def)

lemma crashes_bind:
  assumes "only_crashes m" and "\<And>a. only_crashes (f a)"
  shows "only_crashes (mbind m f)"
  unfolding only_crashes_def mbind_def
proof
  fix s
  show "pred_act (\<lambda>(r, _). crash_only r) (act_bind (m s) (\<lambda>(r, s'). case r of Inl x \<Rightarrow> Ret (Inl x, s') | Inr a \<Rightarrow> f a s'))"
    by (rule pred_act_bind [of "\<lambda>(r, _). crash_only r"])
      (use assms in \<open>auto simp: only_crashes_def crash_only_def split: sum.splits\<close>)
qed

lemma crashes_basic:
  "only_crashes (ret a)" "only_crashes (gets f)" "only_crashes (slice_at xs i)"
  by (auto simp: only_crashes_def crash_only_def ret_def gets_def slice_at_def from_some_def leave_def split: option.splits)

lemma crashes_run_hact: "only_crashes (run_hact p a)"
  by (induction a rule: hact_tree_induct) (auto simp: only_crashes_def crash_only_def)

lemma crashes_host: "only_crashes (host p f)"
  using crashes_run_hact by (auto simp: only_crashes_def host_def)

lemma crashes_loadLocal: "only_crashes (loadLocal p H i)"
  unfolding loadLocal_def initialized_at_def local_at_def
  by (auto intro!: crashes_bind crashes_basic crashes_host split: option.splits)

lemma same_data_pushed: "same_data N (s\<lparr>st_stack := xs, st_pc := c\<rparr>) t = same_data N s t"
  by (simp add: same_data_def)

text \<open>One operand of a block.\<close>

lemma block_operand:
  assumes st: "skew R i k vs s t" and n: "same_names p p'"
    and pc: "0 \<le> i" "nat (i + int k) < length (p_code p)" "i + int k + 1 \<notin> dests R"
    and op: "exec_op p H (p_code p ! nat (i + int k)) = mbind m push_next"
    and m: "quiet (rn R) m m'" "only_crashes m"
    and rest: "\<And>v s1 t1. skew R i (Suc k) (v # vs) s1 t1 \<Longrightarrow>
      rel_act (alike R) (burst b R p H s1) (act_bind (f v t1) (after p' H))"
  shows "rel_act (alike R) (burst (Suc b) R p H s) (act_bind (mbind m' f t) (after p' H))"
proof -
  have s: "0 \<le> st_pc s" "nat (st_pc s) < length (p_code p)" "p_code p ! nat (st_pc s) = p_code p ! nat (i + int k)"
    using st pc by (simp_all add: skew_def)
  have eq: "burst (Suc b) R p H s =
      act_bind (m s) (\<lambda>(r, s1). act_bind (act_bind
        (case r of Inl x \<Rightarrow> Ret (Inl x, s1) | Inr v \<Rightarrow> push_next v s1) (after p H)) (resume R (burst b R p H)))"
    by (simp add: cycle_eq [OF s(1,2)] s(3) op mbind_def act_bind_assoc split_def)
  have eq': "act_bind (mbind m' f t) (after p' H) =
      act_bind (m' t) (\<lambda>(r, t1). act_bind (case r of Inl x \<Rightarrow> Ret (Inl x, t1) | Inr v \<Rightarrow> f v t1) (after p' H))"
    by (simp add: mbind_def act_bind_assoc split_def)
  have "rel_act (\<lambda>(r, s1) (r', t1). (r' = r \<and> skew R i k vs s1 t1) \<and> crash_only r) (m s) (m' t)"
    by (rule act.rel_mono_strong [OF rel_act_pred [OF skew_quiet [OF m(1) st]]])
      (use m(2) in \<open>auto simp: only_crashes_def\<close>)
  then show ?thesis unfolding eq eq'
  proof (rule rel_act_bind)
    fix x y :: "(exit + val) \<times> 'a execState"
    assume xy: "(\<lambda>(r, s1) (r', t1). (r' = r \<and> skew R i k vs s1 t1) \<and> crash_only r) x y"
    obtain r s1 t1 where x: "x = (r, s1)" "y = (r, t1)" and sk: "skew R i k vs s1 t1" and c: "crash_only r"
      using xy by (cases x; cases y) auto
    show "rel_act (alike R)
        (case x of (r, s1) \<Rightarrow> act_bind (act_bind (case r of Inl x \<Rightarrow> Ret (Inl x, s1) | Inr v \<Rightarrow> push_next v s1) (after p H))
           (resume R (burst b R p H)))
        (case y of (r, t1) \<Rightarrow> act_bind (case r of Inl x \<Rightarrow> Ret (Inl x, t1) | Inr v \<Rightarrow> f v t1) (after p' H))"
    proof (cases r)
      case (Inl e)
      then have e: "e = Crash" using c by (simp add: crash_only_def)
      have "rel_act (alike R) (finish p H (Inl vm_panic) s1) (finish p' H (Inl vm_panic) t1)"
        by (rule alike_finish [OF n]) (use sk in \<open>simp add: skew_def\<close>)
      then have "rel_act (alike R) (after p H (Inl e, s1)) (after p' H (Inl e, t1))"
        by (simp add: e after_def attempt_def settle_def)
          (rule rel_act_bind, assumption, auto simp: ret_def alike_data split: sum.splits
            intro: alike_finish [OF n])
      then show ?thesis using x Inl by (simp add: burst_stops)
    next
      case (Inr v)
      have "skew R i (Suc k) (v # vs) (s1\<lparr>st_stack := v # st_stack s1, st_pc := st_pc s1 + 1\<rparr>) t1"
        using sk by (simp add: skew_def same_data_pushed)
      from rest [OF this] show ?thesis
        using x Inr sk pc by (simp add: push_next_def push_def next_pc_def mthen_def mbind_def modify_def ret_def
            after_def attempt_def settle_def resume_def skew_def)
    qed
  qed
qed


section \<open>The end of a block\<close>

text \<open>The block ends k + 1 instructions behind its head, where the fused run stands one behind.\<close>

definition block_end :: "renum \<Rightarrow> int \<Rightarrow> nat \<Rightarrow> bool" where
  "block_end R i k \<longleftrightarrow> i + int k + 1 \<in> dests R \<and> rn R (i + int k + 1) = rn R i + 1"

lemma alike_advance:
  assumes "skew R i k [] s t" and "block_end R i k"
  shows "rel_act (alike R) (after p H (Inr Advance, s)) (after p' H (Inr Advance, t))"
  using assms
  by (auto simp: after_def attempt_def settle_def mthen_def mbind_def modify_def ret_def alike_data
      skew_def block_end_def related_def at_same_def related_simps same_data_def)

lemma alike_failed:
  assumes "renumbers R p p'" and "skew R i k [] s t"
  shows "rel_act (alike R) (after p H (Inl x, s)) (after p' H (Inl x, t))"
  by (rule alike_after [OF assms(1)]) (simp add: flow_done_def skew_related0 [OF assms(2)])

lemma after_push_next: "act_bind (push_next v s) f = f (Inr Advance, s\<lparr>st_stack := v # st_stack s\<rparr>)"
  by (simp add: push_next_def push_def next_pc_def mthen_def mbind_def modify_def ret_def)

lemma skew_pushed:
  "skew R i k [] s t \<Longrightarrow> skew R i k [] (s\<lparr>st_stack := v # st_stack s\<rparr>) (t\<lparr>st_stack := v # st_stack t\<rparr>)"
  by (simp add: skew_def same_data_def)

lemma alike_bind:
  assumes "renumbers R p p'" and "quiet (rn R) m m'" and "skew R i k [] s t"
    and "\<And>v s1 t1. skew R i k [] s1 t1 \<Longrightarrow>
      rel_act (alike R) (act_bind (f v s1) (after p H)) (act_bind (f' v t1) (after p' H))"
  shows "rel_act (alike R) (act_bind (mbind m f s) (after p H)) (act_bind (mbind m' f' t) (after p' H))"
  unfolding mbind_def act_bind_assoc
  by (rule rel_act_bind [OF skew_quiet [OF assms(2,3)]])
    (auto split: sum.splits intro: alike_failed [OF assms(1)] assms(4))

lemma block_value:
  assumes "renumbers R p p'" and "skew R i k [] s t" and "block_end R i k"
    and "i_b j = i_b b" "i_name j = i_name b" "i_target b = 0" "i_target j = 0"
  shows "rel_act (alike R)
      (act_bind (mbind (binary_value p H b l r) (binary_result p H b) s) (after p H))
      (act_bind (mbind (binary_value p' H j l r) (binary_result p' H j) t) (after p' H))"
  by (rule alike_bind [OF assms(1) quiet_binary_value [OF renumbers_names [OF assms(1)]] assms(2)])
    (use assms in \<open>auto simp: binary_result_def after_push_next intro: alike_advance skew_pushed\<close>)

text \<open>With the store folded in, the source run pushes the value and pops it in the next round.\<close>

lemma exec_plain_store:
  assumes "plain_store i" and "st_stack s = v # xs"
  shows "exec_Store p H i s = mthen (store_slot p H (i_a i) v) next_pc (s\<lparr>st_stack := xs\<rparr>)"
  using assms
  by (auto simp: plain_store_def exec_Store_def pop_def gets_def mbind_def mthen_def modify_def ret_def
      set_identity_def push_if_def)

lemma exec_op_Store: "i_op i = OpStore \<Longrightarrow> exec_op p H i = exec_Store p H i"
  by (simp add: exec_op_def)

lemma store_round:
  assumes R: "renumbers R p p'" and st: "skew R i k [] s t" and "block_end R i (Suc k)"
    and pc: "0 \<le> i" "nat (i + int (Suc k)) < length (p_code p)"
    and i: "plain_store (p_code p ! nat (i + int (Suc k)))" "i_a (p_code p ! nat (i + int (Suc k))) = a"
  shows "rel_act (alike R) (cycle p H (s\<lparr>st_stack := v # st_stack s, st_pc := st_pc s + 1\<rparr>))
      (act_bind (mthen (store_slot p' H a v) next_pc t) (after p' H))"
proof -
  let ?s = "s\<lparr>st_stack := v # st_stack s, st_pc := st_pc s + 1\<rparr>"
  have s: "0 \<le> st_pc ?s" "nat (st_pc ?s) < length (p_code p)" "nat (st_pc ?s) = nat (i + int (Suc k))"
    using st pc by (simp_all add: skew_def algebra_simps)
  have op: "i_op (p_code p ! nat (i + int (Suc k))) = OpStore" using i(1) by (simp add: plain_store_def)
  have sk: "skew R i (Suc k) [] (s\<lparr>st_pc := st_pc s + 1\<rparr>) t" using st by (simp add: skew_def same_data_def)
  have "st_stack ?s = v # st_stack s" by simp
  from exec_plain_store [OF i(1) this, of p H]
  have store: "exec_op p H (p_code p ! nat (i + int (Suc k))) ?s =
      mthen (store_slot p H a v) next_pc (s\<lparr>st_pc := st_pc s + 1\<rparr>)"
    unfolding exec_op_Store [OF op] i(2) by simp
  have "cycle p H ?s = act_bind (mthen (store_slot p H a v) next_pc (s\<lparr>st_pc := st_pc s + 1\<rparr>)) (after p H)"
    unfolding cycle_eq [OF s(1,2)] s(3) store ..
  moreover have "rel_act (alike R)
      (act_bind (mthen (store_slot p H a v) next_pc (s\<lparr>st_pc := st_pc s + 1\<rparr>)) (after p H))
      (act_bind (mthen (store_slot p' H a v) next_pc t) (after p' H))"
    unfolding mthen_def
    by (rule alike_bind [OF R quiet_store_slot [OF renumbers_names [OF R]] sk])
      (use assms(3) in \<open>auto simp: next_pc_def ret_def intro: alike_advance\<close>)
  ultimately show ?thesis by simp
qed

lemma block_stored:
  assumes R: "renumbers R p p'" and st: "skew R i k [] s t" and e: "block_end R i (Suc k)"
    and pc: "0 \<le> i" "nat (i + int (Suc k)) < length (p_code p)" "i + int (Suc k) \<notin> dests R"
    and i: "plain_store (p_code p ! nat (i + int (Suc k)))" "i_a (p_code p ! nat (i + int (Suc k))) = a"
    and j: "i_b j = i_b b" "i_name j = i_name b" "i_target b = 0" "i_target j = a + 1" "0 \<le> a"
  shows "rel_act (alike R)
      (act_bind (act_bind (mbind (binary_value p H b l r) (binary_result p H b) s) (after p H)) (resume R (burst n R p H)))
      (act_bind (mbind (binary_value p' H j l r) (binary_result p' H j) t) (after p' H))"
  unfolding mbind_def act_bind_assoc
proof (rule rel_act_bind [OF skew_quiet [OF quiet_binary_value [OF renumbers_names [OF R] j(1,2) [symmetric]] st]])
  fix x y :: "(exit + val) \<times> 'a execState"
  assume "(\<lambda>(r, s1) (r', t1). r' = r \<and> skew R i k [] s1 t1) x y"
  then obtain c s1 t1 where x: "x = (c, s1)" "y = (c, t1)" and sk: "skew R i k [] s1 t1" by (cases x; cases y) auto
  show "rel_act (alike R)
      (act_bind (case x of (Inl x, s') \<Rightarrow> Ret (Inl x, s') | (Inr v, s') \<Rightarrow> binary_result p H b v s')
        (\<lambda>x. act_bind (after p H x) (resume R (burst n R p H))))
      (act_bind (case y of (Inl x, s') \<Rightarrow> Ret (Inl x, s') | (Inr v, s') \<Rightarrow> binary_result p' H j v s') (after p' H))"
  proof (cases c)
    case (Inl e)
    then show ?thesis using x by (simp add: burst_stops alike_failed [OF R sk])
  next
    case (Inr v)
    have pc1: "st_pc s1 + 1 \<notin> dests R" using sk pc(3) by (simp add: skew_def algebra_simps)
    have "rel_act (alike R) (burst n R p H (s1\<lparr>st_stack := v # st_stack s1, st_pc := st_pc s1 + 1\<rparr>))
        (act_bind (mthen (store_slot p' H a v) next_pc t1) (after p' H))"
      by (rule rel_burst_single [OF store_round [OF R sk e pc(1,2) i]])
    then show ?thesis using x Inr pc1 j
      by (simp add: binary_result_def after_push_next)
        (simp add: after_def attempt_def settle_def mthen_def mbind_def modify_def ret_def resume_def)
  qed
qed


section \<open>Whole blocks\<close>

text \<open>How the block ends behind its operator: at once, or with the store folded in.\<close>

definition ends :: "renum \<Rightarrow> Program \<Rightarrow> int \<Rightarrow> nat \<Rightarrow> instruction \<Rightarrow> bool" where
  "ends R p i k j \<longleftrightarrow>
     (i_target j = 0 \<and> block_end R i k) \<or>
     (block_end R i (Suc k) \<and> nat (i + int (Suc k)) < length (p_code p) \<and> i + int (Suc k) \<notin> dests R \<and>
      plain_store (p_code p ! nat (i + int (Suc k))) \<and> 0 \<le> i_a (p_code p ! nat (i + int (Suc k))) \<and>
      i_target j = i_a (p_code p ! nat (i + int (Suc k))) + 1)"

lemma block_apply:
  assumes "renumbers R p p'" and "skew R i k [] s t" and "0 \<le> i" and "ends R p i k j"
    and "i_b j = i_b b" "i_name j = i_name b" "i_target b = 0"
  shows "rel_act (alike R)
      (act_bind (act_bind (mbind (binary_value p H b l r) (binary_result p H b) s) (after p H)) (resume R (burst n R p H)))
      (act_bind (mbind (binary_value p' H j l r) (binary_result p' H j) t) (after p' H))"
  using assms(4) unfolding ends_def
proof (elim disjE conjE)
  assume "i_target j = 0" and "block_end R i k"
  then show ?thesis by (intro burst_stops block_value [OF assms(1,2) _ assms(5-7)])
next
  assume "block_end R i (Suc k)" and "nat (i + int (Suc k)) < length (p_code p)" and "i + int (Suc k) \<notin> dests R"
    and "plain_store (p_code p ! nat (i + int (Suc k)))" and "0 \<le> i_a (p_code p ! nat (i + int (Suc k)))"
    and "i_target j = i_a (p_code p ! nat (i + int (Suc k))) + 1"
  then show ?thesis by (intro block_stored [OF assms(1,2) _ assms(3) _ _ _ refl assms(5-7)])
qed

lemma pop2_two: "st_stack s = r # l # xs \<Longrightarrow> pop2 s = Ret (Inr (l, r), s\<lparr>st_stack := xs\<rparr>)"
  by (simp add: pop2_def pop_def gets_def mbind_def mthen_def modify_def ret_def)

lemma pop2_short:
  "st_stack s = [] \<Longrightarrow> pop2 s = Ret (Inl (Fail (ErrorString ''operand stack underflow'')), s)"
  "st_stack s = [r] \<Longrightarrow> pop2 s = Ret (Inl (Fail (ErrorString ''operand stack underflow'')), s\<lparr>st_stack := []\<rparr>)"
  by (simp_all add: pop2_def pop_def gets_def mbind_def mthen_def modify_def ret_def leave_def)

lemma exec_Binary_stack:
  assumes "i_op b = OpBinary"
  shows "exec_op p H b = mbind pop2 (\<lambda>(left, right). mbind (binary_value p H b left right) (binary_result p H b))"
  using assms by (simp add: exec_op_def exec_Binary_def binary_operands_def)

lemma burst_round:
  assumes "skew R i k vs s t" and "0 \<le> i" and "nat (i + int k) < length (p_code p)"
  shows "burst (Suc n) R p H s =
    act_bind (act_bind (exec_op p H (p_code p ! nat (i + int k)) s) (after p H)) (resume R (burst n R p H))"
  using assms cycle_eq [of s p H] by (simp add: skew_def)

text \<open>Both operands were pushed inside the block.\<close>

lemma block_pushed:
  assumes R: "renumbers R p p'" and st: "skew R i k [r, l] s t" and i: "0 \<le> i" and e: "ends R p i k j"
    and b: "nat (i + int k) < length (p_code p)" "i_op (p_code p ! nat (i + int k)) = OpBinary"
      "i_b j = i_b (p_code p ! nat (i + int k))" "i_name j = i_name (p_code p ! nat (i + int k))"
      "i_target (p_code p ! nat (i + int k)) = 0"
  shows "rel_act (alike R) (burst (Suc n) R p H s)
      (act_bind (mbind (binary_value p' H j l r) (binary_result p' H j) t) (after p' H))"
proof -
  have "st_stack s = r # l # st_stack t" using st by (simp add: skew_def)
  from pop2_two [OF this] have run: "exec_op p H (p_code p ! nat (i + int k)) s =
      mbind (binary_value p H (p_code p ! nat (i + int k)) l r) (binary_result p H (p_code p ! nat (i + int k)))
        (s\<lparr>st_stack := st_stack t\<rparr>)"
    by (simp only: exec_Binary_stack [OF b(2)]) (simp add: mbind_def)
  have "skew R i k [] (s\<lparr>st_stack := st_stack t\<rparr>) t" using st by (simp add: skew_def same_data_def)
  from block_apply [OF R this i e b(3-5)] show ?thesis
    by (simp only: burst_round [OF st i b(1)] run)
qed

lemma alike_underflow:
  assumes "renumbers R p p'" and "skew R i k [] s t"
  shows "rel_act (alike R) (act_bind (after p H (Inl x, s)) (resume R m)) (after p' H (Inl x, t))"
  by (rule burst_stops [OF alike_failed [OF assms]])

text \<open>The left operand comes off the stack, the right one was pushed inside the block.\<close>

lemma block_top:
  assumes R: "renumbers R p p'" and st: "skew R i k [r] s t" and i: "0 \<le> i" and e: "ends R p i k j"
    and b: "nat (i + int k) < length (p_code p)" "i_op (p_code p ! nat (i + int k)) = OpBinary"
      "i_b j = i_b (p_code p ! nat (i + int k))" "i_name j = i_name (p_code p ! nat (i + int k))"
      "i_target (p_code p ! nat (i + int k)) = 0"
  shows "rel_act (alike R) (burst (Suc n) R p H s)
      (act_bind (mbind pop (\<lambda>l. mbind (binary_value p' H j l r) (binary_result p' H j)) t) (after p' H))"
proof (cases "st_stack t")
  case Nil
  then have "st_stack s = [r]" using st by (simp add: skew_def)
  from pop2_short(2) [OF this] have run: "exec_op p H (p_code p ! nat (i + int k)) s =
      Ret (Inl (Fail (ErrorString ''operand stack underflow'')), s\<lparr>st_stack := []\<rparr>)"
    by (simp only: exec_Binary_stack [OF b(2)]) (simp add: mbind_def)
  have "skew R i k [] (s\<lparr>st_stack := []\<rparr>) t" using st Nil by (simp add: skew_def same_data_def)
  from alike_underflow [OF R this] show ?thesis
    unfolding burst_round [OF st i b(1)] run act_bind.simps
    using Nil by (simp add: pop_def gets_def mbind_def leave_def)
next
  case (Cons l xs)
  then have "st_stack s = r # l # xs" using st by (simp add: skew_def)
  from pop2_two [OF this] have run: "exec_op p H (p_code p ! nat (i + int k)) s =
      mbind (binary_value p H (p_code p ! nat (i + int k)) l r) (binary_result p H (p_code p ! nat (i + int k)))
        (s\<lparr>st_stack := xs\<rparr>)"
    by (simp only: exec_Binary_stack [OF b(2)]) (simp add: mbind_def)
  have t: "mbind pop (\<lambda>l. mbind (binary_value p' H j l r) (binary_result p' H j)) t =
      mbind (binary_value p' H j l r) (binary_result p' H j) (t\<lparr>st_stack := xs\<rparr>)"
    using Cons by (simp add: pop_def gets_def mbind_def mthen_def modify_def ret_def)
  have "skew R i k [] (s\<lparr>st_stack := xs\<rparr>) (t\<lparr>st_stack := xs\<rparr>)" using st by (simp add: skew_def same_data_def)
  from block_apply [OF R this i e b(3-5)] show ?thesis
    by (simp only: burst_round [OF st i b(1)] run t)
qed

text \<open>Both operands come off the stack.\<close>

lemma block_stack:
  assumes R: "renumbers R p p'" and st: "skew R i k [] s t" and i: "0 \<le> i" and e: "ends R p i k j"
    and b: "nat (i + int k) < length (p_code p)" "i_op (p_code p ! nat (i + int k)) = OpBinary"
      "i_b j = i_b (p_code p ! nat (i + int k))" "i_name j = i_name (p_code p ! nat (i + int k))"
      "i_target (p_code p ! nat (i + int k)) = 0"
  shows "rel_act (alike R) (burst (Suc n) R p H s)
      (act_bind (mbind pop2 (\<lambda>(l, r). mbind (binary_value p' H j l r) (binary_result p' H j)) t) (after p' H))"
proof -
  have eq: "st_stack s = st_stack t" using st by (simp add: skew_def)
  have short: "rel_act (alike R) (burst (Suc n) R p H s)
      (act_bind (mbind pop2 (\<lambda>(l, r). mbind (binary_value p' H j l r) (binary_result p' H j)) t) (after p' H))"
    if "pop2 s = Ret (Inl x, s1)" "pop2 t = Ret (Inl x, t1)" "skew R i k [] s1 t1" for x s1 t1
    unfolding burst_round [OF st i b(1)] exec_Binary_stack [OF b(2)] mbind_def that(1,2)
    using alike_underflow [OF R that(3)] by simp
  consider "st_stack t = []" | r where "st_stack t = [r]" | r l xs where "st_stack t = r # l # xs"
    by (metis neq_Nil_conv)
  then show ?thesis
  proof cases
    case 1
    then show ?thesis using eq st by (intro short [OF pop2_short(1) pop2_short(1)]) simp_all
  next
    case 2
    then show ?thesis using eq st
      by (intro short [OF pop2_short(2) pop2_short(2)]) (auto simp: skew_def same_data_def)
  next
    case 3
    have sk: "skew R i k [] (s\<lparr>st_stack := xs\<rparr>) (t\<lparr>st_stack := xs\<rparr>)" using st by (simp add: skew_def same_data_def)
    have "st_stack s = r # l # xs" using 3 eq by simp
    from pop2_two [OF this] pop2_two [OF 3] block_apply [OF R sk i e b(3-5)] show ?thesis
      unfolding burst_round [OF st i b(1)] exec_Binary_stack [OF b(2)] by (simp add: mbind_def)
  qed
qed


text \<open>The four shapes the pass forms, each against one round of the fused instruction.\<close>

definition operand :: "'w FullHost \<Rightarrow> Program \<Rightarrow> instruction \<Rightarrow> ('w, val) comp" where
  "operand H p i = (if i_op i = OpLoad then loadLocal p H (i_a i) else slice_at (p_constants p) (i_a i))"

lemma exec_operand:
  "i_op i = OpLoad \<or> i_op i = OpPushConst \<Longrightarrow> exec_op p H i = mbind (operand H p i) push_next"
  by (auto simp: exec_op_def operand_def exec_Load_def exec_PushConst_def)

lemma quiet_operand: "same_names p p' \<Longrightarrow> quiet N (operand H p i) (operand H p' i)"
  by (auto simp: operand_def same_names_fields intro: quiet)

lemma crashes_operand: "only_crashes (operand H p i)"
  by (auto simp: operand_def crashes_loadLocal crashes_basic)

lemma nat_step: "0 \<le> i \<Longrightarrow> nat (i + int k) = nat i + k"
  by simp

lemma block_binary_operands:
  fixes H :: "'w FullHost"
  assumes R: "renumbers R p p'" and st: "related R s t" and i: "st_pc s = i" "0 \<le> i"
    and e: "ends R p i 2 j"
    and len: "nat i + 2 < length (p_code p)" and D: "i + 1 \<notin> dests R" "i + 2 \<notin> dests R"
    and a: "i_op (p_code p ! nat i) = OpLoad \<or> i_op (p_code p ! nat i) = OpPushConst"
    and c: "i_op (p_code p ! (nat i + 1)) = OpLoad \<or> i_op (p_code p ! (nat i + 1)) = OpPushConst"
    and b: "i_op (p_code p ! (nat i + 2)) = OpBinary" "i_b j = i_b (p_code p ! (nat i + 2))"
      "i_name j = i_name (p_code p ! (nat i + 2))" "i_target (p_code p ! (nat i + 2)) = 0"
    and t: "0 \<le> st_pc t" "nat (st_pc t) < length (p_code p')" "p_code p' ! nat (st_pc t) = j"
    and j: "exec_op p' H j = mbind (operand H p' (p_code p ! nat i)) (\<lambda>l. mbind (operand H p' (p_code p ! (nat i + 1)))
        (\<lambda>r. mbind (binary_value p' H j l r) (binary_result p' H j)))"
  shows "rel_act (alike R) (burst (Suc (Suc (Suc n))) R p H s) (cycle p' H t)"
proof -
  note names = renumbers_names [OF R]
  have at: "nat (i + int 1) = nat i + 1" "nat (i + int 2) = nat i + 2" using i(2) by simp_all
  show ?thesis unfolding cycle_eq [OF t(1,2)] t(3) j
  proof (rule block_operand [OF skew_start [OF st i(1)] names i(2) _ _ _ quiet_operand [OF names] crashes_operand])
    fix l and s1 t1 :: "'w execState"
    assume s1: "skew R i (Suc 0) [l] s1 t1"
    show "rel_act (alike R) (burst (Suc (Suc n)) R p H s1)
        (act_bind (mbind (operand H p' (p_code p ! (nat i + 1)))
          (\<lambda>r. mbind (binary_value p' H j l r) (binary_result p' H j)) t1) (after p' H))"
    proof (rule block_operand [OF s1 names i(2) _ _ _ quiet_operand [OF names] crashes_operand])
      fix r and s2 t2 :: "'w execState"
      assume "skew R i (Suc (Suc 0)) [r, l] s2 t2"
      then have s2: "skew R i 2 [r, l] s2 t2" by (simp add: numeral_2_eq_2)
      show "rel_act (alike R) (burst (Suc n) R p H s2)
          (act_bind (mbind (binary_value p' H j l r) (binary_result p' H j) t2) (after p' H))"
        by (rule block_pushed [OF R s2 i(2) e]) (simp_all only: at(2) len b)
    qed (use len D i(2) c at exec_operand in \<open>simp_all add: add.commute\<close>)
  qed (use len D i(2) a exec_operand in simp_all)
qed

end
