(* ===== verification/FusionPass.thy ===== *)
theory FusionPass
  imports FusedBlocks
begin

text \<open>
  The bookkeeping of the loop in \<open>flatstack/engine/fuse.go\<close>: the new index of every position is
  increasing over the positions the pass keeps, and every recorded counter is one of them.
\<close>

section \<open>The positions the pass keeps\<close>

function heads :: "Program \<Rightarrow> int list \<Rightarrow> nat \<Rightarrow> nat list" where
  "heads p prot i =
     (if length (p_code p) \<le> i then [i] else i # heads p prot (i + snd (fuseAt p prot i)))"
  by pat_completeness auto

termination
  by (relation "measure (\<lambda>(p, prot, i). length (p_code p) - i)")
    (auto simp: prod.collapse intro!: diff_less_mono2 dest: fuseAt_width [of _ _ _ "fst _" "snd _"],
     metis fuseAt_width less_add_same_cancel1 prod.collapse)

declare heads.simps [simp del]

lemma fused_operands_inner:
  assumes "fused_operands p prot i = Some (f, k)"
  shows "0 < k" and "0 < y \<Longrightarrow> y < k \<Longrightarrow> fusable p prot (i + y)"
proof -
  have k: "k = 1 \<or> (k = 2 \<and> fusable p prot (i + 1)) \<or> (k = 3 \<and> fusable p prot (i + 1) \<and> fusable p prot (i + 2))"
    using assms by (auto simp: fused_operands_def Let_def split: if_splits)
  then show "0 < k" by auto
  assume "0 < y" and "y < k"
  with k have "y = 1 \<and> fusable p prot (i + 1) \<or> y = 2 \<and> fusable p prot (i + 2)" by auto
  then show "fusable p prot (i + y)" by auto
qed

text \<open>A block stays inside the stream, and no position inside it is a recorded counter.\<close>

lemma fuseAt_block:
  assumes "fuseAt p prot i = (j, w)" and "i < length (p_code p)"
  shows "i + w \<le> length (p_code p)" and "i < x \<Longrightarrow> x < i + w \<Longrightarrow> int x \<notin> set prot"
proof -
  have "i + w \<le> length (p_code p) \<and> (\<forall>x. i < x \<and> x < i + w \<longrightarrow> int x \<notin> set prot)"
  proof (cases "fused_operands p prot i")
    case None
    then show ?thesis using assms by (auto simp: fuseAt_def)
  next
    case (Some r)
    obtain f k where r: "r = (f, k)" by (cases r)
    note inner = fused_operands_inner [OF Some [unfolded r]]
    have k: "i + k \<le> length (p_code p) \<and> (\<forall>x. i < x \<and> x < i + k \<longrightarrow> int x \<notin> set prot)"
    proof (intro conjI allI impI)
      show "i + k \<le> length (p_code p)"
        using inner(1) inner(2) [of "k - 1"] assms(2) by (cases "k = 1") (auto simp: fusable_def)
      fix x assume "i < x \<and> x < i + k"
      moreover from this have "x - i < k" by auto
      ultimately show "int x \<notin> set prot" using inner(2) [of "x - i"] by (simp add: fusable_def)
    qed
    show ?thesis
    proof (cases "fusable p prot (i + k) \<and> plain_store (p_code p ! (i + k))")
      case True
      then have w: "w = k + 1" using assms(1) Some r by (simp add: fuseAt_def Let_def)
      have "int x \<notin> set prot" if "i < x \<and> x < i + w" for x
        using that k True w by (cases "x = i + k") (auto simp: fusable_def)
      then show ?thesis using True w by (auto simp: fusable_def)
    next
      case False
      then have "w = k" using assms(1) Some r by (auto simp: fuseAt_def Let_def split: if_splits)
      then show ?thesis using k by simp
    qed
  qed
  then show "i + w \<le> length (p_code p)" and "i < x \<Longrightarrow> x < i + w \<Longrightarrow> int x \<notin> set prot" by auto
qed

text \<open>What the loop has built when it returns.\<close>

definition loop_done :: "Program \<Rightarrow> int list \<Rightarrow> nat \<Rightarrow> nat \<Rightarrow> instruction list \<Rightarrow> nat list \<Rightarrow> nat list \<Rightarrow> bool" where
  "loop_done p prot i k fused newPC hs \<longleftrightarrow>
     length hs = Suc (length fused) \<and> length newPC = Suc (length (p_code p) - i) \<and>
     hs ! 0 = i \<and> hs ! length fused = length (p_code p) \<and>
     newPC ! (length (p_code p) - i) = k + length fused \<and>
     (\<forall>n < length fused. hs ! n < length (p_code p) \<and> fused ! n = fst (fuseAt p prot (hs ! n)) \<and>
        hs ! Suc n = hs ! n + snd (fuseAt p prot (hs ! n)) \<and> i \<le> hs ! n \<and>
        (\<forall>x. hs ! n \<le> x \<and> x < hs ! Suc n \<longrightarrow> newPC ! (x - i) = k + n))"

lemma fuse_loop_done:
  assumes "i \<le> length (p_code p)" and "fuse_loop p prot i k = (fused, newPC)"
  shows "loop_done p prot i k fused newPC (heads p prot i)"
  using assms
proof (induction p prot i k arbitrary: fused newPC rule: fuse_loop.induct)
  case (1 p prot i k)
  show ?case
  proof (cases "length (p_code p) \<le> i")
    case True
    then show ?thesis using 1(2,3) by (subst heads.simps) (auto simp: fuse_loop.simps loop_done_def)
  next
    case False
    obtain j w where at: "fuseAt p prot i = (j, w)" by fastforce
    obtain f ns where rest: "fuse_loop p prot (i + w) (Suc k) = (f, ns)" by fastforce
    have r: "fused = j # f" "newPC = replicate w k @ ns"
      using 1(3) False by (subst (asm) fuse_loop.simps; simp add: at rest)+
    note block = fuseAt_block [OF at]
    have le: "i + w \<le> length (p_code p)" using block(1) False by simp
    have w: "0 < w" by (rule fuseAt_width [OF at])
    have hs: "heads p prot i = i # heads p prot (i + w)" using False by (subst heads.simps) (simp add: at)
    have IH: "loop_done p prot (i + w) (Suc k) f ns (heads p prot (i + w))"
      using 1(1) [OF False at [symmetric] refl le rest] .
    have start: "heads p prot (i + w) ! 0 = i + w" using IH by (simp add: loop_done_def)
    show ?thesis unfolding loop_done_def
    proof (intro conjI allI impI)
      show "length (heads p prot i) = Suc (length fused)" using IH hs r by (simp add: loop_done_def)
      show "length newPC = Suc (length (p_code p) - i)" using IH r le w by (simp add: loop_done_def)
      show "heads p prot i ! 0 = i" by (simp add: hs)
      show "heads p prot i ! length fused = length (p_code p)" using IH hs r by (simp add: loop_done_def)
      show "newPC ! (length (p_code p) - i) = k + length fused"
        using IH r le w by (simp add: loop_done_def nth_append diff_diff_add)
      fix n assume n: "n < length fused"
      have step: "heads p prot i ! n < length (p_code p) \<and> fused ! n = fst (fuseAt p prot (heads p prot i ! n)) \<and>
          heads p prot i ! Suc n = heads p prot i ! n + snd (fuseAt p prot (heads p prot i ! n)) \<and> i \<le> heads p prot i ! n"
        using IH n False by (cases n) (auto simp: hs r at start loop_done_def)
      then show "heads p prot i ! n < length (p_code p)" "fused ! n = fst (fuseAt p prot (heads p prot i ! n))"
        "heads p prot i ! Suc n = heads p prot i ! n + snd (fuseAt p prot (heads p prot i ! n))" "i \<le> heads p prot i ! n"
        by simp_all
      fix x assume x: "heads p prot i ! n \<le> x \<and> x < heads p prot i ! Suc n"
      show "newPC ! (x - i) = k + n"
      proof (cases n)
        case 0
        then have "x - i < w" using x by (auto simp: hs start)
        then show ?thesis using 0 by (simp add: r nth_append)
      next
        case (Suc m)
        then have m: "m < length f" using n r by simp
        have "i + w \<le> heads p prot (i + w) ! m" using IH m by (simp add: loop_done_def)
        then have "i + w \<le> x" using x Suc hs by simp
        then show ?thesis using IH m x Suc by (simp add: hs r nth_append loop_done_def diff_diff_add)
      qed
    qed
  qed
qed


section \<open>The numbering the pass uses\<close>

definition fuse_renum :: "Program \<Rightarrow> int list \<Rightarrow> nat list \<Rightarrow> renum" where
  "fuse_renum p prot newPC =
     \<lparr>rn = (\<lambda>t. if 0 \<le> t \<and> nat t < length newPC then int (newPC ! nat t) else t),
      dests = int ` set (heads p prot 0)\<rparr>"

text \<open>The facts about the loop's result, from the start of the stream.\<close>

definition pass_done :: "Program \<Rightarrow> int list \<Rightarrow> instruction list \<Rightarrow> nat list \<Rightarrow> bool" where
  "pass_done p prot fused newPC \<longleftrightarrow> loop_done p prot 0 0 fused newPC (heads p prot 0)"

lemma pass_facts:
  assumes "pass_done p prot fused newPC" and "n < length fused"
  shows "heads p prot 0 ! n < length (p_code p)" and "fused ! n = fst (fuseAt p prot (heads p prot 0 ! n))"
    and "heads p prot 0 ! Suc n = heads p prot 0 ! n + snd (fuseAt p prot (heads p prot 0 ! n))"
    and "heads p prot 0 ! n \<le> x \<Longrightarrow> x < heads p prot 0 ! Suc n \<Longrightarrow> newPC ! x = n"
  using assms by (auto simp: pass_done_def loop_done_def)

lemma pass_ends:
  assumes "pass_done p prot fused newPC"
  shows "length (heads p prot 0) = Suc (length fused)" "length newPC = Suc (length (p_code p))"
    "heads p prot 0 ! 0 = 0" "heads p prot 0 ! length fused = length (p_code p)"
    "newPC ! length (p_code p) = length fused"
  using assms by (auto simp: pass_done_def loop_done_def)

lemma heads_less:
  assumes "pass_done p prot fused newPC" and "n < m" and "m \<le> length fused"
  shows "heads p prot 0 ! n < heads p prot 0 ! m"
  using assms(2,3)
proof (induction m)
  case (Suc m)
  have "heads p prot 0 ! m < heads p prot 0 ! Suc m"
    using pass_facts(3) [OF assms(1), of m] Suc.prems fuseAt_width [of p prot "heads p prot 0 ! m"]
    by (metis Suc_le_eq less_add_same_cancel1 prod.collapse)
  then show ?case using Suc by (cases "n = m") auto
qed simp

lemma newPC_head:
  assumes "pass_done p prot fused newPC" and "n \<le> length fused"
  shows "newPC ! (heads p prot 0 ! n) = n"
proof (cases "n = length fused")
  case True
  then show ?thesis using pass_ends [OF assms(1)] by simp
next
  case False
  then have n: "n < length fused" using assms(2) by simp
  show ?thesis
    using pass_facts(4) [OF assms(1) n order_refl] heads_less [OF assms(1), of n "Suc n"] n by simp
qed

lemma head_le:
  assumes "pass_done p prot fused newPC" and "n \<le> length fused"
  shows "heads p prot 0 ! n \<le> length (p_code p)"
  using pass_ends(4) [OF assms(1)] heads_less [OF assms(1), of n "length fused"] assms(2)
  by (cases "n = length fused") auto

lemma dests_iff:
  assumes "pass_done p prot fused newPC"
  shows "t \<in> dests (fuse_renum p prot newPC) \<longleftrightarrow> (\<exists>n \<le> length fused. t = int (heads p prot 0 ! n))"
  using pass_ends(1) [OF assms]
  by (auto simp: fuse_renum_def in_set_conv_nth image_iff less_Suc_eq_le)

lemma rn_head:
  assumes "pass_done p prot fused newPC" and "n \<le> length fused"
  shows "rn (fuse_renum p prot newPC) (int (heads p prot 0 ! n)) = int n"
  using head_le [OF assms] pass_ends(2) [OF assms(1)] newPC_head [OF assms] by (simp add: fuse_renum_def)

lemma head_unique: "pass_done p prot fused newPC \<Longrightarrow> n \<le> length fused \<Longrightarrow> m \<le> length fused \<Longrightarrow>
    heads p prot 0 ! n = heads p prot 0 ! m \<Longrightarrow> n = m"
  by (metis newPC_head)

lemma fuse_renum_ok:
  assumes "pass_done p prot fused newPC"
  shows "renum_ok (fuse_renum p prot newPC)"
  unfolding renum_ok_def
proof (intro conjI ballI impI)
  fix a b
  assume "a \<in> dests (fuse_renum p prot newPC)" and "b \<in> dests (fuse_renum p prot newPC)" and "a < b"
  then obtain n m where n: "n \<le> length fused" "a = int (heads p prot 0 ! n)"
    and m: "m \<le> length fused" "b = int (heads p prot 0 ! m)" by (auto simp: dests_iff [OF assms])
  have "n < m" using \<open>a < b\<close> n m heads_less [OF assms, of m n] by (metis less_imp_of_nat_less linorder_neqE_nat not_less_iff_gr_or_eq)
  then show "rn (fuse_renum p prot newPC) a < rn (fuse_renum p prot newPC) b"
    using n m by (simp add: rn_head [OF assms])
next
  fix a
  assume "a \<in> dests (fuse_renum p prot newPC)"
  then obtain n where n: "n \<le> length fused" "a = int (heads p prot 0 ! n)" by (auto simp: dests_iff [OF assms])
  show "rn (fuse_renum p prot newPC) (a - 1) = rn (fuse_renum p prot newPC) a - 1"
  proof (cases n)
    case 0
    then show ?thesis using n rn_head [OF assms, of 0] pass_ends [OF assms] by (simp add: fuse_renum_def)
  next
    case (Suc m)
    have h: "heads p prot 0 ! m < heads p prot 0 ! Suc m" using heads_less [OF assms] n Suc by simp
    let ?x = "heads p prot 0 ! Suc m - 1"
    have "newPC ! ?x = m" using pass_facts(4) [OF assms, of m ?x] n Suc h by simp
    moreover have "?x < length newPC" using head_le [OF assms n(1)] pass_ends(2) [OF assms] Suc by simp
    moreover have "a - 1 = int ?x" using n Suc h by simp
    ultimately have "rn (fuse_renum p prot newPC) (a - 1) = int m" by (simp add: fuse_renum_def)
    then show ?thesis using rn_head [OF assms n(1)] n(2) Suc by simp
  qed
qed

text \<open>Every position that is not a head lies inside a block, so a recorded counter in range is a head.\<close>

lemma between_heads:
  assumes "pass_done p prot fused newPC" and "x \<le> length (p_code p)"
  shows "\<exists>n \<le> length fused. heads p prot 0 ! n \<le> x \<and> (n < length fused \<longrightarrow> x < heads p prot 0 ! Suc n)"
proof -
  let ?P = "\<lambda>n. n \<le> length fused \<and> heads p prot 0 ! n \<le> x"
  have "?P 0" using pass_ends(3) [OF assms(1)] by simp
  then have g: "?P (Greatest ?P)" by (rule GreatestI_nat [where b = "length fused"]) auto
  have "x < heads p prot 0 ! Suc (Greatest ?P)" if "Greatest ?P < length fused"
    using Greatest_le_nat [of ?P "Suc (Greatest ?P)" "length fused"] that by force
  then show ?thesis using g by blast
qed

lemma recorded_head:
  assumes "pass_done p prot fused newPC" and "x \<le> length (p_code p)" and "int x \<in> set prot"
  shows "int x \<in> dests (fuse_renum p prot newPC)"
proof -
  obtain n where n: "n \<le> length fused" "heads p prot 0 ! n \<le> x"
    "n < length fused \<longrightarrow> x < heads p prot 0 ! Suc n" using between_heads [OF assms(1,2)] by blast
  show ?thesis
  proof (cases "n < length fused")
    case True
    let ?h = "heads p prot 0 ! n"
    have "\<not> ?h < x"
      using fuseAt_block(2) [of p prot ?h "fst (fuseAt p prot ?h)" "snd (fuseAt p prot ?h)" x]
        pass_facts(1,3) [OF assms(1) True] n(3) True assms(3) by auto
    then show ?thesis using n by (auto simp: dests_iff [OF assms(1)])
  next
    case False
    then have "x = length (p_code p)" using n assms(2) pass_ends(4) [OF assms(1)] by simp
    then show ?thesis using pass_ends(4) [OF assms(1)] by (auto simp: dests_iff [OF assms(1)])
  qed
qed

lemma inside_block:
  assumes "pass_done p prot fused newPC" and "n < length fused"
    and "heads p prot 0 ! n < x" and "x < heads p prot 0 ! Suc n"
  shows "int x \<notin> dests (fuse_renum p prot newPC)"
proof
  assume "int x \<in> dests (fuse_renum p prot newPC)"
  then obtain m where m: "m \<le> length fused" "x = heads p prot 0 ! m" by (auto simp: dests_iff [OF assms(1)])
  have "n < m" using assms m heads_less [OF assms(1), of m n] by (metis linorder_neqE_nat not_less_iff_gr_or_eq order.strict_implies_order nat_less_le)
  moreover have "m < Suc n" using assms m heads_less [OF assms(1), of "Suc n" m] by (metis linorder_neqE_nat not_less_iff_gr_or_eq)
  ultimately show False by simp
qed

end
