(* ===== verification/FusionCorrect.thy ===== *)
theory FusionCorrect
  imports FusionPass
begin

text \<open>
  The pass of \<open>flatstack/engine/fuse.go\<close> preserves what a program does: every block against its
  fused instruction, one round against the rounds it stands for, and with them the runs of the
  two programs.
\<close>

section \<open>One round of the fused program\<close>

text \<open>
  What the compiler guarantees of the stream it hands to the pass: recorded counters lie in it,
  constants in the pool, stores name a slot, and no operator has a folded store yet.
\<close>

definition stream_ok :: "Program \<Rightarrow> bool" where
  "stream_ok p \<longleftrightarrow>
     (\<forall>i \<in> set (p_code p).
        (i_op i = OpBinary \<longrightarrow> i_target i = 0) \<and> (i_op i = OpStore \<longrightarrow> 0 \<le> i_a i) \<and>
        (i_op i = OpPushConst \<longrightarrow> 0 \<le> i_a i \<and> i_a i < int (length (p_constants p)))) \<and>
     (\<forall>t \<in> set (protectedPCs p). 0 \<le> t \<and> t \<le> int (length (p_code p)))"

lemma stream_okD:
  assumes "stream_ok p" and "x < length (p_code p)"
  shows "i_op (p_code p ! x) = OpBinary \<Longrightarrow> i_target (p_code p ! x) = 0"
    and "i_op (p_code p ! x) = OpStore \<Longrightarrow> 0 \<le> i_a (p_code p ! x)"
    and "i_op (p_code p ! x) = OpPushConst \<Longrightarrow>
      index_at (p_constants p) (i_a (p_code p ! x)) = Some (p_constants p ! nat (i_a (p_code p ! x)))"
proof -
  have m: "p_code p ! x \<in> set (p_code p)" using assms(2) by simp
  show "i_op (p_code p ! x) = OpBinary \<Longrightarrow> i_target (p_code p ! x) = 0"
    "i_op (p_code p ! x) = OpStore \<Longrightarrow> 0 \<le> i_a (p_code p ! x)"
    using assms(1) m unfolding stream_ok_def by blast+
  assume "i_op (p_code p ! x) = OpPushConst"
  then have "0 \<le> i_a (p_code p ! x) \<and> i_a (p_code p ! x) < int (length (p_constants p))"
    using assms(1) m unfolding stream_ok_def by blast
  then show "index_at (p_constants p) (i_a (p_code p ! x)) = Some (p_constants p ! nat (i_a (p_code p ! x)))"
    by (simp add: index_at_def nat_less_iff)
qed

text \<open>How the operands of a block sit in the stream, and how it ends.\<close>

lemma block_ends:
  assumes ok: "stream_ok p" and pass: "pass_done p prot fused newPC" and n: "n < length fused"
    and f: "fused_operands p prot (heads p prot 0 ! n) = Some (f, k)"
    and code: "p_code q = p_code p"
  shows "ends (fuse_renum p prot newPC) q (int (heads p prot 0 ! n)) (k - 1) (fused ! n)"
proof -
  let ?R = "fuse_renum p prot newPC" and ?h = "heads p prot 0 ! n"
  note facts = pass_facts [OF pass n]
  have k: "0 < k" by (rule fused_operands_inner(1) [OF f])
  have tgt: "i_target f = 0"
    using f facts(1) stream_okD(1) [OF ok facts(1)]
    by (auto simp: fused_operands_def Let_def instr_def split: if_splits)
  have next_head: "int (heads p prot 0 ! Suc n) \<in> dests ?R" "rn ?R (int (heads p prot 0 ! Suc n)) = rn ?R (int ?h) + 1"
    using n rn_head [OF pass, of "Suc n"] rn_head [OF pass, of n] by (auto simp: dests_iff [OF pass] intro!: exI [of _ "Suc n"])
  show ?thesis
  proof (cases "fusable p prot (?h + k) \<and> plain_store (p_code p ! (?h + k))")
    case True
    then have at: "fuseAt p prot ?h = (f\<lparr>i_target := i_a (p_code p ! (?h + k)) + 1\<rparr>, k + 1)"
      using f by (simp add: fuseAt_def Let_def)
    have idx: "nat (int ?h + int (Suc (k - 1))) = ?h + k" "int ?h + int (Suc (k - 1)) = int (?h + k)" using k by simp_all
    have "?h + k < length (p_code p)" using True by (simp add: fusable_def)
    moreover have "int (?h + k) \<notin> dests ?R"
      using inside_block [OF pass n, of "?h + k"] facts(3) at k by simp
    moreover have "0 \<le> i_a (p_code p ! (?h + k))"
      using stream_okD(2) [OF ok, of "?h + k"] True by (simp add: fusable_def plain_store_def)
    moreover have "block_end ?R (int ?h) (Suc (k - 1))"
      using next_head facts(3) at k by (simp add: block_end_def algebra_simps)
    ultimately show ?thesis
      using True facts(2) at unfolding ends_def code idx by (simp add: nat_int_add)
  next
    case False
    then have at: "fuseAt p prot ?h = (f, k)" using f by (auto simp: fuseAt_def Let_def split: if_splits)
    have "block_end ?R (int ?h) (k - 1)" using next_head facts(3) at k by (simp add: block_end_def algebra_simps)
    then show ?thesis using facts(2) at tgt by (simp add: ends_def)
  qed
qed

lemma fuseAt_fields:
  assumes "fused_operands p prot i = Some (f, k)"
  shows "i_op (fst (fuseAt p prot i)) = i_op f" "i_a (fst (fuseAt p prot i)) = i_a f" "i_b (fst (fuseAt p prot i)) = i_b f"
    "i_c (fst (fuseAt p prot i)) = i_c f" "i_name (fst (fuseAt p prot i)) = i_name f"
  using assms by (simp_all add: fuseAt_def Let_def)

text \<open>The shapes \<open>fused_operands\<close> finds.\<close>

lemma fused_operands_cases [consumes 1, case_names Pair Immediate Stack]:
  assumes "fused_operands p prot i = Some (f, k)"
  obtains
    "k = 3" "fusable p prot (i + 1)" "fusable p prot (i + 2)" "i_op (p_code p ! i) = OpLoad"
      "i_op (p_code p ! (i + 1)) = OpLoad \<and> i_op f = OpBinLL \<or> i_op (p_code p ! (i + 1)) = OpPushConst \<and> i_op f = OpBinLC"
      "i_op (p_code p ! (i + 2)) = OpBinary" "i_a f = i_a (p_code p ! i)" "i_c f = i_a (p_code p ! (i + 1))"
      "i_b f = i_b (p_code p ! (i + 2))" "i_name f = i_name (p_code p ! (i + 2))"
  | "k = 2" "fusable p prot (i + 1)" "i_op (p_code p ! i) = OpPushConst" "i_op (p_code p ! (i + 1)) = OpBinary"
      "i_op f = OpBinTC" "i_c f = i_a (p_code p ! i)" "i_b f = i_b (p_code p ! (i + 1))"
      "i_name f = i_name (p_code p ! (i + 1))"
  | "k = 1" "i_op (p_code p ! i) = OpBinary" "f = p_code p ! i"
  using assms by (auto simp: fused_operands_def Let_def instr_def split: if_splits)


text \<open>What relates the two programs once the pass has run.\<close>

definition fused_from :: "Program \<Rightarrow> renum \<Rightarrow> instruction list \<Rightarrow> Program \<Rightarrow> Program \<Rightarrow> bool" where
  "fused_from p R fused q q' \<longleftrightarrow>
     (\<exists>newPC. R = fuse_renum p (protectedPCs p) newPC \<and> pass_done p (protectedPCs p) fused newPC) \<and>
     stream_ok p \<and> p_code q = p_code p \<and> p_constants q = p_constants p \<and> renumbers R q q' \<and>
     p_code q' = map (renumber_instr R) fused"

abbreviation (input) hd_at :: "Program \<Rightarrow> nat \<Rightarrow> nat" where
  "hd_at p n \<equiv> heads p (protectedPCs p) 0 ! n"

lemma fused_fromD:
  assumes "fused_from p R fused q q'"
  obtains newPC where "R = fuse_renum p (protectedPCs p) newPC" and "pass_done p (protectedPCs p) fused newPC"
    and "stream_ok p" and "p_code q = p_code p" and "p_constants q = p_constants p" and "renumbers R q q'"
    and "p_code q' = map (renumber_instr R) fused"
  using assms by (auto simp: fused_from_def)

lemma at_head:
  assumes F: "fused_from p R fused q q'" and "related R s t" and "st_pc s = int (hd_at p n)" and "n < length fused"
  shows "0 \<le> st_pc s" "nat (st_pc s) < length (p_code q)" "0 \<le> st_pc t" "nat (st_pc t) < length (p_code q')"
    "p_code q ! nat (st_pc s) = p_code p ! (hd_at p n)" "st_pc t = int n"
    "p_code q' ! nat (st_pc t) = renumber_instr R (fst (fuseAt p (protectedPCs p) (hd_at p n)))"
proof -
  from F obtain newPC where R: "R = fuse_renum p (protectedPCs p) newPC" and pass: "pass_done p (protectedPCs p) fused newPC"
    and ok: "stream_ok p" and code: "p_code q = p_code p" and pool: "p_constants q = p_constants p"
    and ren: "renumbers R q q'" and code': "p_code q' = map (renumber_instr R) fused"
    by (rule fused_fromD)
  have "st_pc t = int n" using assms rn_head [OF pass, of n] by (simp add: related_def at_same_def R)
  then show "0 \<le> st_pc s" "nat (st_pc s) < length (p_code q)" "0 \<le> st_pc t" "nat (st_pc t) < length (p_code q')"
    "p_code q ! nat (st_pc s) = p_code p ! (hd_at p n)" "st_pc t = int n"
    "p_code q' ! nat (st_pc t) = renumber_instr R (fst (fuseAt p (protectedPCs p) (hd_at p n)))"
    using assms(3,4) pass_facts [OF pass assms(4)] by (simp_all add: code code')
qed

text \<open>A kept instruction.\<close>

lemma round_kept:
  assumes F: "fused_from p R fused q q'" and st: "related R s t" "st_pc s = int (hd_at p n)" and n: "n < length fused"
    and f: "fused_operands p (protectedPCs p) (hd_at p n) = None"
  shows "rel_act (alike R) (cycle q H s) (cycle q' H t)"
proof -
  from F obtain newPC where R: "R = fuse_renum p (protectedPCs p) newPC" and pass: "pass_done p (protectedPCs p) fused newPC"
    and ok: "stream_ok p" and code: "p_code q = p_code p" and pool: "p_constants q = p_constants p"
    and ren: "renumbers R q q'" and code': "p_code q' = map (renumber_instr R) fused"
    by (rule fused_fromD)
  let ?h = "hd_at p n"
  note h = at_head [OF F st n]
  have at: "fuseAt p (protectedPCs p) ?h = (p_code p ! ?h, 1)" using f by (simp add: fuseAt_def)
  have len: "?h < length (p_code p)" by (rule pass_facts(1) [OF pass n])
  have single: "st_pc s \<in> singles R"
    using n rn_head [OF pass, of "Suc n"] rn_head [OF pass, of n] pass_facts(3) [OF pass n] at st(2)
    by (auto simp: singles_def R dests_iff [OF pass] algebra_simps intro: exI [of _ n] exI [of _ "Suc n"])
  have rec: "t \<in> dests R" if "t \<in> set (recorded (p_code p ! ?h))" for t
  proof -
    have "p_code p ! ?h \<in> set (p_code p)" using len by simp
    then have "t \<in> set (protectedPCs p)" using that by (auto simp: protectedPCs_def)
    moreover from this have "0 \<le> t \<and> t \<le> int (length (p_code p))" using ok by (simp add: stream_ok_def)
    ultimately show ?thesis
      using recorded_head [OF pass, of "nat t"] by (simp add: R nat_le_iff)
  qed
  have "targets_ok R (p_code q ! nat (st_pc s))"
    unfolding h(5) targets_ok_def using rec by (auto simp: recorded_def jumps_def)
  moreover have "p_code q' ! nat (st_pc t) = renumber_instr R (p_code q ! nat (st_pc s))"
    by (simp add: h(5,7) at)
  ultimately show ?thesis unfolding alike_def
    by (rule rel_cycle_single [OF ren st(1) single h(1-4)])
qed

lemma const_operand:
  assumes F: "fused_from p R fused q q'" and "x < length (p_code p)" and "i_op (p_code p ! x) = OpPushConst"
  shows "slice_at (p_constants q) (i_a (p_code p ! x)) = ret (p_constants p ! nat (i_a (p_code p ! x)))"
    and "slice_at (p_constants q') (i_a (p_code p ! x)) = ret (p_constants p ! nat (i_a (p_code p ! x)))"
  using F stream_okD(3) [of p x] assms(2,3)
  by (auto simp: fused_from_def slice_at_def from_some_def renumbers_def same_names_def)

text \<open>A block against its fused instruction.\<close>

lemma round_fused:
  fixes s t :: "'w execState" and H :: "'w FullHost"
  assumes F: "fused_from p R fused q q'" and st: "related R s t" "st_pc s = int (hd_at p n)" and n: "n < length fused"
    and f: "fused_operands p (protectedPCs p) (hd_at p n) = Some (f, k)"
  shows "rel_act (alike R) (burst (Suc (Suc (Suc 0))) R q H s) (cycle q' H t)"
proof -
  from F obtain newPC where R: "R = fuse_renum p (protectedPCs p) newPC" and pass: "pass_done p (protectedPCs p) fused newPC"
    and ok: "stream_ok p" and code: "p_code q = p_code p" and pool: "p_constants q = p_constants p"
    and ren: "renumbers R q q'" and code': "p_code q' = map (renumber_instr R) fused"
    by (rule fused_fromD)
  let ?h = "hd_at p n"
  let ?j = "fst (fuseAt p (protectedPCs p) ?h)"
  note h = at_head [OF F st n]
  note names = renumbers_names [OF ren]
  have len: "?h < length (p_code p)" by (rule pass_facts(1) [OF pass n])
  have i: "0 \<le> st_pc s" and nat_h: "nat (st_pc s) = ?h" using st(2) by simp_all
  note fields = fuseAt_fields [OF f]
  have e: "ends R q (st_pc s) (k - 1) ?j"
    using block_ends [OF ok pass n f code] pass_facts(2) [OF pass n] st(2) by (simp add: R)
  have inner: "st_pc s + int y \<notin> dests R" if "0 < y" "y < k" for y
  proof -
    have "k \<le> snd (fuseAt p (protectedPCs p) ?h)" using f by (simp add: fuseAt_def Let_def)
    then show ?thesis
      using inside_block [OF pass n, of "?h + y"] pass_facts(3) [OF pass n] that st(2) by (simp add: R)
  qed
  from f show ?thesis
  proof (cases rule: fused_operands_cases)
    case Pair
    have lens: "?h + 1 < length (p_code p)" "?h + 2 < length (p_code p)" using Pair by (simp_all add: fusable_def)
    have kept: "renumber_instr R ?j = ?j" using Pair(5) fields(1) by (auto simp: renumber_instr_def jumps_def)
    have j: "exec_op q' H ?j = mbind (operand H q' (p_code p ! ?h)) (\<lambda>l. mbind (operand H q' (p_code p ! (?h + 1)))
        (\<lambda>r. mbind (binary_value q' H ?j l r) (binary_result q' H ?j)))"
      using Pair(4,5,7,8) fields
      by (auto simp: exec_op_def exec_Binary_def binary_operands_def operand_def mbind_assoc)
    show ?thesis
      by (rule block_binary_operands [OF ren st(1) refl i, where j = ?j])
        (use Pair e lens inner [of 1] inner [of 2] fields h kept j nat_h stream_okD(1) [OF ok lens(2)] in
          \<open>auto simp: code numeral_2_eq_2\<close>)
  next
    case Immediate
    have lens: "?h + 1 < length (p_code p)" using Immediate by (simp add: fusable_def)
    have kept: "renumber_instr R ?j = ?j" using Immediate(5) fields(1) by (auto simp: renumber_instr_def jumps_def)
    note const = const_operand [OF F len Immediate(3)]
    define c where "c = p_constants p ! nat (i_a (p_code p ! ?h))"
    have j: "exec_op q' H ?j = mbind pop (\<lambda>l. mbind (binary_value q' H ?j l c) (binary_result q' H ?j))"
      using Immediate(5,6) fields
      by (simp add: exec_op_def exec_Binary_def binary_operands_def mbind_assoc c_def const(2))
    have "rel_act (alike R) (burst (Suc (Suc (Suc 0))) R q H s)
        (act_bind (mbind (ret c) (\<lambda>c. mbind pop (\<lambda>l. mbind (binary_value q' H ?j l c) (binary_result q' H ?j))) t) (after q' H))"
    proof (rule block_operand [OF skew_start [OF st(1) refl] names i])
      show "exec_op q H (p_code q ! nat (st_pc s + int 0)) = mbind (ret c) push_next"
        using Immediate(3) nat_h by (simp add: exec_op_def exec_PushConst_def code c_def const(1))
      fix v and s1 t1 :: "'w execState"
      assume s1: "skew R (st_pc s) (Suc 0) [v] s1 t1"
      have e1: "ends R q (st_pc s) (Suc 0) ?j" using e Immediate(1) by simp
      have idx: "nat (st_pc s + int (Suc 0)) = ?h + 1" using st(2) by simp
      show "rel_act (alike R) (burst (Suc (Suc 0)) R q H s1)
          (act_bind (mbind pop (\<lambda>l. mbind (binary_value q' H ?j l v) (binary_result q' H ?j)) t1) (after q' H))"
        by (rule block_top [OF ren s1 i e1])
          (use Immediate lens fields stream_okD(1) [OF ok lens] in \<open>simp_all only: idx code\<close>)
    qed (use lens inner [of 1] Immediate(1) nat_h i in \<open>auto simp: code quiet_ret crashes_basic\<close>)
    then show ?thesis unfolding cycle_eq [OF h(3,4)] h(7) kept j by simp
  next
    case Stack
    have kept: "renumber_instr R ?j = ?j" using Stack fields(1) by (auto simp: renumber_instr_def jumps_def)
    have j: "exec_op q' H ?j = mbind pop2 (\<lambda>(l, r). mbind (binary_value q' H ?j l r) (binary_result q' H ?j))"
      using Stack fields by (intro exec_Binary_stack) simp
    have e0: "ends R q (st_pc s) 0 ?j" using e Stack(1) by simp
    have idx: "nat (st_pc s + int 0) = ?h" using st(2) by simp
    show ?thesis unfolding cycle_eq [OF h(3,4)] h(7) kept j
      by (rule block_stack [OF ren skew_start [OF st(1) refl] i e0])
        (use Stack len fields stream_okD(1) [OF ok len] in \<open>simp_all only: idx code\<close>)
  qed
qed

lemma rel_round:
  fixes s t :: "'w execState" and H :: "'w FullHost"
  assumes F: "fused_from p R fused q q'" and st: "related R s t"
  shows "rel_act (alike R) (burst (Suc (Suc (Suc 0))) R q H s) (cycle q' H t)"
proof -
  from F obtain newPC where R: "R = fuse_renum p (protectedPCs p) newPC" and pass: "pass_done p (protectedPCs p) fused newPC"
    and ok: "stream_ok p" and code: "p_code q = p_code p" and pool: "p_constants q = p_constants p"
    and ren: "renumbers R q q'" and code': "p_code q' = map (renumber_instr R) fused"
    by (rule fused_fromD)
  have "st_pc s \<in> dests R" using st by (simp add: related_def at_same_def)
  then obtain n where n: "n \<le> length fused" "st_pc s = int (hd_at p n)"
    by (auto simp: R dests_iff [OF pass])
  show ?thesis
  proof (cases "n < length fused")
    case True
    then show ?thesis
      by (cases "fused_operands p (protectedPCs p) (hd_at p n)")
        (auto intro: rel_burst_single [OF round_kept [OF F st n(2) True]] round_fused [OF F st n(2) True] simp del: burst.simps)
  next
    case False
    then have "st_pc s = int (length (p_code q))" "st_pc t = int (length (p_code q'))"
      using n pass_ends(4) [OF pass] rn_head [OF pass, of n] st
      by (simp_all add: code code' related_def at_same_def R)
    then have "cycle q H s = finish q H (Inr VNil) s" "cycle q' H t = finish q' H (Inr VNil) t"
      by (simp_all add: cycle_def mbind_def gets_def)
    moreover have "same_data (rn R) s t" using st by (simp add: related_def related_simps)
    ultimately show ?thesis using alike_finish [OF renumbers_names [OF ren]] rel_burst_single by metis
  qed
qed


section \<open>Runs\<close>

lemma interp_mono:
  assumes "\<And>c xs h w r. run c xs h w = Some r \<Longrightarrow> run' c xs h w = Some r" and "interp run a = Some x"
  shows "interp run' a = Some x"
  using assms(2) by (induction a rule: act_tree_induct) (auto split: option.splits dest: assms(1))

lemma closure_call_mono:
  "(\<And>s r. f s = Some r \<Longrightarrow> g s = Some r) \<Longrightarrow> closure_call p f c xs h w = Some r \<Longrightarrow> closure_call p g c xs h w = Some r"
  by (auto simp: closure_call_def split: if_splits)

text \<open>What the loop makes of the outcome of a round, or of several.\<close>

definition onward :: "nat \<Rightarrow> Program \<Rightarrow> 'w FullHost \<Rightarrow> (exit + (goerr + val) option) \<times> 'w execState \<Rightarrow>
    ((goerr + val) \<times> heap \<times> 'w) option" where
  "onward n p H x =
     (case x of
        (Inr None, s) \<Rightarrow> exec n p H s
      | (Inr (Some r), s) \<Rightarrow> Some (r, st_heap s, st_world s)
      | (Inl _, s) \<Rightarrow> Some (Inl vm_panic, st_heap s, st_world s))"

lemma exec_onward:
  "exec (Suc n) p H s =
     (case interp (closure_call p (exec n p H)) (cycle p H s) of None \<Rightarrow> None | Some x \<Rightarrow> onward n p H x)"
  by (auto simp: onward_def split: option.splits prod.splits sum.splits)

lemma exec_Suc_mono: "exec n p H s = Some r \<Longrightarrow> exec (Suc n) p H s = Some r"
proof (induction n arbitrary: s r)
  case (Suc n)
  obtain x where x: "interp (closure_call p (exec n p H)) (cycle p H s) = Some x" "onward n p H x = Some r"
    using Suc.prems by (auto simp: exec_onward simp del: exec.simps split: option.splits)
  have "interp (closure_call p (exec (Suc n) p H)) (cycle p H s) = Some x"
    by (rule interp_mono [OF closure_call_mono x(1)]) (auto intro: Suc.IH simp del: exec.simps)
  moreover have "onward (Suc n) p H x = Some r"
    using x(2) Suc.IH by (auto simp: onward_def simp del: exec.simps split: prod.splits sum.splits option.splits)
  ultimately show ?case by (simp add: exec_onward [of "Suc n"] del: exec.simps)
qed simp

lemma exec_mono: "exec n p H s = Some r \<Longrightarrow> n \<le> m \<Longrightarrow> exec m p H s = Some r"
  by (induction m) (auto simp: le_Suc_eq intro: exec_Suc_mono simp del: exec.simps)

lemma onward_mono: "onward n p H x = Some r \<Longrightarrow> n \<le> m \<Longrightarrow> onward m p H x = Some r"
  by (auto simp: onward_def intro: exec_mono split: prod.splits sum.splits option.splits)

lemma interp_call_mono:
  "interp (closure_call p (exec n p H)) a = Some x \<Longrightarrow> n \<le> m \<Longrightarrow> interp (closure_call p (exec m p H)) a = Some x"
  by (erule interp_mono [rotated]) (auto intro: closure_call_mono exec_mono)

lemma exec_burst:
  assumes "exec (Suc n) p H s = Some r"
  shows "\<exists>x. interp (closure_call p (exec n p H)) (burst b R p H s) = Some x \<and> onward n p H x = Some r"
  using assms
proof (induction b arbitrary: n s)
  case 0
  then obtain x where "interp (closure_call p (exec n p H)) (cycle p H s) = Some x" "onward n p H x = Some r"
    by (auto simp: exec_onward simp del: exec.simps split: option.splits)
  then show ?case by (metis burst.simps(1))
next
  case (Suc b)
  obtain x where x: "interp (closure_call p (exec n p H)) (cycle p H s) = Some x" "onward n p H x = Some r"
    using Suc.prems by (auto simp: exec_onward simp del: exec.simps split: option.splits)
  show ?case
  proof (cases "fst x = Inr None \<and> st_pc (snd x) \<notin> dests R")
    case False
    then have "interp (closure_call p (exec n p H)) (burst (Suc b) R p H s) = Some x"
      using x(1) by (auto simp: interp_bind resume_def split_def)
    then show ?thesis using x(2) by blast
  next
    case True
    then have e: "exec n p H (snd x) = Some r" using x(2) by (cases x) (simp add: onward_def)
    then obtain m where m: "n = Suc m" by (cases n) auto
    obtain y where y: "interp (closure_call p (exec m p H)) (burst b R p H (snd x)) = Some y" "onward m p H y = Some r"
      using Suc.IH e unfolding m by blast
    have "interp (closure_call p (exec n p H)) (burst b R p H (snd x)) = Some y"
      by (rule interp_call_mono [OF y(1)]) (simp add: m)
    moreover have "onward n p H y = Some r" by (rule onward_mono [OF y(2)]) (simp add: m)
    moreover have "interp (closure_call p (exec n p H)) (burst (Suc b) R p H s) = interp (closure_call p (exec n p H)) (burst b R p H (snd x))"
      using x(1) True by (auto simp: interp_bind resume_def split_def)
    ultimately show ?thesis by metis
  qed
qed

lemma burst_exec:
  assumes "interp (closure_call p (exec n p H)) (burst b R p H s) = Some x" and "onward n p H x = Some r"
  shows "exec (Suc (n + b)) p H s = Some r"
  using assms(1)
proof (induction b arbitrary: s)
  case 0
  then show ?case using assms(2) by (simp add: exec_onward del: exec.simps)
next
  case (Suc b)
  obtain y where y: "interp (closure_call p (exec n p H)) (cycle p H s) = Some y"
    and z: "interp (closure_call p (exec n p H)) (resume R (burst b R p H) y) = Some x"
    using Suc.prems by (auto simp: interp_bind split: option.splits)
  have "interp (closure_call p (exec (Suc (n + b)) p H)) (cycle p H s) = Some y"
    by (rule interp_call_mono [OF y]) simp
  moreover have "onward (Suc (n + b)) p H y = Some r"
  proof (cases "fst y = Inr None \<and> st_pc (snd y) \<notin> dests R")
    case True
    then have "exec (Suc (n + b)) p H (snd y) = Some r" using z by (intro Suc.IH) (simp add: resume_def split_def)
    then show ?thesis using True by (cases y) (simp add: onward_def del: exec.simps)
  next
    case False
    then have "x = y" using z by (auto simp: resume_def split_def)
    then show ?thesis using onward_mono [OF assms(2), of "Suc (n + b)"] by simp
  qed
  ultimately show ?case by (simp add: exec_onward [of "Suc (n + b)"] del: exec.simps)
qed

section \<open>The two programs\<close>

lemma seed_locals_same: "same_data N s t \<Longrightarrow> same_data N (seed_locals seeds s) (seed_locals seeds t)"
  unfolding seed_locals_def
proof (induction seeds arbitrary: s t)
  case (Cons e seeds)
  show ?case by (simp only: fold.simps o_apply, rule Cons.IH) (use Cons.prems in \<open>auto simp: same_data_def split: prod.split\<close>)
qed simp

lemma seed_locals_control: "control (seed_locals seeds s) = control s"
  unfolding seed_locals_def by (induction seeds arbitrary: s) (auto simp: control_def)

lemma related_start:
  assumes "renumbers R q q'" and "entry \<in> dests R"
  shows "related R (start_state q entry seeds globals h w) (start_state q' (rn R entry) seeds globals h w)"
proof -
  note n = renumbers_names [OF assms(1)]
  let ?s = "\<lambda>p e. \<lparr>st_stack = [], st_locals = replicate (length (p_localNames p)) VNil,
      st_initialized = replicate (length (p_localNames p)) False, st_extras = [], st_refWrites = [],
      st_iterators = [], st_handlers = [], st_callFrames = [], st_deferred = [], st_pc = e, st_heap = h, st_world = w\<rparr>"
  have base: "same_data (rn R) (?s q entry) (?s q' (rn R entry))"
    by (simp add: same_data_def same_names_fields [OF n])
  have "same_data (rn R) (start_state q entry seeds globals h w) (start_state q' (rn R entry) seeds globals h w)"
    unfolding start_state_def by (intro applyNamedValues_same [OF n] seed_locals_same base)
  moreover have "control (start_state q entry seeds globals h w) = ([], entry, [], [])"
    "control (start_state q' (rn R entry) seeds globals h w) = ([], rn R entry, [], [])"
    by (simp_all add: start_state_def applyNamedValues_control seed_locals_control) (simp_all add: control_def)
  ultimately show ?thesis using assms(2)
    by (simp add: related_def related0_def ctrl_def at_same_def) (simp add: control_def)
qed

text \<open>Invoking a closure of one program, if invoking the related closure of the other does the same.\<close>

lemma closure_call_related:
  assumes "renumbers R q q'"
    and "\<And>s t r. related R s t \<Longrightarrow> f s = Some r \<Longrightarrow> g t = Some r"
  shows "closure_call q f c xs h w = Some r \<Longrightarrow> closure_call q' g c xs h w = Some r"
proof -
  have len: "length (p_closures q') = length (p_closures q)" using assms(1) by (simp add: renumbers_def)
  show "closure_call q f c xs h w = Some r \<Longrightarrow> closure_call q' g c xs h w = Some r"
  proof (cases "fst c < length (p_closures q)")
    case True
    let ?d = "p_closures q ! fst c"
    have "?d \<in> set (p_closures q)" using True by simp
    then have e: "k_entryPC ?d \<in> dests R" using assms(1) unfolding renumbers_def by blast
    have d: "p_closures q' ! fst c = renumber_closure R ?d" using assms(1) True by (simp add: renumbers_def)
    have s: "closure_seeds (renumber_closure R ?d) (snd c) xs = closure_seeds ?d (snd c) xs"
      by (simp add: closure_seeds_def renumber_closure_def)
    show "closure_call q f c xs h w = Some r \<Longrightarrow> closure_call q' g c xs h w = Some r"
      using assms(2) [OF related_start [OF assms(1) e, of "closure_seeds ?d (snd c) xs" "[]" h w]] True
      by (simp add: closure_call_def len d s) (simp add: renumber_closure_def)
  qed (simp add: closure_call_def len)
qed

lemma closure_call_back:
  assumes "renumbers R q q'"
    and "\<And>s t r. related R s t \<Longrightarrow> g t = Some r \<Longrightarrow> f s = Some r"
  shows "closure_call q' g c xs h w = Some r \<Longrightarrow> closure_call q f c xs h w = Some r"
proof -
  have len: "length (p_closures q') = length (p_closures q)" using assms(1) by (simp add: renumbers_def)
  show "closure_call q' g c xs h w = Some r \<Longrightarrow> closure_call q f c xs h w = Some r"
  proof (cases "fst c < length (p_closures q)")
    case True
    let ?d = "p_closures q ! fst c"
    have "?d \<in> set (p_closures q)" using True by simp
    then have e: "k_entryPC ?d \<in> dests R" using assms(1) unfolding renumbers_def by blast
    have d: "p_closures q' ! fst c = renumber_closure R ?d" using assms(1) True by (simp add: renumbers_def)
    have s: "closure_seeds (renumber_closure R ?d) (snd c) xs = closure_seeds ?d (snd c) xs"
      by (simp add: closure_seeds_def renumber_closure_def)
    show "closure_call q' g c xs h w = Some r \<Longrightarrow> closure_call q f c xs h w = Some r"
      using assms(2) [OF related_start [OF assms(1) e, of "closure_seeds ?d (snd c) xs" "[]" h w]] True
      by (simp add: closure_call_def len d s) (simp add: renumber_closure_def)
  qed (simp add: closure_call_def len)
qed

lemma onward_alike:
  assumes "alike R x y" and "\<And>s t. related R s t \<Longrightarrow> exec n q H s = Some r \<Longrightarrow> exec m q' H t = Some r"
    and "onward n q H x = Some r"
  shows "onward m q' H y = Some r"
proof -
  obtain o1 s o2 t where x: "x = (o1, s)" "y = (o2, t)" by (cases x; cases y)
  show ?thesis
    using assms unfolding x
    by (auto simp: alike_data onward_def same_data_def split: sum.splits option.splits)
qed

lemma interp_rel_back:
  assumes "rel_act R a b" and "interp run' b = Some y"
    and "\<And>c xs h w r. run' c xs h w = Some r \<Longrightarrow> run c xs h w = Some r"
  shows "\<exists>x. interp run a = Some x \<and> R x y"
proof -
  have "rel_act R\<inverse>\<inverse> b a" using assms(1) by (simp add: act.rel_flip)
  from interp_rel [OF this assms(2,3)] show ?thesis by auto
qed

lemma fused_forward:
  assumes F: "fused_from p R fused q q'"
  shows "related R s t \<Longrightarrow> exec n q H s = Some r \<Longrightarrow> exec n q' H t = Some r"
proof (induction n arbitrary: s t r)
  case (Suc n)
  have ren: "renumbers R q q'" using F by (simp add: fused_from_def)
  obtain x where x: "interp (closure_call q (exec n q H)) (burst (Suc (Suc (Suc 0))) R q H s) = Some x"
    "onward n q H x = Some r" using exec_burst [OF Suc.prems(2)] by blast
  have "\<exists>y. interp (closure_call q' (exec n q' H)) (cycle q' H t) = Some y \<and> alike R x y"
    by (rule interp_rel [OF rel_round [OF F Suc.prems(1)] x(1)])
      (rule closure_call_related [OF ren Suc.IH])
  then obtain y where y: "interp (closure_call q' (exec n q' H)) (cycle q' H t) = Some y" "alike R x y" by blast
  have "onward n q' H y = Some r" by (rule onward_alike [OF y(2) Suc.IH x(2)])
  then show ?case by (simp add: exec_onward y(1) del: exec.simps)
qed simp

lemma fused_backward:
  assumes F: "fused_from p R fused q q'"
  shows "related R s t \<Longrightarrow> exec n q' H t = Some r \<Longrightarrow> exec (4 * n) q H s = Some r"
proof (induction n arbitrary: s t r)
  case (Suc n)
  have ren: "renumbers R q q'" using F by (simp add: fused_from_def)
  obtain y where y: "interp (closure_call q' (exec n q' H)) (cycle q' H t) = Some y" "onward n q' H y = Some r"
    using Suc.prems(2) by (auto simp: exec_onward simp del: exec.simps split: option.splits)
  have "\<exists>x. interp (closure_call q (exec (4 * n) q H)) (burst (Suc (Suc (Suc 0))) R q H s) = Some x \<and> alike R x y"
    by (rule interp_rel_back [OF rel_round [OF F Suc.prems(1)] y(1)])
      (rule closure_call_back [OF ren Suc.IH])
  then obtain x where x: "interp (closure_call q (exec (4 * n) q H)) (burst (Suc (Suc (Suc 0))) R q H s) = Some x"
    and xy: "alike R x y" by blast
  have "onward (4 * n) q H x = Some r"
  proof -
    obtain o1 s1 o2 t1 where o: "x = (o1, s1)" "y = (o2, t1)" by (cases x; cases y)
    show ?thesis using xy y(2) Suc.IH unfolding o
      by (auto simp: alike_data onward_def same_data_def split: sum.splits option.splits)
  qed
  from burst_exec [OF x this] show ?case by (simp add: eval_nat_numeral del: exec.simps)
qed simp

end
