(* ===== verification/FusionRuns.thy ===== *)
theory FusionRuns
  imports FusionCorrect
begin

text \<open>
  The end of \<open>Compile\<close> in \<open>flatstack/engine/program_compiler.go\<close>: the whole pass applied to a whole
  program succeeds, and the program it leaves answers every run as the unfused one does.
\<close>

section \<open>The pass over the tables\<close>

lemma those_map_eq: "those (map g xs) = Some ys \<Longrightarrow> (\<And>x y. x \<in> set xs \<Longrightarrow> g x = Some y \<Longrightarrow> y = f x) \<Longrightarrow> ys = map f xs"
  by (induction xs arbitrary: ys) (auto split: option.splits)

lemma those_map_total: "(\<And>x. x \<in> set xs \<Longrightarrow> g x \<noteq> None) \<Longrightarrow> \<exists>ys. those (map g xs) = Some ys"
  by (induction xs) (fastforce split: option.splits)+

lemma moved_eq: "moved newPC t = Some t' \<Longrightarrow> t' = rn (fuse_renum p prot newPC) t"
  by (auto simp: moved_def index_at_def fuse_renum_def split: if_splits)

lemma moved_total: "0 \<le> t \<Longrightarrow> t < int (length newPC) \<Longrightarrow> moved newPC t \<noteq> None"
  by (auto simp: moved_def index_at_def)

lemma retarget_eq: "retarget newPC i = Some j \<Longrightarrow> j = renumber_instr (fuse_renum p prot newPC) i"
  by (auto simp: retarget_def renumber_instr_def jumps_def split: if_splits option.splits dest: moved_eq [where p = p and prot = prot])

lemma retarget_clause_eq: "retarget_clause newPC c = Some d \<Longrightarrow> d = renumber_clause (fuse_renum p prot newPC) c"
  by (auto simp: retarget_clause_def renumber_clause_def dest: moved_eq [where p = p and prot = prot])

lemma retarget_closure_eq: "retarget_closure newPC c = Some d \<Longrightarrow> d = renumber_closure (fuse_renum p prot newPC) c"
  by (auto simp: retarget_closure_def renumber_closure_def dest: moved_eq [where p = p and prot = prot])

lemma retarget_func_eq:
  "retarget_func newPC c = Some d \<Longrightarrow> d = (case c of (name, def) \<Rightarrow> (name, renumber_func (fuse_renum p prot newPC) def))"
  by (auto simp: retarget_func_def renumber_func_def split_def dest: moved_eq [where p = p and prot = prot])

lemma fused_targets:
  assumes "x < length (p_code p)" and "jumps (i_op (fst (fuseAt p prot x))) \<or> i_op (fst (fuseAt p prot x)) = OpTryPush"
  shows "fst (fuseAt p prot x) = p_code p ! x"
proof (cases "fused_operands p prot x")
  case (Some fk)
  obtain f k where fk: "fk = (f, k)" by (cases fk)
  have "i_op f \<in> {OpBinLL, OpBinLC, OpBinTC, OpBinary}"
    using Some unfolding fk by (cases rule: fused_operands_cases) auto
  then show ?thesis using assms(2) fuseAt_fields(1) [OF Some [unfolded fk]] by (auto simp: jumps_def)
qed (simp add: fuseAt_def)

text \<open>Every counter the pass moves is one the compiler recorded, and lies in the stream.\<close>

lemma recorded_of:
  assumes "stream_ok p"
  shows "i \<in> set (p_code p) \<Longrightarrow> t \<in> set (recorded i) \<Longrightarrow> t \<in> set (protectedPCs p)"
    and "g \<in> set (p_catchGroups p) \<Longrightarrow> c \<in> set g \<Longrightarrow> t_target c \<in> set (protectedPCs p)"
    and "d \<in> set (p_closures p) \<Longrightarrow> k_entryPC d \<in> set (protectedPCs p)"
    and "nd \<in> set (p_userFuncs p) \<Longrightarrow> f_entryPC (snd nd) \<in> set (protectedPCs p)"
    and "t \<in> set (protectedPCs p) \<Longrightarrow> 0 \<le> t \<and> t \<le> int (length (p_code p))"
  using assms by (auto simp: protectedPCs_def stream_ok_def split_def)

lemma recorded_dest:
  assumes "stream_ok p" and "pass_done p (protectedPCs p) fused newPC" and "t \<in> set (protectedPCs p)"
  shows "t \<in> dests (fuse_renum p (protectedPCs p) newPC)"
  using recorded_head [OF assms(2), of "nat t"] recorded_of(5) [OF assms(1,3)] assms(3) by (simp add: nat_le_iff)

lemma pass_instr:
  assumes "pass_done p (protectedPCs p) fused newPC" and "i \<in> set fused" and "jumps (i_op i) \<or> i_op i = OpTryPush"
  shows "i \<in> set (p_code p)"
proof -
  obtain n where n: "n < length fused" "i = fused ! n" using assms(2) by (auto simp: in_set_conv_nth)
  note facts = pass_facts(1,2) [OF assms(1) n(1)]
  then have "i = p_code p ! (heads p (protectedPCs p) 0 ! n)" using fused_targets assms(3) n(2) by metis
  then show ?thesis using facts(1) by simp
qed

lemma finish_program_total:
  assumes "stream_ok p"
  shows "\<exists>q. finish_program p = Some q"
proof -
  obtain fused newPC where loop: "fuse_loop p (protectedPCs p) 0 0 = (fused, newPC)" by fastforce
  have pass: "pass_done p (protectedPCs p) fused newPC"
    unfolding pass_done_def by (rule fuse_loop_done [OF _ loop]) simp
  have inside: "moved newPC t \<noteq> None" if "t \<in> set (protectedPCs p)" for t
    using moved_total [of t newPC] recorded_of(5) [OF assms that] pass_ends(2) [OF pass] by linarith
  have "\<exists>ys. those (map (retarget newPC) fused) = Some ys"
  proof (rule those_map_total)
    fix i assume i: "i \<in> set fused"
    show "retarget newPC i \<noteq> None"
    proof (cases "jumps (i_op i) \<or> i_op i = OpTryPush")
      case True
      have "moved newPC t \<noteq> None" if "t \<in> set (recorded i)" for t
        using inside recorded_of(1) [OF assms pass_instr [OF pass i True] that] .
      then have "list_all (\<lambda>t. moved newPC t \<noteq> None) (recorded i)" by (simp add: list_all_iff)
      then show ?thesis using True by (auto simp: retarget_def recorded_def jumps_def split: if_splits option.splits)
    qed (simp add: retarget_def)
  qed
  moreover have "\<exists>ys. those (map (\<lambda>g. those (map (retarget_clause newPC) g)) (p_catchGroups p)) = Some ys"
  proof (rule those_map_total)
    fix g assume g: "g \<in> set (p_catchGroups p)"
    have "\<exists>ys. those (map (retarget_clause newPC) g) = Some ys"
      by (rule those_map_total) (use inside recorded_of(2) [OF assms g] in \<open>auto simp: retarget_clause_def\<close>)
    then show "those (map (retarget_clause newPC) g) \<noteq> None" by auto
  qed
  moreover have "\<exists>ys. those (map (retarget_closure newPC) (p_closures p)) = Some ys"
    by (rule those_map_total) (use inside recorded_of(3) [OF assms] in \<open>auto simp: retarget_closure_def\<close>)
  moreover have "\<exists>ys. those (map (retarget_func newPC) (p_userFuncs p)) = Some ys"
    by (rule those_map_total) (use inside recorded_of(4) [OF assms] in \<open>auto simp: retarget_func_def\<close>)
  ultimately show ?thesis by (auto simp: finish_program_def fuseProgram_def loop)
qed

text \<open>The program the pass leaves is the renumbering of the one it was given, block by block.\<close>

lemma renumbered_functions:
  assumes "p_userFuncs q' = map (\<lambda>(name, def). (name, renumber_func R def)) (p_userFuncs p)"
  shows "lookupUserFunc (index_functions q') name =
    map_option (renumber_func R) (lookupUserFunc (index_functions p) name)"
proof -
  have fold: "map_of (map (\<lambda>(name, def). (map to_lower name, def)) (map (\<lambda>(name, def). (name, renumber_func R def)) fs)) key =
      map_option (renumber_func R) (map_of (map (\<lambda>(name, def). (map to_lower name, def)) fs) key)" for fs key
    by (induction fs) auto
  have direct: "map_of (p_userFuncs q') key = map_option (renumber_func R) (map_of (p_userFuncs p) key)" for key
    unfolding assms by (simp add: map_of_map)
  have "p_userFuncsFold (index_functions q') =
      map (\<lambda>(name, def). (map to_lower name, def)) (map (\<lambda>(name, def). (name, renumber_func R def)) (p_userFuncs p))"
    by (simp only: index_functions_def assms Program.simps Program.ext_inject Program.select_convs Program.update_convs) simp
  then have "map_of (p_userFuncsFold (index_functions q')) key =
      map_option (renumber_func R) (map_of (p_userFuncsFold (index_functions p)) key)" for key
    by (simp only: fold) (simp add: index_functions_def)
  then show ?thesis by (simp add: lookupUserFunc_def direct split: option.split) (simp add: index_functions_def direct)
qed

lemma function_entry:
  assumes "lookupUserFunc (index_functions p) name = Some def"
  shows "\<exists>nd \<in> set (p_userFuncs p). def = snd nd"
  using assms by (auto simp: lookupUserFunc_def index_functions_def split: option.splits dest!: map_of_SomeD) force+

lemma finish_program_fused_from:
  assumes ok: "stream_ok p" and ne: "p_code p \<noteq> []" and fin: "finish_program p = Some q'"
  obtains R fused where "fused_from p R fused (index_functions p) q'" and "0 \<in> dests R" and "rn R 0 = 0"
proof -
  let ?prot = "protectedPCs p"
  obtain fused newPC where loop: "fuse_loop p ?prot 0 0 = (fused, newPC)" by fastforce
  have pass: "pass_done p ?prot fused newPC"
    unfolding pass_done_def by (rule fuse_loop_done [OF _ loop]) simp
  let ?R = "fuse_renum p ?prot newPC"
  obtain stream groups closures funcs where
    tables: "those (map (retarget newPC) fused) = Some stream"
      "those (map (\<lambda>g. those (map (retarget_clause newPC) g)) (p_catchGroups p)) = Some groups"
      "those (map (retarget_closure newPC) (p_closures p)) = Some closures"
      "those (map (retarget_func newPC) (p_userFuncs p)) = Some funcs"
    and q': "q' = index_functions
      (p\<lparr>p_code := stream, p_catchGroups := groups, p_closures := closures, p_userFuncs := funcs\<rparr>)"
    using fin ne by (auto simp: finish_program_def fuseProgram_def loop split: option.splits)
  have stream: "stream = map (renumber_instr ?R) fused"
    by (rule those_map_eq [OF tables(1)]) (rule retarget_eq)
  have groups: "groups = map (map (renumber_clause ?R)) (p_catchGroups p)"
    by (rule those_map_eq [OF tables(2)]) (rule those_map_eq, assumption, rule retarget_clause_eq)
  have closures: "closures = map (renumber_closure ?R) (p_closures p)"
    by (rule those_map_eq [OF tables(3)]) (rule retarget_closure_eq)
  have funcs: "funcs = map (\<lambda>(name, def). (name, renumber_func ?R def)) (p_userFuncs p)"
    by (rule those_map_eq [OF tables(4)]) (rule retarget_func_eq)
  have dest: "t \<in> dests ?R" if "t \<in> set ?prot" for t by (rule recorded_dest [OF ok pass that])
  have "renumbers ?R (index_functions p) q'"
    unfolding renumbers_def
  proof (intro conjI allI impI)
    show "renum_ok ?R" by (rule fuse_renum_ok [OF pass])
    show "same_names (index_functions p) q'" by (simp add: q' same_names_def index_functions_def)
    show "p_catchGroups q' = map (map (renumber_clause ?R)) (p_catchGroups (index_functions p))"
      "p_closures q' = map (renumber_closure ?R) (p_closures (index_functions p))"
      by (simp_all add: q' index_functions_def groups closures)
    show "t_target ` set (concat (p_catchGroups (index_functions p))) \<subseteq> dests ?R"
      "k_entryPC ` set (p_closures (index_functions p)) \<subseteq> dests ?R"
      using dest recorded_of(2,3) [OF ok] by (auto simp: index_functions_def)
    fix name
    show "lookupUserFunc q' name = map_option (renumber_func ?R) (lookupUserFunc (index_functions p) name)"
      unfolding q' by (rule renumbered_functions) (simp add: funcs)
    fix def assume "lookupUserFunc (index_functions p) name = Some def"
    then show "f_entryPC def \<in> dests ?R" using function_entry dest recorded_of(4) [OF ok] by metis
  qed
  then have "fused_from p ?R fused (index_functions p) q'"
    using pass ok by (auto simp: fused_from_def q' index_functions_def stream)
  moreover have "0 \<in> dests ?R" "rn ?R 0 = 0"
    using dests_iff [OF pass, of 0] rn_head [OF pass, of 0] pass_ends(3) [OF pass] by (auto intro!: exI [of _ 0])
  ultimately show ?thesis using that by blast
qed

lemma finish_empty: "p_code p = [] \<Longrightarrow> finish_program p = Some (index_functions p)"
  by (simp add: finish_program_def fuseProgram_def)

section \<open>Runs\<close>

lemma finished_runs:
  assumes "stream_ok p" and "finish_program p = Some q"
  shows "Run n (index_functions p) H h w = Some r \<Longrightarrow> Run n q H h w = Some r"
    and "Run n q H h w = Some r \<Longrightarrow> Run (4 * n) (index_functions p) H h w = Some r"
proof -
  have "(Run n (index_functions p) H h w = Some r \<longrightarrow> Run n q H h w = Some r) \<and>
    (Run n q H h w = Some r \<longrightarrow> Run (4 * n) (index_functions p) H h w = Some r)"
  proof (cases "p_code p = []")
    case True
    then have "q = index_functions p" using assms(2) finish_empty by simp
    then show ?thesis by (auto simp: Run_def intro: exec_mono [where n = n])
  next
    case False
    obtain R fused where F: "fused_from p R fused (index_functions p) q" "0 \<in> dests R" "rn R 0 = 0"
      by (rule finish_program_fused_from [OF assms(1) False assms(2)])
    then have ren: "renumbers R (index_functions p) q" by (simp add: fused_from_def)
    show ?thesis
      using related_start [OF ren F(2), of "[]" "globals_of H w" h w] fused_forward [OF F(1)] fused_backward [OF F(1)]
      unfolding F(3) Run_def by blast
  qed
  then show "Run n (index_functions p) H h w = Some r \<Longrightarrow> Run n q H h w = Some r"
    and "Run n q H h w = Some r \<Longrightarrow> Run (4 * n) (index_functions p) H h w = Some r" by blast+
qed


text \<open>The stream of \<open>$x = $x + 2; return $x;\<close>, as the compiler leaves it for the pass.\<close>

definition sample_sum :: Program where
  "sample_sum =
     \<lparr>p_code =
        [(instr OpLoad)\<lparr>i_a := 0\<rparr>, (instr OpPushConst)\<lparr>i_a := 0\<rparr>,
         (instr OpBinary)\<lparr>i_name := ''+'', i_b := binAdd\<rparr>, (instr OpStore)\<lparr>i_a := 0\<rparr>,
         (instr OpLoad)\<lparr>i_a := 0\<rparr>, instr OpReturn],
      p_constants = [VInt 2],
      p_localNames = [''x''], p_nameSlots = [(''x'', 0)], p_userFuncs = [], p_userFuncsFold = [],
      p_catchGroups = [], p_closures = []\<rparr>"

lemma sample_sum_code:
  "p_code sample_sum =
     [(instr OpLoad)\<lparr>i_a := 0\<rparr>, (instr OpPushConst)\<lparr>i_a := 0\<rparr>,
      (instr OpBinary)\<lparr>i_name := ''+'', i_b := binAdd\<rparr>, (instr OpStore)\<lparr>i_a := 0\<rparr>,
      (instr OpLoad)\<lparr>i_a := 0\<rparr>, instr OpReturn]"
  by (simp add: sample_sum_def)

lemma sample_sum_protected: "protectedPCs sample_sum = []"
  by (simp add: protectedPCs_def recorded_def jumps_def sample_sum_def instr_def)

lemma sample_sum_ok: "stream_ok sample_sum"
  by (simp add: stream_ok_def sample_sum_protected) (simp add: sample_sum_def instr_def)

lemmas fuse_eval = fuseAt_def fused_operands_def fusable_def plain_store_def instr_def Let_def

text \<open>The pass folds the first four instructions into one and keeps the last two.\<close>

lemma sample_sum_passed:
  "fuse_loop sample_sum (protectedPCs sample_sum) 0 0 =
     ([(instr OpBinLC)\<lparr>i_name := ''+'', i_b := binAdd, i_target := 1\<rparr>, (instr OpLoad)\<lparr>i_a := 0\<rparr>, instr OpReturn],
      [0, 0, 0, 0, 1, 2, 3])"
proof -
  have "fuseAt sample_sum [] 0 = ((instr OpBinLC)\<lparr>i_name := ''+'', i_b := binAdd, i_target := 1\<rparr>, 4)"
    "fuseAt sample_sum [] 4 = ((instr OpLoad)\<lparr>i_a := 0\<rparr>, 1)" "fuseAt sample_sum [] 5 = (instr OpReturn, 1)"
    by (simp_all add: fuse_eval sample_sum_code)
  moreover have "fuse_loop sample_sum [] 6 3 = ([], [3])" by (subst fuse_loop.simps) (simp add: sample_sum_code)
  moreover have "length (p_code sample_sum) = 6" by (simp add: sample_sum_code)
  ultimately show ?thesis
    unfolding sample_sum_protected
    by (subst fuse_loop.simps, simp, subst fuse_loop.simps, simp, subst fuse_loop.simps, simp add: eval_nat_numeral)
qed

lemma sample_sum_kept:
  "retarget newPC ((instr OpBinLC)\<lparr>i_name := x, i_b := y, i_target := z\<rparr>) =
     Some ((instr OpBinLC)\<lparr>i_name := x, i_b := y, i_target := z\<rparr>)"
  "retarget newPC ((instr OpLoad)\<lparr>i_a := x'\<rparr>) = Some ((instr OpLoad)\<lparr>i_a := x'\<rparr>)"
  "retarget newPC (instr OpReturn) = Some (instr OpReturn)"
  by (simp_all add: retarget_def jumps_def instr_def)

text \<open>C2. For every program the compiler can hand to the peephole pass (\<open>stream_ok\<close>: recorded program
  counters inside the stream, constants in the pool, stores on a slot), the pass succeeds, and the fused,
  renumbered program answers every run on every host exactly as the unfused one does: the same value or
  error, the same heap and the same host state, and it runs forever only where the unfused one does.\<close>

theorem fusion_preserves_runs:
  assumes "stream_ok p"
  shows "\<exists>q. finish_program p = Some q \<and> (\<forall>H h w r. Run_to q H h w r \<longleftrightarrow> Run_to (index_functions p) H h w r)"
proof -
  obtain q where q: "finish_program p = Some q" using finish_program_total [OF assms] by blast
  moreover have "Run_to q H h w r \<longleftrightarrow> Run_to (index_functions p) H h w r" for H h w r
    unfolding Run_to_def by (blast intro: finished_runs [OF assms q])
  ultimately show ?thesis by blast
qed

theorem fusion_preserves_runs_witness:
  "\<exists>q. finish_program sample_sum = Some q \<and> p_code q \<noteq> p_code sample_sum \<and>
     (\<forall>(H :: unit FullHost) h w r. Run_to q H h w r \<longleftrightarrow> Run_to (index_functions sample_sum) H h w r)"
proof -
  have "p_code sample_sum \<noteq> []" "p_catchGroups sample_sum = []" "p_closures sample_sum = []" "p_userFuncs sample_sum = []"
    by (simp_all add: sample_sum_def)
  then have "map_option (\<lambda>q. length (p_code q)) (finish_program sample_sum) = Some 3"
    by (simp add: finish_program_def fuseProgram_def sample_sum_passed sample_sum_kept index_functions_def)
  moreover have "length (p_code sample_sum) = 6" by (simp add: sample_sum_code)
  moreover obtain q where "finish_program sample_sum = Some q \<and>
      (\<forall>(H :: unit FullHost) h w r. Run_to q H h w r \<longleftrightarrow> Run_to (index_functions sample_sum) H h w r)"
    by (rule exE [OF fusion_preserves_runs [OF sample_sum_ok]])
  ultimately show ?thesis by (intro exI [of _ q]) auto
qed

text \<open>C20. Fusing never costs a round of the dispatch loop: a run the unfused program finishes within n
  rounds (and n levels of closure calls) the fused program finishes within n, with the same outcome, and a
  fused run of n rounds stands for at most four times as many of the unfused program.\<close>

theorem fusion_rounds:
  assumes "stream_ok p" and "finish_program p = Some q"
  shows "(Run n (index_functions p) H h w = Some r \<longrightarrow> Run n q H h w = Some r) \<and>
    (Run n q H h w = Some r \<longrightarrow> Run (4 * n) (index_functions p) H h w = Some r)"
  by (intro conjI impI) (erule finished_runs [OF assms])+


theorem fusion_rounds_witness:
  "\<exists>q. finish_program sample_sum = Some q \<and> (\<forall>n (H :: unit FullHost) h w r.
     (Run n (index_functions sample_sum) H h w = Some r \<longrightarrow> Run n q H h w = Some r) \<and>
     (Run n q H h w = Some r \<longrightarrow> Run (4 * n) (index_functions sample_sum) H h w = Some r))"
proof -
  obtain q where q: "finish_program sample_sum = Some q" using finish_program_total [OF sample_sum_ok] by (rule exE)
  show ?thesis by (intro exI [of _ q] conjI [OF q] allI) (rule fusion_rounds [OF sample_sum_ok q])
qed

end
