(* ===== verification/SlotSafety.thy ===== *)
theory SlotSafety
  imports FusionRuns
begin

text \<open>
  The frames of \<open>flatstack/engine/vm.go\<close>: every frame of a run keeps one slot and one flag per
  local of the program, whatever the host does, and a program whose operands lie in its tables
  never makes an instruction index out of range.
\<close>

section \<open>Programs whose operands lie in their tables\<close>

definition slot_ok :: "Program \<Rightarrow> int \<Rightarrow> bool" where
  "slot_ok p i \<longleftrightarrow> 0 \<le> i \<and> i < int (length (p_localNames p))"

definition const_ok :: "Program \<Rightarrow> int \<Rightarrow> bool" where
  "const_ok p i \<longleftrightarrow> 0 \<le> i \<and> i < int (length (p_constants p))"

definition group_ok :: "Program \<Rightarrow> int \<Rightarrow> bool" where
  "group_ok p g \<longleftrightarrow> g < int (length (p_catchGroups p))"

definition instr_ok :: "Program \<Rightarrow> instruction \<Rightarrow> bool" where
  "instr_ok p i =
     (case i_op i of
        OpLoad \<Rightarrow> slot_ok p (i_a i)
      | OpLoadConst \<Rightarrow> slot_ok p (i_a i)
      | OpStore \<Rightarrow> slot_ok p (i_a i)
      | OpUnsetLocal \<Rightarrow> slot_ok p (i_a i)
      | OpInitialized \<Rightarrow> slot_ok p (i_a i)
      | OpIncDecLocal \<Rightarrow> slot_ok p (i_a i)
      | OpRethrow \<Rightarrow> slot_ok p (i_a i)
      | OpCompactEntry \<Rightarrow> slot_ok p (i_a i)
      | OpPushConst \<Rightarrow> const_ok p (i_a i)
      | OpSetStaticProp \<Rightarrow> const_ok p (i_a i)
      | OpStaticSeeded \<Rightarrow> const_ok p (i_a i)
      | OpStaticLoad \<Rightarrow> const_ok p (i_a i)
      | OpStaticStore \<Rightarrow> const_ok p (i_a i)
      | OpIncDecStatic \<Rightarrow> const_ok p (i_a i)
      | OpBinary \<Rightarrow> i_target i = 0 \<or> slot_ok p (i_target i - 1)
      | OpBinLL \<Rightarrow> slot_ok p (i_a i) \<and> slot_ok p (i_c i) \<and> (i_target i = 0 \<or> slot_ok p (i_target i - 1))
      | OpBinLC \<Rightarrow> slot_ok p (i_a i) \<and> const_ok p (i_c i) \<and> (i_target i = 0 \<or> slot_ok p (i_target i - 1))
      | OpBinTC \<Rightarrow> const_ok p (i_c i) \<and> (i_target i = 0 \<or> slot_ok p (i_target i - 1))
      | OpArray \<Rightarrow> 0 \<le> i_a i
      | OpUnsetIndex \<Rightarrow> i_a i < int (length (p_localNames p))
      | OpIterInit \<Rightarrow> 0 \<le> i_a i
      | OpIterNext \<Rightarrow> 0 \<le> i_a i \<and> 0 \<le> i_target i \<and> i_b i < int (length (p_localNames p)) \<and> slot_ok p (i_c i)
      | OpIterSet \<Rightarrow> 0 \<le> i_a i
      | OpIterClose \<Rightarrow> 0 \<le> i_a i
      | OpJump \<Rightarrow> 0 \<le> i_target i
      | OpJumpFalse \<Rightarrow> 0 \<le> i_target i
      | OpJumpTrue \<Rightarrow> 0 \<le> i_target i
      | OpJumpNotNil \<Rightarrow> 0 \<le> i_target i
      | OpTryPush \<Rightarrow> group_ok p (i_a i) \<and> 0 \<le> i_target i \<and> slot_ok p (i_c i)
      | OpClosure \<Rightarrow> 0 \<le> i_a i \<and> i_a i < int (length (p_closures p))
      | _ \<Rightarrow> True)"

definition func_ok :: "Program \<Rightarrow> userFuncDef \<Rightarrow> bool" where
  "func_ok p d \<longleftrightarrow> list_all (slot_ok p) (f_paramSlots d) \<and>
     f_variadicSlot d < int (length (p_localNames p)) \<and> 0 \<le> f_entryPC d"

definition closure_ok :: "Program \<Rightarrow> closureDef \<Rightarrow> bool" where
  "closure_ok p d \<longleftrightarrow> 0 \<le> k_entryPC d \<and> list_all (slot_ok p) (k_paramSlots d) \<and> list_all (slot_ok p) (k_captures d) \<and>
     k_thisSlot d < int (length (p_localNames p))"

definition clause_ok :: "Program \<Rightarrow> catchClause \<Rightarrow> bool" where
  "clause_ok p k \<longleftrightarrow> 0 \<le> t_target k \<and> t_local k < int (length (p_localNames p))"

text \<open>
  A counter the program records: a jump, the end of a try, a catch clause, a closure, a function. One past the last
  instruction is where a run ends.
\<close>

definition counter_ok :: "Program \<Rightarrow> int \<Rightarrow> bool" where
  "counter_ok p t \<longleftrightarrow> 0 \<le> t \<and> t \<le> int (length (p_code p))"

definition counters_ok :: "Program \<Rightarrow> bool" where
  "counters_ok p \<longleftrightarrow>
     list_all (counter_ok p) (protectedPCs p) \<and> list_all (\<lambda>(name, d). counter_ok p (f_entryPC d)) (p_userFuncsFold p)"

text \<open>Methods take their receiver in the first parameter slot.\<close>

definition program_ok :: "Program \<Rightarrow> bool" where
  "program_ok p \<longleftrightarrow>
     list_all (instr_ok p) (p_code p) \<and>
     list_all (list_all (clause_ok p)) (p_catchGroups p) \<and> counters_ok p \<and>
     list_all (closure_ok p) (p_closures p) \<and>
     (\<forall>d \<in> set (map snd (p_userFuncs p @ p_userFuncsFold p)). func_ok p d) \<and>
     (\<forall>class method d. lookupUserFunc p (class @ ''::'' @ method) = Some d \<longrightarrow> f_paramSlots d \<noteq> [])"

lemma slot_index: "slot_ok p i \<Longrightarrow> length xs = length (p_localNames p) \<Longrightarrow> index_at xs i = Some (xs ! nat i)"
  by (auto simp: slot_ok_def index_at_def)

lemma const_index: "const_ok p i \<Longrightarrow> index_at (p_constants p) i = Some (p_constants p ! nat i)"
  by (auto simp: const_ok_def index_at_def)

lemma lookup_func_member:
  "lookupUserFunc p name = Some d \<Longrightarrow> d \<in> set (map snd (p_userFuncs p @ p_userFuncsFold p))"
  by (auto simp: lookupUserFunc_def split: option.splits dest!: map_of_SomeD intro: rev_image_eqI)

lemma lookup_func_ok: "program_ok p \<Longrightarrow> lookupUserFunc p name = Some d \<Longrightarrow> func_ok p d"
  using lookup_func_member unfolding program_ok_def by metis

lemma method_params: "program_ok p \<Longrightarrow> lookupUserFunc p (class @ ''::'' @ method) = Some d \<Longrightarrow> f_paramSlots d \<noteq> []"
  unfolding program_ok_def by blast

section \<open>What every frame keeps\<close>

definition armed_ok :: "Program \<Rightarrow> errorHandler \<Rightarrow> bool" where
  "armed_ok p h \<longleftrightarrow> 0 \<le> eh_target h \<and> group_ok p (eh_group h)"

definition saved_ok :: "Program \<Rightarrow> callFrame \<Rightarrow> bool" where
  "saved_ok p f \<longleftrightarrow> length (cf_locals f) = length (p_localNames p) \<and>
     length (cf_initialized f) = length (p_localNames p) \<and> 0 \<le> cf_returnPC f"

definition frames_ok :: "Program \<Rightarrow> 'w execState \<Rightarrow> bool" where
  "frames_ok p s \<longleftrightarrow>
     length (st_locals s) = length (p_localNames p) \<and> length (st_initialized s) = length (p_localNames p) \<and>
     0 \<le> st_pc s \<and> list_all (saved_ok p) (st_callFrames s) \<and> list_all (armed_ok p) (st_handlers s)"

primrec leaves :: "('r \<Rightarrow> bool) \<Rightarrow> ('w, 'r) act \<Rightarrow> bool" where
  "leaves Q (Ret r) = Q r"
| "leaves Q (Invoke c xs h w k) = (\<forall>r h' w'. leaves Q (k r h' w'))"

text \<open>From frames in order, a computation keeps them in order and answers within Q; it panics only where C allows it.\<close>

definition safe :: "bool \<Rightarrow> Program \<Rightarrow> ('w, 'a) comp \<Rightarrow> ('a \<Rightarrow> bool) \<Rightarrow> bool" where
  "safe C p m Q \<longleftrightarrow>
     (\<forall>s. frames_ok p s \<longrightarrow>
        leaves (\<lambda>(r, s'). frames_ok p s' \<and> (case r of Inl x \<Rightarrow> x \<noteq> Crash \<or> C | Inr a \<Rightarrow> Q a)) (m s))"

lemma leaves_bind: "leaves Q (act_bind t f) = leaves (\<lambda>r. leaves Q (f r)) t"
  by (induction t rule: act_tree_induct) auto

lemma leaves_all: "leaves (\<lambda>_. True) t"
  by (induction t rule: act_tree_induct) auto

lemma leaves_mono: "leaves Q t \<Longrightarrow> (\<And>r. Q r \<Longrightarrow> Q' r) \<Longrightarrow> leaves Q' t"
  by (induction t rule: act_tree_induct) auto

named_theorems safe

lemma safe_ret [safe]: "Q a \<Longrightarrow> safe C p (ret a) Q"
  by (simp add: safe_def ret_def)

lemma safe_leave [safe]: "x \<noteq> Crash \<or> C \<Longrightarrow> safe C p (leave x) Q"
  by (simp add: safe_def leave_def)

lemma safe_bind: "safe C p m R \<Longrightarrow> (\<And>a. R a \<Longrightarrow> safe C p (f a) Q) \<Longrightarrow> safe C p (mbind m f) Q"
  by (fastforce simp: safe_def mbind_def leaves_bind elim!: leaves_mono split: sum.splits)

lemma safe_mono: "safe C p m R \<Longrightarrow> (\<And>a. R a \<Longrightarrow> Q a) \<Longrightarrow> safe C p m Q"
  by (fastforce simp: safe_def elim!: leaves_mono split: sum.splits)

lemma safe_then [safe]: "safe C p m (\<lambda>_. True) \<Longrightarrow> safe C p m' Q \<Longrightarrow> safe C p (mthen m m') Q"
  unfolding mthen_def by (rule safe_bind)

text \<open>Reading the state: the rest may use what the frames in order say of the value read.\<close>

lemma safe_gets [safe]: "(\<And>s. frames_ok p s \<Longrightarrow> safe C p (f (g s)) Q) \<Longrightarrow> safe C p (mbind (gets g) f) Q"
  by (fastforce simp: safe_def mbind_def gets_def)

lemma safe_modify [safe]: "(\<And>s. frames_ok p s \<Longrightarrow> frames_ok p (f s)) \<Longrightarrow> safe C p (modify f) (\<lambda>_. True)"
  by (simp add: safe_def modify_def)

lemma safe_if [safe]: "(b \<Longrightarrow> safe C p m Q) \<Longrightarrow> (\<not> b \<Longrightarrow> safe C p m' Q) \<Longrightarrow> safe C p (if b then m else m') Q"
  by simp

lemma safe_option [safe]:
  "(x = None \<Longrightarrow> safe C p m Q) \<Longrightarrow> (\<And>a. x = Some a \<Longrightarrow> safe C p (f a) Q) \<Longrightarrow> safe C p (case x of None \<Rightarrow> m | Some a \<Rightarrow> f a) Q"
  by (cases x) auto

lemma safe_list [safe]:
  "(x = [] \<Longrightarrow> safe C p m Q) \<Longrightarrow> (\<And>a l. x = a # l \<Longrightarrow> safe C p (f a l) Q) \<Longrightarrow> safe C p (case x of [] \<Rightarrow> m | a # l \<Rightarrow> f a l) Q"
  by (cases x) auto

lemma safe_pair [safe]: "(\<And>a b. x = (a, b) \<Longrightarrow> safe C p (f a b) Q) \<Longrightarrow> safe C p (case x of (a, b) \<Rightarrow> f a b) Q"
  by (cases x) auto

lemma safe_str:
  "(\<And>a. x = VStr a \<Longrightarrow> safe C p (f a) Q) \<Longrightarrow> safe C p m Q \<Longrightarrow> safe C p (case x of VStr a \<Rightarrow> f a | _ \<Rightarrow> m) Q"
  by (cases x) auto

lemma safe_any: "safe C p m (\<lambda>_. True) \<Longrightarrow> (\<And>a. safe C p (f a) Q) \<Longrightarrow> safe C p (mbind m f) Q"
  by (rule safe_bind)

lemma safe_weaken: "safe C p m Q \<Longrightarrow> safe C p m (\<lambda>_. True)"
  by (erule safe_mono) simp

lemma mbind_if: "mbind (if b then m else m') f = (if b then mbind m f else mbind m' f)"
  by simp

section \<open>The parts of an instruction\<close>

lemma frames_ok_same:
  "frames_ok p s \<Longrightarrow> length (st_locals t) = length (st_locals s) \<Longrightarrow> length (st_initialized t) = length (st_initialized s) \<Longrightarrow>
   st_pc t = st_pc s \<Longrightarrow> st_callFrames t = st_callFrames s \<Longrightarrow> st_handlers t = st_handlers s \<Longrightarrow> frames_ok p t"
  by (simp add: frames_ok_def)

lemma apply_name_ok: "frames_ok p s \<Longrightarrow> frames_ok p (apply_name p name v s)"
  by (rule frames_ok_same, assumption) (simp_all add: apply_name_def split: option.split)

lemma applyNamedValues_ok: "frames_ok p s \<Longrightarrow> frames_ok p (applyNamedValues p names s)"
  unfolding applyNamedValues_def by (induction names arbitrary: s) (auto intro: apply_name_ok)

lemma set_ref_ok: "frames_ok p s \<Longrightarrow> frames_ok p (set_ref depth slot v s)"
  by (auto simp: set_ref_def frames_ok_def saved_ok_def Let_def list_all_length nth_list_update)

lemma safe_host_call [safe]: "safe C p (run_hact p a) (\<lambda>_. True)"
proof (induction a rule: hact_tree_induct)
  case (HReturn r h w)
  then show ?case by (simp add: safe_def frames_ok_def)
next
  case (HWriteBack vars k)
  then show ?case by (simp add: safe_def WriteBack_def applyNamedValues_ok)
next
  case (HSetRef depth slot v k)
  then show ?case by (simp add: safe_def set_ref_ok)
qed (simp_all add: safe_def)

lemma safe_host [safe]: "safe C p (host p f) (\<lambda>_. True)"
  using safe_host_call by (auto simp: safe_def host_def)

lemma safe_or_raise [safe]: "safe C p (or_raise r) (\<lambda>_. True)"
  by (cases r) (auto simp: or_raise_def intro: safe)

lemma safe_none_or_raise [safe]: "safe C p (none_or_raise r) (\<lambda>_. True)"
  by (cases r) (auto simp: none_or_raise_def intro: safe)

lemma safe_host_val [safe]: "safe C p (host_val p f) (\<lambda>_. True)"
  unfolding host_val_def by (rule safe_any) (rule safe)+

lemma safe_host_err [safe]: "safe C p (host_err p f) (\<lambda>_. True)"
  unfolding host_err_def by (rule safe_any) (rule safe)+

lemma safe_slice: "index_at xs i = Some x \<Longrightarrow> safe C p (f x) Q \<Longrightarrow> safe C p (mbind (slice_at xs i) f) Q"
  by (simp add: slice_at_def from_some_def)

lemma safe_capability [safe]: "safe C p (capability what c) (\<lambda>_. True)"
  by (cases c) (auto simp: capability_def from_some_def intro: safe)

lemma safe_pop [safe]: "safe C p pop (\<lambda>_. True)"
  unfolding pop_def by (intro safe) (auto simp: frames_ok_def)

lemma safe_peek [safe]: "x \<noteq> Crash \<or> C \<Longrightarrow> safe C p (peek x) (\<lambda>_. True)"
  unfolding peek_def by (intro safe) auto

lemma safe_args [safe]: "safe C p (args count) (\<lambda>_. True)"
  unfolding args_def by (intro safe) (auto simp: frames_ok_def)

lemma safe_push [safe]: "safe C p (push v) (\<lambda>_. True)"
  unfolding push_def by (intro safe) (auto simp: frames_ok_def)

lemma safe_next [safe]: "safe C p next_pc (\<lambda>_. True)"
  unfolding next_pc_def by (intro safe) simp

lemma safe_push_next [safe]: "safe C p (push_next v) (\<lambda>_. True)"
  unfolding push_next_def by (intro safe)

lemma safe_push_if [safe]: "safe C p (push_if b v) (\<lambda>_. True)"
  unfolding push_if_def by (intro safe)

lemma safe_local_at [safe]: "slot_ok p i \<Longrightarrow> safe C p (local_at i) (\<lambda>_. True)"
  unfolding local_at_def
  by (intro safe, subst slice_at_def, subst slot_index) (auto simp: frames_ok_def from_some_def intro: safe)

lemma safe_initialized_at [safe]: "slot_ok p i \<Longrightarrow> safe C p (initialized_at i) (\<lambda>_. True)"
  unfolding initialized_at_def
  by (intro safe, subst slice_at_def, subst slot_index) (auto simp: frames_ok_def from_some_def intro: safe)

lemma safe_set_slot [safe]: "slot_ok p i \<Longrightarrow> safe C p (set_slot i v b) (\<lambda>_. True)"
  unfolding set_slot_def
  by (intro safe safe_slice [OF slot_index]) (auto simp: frames_ok_def)

lemma safe_set_cold [safe]: "slot_ok p i \<Longrightarrow> safe C p (set_cold i) (\<lambda>_. True)"
  unfolding set_cold_def
  by (intro safe safe_slice [OF slot_index]) (auto simp: frames_ok_def)

lemma safe_goto [safe]: "0 \<le> t \<Longrightarrow> safe C p (goto_pc t) (\<lambda>_. True)"
  unfolding goto_pc_def by (intro safe) (auto simp: frames_ok_def)

lemma safe_jump [safe]: "0 \<le> t \<Longrightarrow> safe C p (jump t) (\<lambda>_. True)"
  unfolding jump_def by (intro safe) simp_all

lemmas safe_from [safe] =
  safe_any [OF safe_host] safe_any [OF safe_host_val] safe_any [OF safe_capability] safe_any [OF safe_pop]
  safe_any [OF safe_peek] safe_any [OF safe_args] safe_any [OF safe_local_at] safe_any [OF safe_initialized_at]
  safe_any [OF safe_or_raise]

lemmas safe_name [safe] = safe_slice [OF slot_index [OF _ refl]]
lemmas safe_const [safe] = safe_slice [OF const_index]

lemma safe_loadLocal [safe]: "slot_ok p slot \<Longrightarrow> safe C p (loadLocal p H slot) (\<lambda>_. True)"
  unfolding loadLocal_def by (intro safe) simp_all

lemma safe_current_local [safe]: "slot_ok p slot \<Longrightarrow> safe C p (current_local p H slot) (\<lambda>_. True)"
  unfolding current_local_def by (intro safe) simp_all

lemma safe_store_slot [safe]: "slot_ok p slot \<Longrightarrow> safe C p (store_slot p H slot v) (\<lambda>_. True)"
  unfolding store_slot_def by (intro safe) simp_all

lemma safe_set_identity [safe]: "safe C p (set_identity p H v x) (\<lambda>_. True)"
  unfolding set_identity_def
  by (cases v) (auto intro!: safe simp: frames_ok_def)

lemma safe_pop2 [safe]: "safe C p pop2 (\<lambda>_. True)"
  unfolding pop2_def by (intro safe) simp

lemma safe_pop_key [safe]: "safe C p (pop_key i) (\<lambda>_. True)"
  unfolding pop_key_def by (intro safe) simp

lemma safe_pop_items [safe]: "safe C p (pop_items n items) (\<lambda>_. True)"
  by (induction n arbitrary: items) (auto intro!: safe safe_any [OF safe_pop2])

lemma safe_binary_value [safe]: "safe C p (binary_value p H i left right) (\<lambda>_. True)"
  unfolding binary_value_def by (intro safe) simp

lemma safe_binary_result [safe]:
  "i_target i = 0 \<or> slot_ok p (i_target i - 1) \<Longrightarrow> safe C p (binary_result p H i v) (\<lambda>_. True)"
  unfolding binary_result_def by (intro safe) simp_all

lemma safe_static_bag [safe]: "const_ok p (i_a i) \<Longrightarrow> safe C p (static_bag p H i) (\<lambda>_. True)"
  unfolding static_bag_def by (intro safe) simp_all

lemma safe_bag_read [safe]: "safe C p (bag_read a name) (\<lambda>_. True)"
  by (simp add: safe_def bag_read_def gets_def)

lemma safe_setIterator [safe]: "0 \<le> n \<Longrightarrow> safe C p (setIterator n it) (\<lambda>_. True)"
  unfolding setIterator_def by (intro safe) (auto simp: frames_ok_def)

lemma safe_iterator_at [safe]: "0 \<le> n \<Longrightarrow> safe C p (iterator_at n) (\<lambda>_. True)"
  unfolding iterator_at_def by (intro safe) simp_all

lemma safe_iter_next [safe]: "0 \<le> i_a i \<Longrightarrow> safe C p (iter_next i) (\<lambda>_. True)"
  unfolding iter_next_def Let_def by (intro safe safe_any [OF safe_iterator_at]) simp_all

lemma safe_clear_refs [safe]: "safe C p clear_refs (\<lambda>_. True)"
  unfolding clear_refs_def by (intro safe) (auto simp: frames_ok_def)

lemma safe_call_host [safe]: "safe C p (host_call p f) (\<lambda>_. True)"
  unfolding host_call_def by (intro safe)

lemma safe_dynamic_name [safe]: "safe C p (dynamic_name p H i) (\<lambda>_. True)"
  unfolding dynamic_name_def by (intro safe) simp_all

lemma safe_capture [safe]: "list_all (slot_ok p) slots \<Longrightarrow> safe C p (capture p H slots) (\<lambda>_. True)"
proof (induction slots)
  case (Cons slot slots)
  then show ?case by (simp, intro safe safe_any [OF safe_loadLocal] safe_any [OF Cons.IH]) simp_all
qed (simp add: safe_ret)

lemma safe_capture_this [safe]:
  "k_thisSlot d < int (length (p_localNames p)) \<Longrightarrow> safe C p (capture_this d) (\<lambda>_. True)"
  unfolding capture_this_def by (intro safe) (simp_all add: slot_ok_def)

lemma safe_unwind_loop [safe]: "safe C p (unwind_loop p H n errs) (\<lambda>_. True)"
  by (induction n arbitrary: errs) (auto intro!: safe simp: frames_ok_def)

lemma safe_unwindDeferred [safe]: "safe C p (unwindDeferred p H mark) (\<lambda>_. True)"
  unfolding unwindDeferred_def by (intro safe safe_any [OF safe_unwind_loop]) simp

section \<open>Calls and handlers\<close>

lemma list_all_tl: "list_all P xs \<Longrightarrow> list_all P (tl xs)"
  by (cases xs) auto

lemma safe_bind_params: "list_all (slot_ok p) slots \<Longrightarrow> safe C p (bind_params slots vs) (\<lambda>_. True)"
  by (induction slots vs rule: bind_params.induct) (auto intro!: safe)

lemma safe_bind_receiver:
  "func_ok p d \<Longrightarrow> receiver = None \<or> f_paramSlots d \<noteq> [] \<Longrightarrow> safe C p (bind_receiver d receiver) (list_all (slot_ok p))"
  unfolding bind_receiver_def func_ok_def by (intro safe) auto

lemma safe_enterUserFrame:
  assumes "func_ok p d" and "receiver = None \<or> f_paramSlots d \<noteq> []"
  shows "safe C p (enterUserFrame p H d receiver arguments) (\<lambda>_. True)"
  unfolding enterUserFrame_def push_frame_def fresh_frame_def frameSlots_def
  by (intro safe safe_bind [OF safe_bind_receiver [OF assms]] safe_bind_params)
    (use assms(1) in \<open>auto simp: frames_ok_def saved_ok_def func_ok_def slot_ok_def\<close>)

lemma safe_enter_user:
  "func_ok p d \<Longrightarrow> receiver = None \<or> f_paramSlots d \<noteq> [] \<Longrightarrow> safe C p (enter_user p H d receiver arguments) (\<lambda>_. True)"
  unfolding enter_user_def by (intro safe safe_enterUserFrame) auto

lemma saved_frames: "frames_ok p s \<Longrightarrow> st_callFrames s = f # fs \<Longrightarrow> saved_ok p f"
  by (simp add: frames_ok_def)

lemma restore_frame_ok: "saved_ok p f \<Longrightarrow> frames_ok p s \<Longrightarrow> frames_ok p (restore_frame f s)"
  by (cases "st_callFrames s") (auto simp: frames_ok_def saved_ok_def restore_frame_def)

lemma safe_unwind_frames: "safe C p (unwind_frames p H n) (\<lambda>_. True)"
  by (induction n) (auto intro!: safe safe_any [OF safe_unwindDeferred] intro: restore_frame_ok saved_frames)

lemma safe_select_clause:
  assumes "armed_ok p h"
  shows "list_all (clause_ok p) clauses \<Longrightarrow> safe C p (select_clause p H h e clauses) (\<lambda>_. True)"
proof (induction clauses)
  case (Cons c cs)
  then show ?case
    by (simp, intro safe Cons.IH)
      (use assms Cons.prems in \<open>auto simp: frames_ok_def armed_ok_def group_ok_def slot_ok_def clause_ok_def\<close>)
qed (simp add: safe_ret)

lemma safe_park_pending:
  assumes "armed_ok p h"
  shows "safe C p (park_pending h e) (\<lambda>_. True)"
  unfolding park_pending_def
  by (intro safe) (use assms in \<open>auto simp: frames_ok_def armed_ok_def slot_ok_def\<close>)

lemma safe_handle:
  assumes "program_ok p"
  shows "safe C p (handle p H e) (\<lambda>_. True)"
proof -
  have enter: "safe C p (enter_handler p H h e) (\<lambda>_. True)" if "armed_ok p h" for h
  proof (cases "eh_group h < 0")
    case True
    then show ?thesis
      unfolding enter_handler_def
      by (intro safe safe_unwind_frames) (simp, intro safe safe_any [OF safe_select_clause] safe_park_pending that; simp)
  next
    case False
    let ?clauses = "p_catchGroups p ! nat (eh_group h)"
    have "nat (eh_group h) < length (p_catchGroups p)" using False that by (auto simp: armed_ok_def group_ok_def)
    then have c: "index_at (p_catchGroups p) (eh_group h) = Some ?clauses" "?clauses \<in> set (p_catchGroups p)"
      using False by (simp_all add: index_at_def)
    then have "list_all (clause_ok p) ?clauses" using assms by (auto simp: program_ok_def list_all_iff)
    then show ?thesis
      unfolding enter_handler_def using False c(1)
      by (intro safe safe_unwind_frames)
        (simp, intro safe_slice safe safe_any [OF safe_select_clause] safe_park_pending that; simp)
  qed
  show ?thesis
    unfolding handle_def drop_handler_def
    by (intro safe enter) (auto simp: frames_ok_def list_all_tl)
qed

section \<open>Every instruction\<close>

text \<open>The five instructions whose panics the tables do not exclude; \<open>panic_cause\<close> below says what each needs.\<close>

definition store_bound :: "opcode \<Rightarrow> bool" where
  "store_bound c \<longleftrightarrow> c \<in> {OpCopyValue, OpCompactEntry, OpCompactDynamic, OpStaticStore, OpIncDecStatic}"

lemmas safe_parts =
  safe safe_any [OF safe_pop2] safe_any [OF safe_pop_key] safe_any [OF safe_pop_items] safe_any [OF safe_binary_value]
  safe_any [OF safe_static_bag] safe_any [OF safe_bag_read] safe_any [OF safe_iterator_at] safe_any [OF safe_iter_next]
  safe_any [OF safe_dynamic_name] safe_any [OF safe_capture] safe_any [OF safe_capture_this]
  safe_any [OF safe_unwindDeferred] safe_any [OF safe_loadLocal] safe_any [OF safe_current_local]

lemmas op_defs =
  exec_PushConst_def exec_Pop_def exec_Dup_def exec_Load_def exec_LoadConst_def exec_Store_def
  exec_UnsetLocal_def exec_Initialized_def exec_Unary_def exec_Cast_def
  exec_Truthy_def exec_ClassConst_def exec_DefineConst_def exec_Echo_def exec_IncDecLocal_def
  exec_IncDecIndex_def exec_IncDecProp_def exec_Array_def exec_Index_def exec_SetIndex_def
  exec_UnsetIndex_def exec_EnsureArray_def exec_VivifyIndex_def exec_VivifyProperty_def
  exec_GetProperty_def exec_SetProperty_def exec_UnsetProp_def exec_StaticProp_def
  exec_SetStaticProp_def exec_StaticSeeded_def exec_StaticLoad_def exec_Construct_def exec_Callable_def
  exec_CallStatic_def exec_IterInit_def exec_IterNext_def exec_IterSet_def exec_IterClose_def exec_Throw_def exec_Rethrow_def
  exec_Jump_def exec_JumpBool_def exec_JumpNotNil_def branch_def exec_TryPush_def exec_TryPop_def exec_Include_def
  exec_Closure_def exec_Defer_def exec_CompactInit_def push_stepped_def exec_Ref_def

lemma safe_operands:
  "instr_ok p i \<Longrightarrow> i_op i \<in> {OpBinary, OpBinLL, OpBinLC, OpBinTC} \<Longrightarrow> safe C p (exec_Binary p H i) (\<lambda>_. True)"
  unfolding exec_Binary_def binary_operands_def
  by (auto simp: instr_ok_def mbind_assoc intro!: safe_parts)

lemma safe_data_op:
  assumes "instr_ok p i"
  shows "i_op i = OpPushConst \<Longrightarrow> safe C p (exec_PushConst p i) (\<lambda>_. True)"
    and "safe C p exec_Pop (\<lambda>_. True)" and "safe C p exec_Dup (\<lambda>_. True)"
    and "i_op i = OpLoad \<Longrightarrow> safe C p (exec_Load p H i) (\<lambda>_. True)"
    and "i_op i = OpLoadConst \<Longrightarrow> safe C p (exec_LoadConst p H i) (\<lambda>_. True)"
    and "i_op i = OpStore \<Longrightarrow> safe C p (exec_Store p H i) (\<lambda>_. True)"
    and "i_op i = OpUnsetLocal \<Longrightarrow> safe C p (exec_UnsetLocal i) (\<lambda>_. True)"
    and "i_op i = OpInitialized \<Longrightarrow> safe C p (exec_Initialized i) (\<lambda>_. True)"
    and "safe C p (exec_Unary p H i) (\<lambda>_. True)" and "safe C p (exec_Cast p H i) (\<lambda>_. True)"
    and "safe C p (exec_Truthy p H) (\<lambda>_. True)" and "safe C p (exec_ClassConst p H i) (\<lambda>_. True)"
    and "safe C p (exec_DefineConst p H i) (\<lambda>_. True)" and "safe C p (exec_Echo p H) (\<lambda>_. True)"
    and "i_op i = OpIncDecLocal \<Longrightarrow> safe C p (exec_IncDecLocal p H i) (\<lambda>_. True)"
    and "safe C p (exec_IncDecIndex p H i) (\<lambda>_. True)" and "safe C p (exec_IncDecProp p H i) (\<lambda>_. True)"
    and "i_op i = OpArray \<Longrightarrow> safe C p (exec_Array p H i) (\<lambda>_. True)"
    and "safe C p (exec_Index p H) (\<lambda>_. True)" and "safe C p (exec_SetIndex p H i) (\<lambda>_. True)"
    and "i_op i = OpUnsetIndex \<Longrightarrow> safe C p (exec_UnsetIndex p H i) (\<lambda>_. True)"
    and "safe C p (exec_EnsureArray p H) (\<lambda>_. True)" and "safe C p (exec_VivifyIndex p H i) (\<lambda>_. True)"
    and "safe C p (exec_VivifyProperty p H i) (\<lambda>_. True)" and "safe C p (exec_GetProperty p H i) (\<lambda>_. True)"
    and "safe C p (exec_SetProperty p H i) (\<lambda>_. True)" and "safe C p (exec_UnsetProp p H i) (\<lambda>_. True)"
    and "safe C p (exec_StaticProp p H i) (\<lambda>_. True)"
    and "i_op i = OpSetStaticProp \<Longrightarrow> safe C p (exec_SetStaticProp p H i) (\<lambda>_. True)"
    and "i_op i = OpStaticSeeded \<Longrightarrow> safe C p (exec_StaticSeeded p H i) (\<lambda>_. True)"
    and "i_op i = OpStaticLoad \<Longrightarrow> safe C p (exec_StaticLoad p H i) (\<lambda>_. True)"
    and "safe C p exec_Defer (\<lambda>_. True)" and "safe C p exec_CompactInit (\<lambda>_. True)"
  using assms unfolding op_defs mbind_assoc mbind_if Let_def
  by (simp_all only: mbind_assoc mbind_if mbind_ret)
    (intro safe_parts; (simp add: instr_ok_def slot_ok_def frames_ok_def)?)+

lemma safe_iteration:
  assumes "instr_ok p i"
  shows "i_op i = OpIterInit \<Longrightarrow> safe C p (exec_IterInit p H i) (\<lambda>_. True)"
    and "i_op i = OpIterNext \<Longrightarrow> safe C p (exec_IterNext i) (\<lambda>_. True)"
    and "i_op i = OpIterSet \<Longrightarrow> safe C p (exec_IterSet p H i) (\<lambda>_. True)"
    and "i_op i = OpIterClose \<Longrightarrow> safe C p (exec_IterClose i) (\<lambda>_. True)"
  using assms unfolding op_defs
  by (intro safe_parts; simp add: instr_ok_def slot_ok_def frames_ok_def)+

lemma safe_branches:
  assumes "instr_ok p i"
  shows "i_op i = OpJump \<Longrightarrow> safe C p (exec_Jump i) (\<lambda>_. True)"
    and "i_op i \<in> {OpJumpFalse, OpJumpTrue} \<Longrightarrow> safe C p (exec_JumpBool p H b i) (\<lambda>_. True)"
    and "i_op i = OpJumpNotNil \<Longrightarrow> safe C p (exec_JumpNotNil i) (\<lambda>_. True)"
  using assms unfolding op_defs
  by (intro safe_parts; auto simp: instr_ok_def frames_ok_def list_all_iff dest!: set_dropWhileD)+

lemma safe_errors:
  assumes "instr_ok p i"
  shows "i_op i = OpTryPush \<Longrightarrow> safe C p (exec_TryPush i) (\<lambda>_. True)"
    and "safe C p exec_TryPop (\<lambda>_. True)" and "safe C p (exec_Throw p H) (\<lambda>_. True)"
    and "i_op i = OpRethrow \<Longrightarrow> safe C p (exec_Rethrow i) (\<lambda>_. True)"
  using assms unfolding op_defs
  by (intro safe_parts; auto simp: instr_ok_def frames_ok_def list_all_tl armed_ok_def intro!: safe split: val.split)+

lemma safe_call_op:
  assumes "program_ok p"
  shows "safe C p (exec_Call p H i) (\<lambda>_. True)" and "safe C p (exec_Construct p H i) (\<lambda>_. True)"
    and "safe C p (exec_CallMethod p H i) (\<lambda>_. True)" and "safe C p (exec_Invoke p H i) (\<lambda>_. True)"
    and "safe C p (exec_Callable p H i) (\<lambda>_. True)" and "safe C p (exec_CallStatic p H i) (\<lambda>_. True)"
  unfolding exec_Call_def exec_Construct_def exec_CallMethod_def exec_Invoke_def exec_Callable_def exec_CallStatic_def mbind_if
  by (intro safe_parts safe_enter_user;
      (use lookup_func_ok [OF assms] method_params [OF assms] in \<open>auto split: option.splits val.splits\<close>)?)+

lemma restored: "frames_ok p s \<Longrightarrow> st_callFrames s = f # fs \<Longrightarrow> frames_ok p t \<Longrightarrow> frames_ok p (restore_frame f t)"
  by (rule restore_frame_ok [OF saved_frames])

lemma safe_return: "safe C p (exec_Return p H) (\<lambda>_. True)"
  unfolding exec_Return_def
  by (intro safe_parts; auto intro: restored dest: saved_frames simp: saved_ok_def)

lemma safe_include: "safe C p (exec_Include p H i) (\<lambda>_. True)"
  unfolding exec_Include_def by (intro safe_parts) (auto intro: applyNamedValues_ok)

lemma safe_ref: "safe C p (exec_Ref i) (\<lambda>_. True)"
  unfolding exec_Ref_def by (intro safe_parts) (auto simp: frames_ok_def)

lemma safe_closure:
  assumes "program_ok p" and "instr_ok p i" and "i_op i = OpClosure"
  shows "safe C p (exec_Closure p H i) (\<lambda>_. True)"
proof -
  let ?d = "p_closures p ! nat (i_a i)"
  have i: "0 \<le> i_a i" "nat (i_a i) < length (p_closures p)" using assms(2,3) by (auto simp: instr_ok_def)
  then have "?d \<in> set (p_closures p)" by simp
  then have d: "closure_ok p ?d" using assms(1) by (auto simp: program_ok_def list_all_iff)
  have at: "index_at (map (\<lambda>d. (k_captures d, k_thisSlot d)) (p_closures p)) (i_a i) = Some (k_captures ?d, k_thisSlot ?d)"
    using i by (simp add: index_at_def)
  show ?thesis
    unfolding exec_Closure_def
    by (rule safe_slice [OF at], simp, intro safe_parts) (use d in \<open>simp_all add: closure_ok_def\<close>)
qed

lemma safe_op:
  assumes "program_ok p" and "instr_ok p i" and "\<not> store_bound (i_op i)"
  shows "safe C p (exec_op p H i) (\<lambda>_. True)"
  unfolding exec_op_def
  by (cases "i_op i")
    (use assms in \<open>simp_all add: store_bound_def safe_data_op safe_operands safe_iteration safe_branches safe_errors
      safe_call_op safe_return safe_include safe_ref safe_closure\<close>)

text \<open>The others keep the frames in order unless they panic.\<close>

lemma safe_compact_map [safe]: "safe True p compact_map (\<lambda>_. True)"
  unfolding compact_map_def
  by (intro safe) (auto simp: from_some_def intro!: safe split: option.split)

lemma safe_bag_write [safe]: "safe True p (bag_write a name v) (\<lambda>_. True)"
  unfolding bag_write_def by (intro safe) (auto simp: frames_ok_def)

lemma safe_store_bound:
  assumes "instr_ok p i"
  shows "safe True p exec_CopyValue (\<lambda>_. True)"
    and "i_op i = OpCompactEntry \<Longrightarrow> safe True p (exec_CompactEntry i) (\<lambda>_. True)"
    and "safe True p (exec_CompactDynamic p) (\<lambda>_. True)"
    and "i_op i = OpStaticStore \<Longrightarrow> safe True p (exec_StaticStore p H i) (\<lambda>_. True)"
    and "i_op i = OpIncDecStatic \<Longrightarrow> safe True p (exec_IncDecStatic p H i) (\<lambda>_. True)"
  using assms unfolding exec_CopyValue_def exec_CompactEntry_def exec_CompactDynamic_def exec_StaticStore_def
    exec_IncDecStatic_def push_stepped_def mbind_assoc mbind_if mbind_ret
  by (intro safe_parts safe_str safe_bag_write safe_any [OF safe_compact_map]; simp add: instr_ok_def frames_ok_def)+

lemma keeps_op:
  assumes "program_ok p" and "instr_ok p i"
  shows "safe True p (exec_op p H i) (\<lambda>_. True)"
proof (cases "store_bound (i_op i)")
  case True
  then show ?thesis
    using safe_store_bound [OF assms(2)] by (auto simp: store_bound_def exec_op_def)
qed (rule safe_op [OF assms])

section \<open>Rounds and reachable states\<close>

lemma leaves_attempt: "leaves Q (attempt m f s) = leaves (\<lambda>(r, s'). leaves Q (f r s')) (m s)"
  by (simp add: attempt_def leaves_bind split_def)

lemma finish_ends: "leaves (\<lambda>(r, s'). r \<noteq> Inr None) (finish p H r s)"
  unfolding finish_def mbind_def ret_def leaves_bind
  by (rule leaves_mono [OF leaves_all]) (auto split: sum.split)

lemma finish_keeps: "leaves (\<lambda>(r, s'). r = Inr None \<longrightarrow> frames_ok p s') (finish p H r s)"
  by (rule leaves_mono [OF finish_ends]) auto

lemma settle_keeps:
  assumes "program_ok p" and "frames_ok p s"
  shows "leaves (\<lambda>(r, s'). r = Inr None \<longrightarrow> frames_ok p s') (settle p H r s)"
proof (cases r)
  case (Inl x)
  show ?thesis
  proof (cases x)
    case (Raise e)
    have "leaves (\<lambda>(r, s'). frames_ok p s' \<and> (case r of Inl x \<Rightarrow> x \<noteq> Crash \<or> False | Inr a \<Rightarrow> True)) (handle p H e s)"
      using safe_handle [OF assms(1), of False H e] assms(2) unfolding safe_def by blast
    then show ?thesis
      by (auto simp: settle_def Inl Raise mbind_def leaves_bind ret_def finish_keeps split: sum.splits elim!: leaves_mono)
  qed (auto simp: settle_def Inl finish_keeps)
next
  case (Inr f)
  then show ?thesis
    using assms(2)
    by (cases f) (auto simp: settle_def mthen_def mbind_def modify_def ret_def frames_ok_def)
qed

lemma cycle_keeps:
  assumes "program_ok p" and "frames_ok p s"
  shows "leaves (\<lambda>(r, s'). r = Inr None \<longrightarrow> frames_ok p s') (cycle p H s)"
proof (cases "int (length (p_code p)) \<le> st_pc s")
  case True
  then show ?thesis by (simp add: cycle_def mbind_def gets_def finish_keeps)
next
  case False
  have pc: "0 \<le> st_pc s" using assms(2) by (simp add: frames_ok_def)
  let ?i = "p_code p ! nat (st_pc s)"
  have "?i \<in> set (p_code p)" using False pc by (auto intro!: nth_mem)
  then have i: "instr_ok p ?i" using assms(1) by (simp add: program_ok_def list_all_iff)
  have at: "index_at (p_code p) (st_pc s) = Some ?i" using False pc by (auto simp: index_at_def)
  have "leaves (\<lambda>(r, s'). frames_ok p s' \<and> (case r of Inl x \<Rightarrow> x \<noteq> Crash \<or> True | Inr a \<Rightarrow> True)) (exec_op p H ?i s)"
    using keeps_op [OF assms(1) i, of H] assms(2) unfolding safe_def by blast
  then show ?thesis
    using False at
    by (auto simp: cycle_def mbind_def gets_def leaves_attempt slice_at_def from_some_def ret_def finish_keeps
        elim!: leaves_mono intro!: leaves_mono [OF settle_keeps [OF assms(1)]] split: sum.splits)
qed

text \<open>The answers an interaction may end with, whatever the closures it invokes answer.\<close>

inductive may :: "('w, 'r) act \<Rightarrow> 'r \<Rightarrow> bool" where
  now: "may (Ret r) r"
| later: "may (k x h' w') r \<Longrightarrow> may (Invoke c xs h w k) r"

lemma leaves_may: "leaves Q t \<Longrightarrow> may t r \<Longrightarrow> Q r"
  by (rotate_tac, induction rule: may.induct) simp_all

text \<open>The states a run passes through, one round after the other.\<close>

inductive reaches :: "Program \<Rightarrow> 'w FullHost \<Rightarrow> 'w execState \<Rightarrow> 'w execState \<Rightarrow> bool"
  for p H s where
  start: "reaches p H s s"
| round: "reaches p H s t \<Longrightarrow> may (cycle p H t) (Inr None, u) \<Longrightarrow> reaches p H s u"

lemma seed_locals_ok: "frames_ok p s \<Longrightarrow> frames_ok p (seed_locals seeds s)"
  unfolding seed_locals_def
proof (induction seeds arbitrary: s)
  case (Cons e seeds)
  show ?case
    by (simp only: fold.simps o_apply, rule Cons.IH, rule frames_ok_same [OF Cons.prems]) (simp_all split: prod.split)
qed simp

lemma start_frames_ok: "0 \<le> entry \<Longrightarrow> frames_ok p (start_state p entry seeds globals h w)"
  unfolding start_state_def by (intro applyNamedValues_ok seed_locals_ok) (simp add: frames_ok_def)

lemma reaches_frames_ok:
  assumes "reaches p H s t" and "program_ok p" and "frames_ok p s"
  shows "frames_ok p t"
  using assms
proof (induction rule: reaches.induct)
  case (round t u)
  then show ?case using leaves_may [OF cycle_keeps, of p t] by fastforce
qed

text \<open>C8. In every state a run of a well-formed program reaches, on any host, the running frame and every
  frame waiting below it keep exactly one slot and one initialised flag per local of the program, and every
  program counter a call or a handler will resume at is a valid one.\<close>

theorem frames_stay_in_shape:
  assumes "program_ok p" and "0 \<le> entry" and "reaches p H (start_state p entry seeds globals h w) s"
  shows "frames_ok p s"
  by (rule reaches_frames_ok [OF assms(3,1) start_frames_ok [OF assms(2)]])

lemma sample_sum_in_tables: "program_ok sample_sum"
proof -
  have "list_all (instr_ok sample_sum) (p_code sample_sum)"
    by (simp add: sample_sum_code instr_ok_def instr_def slot_ok_def const_ok_def) (simp add: sample_sum_def)
  moreover have "counters_ok sample_sum"
    by (simp add: counters_ok_def protectedPCs_def sample_sum_code instr_def recorded_def counter_ok_def) (simp add: sample_sum_def)
  ultimately show ?thesis by (simp add: program_ok_def) (simp add: sample_sum_def lookupUserFunc_def)
qed

lemma sample_round:
  "reaches sample_sum H (start_state sample_sum 1 [] [] h w)
     ((start_state sample_sum 1 [] [] h w)\<lparr>st_stack := [VInt 2], st_pc := 2\<rparr>)"
proof (rule round [OF start])
  show "may (cycle sample_sum H (start_state sample_sum 1 [] [] h w))
      (Inr None, (start_state sample_sum 1 [] [] h w)\<lparr>st_stack := [VInt 2], st_pc := 2\<rparr>)"
    by (simp add: cycle_def sample_sum_def start_state_def seed_locals_def applyNamedValues_def mbind_def gets_def
        attempt_def slice_at_def index_at_def from_some_def ret_def exec_op_def instr_def exec_PushConst_def push_next_def
        push_def mthen_def modify_def next_pc_def settle_def now)
qed

theorem frames_stay_in_shape_witness:
  "\<forall>(H :: unit FullHost) h w. frames_ok sample_sum ((start_state sample_sum 1 [] [] h w)\<lparr>st_stack := [VInt 2], st_pc := 2\<rparr>)"
  by (intro allI frames_stay_in_shape [OF sample_sum_in_tables _ sample_round]) simp

section \<open>What a panic takes\<close>

lemma may_bind: "may (act_bind t f) r \<Longrightarrow> \<exists>x. may t x \<and> may (f x) r"
proof (induction t rule: act_tree_induct)
  case (Invoke c xs h w k)
  then obtain x h' w' where "may (act_bind (k x h' w') f) r" by (auto elim: may.cases)
  with Invoke show ?case by (meson later)
qed (auto intro: may.intros)

text \<open>A panic behind a part that cannot panic: it happens in the rest, in order still.\<close>

lemma crash_bind:
  assumes "safe False p m (\<lambda>_. True)" and "frames_ok p s" and "may (mbind m f s) (Inl Crash, s')"
  obtains a t where "may (m s) (Inr a, t)" and "frames_ok p t" and "may (f a t) (Inl Crash, s')"
proof -
  obtain r t where m: "may (m s) (r, t)" and f: "may (case r of Inl x \<Rightarrow> Ret (Inl x, t) | Inr a \<Rightarrow> f a t) (Inl Crash, s')"
    using may_bind assms(3) unfolding mbind_def by fastforce
  have "leaves (\<lambda>(r, t). frames_ok p t \<and> (case r of Inl x \<Rightarrow> x \<noteq> Crash \<or> False | Inr a \<Rightarrow> True)) (m s)"
    using assms(1,2) unfolding safe_def by blast
  from leaves_may [OF this m] f that m show thesis
    by (cases r) (auto elim: may.cases)
qed

lemma safe_no_crash: "safe False p m (\<lambda>_. True) \<Longrightarrow> frames_ok p s \<Longrightarrow> \<not> may (m s) (Inl Crash, s')"
  by (auto simp: safe_def dest!: leaves_may)

text \<open>
  The map a host keeps a function's statics in (\<open>StaticVarBag\<close>) is nil: for the declaration an instruction names the host
  may answer an address where no map lives when the write happens.
\<close>

definition nil_bag :: "Program \<Rightarrow> 'w FullHost \<Rightarrow> instruction \<Rightarrow> 'w execState \<Rightarrow> 'w execState \<Rightarrow> bool" where
  "nil_bag p H i s s' \<longleftrightarrow> (\<exists>a seeded u. may (static_bag p H i s) (Inr (a, seeded), u) \<and> h_colls (st_heap s') a = None)"

text \<open>
  What a panic of an instruction takes, from the state it runs in and the state it panics in: copying an array that
  contains itself exhausts Go's stack; the two instructions of \<open>compact()\<close> read the map under the operands
  without looking whether there is one; a static variable is written to a nil map. No other instruction panics.
\<close>

definition panic_cause :: "Program \<Rightarrow> 'w FullHost \<Rightarrow> instruction \<Rightarrow> 'w execState \<Rightarrow> 'w execState \<Rightarrow> bool" where
  "panic_cause p H i s s' =
     (case i_op i of
        OpCopyValue \<Rightarrow> (\<exists>v rest. st_stack s = v # rest \<and> Copy_value (st_heap s) v = None)
      | OpCompactEntry \<Rightarrow> st_stack s = []
      | OpCompactDynamic \<Rightarrow> length (st_stack s) = 1
      | OpStaticStore \<Rightarrow> (\<exists>v rest. st_stack s = v # rest \<and> nil_bag p H i (s\<lparr>st_stack := rest\<rparr>) s')
      | OpIncDecStatic \<Rightarrow> nil_bag p H i s s'
      | _ \<Rightarrow> False)"

lemma crash_write:
  assumes "safe False p m (\<lambda>_. True)" and "frames_ok p s" and "may (mthen (bag_write a name v) m s) (Inl Crash, s')"
  shows "h_colls (st_heap s') a = None"
proof (cases "h_colls (st_heap s) a")
  case None
  then show ?thesis
    using assms(3) by (auto simp: mthen_def mbind_def bag_write_def gets_def leave_def elim: may.cases)
next
  case (Some es)
  let ?t = "s\<lparr>st_heap := (st_heap s)\<lparr>h_colls := (h_colls (st_heap s))(a \<mapsto> AList.update (VStr name) v es)\<rparr>\<rparr>"
  have "may (m ?t) (Inl Crash, s')"
    using assms(3) Some by (simp add: mthen_def mbind_def bag_write_def gets_def modify_def)
  moreover have "frames_ok p ?t" by (rule frames_ok_same [OF assms(2)]) simp_all
  ultimately show ?thesis using safe_no_crash [OF assms(1)] by blast
qed

lemma crash_CopyValue:
  "may (exec_CopyValue s) (Inl Crash, s') \<Longrightarrow> \<exists>v rest. st_stack s = v # rest \<and> Copy_value (st_heap s) v = None"
  by (cases "st_stack s"; cases "Copy_value (st_heap s) (hd (st_stack s))")
    (auto simp: exec_CopyValue_def pop_def mbind_def mthen_def gets_def modify_def leave_def ret_def push_next_def push_def
      next_pc_def elim: may.cases)

lemma written_map: "string_map h v = Some a \<Longrightarrow> h_colls h a \<noteq> None"
  by (auto simp: string_map_def split: val.splits option.splits if_splits)

lemmas compact_defs =
  compact_map_def peek_def mbind_def mthen_def gets_def modify_def leave_def ret_def next_pc_def from_some_def
  bag_write_def pop_def

lemma crash_CompactEntry:
  assumes "slot_ok p (i_a i)" and "frames_ok p s" and "may (exec_CompactEntry i s) (Inl Crash, s')"
  shows "st_stack s = []"
proof (rule ccontr)
  assume "st_stack s \<noteq> []"
  then obtain v rest where "st_stack s = v # rest" by (cases "st_stack s") auto
  moreover have "index_at (st_initialized s) (i_a i) = Some (st_initialized s ! nat (i_a i))"
    "index_at (st_locals s) (i_a i) = Some (st_locals s ! nat (i_a i))"
    using assms(1,2) by (simp_all add: slot_index frames_ok_def)
  ultimately show False
    using assms(3) written_map [of "st_heap s" v]
    by (cases "string_map (st_heap s) v")
      (fastforce simp: exec_CompactEntry_def compact_defs initialized_at_def
        local_at_def slice_at_def split: option.splits if_splits elim: may.cases)+
qed

lemma crash_CompactDynamic:
  assumes "may (exec_CompactDynamic p s) (Inl Crash, s')"
  shows "length (st_stack s) = 1"
proof (rule ccontr)
  assume "length (st_stack s) \<noteq> 1"
  then consider "st_stack s = []" | name v rest where "st_stack s = name # v # rest"
    by (cases "st_stack s"; cases "tl (st_stack s)") auto
  then show False
  proof cases
    case 2
    then show ?thesis
      using assms written_map [of "st_heap s" v]
      by (cases "string_map (st_heap s) v"; cases name)
        (fastforce simp: exec_CompactDynamic_def compact_defs split: option.splits elim: may.cases)+
  qed (use assms in \<open>auto simp: exec_CompactDynamic_def compact_defs elim: may.cases\<close>)
qed

lemma crash_IncDecStatic:
  assumes "const_ok p (i_a i)" and "frames_ok p s" and "may (exec_IncDecStatic p H i s) (Inl Crash, s')"
  shows "nil_bag p H i s s'"
proof -
  obtain r t where bag: "may (static_bag p H i s) (Inr r, t)" and t: "frames_ok p t"
    and rest: "may ((case r of (a, seeded) \<Rightarrow> mbind (bag_read a (i_name i)) (\<lambda>cur.
       mthen (bag_write a (i_name i) (stepped (i_extra i) cur)) (push_stepped i cur (stepped (i_extra i) cur)))) t) (Inl Crash, s')"
    using crash_bind [OF safe_static_bag [OF assms(1)] assms(2), of H] assms(3) unfolding exec_IncDecStatic_def by blast
  obtain a seeded where r: "r = (a, seeded)" by fastforce
  let ?put = "\<lambda>cur. mthen (bag_write a (i_name i) (stepped (i_extra i) cur)) (push_stepped i cur (stepped (i_extra i) cur))"
  have "may (mbind (bag_read a (i_name i)) ?put t) (Inl Crash, s')" using rest by (simp only: r prod.case)
  then obtain cur u where u: "frames_ok p u" "may (?put cur u) (Inl Crash, s')" by (rule crash_bind [OF safe_bag_read t])
  have "safe False p (push_stepped i cur (stepped (i_extra i) cur)) (\<lambda>_. True)"
    unfolding push_stepped_def by (intro safe_parts)
  from crash_write [OF this u] bag show ?thesis by (auto simp: nil_bag_def r)
qed

lemma crash_StaticStore:
  assumes "const_ok p (i_a i)" and "frames_ok p s" and "may (exec_StaticStore p H i s) (Inl Crash, s')"
  shows "\<exists>v rest. st_stack s = v # rest \<and> nil_bag p H i (s\<lparr>st_stack := rest\<rparr>) s'"
proof (cases "st_stack s")
  case (Cons v rest)
  let ?s = "s\<lparr>st_stack := rest\<rparr>"
  let ?new = "\<lambda>a. if i_extra i \<noteq> '''' \<and> i_extra i \<noteq> ''=''
       then mbind (bag_read a (i_name i)) (\<lambda>cur. host_val p (h_Binary H (strings_TrimSuffix_eq (i_extra i)) cur v))
       else ret v"
  let ?put = "\<lambda>a w. mthen (bag_write a (i_name i) w) (push_if (i_b i \<noteq> 0) w)"
  have s: "frames_ok p ?s" by (rule frames_ok_same [OF assms(2)]) simp_all
  have "may (mbind (static_bag p H i) (\<lambda>(a, seeded). mbind (?new a) (?put a)) ?s) (Inl Crash, s')"
    using assms(3) Cons by (simp add: exec_StaticStore_def pop_def mbind_def gets_def mthen_def modify_def ret_def)
  then obtain r t where bag: "may (static_bag p H i ?s) (Inr r, t)" and t: "frames_ok p t"
    and rest: "may ((case r of (a, seeded) \<Rightarrow> mbind (?new a) (?put a)) t) (Inl Crash, s')"
    by (rule crash_bind [OF safe_static_bag [OF assms(1)] s])
  obtain a seeded where r: "r = (a, seeded)" by fastforce
  have new: "safe False p (?new a) (\<lambda>_. True)" by (intro safe safe_any [OF safe_bag_read]) simp
  have "may (mbind (?new a) (?put a) t) (Inl Crash, s')" using rest by (simp only: r prod.case)
  then obtain w u where "frames_ok p u" "may (?put a w u) (Inl Crash, s')" by (rule crash_bind [OF new t])
  from crash_write [OF safe_push_if this] bag show ?thesis by (auto simp: nil_bag_def r Cons)
qed (use assms(3) in \<open>auto simp: exec_StaticStore_def pop_def mbind_def gets_def leave_def elim: may.cases\<close>)

lemma crash_op:
  assumes "program_ok p" and "instr_ok p i" and "frames_ok p s" and "may (exec_op p H i s) (Inl Crash, s')"
  shows "panic_cause p H i s s'"
proof (cases "store_bound (i_op i)")
  case True
  then consider "i_op i = OpCopyValue" | "i_op i = OpCompactEntry" | "i_op i = OpCompactDynamic"
    | "i_op i = OpStaticStore" | "i_op i = OpIncDecStatic"
    by (auto simp: store_bound_def)
  then show ?thesis
    by cases (use assms(2-) in \<open>simp_all add: panic_cause_def exec_op_def instr_ok_def crash_CopyValue [simplified]
      crash_CompactEntry crash_CompactDynamic [simplified] crash_StaticStore crash_IncDecStatic\<close>)
next
  case False
  then show ?thesis using safe_no_crash [OF safe_op [OF assms(1,2)] assms(3)] assms(4) by blast
qed

lemma index_safe_state:
  assumes "program_ok p" and ok: "frames_ok p s" and "st_pc s < int (length (p_code p))"
  shows "(may (mbind (slice_at (p_code p) (st_pc s)) (exec_op p H) s) (Inl Crash, s') \<longrightarrow>
      panic_cause p H (p_code p ! nat (st_pc s)) s s') \<and>
    \<not> may (handle p H e s) (Inl Crash, s')"
proof -
  have pc: "nat (st_pc s) < length (p_code p)" "0 \<le> st_pc s" using assms(3) ok by (auto simp: frames_ok_def)
  let ?i = "p_code p ! nat (st_pc s)"
  have "instr_ok p ?i" using assms(1) pc by (simp add: program_ok_def list_all_length)
  then have "may (exec_op p H ?i s) (Inl Crash, s') \<Longrightarrow> panic_cause p H ?i s s'" by (rule crash_op [OF assms(1) _ ok])
  then show ?thesis
    using pc safe_no_crash [OF safe_handle [OF assms(1)] ok, of H e s']
    by (simp add: slice_at_def index_at_def from_some_def)
qed



text \<open>The causes are causes: with nothing on the operand stack \<open>opCompactEntry\<close> does panic.\<close>

lemma compact_without_map_panics: "st_stack s = [] \<Longrightarrow> may (exec_CompactEntry i s) (Inl Crash, s)"
  by (simp add: exec_CompactEntry_def compact_defs now)

end
