(* ===== verification/FrameLaws.thy ===== *)
theory FrameLaws
  imports FusionRuns
begin

text \<open>
  The variables and the calls of a frame in \<open>flatstack/engine/vm.go\<close>: the snapshot a host takes
  and the values it writes back, the deferred callables, a call and its return, and the errors no
  handler may see.
\<close>

section \<open>Names and slots\<close>

text \<open>The compiler numbers each name once; \<open>nameSlots\<close> inverts \<open>localNames\<close>.\<close>

definition names_ok :: "Program \<Rightarrow> bool" where
  "names_ok p \<longleftrightarrow> distinct (p_localNames p) \<and>
     map_of (p_nameSlots p) = map_of (zip (p_localNames p) [0..<length (p_localNames p)])"

lemma slot_of_name:
  assumes "names_ok p"
  shows "map_of (p_nameSlots p) name = Some i \<longleftrightarrow> i < length (p_localNames p) \<and> p_localNames p ! i = name"
proof -
  have "map_of (zip (p_localNames p) [0..<length (p_localNames p)]) name = Some i \<longleftrightarrow>
      (name, i) \<in> set (zip (p_localNames p) [0..<length (p_localNames p)])"
    using assms by (intro map_of_eq_Some_iff) (simp add: names_ok_def)
  also have "\<dots> \<longleftrightarrow> i < length (p_localNames p) \<and> p_localNames p ! i = name"
    by (auto simp: in_set_zip)
  finally show ?thesis using assms by (simp add: names_ok_def)
qed

definition has_slots :: "Program \<Rightarrow> 'w execState \<Rightarrow> bool" where
  "has_slots p s \<longleftrightarrow> length (st_locals s) = length (p_localNames p) \<and> length (st_initialized s) = length (p_localNames p)"

section \<open>Snapshot\<close>

lemma visit_slots:
  assumes "distinct (map snd xs)"
  shows "map_of (fold (\<lambda>(i, name) vars. if P i name then AList.update name (f i) vars else vars) xs vars) x =
    (case map_of (map (\<lambda>(i, name). (name, i)) xs) x of
       Some i \<Rightarrow> if P i x then Some (f i) else map_of vars x
     | None \<Rightarrow> map_of vars x)"
  using assms
proof (induction xs arbitrary: vars)
  case (Cons e xs)
  obtain i name where e: "e = (i, name)" by (cases e)
  have "map_of (map (\<lambda>(i, name). (name, i)) xs) name = None"
    using Cons.prems by (auto simp: e map_of_eq_None_iff image_iff split_def)
  then show ?case using Cons by (auto simp: e AList.update_conv' split: option.split)
qed simp

lemma visit_extras:
  "map_of (fold (\<lambda>(name, v) vars. if map_of vars name = None then AList.update name v vars else vars) extras vars) x =
    (case map_of vars x of Some v \<Rightarrow> Some v | None \<Rightarrow> map_of extras x)"
proof (induction extras arbitrary: vars)
  case (Cons e extras)
  then show ?case by (cases e) (simp add: AList.update_conv' split: option.split)
qed (simp split: option.split)

lemma swapped_enumerate: "map (\<lambda>(i, name). (name, i)) (enumerate 0 xs) = zip xs [0..<length xs]"
  by (rule nth_equalityI) (simp_all add: enumerate_eq_zip)

lemma map_of_Snapshot:
  assumes "names_ok p"
  shows "map_of (Snapshot p s) name = (if hidden name then map_of (st_extras s) name else lookupName p s name)"
proof -
  have d: "distinct (map snd (enumerate 0 (p_localNames p)))" using assms(1) by (simp add: names_ok_def)
  have slots: "map_of (zip (p_localNames p) [0..<length (p_localNames p)]) = map_of (p_nameSlots p)"
    using assms(1) by (simp add: names_ok_def)
  show ?thesis
    unfolding Snapshot_def Let_def visit_extras visit_slots [OF d] swapped_enumerate slots lookupName_def
    by (simp split: option.split)
qed

section \<open>Writing back\<close>

text \<open>What a name reads after the values of a table have been written, one after the other.\<close>

definition shielded :: "Program \<Rightarrow> 'w execState \<Rightarrow> string \<Rightarrow> bool" where
  "shielded p s name \<longleftrightarrow> name = [] \<or> hidden name \<or>
     (case map_of (p_nameSlots p) name of
        Some i \<Rightarrow> i < length (st_refWrites s) \<and> st_refWrites s ! i
      | None \<Rightarrow> False)"

lemma apply_name_lookup:
  assumes "names_ok p" and "has_slots p s"
  shows "lookupName p (apply_name p name v s) x =
    (if x = name \<and> \<not> shielded p s name then Some v else lookupName p s x)"
proof -
  note slot = slot_of_name [OF assms(1)]
  show ?thesis
  proof (cases "map_of (p_nameSlots p) name")
    case None
    then show ?thesis
      by (cases "map_of (p_nameSlots p) x") (auto simp: apply_name_def lookupName_def shielded_def AList.update_conv')
  next
    case (Some i)
    then have i: "i < length (st_locals s)" "i < length (st_initialized s)"
      using slot [of name i] assms(2) by (auto simp: has_slots_def)
    have other: "j \<noteq> i" if "x \<noteq> name" "map_of (p_nameSlots p) x = Some j" for j
      using that Some slot by auto
    show ?thesis
    proof (cases "map_of (p_nameSlots p) x")
      case None
      then show ?thesis using Some by (auto simp: apply_name_def lookupName_def)
    next
      fix j assume j: "map_of (p_nameSlots p) x = Some j"
      show ?thesis
      proof (cases "x = name")
        case True
        then show ?thesis using Some i by (auto simp: apply_name_def lookupName_def shielded_def)
      next
        case False
        then show ?thesis using Some j other by (auto simp: apply_name_def lookupName_def)
      qed
    qed
  qed
qed

lemma apply_name_keeps:
  "has_slots p s \<Longrightarrow> has_slots p (apply_name p name v s)"
  "st_refWrites (apply_name p name v s) = st_refWrites s"
  by (auto simp: apply_name_def has_slots_def split: option.split)

lemma applyNamedValues_lookup:
  assumes "names_ok p"
  shows "has_slots p s \<Longrightarrow> distinct (map fst names) \<Longrightarrow>
    lookupName p (applyNamedValues p names s) x =
      (case map_of names x of Some v \<Rightarrow> if shielded p s x then lookupName p s x else Some v | None \<Rightarrow> lookupName p s x)"
  unfolding applyNamedValues_def
proof (induction names arbitrary: s)
  case (Cons e names)
  obtain name v where e: "e = (name, v)" by (cases e)
  have "shielded p (apply_name p name v s) x = shielded p s x"
    by (simp add: shielded_def apply_name_keeps(2) split: option.split)
  moreover have "map_of names name = None" using Cons.prems by (simp add: e map_of_eq_None_iff)
  ultimately show ?case
    using Cons.IH [OF apply_name_keeps(1) [OF Cons.prems(1)]] Cons.prems apply_name_lookup [OF assms Cons.prems(1)]
    by (auto simp: e split: option.split)
qed simp


text \<open>A small program with two named locals, and a frame of it with one of them set.\<close>

definition two_names :: Program where
  "two_names =
     \<lparr>p_code = [], p_constants = [], p_localNames = [''a'', ''b''], p_nameSlots = [(''b'', 1), (''a'', 0)],
      p_userFuncs = [], p_userFuncsFold = [], p_catchGroups = [], p_closures = []\<rparr>"

definition half_set :: "unit execState" where
  "half_set =
     \<lparr>st_stack = [], st_locals = [VInt 1, VNil], st_initialized = [True, False], st_extras = [(''c'', VInt 3)],
      st_refWrites = [], st_iterators = [], st_handlers = [], st_callFrames = [], st_deferred = [], st_pc = 0,
      st_heap = \<lparr>h_arrays = Map.empty, h_objects = Map.empty, h_classes = Map.empty, h_colls = Map.empty, h_next = 0\<rparr>, st_world = ()\<rparr>"

lemma two_names_ok: "names_ok two_names"
  by (auto simp: names_ok_def two_names_def fun_eq_iff eval_nat_numeral)

lemma half_set_slots: "has_slots two_names half_set"
  by (simp add: has_slots_def two_names_def half_set_def)



text \<open>C17. What the values a host writes back mean: afterwards a name in the table reads its value and any other
  name reads what it did, except that a slot a by-reference setter has written keeps the setter's value. So
  the order in which Go's map iteration visits the table cannot be seen.\<close>

theorem write_back_reads:
  assumes "names_ok p" and "has_slots p s" and "distinct (map fst vars)"
    and "distinct (map fst visited)" and "set visited = set vars"
  shows "lookupName p (WriteBack p visited s) name =
    (case map_of vars name of
       Some v \<Rightarrow> if shielded p s name then lookupName p s name else Some v
     | None \<Rightarrow> lookupName p s name)"
proof -
  have "map_of visited = map_of vars" using map_of_inject_set [OF assms(4,3)] assms(5) by simp
  then show ?thesis
    unfolding WriteBack_def applyNamedValues_lookup [OF assms(1,2,4)] by simp
qed

theorem write_back_reads_witness:
  "lookupName two_names (WriteBack two_names [(''a'', VInt 7), (''b'', VInt 8)] half_set) ''b'' = Some (VInt 8) \<and>
   lookupName two_names (WriteBack two_names [(''b'', VInt 8), (''a'', VInt 7)] half_set) ''c'' = Some (VInt 3)"
  using write_back_reads [OF two_names_ok half_set_slots, of "[(''a'', VInt 7), (''b'', VInt 8)]" "[(''a'', VInt 7), (''b'', VInt 8)]" "''b''"]
    write_back_reads [OF two_names_ok half_set_slots, of "[(''a'', VInt 7), (''b'', VInt 8)]" "[(''b'', VInt 8), (''a'', VInt 7)]" "''c''"]
  by (simp add: lookupName_def shielded_def two_names_def half_set_def hidden_def insert_commute)

section \<open>Deferred callables\<close>

definition ran :: "val list \<Rightarrow> val list" where
  "ran ds = filter (\<lambda>v. v \<noteq> VNil) ds"

lemma unwind_loop_logs:
  assumes "\<And>v h w. h_InvokeCallable H v h w = HReturn (answer v) h (w @ [v])"
  shows "n \<le> length (st_deferred s) \<Longrightarrow>
    unwind_loop p H n errs s =
      Ret (Inr (errs @ List.map_filter answer (ran (take n (st_deferred s)))),
           s\<lparr>st_deferred := drop n (st_deferred s), st_world := st_world s @ ran (take n (st_deferred s))\<rparr>)"
proof (induction n arbitrary: errs s)
  case 0
  then show ?case by (simp add: ret_def ran_def map_filter_simps)
next
  case (Suc n)
  then obtain cb rest where d: "st_deferred s = cb # rest" by (cases "st_deferred s") auto
  note parts = mbind_def mthen_def gets_def modify_def host_def assms
  show ?case
  proof (cases "cb = VNil")
    case True
    then show ?thesis using Suc.IH [of "s\<lparr>st_deferred := rest\<rparr>" errs] Suc.prems d
      by (simp add: parts ran_def)
  next
    case False
    let ?s = "s\<lparr>st_deferred := rest, st_world := st_world s @ [cb]\<rparr>"
    have IH: "unwind_loop p H n errs' ?s =
      Ret (Inr (errs' @ List.map_filter answer (ran (take n rest))),
           ?s\<lparr>st_deferred := drop n rest, st_world := st_world s @ [cb] @ ran (take n rest)\<rparr>)" for errs'
      using Suc.IH [of ?s errs'] Suc.prems d by simp
    show ?thesis
      by (cases "answer cb") (simp_all add: parts d False IH ran_def map_filter_simps)
  qed
qed

text \<open>C19. Leaving a frame runs its deferred callables last registered first, each exactly once and none of the
  frames below; the errors they return are joined in the order they ran. Stated on a host that records what
  it is asked to invoke and answers each callable by a function of it.\<close>

theorem deferred_run_in_reverse:
  assumes "\<And>v h w. h_InvokeCallable H v h w = HReturn (answer v) h (w @ [v])"
    and "st_deferred s = rev registered @ below" and "mark = length below"
  shows "unwindDeferred p H mark s =
    Ret (Inr (errors_Join (List.map_filter answer (ran (rev registered)))),
         s\<lparr>st_deferred := below, st_world := st_world s @ ran (rev registered)\<rparr>)"
  using unwind_loop_logs [OF assms(1), of "length registered" s p "[]"] assms(2,3)
  by (simp add: unwindDeferred_def mbind_def gets_def ret_def)

section \<open>A call and its return\<close>

lemma bind_params_slots:
  "length (st_locals s) = n \<Longrightarrow> length (st_initialized s) = n \<Longrightarrow> \<forall>x \<in> set slots. 0 \<le> x \<and> x < int n \<Longrightarrow>
   \<exists>ls bs. bind_params slots vs s = Ret (Inr (), s\<lparr>st_locals := ls, st_initialized := bs\<rparr>) \<and>
     length ls = n \<and> length bs = n \<and>
     (\<forall>j. int j \<notin> set (take (length vs) slots) \<longrightarrow> ls ! j = st_locals s ! j \<and> bs ! j = st_initialized s ! j) \<and>
     (distinct slots \<longrightarrow> (\<forall>k < min (length slots) (length vs). ls ! nat (slots ! k) = vs ! k \<and> bs ! nat (slots ! k)))"
proof (induction slots vs arbitrary: s rule: bind_params.induct [case_names bind no_values no_slots])
  case (bind slot slots v vs)
  let ?s = "s\<lparr>st_locals := (st_locals s)[nat slot := v], st_initialized := (st_initialized s)[nat slot := True]\<rparr>"
  have slot: "0 \<le> slot" "nat slot < n" using bind(4) by auto
  have set: "set_slot slot v True s = Ret (Inr (), ?s)"
    using slot bind(2,3) by (simp add: set_slot_def mbind_def gets_def slice_at_def index_at_def from_some_def ret_def modify_def)
  obtain ls bs where r: "bind_params slots vs ?s = Ret (Inr (), ?s\<lparr>st_locals := ls, st_initialized := bs\<rparr>)"
    "length ls = n" "length bs = n"
    and other: "\<forall>j. int j \<notin> set (take (length vs) slots) \<longrightarrow> ls ! j = st_locals ?s ! j \<and> bs ! j = st_initialized ?s ! j"
    and bound: "distinct slots \<longrightarrow> (\<forall>k < min (length slots) (length vs). ls ! nat (slots ! k) = vs ! k \<and> bs ! nat (slots ! k))"
    using bind(1) [of ?s] bind(2-4) by auto
  have "bind_params (slot # slots) (v # vs) s = Ret (Inr (), s\<lparr>st_locals := ls, st_initialized := bs\<rparr>)"
    using r(1) set by (simp add: mthen_def mbind_def)
  moreover have "ls ! j = st_locals s ! j \<and> bs ! j = st_initialized s ! j"
    if "int j \<notin> set (take (length (v # vs)) (slot # slots))" for j
    using that other slot by (auto simp: nth_list_update)
  moreover have "ls ! nat ((slot # slots) ! k) = (v # vs) ! k \<and> bs ! nat ((slot # slots) ! k)"
    if "distinct (slot # slots)" "k < min (length (slot # slots)) (length (v # vs))" for k
  proof (cases k)
    case 0
    have "int (nat slot) \<notin> set (take (length vs) slots)" using that(1) slot by (auto dest: in_set_takeD)
    then show ?thesis using other slot 0 bind(2,3) by auto
  next
    case (Suc m)
    then show ?thesis using bound that by auto
  qed
  ultimately show ?case using r(2,3) by blast
next
  case (no_values vs)
  then show ?case by (intro exI [of _ "st_locals s"] exI [of _ "st_initialized s"]) (simp add: ret_def)
next
  case (no_slots slots)
  then show ?case by (intro exI [of _ "st_locals s"] exI [of _ "st_initialized s"]) (simp add: ret_def)
qed

text \<open>The state a call of a function with no collector leaves.\<close>

lemma enter_function:
  assumes "list_all (\<lambda>x. 0 \<le> x \<and> x < int (length (p_localNames p))) (f_paramSlots def)" and "f_variadicSlot def < 0"
    and "distinct (f_paramSlots def)"
  obtains ls bs where
    "enterUserFrame p H def None vs s = Ret (Inr (), s\<lparr>
       st_callFrames := \<lparr>cf_returnPC = st_pc s, cf_locals = st_locals s, cf_initialized = st_initialized s,
         cf_extras = st_extras s, cf_refWrites = st_refWrites s, cf_iterators = st_iterators s,
         cf_deferMark = length (st_deferred s)\<rparr> # st_callFrames s,
       st_locals := ls, st_initialized := bs, st_extras := [], st_refWrites := [], st_iterators := [],
       st_pc := f_entryPC def\<rparr>)"
    and "\<forall>k < min (length (f_paramSlots def)) (length vs). ls ! nat (f_paramSlots def ! k) = vs ! k \<and> bs ! nat (f_paramSlots def ! k)"
    and "\<forall>j < length (p_localNames p). int j \<notin> set (take (length vs) (f_paramSlots def)) \<longrightarrow> \<not> bs ! j"
proof -
  let ?n = "length (p_localNames p)"
  let ?s = "s\<lparr>st_callFrames := \<lparr>cf_returnPC = st_pc s, cf_locals = st_locals s, cf_initialized = st_initialized s,
         cf_extras = st_extras s, cf_refWrites = st_refWrites s, cf_iterators = st_iterators s,
         cf_deferMark = length (st_deferred s)\<rparr> # st_callFrames s,
       st_locals := replicate ?n VNil, st_initialized := replicate ?n False, st_extras := [], st_refWrites := [],
       st_iterators := []\<rparr>"
  have in_range: "\<forall>x \<in> set (f_paramSlots def). 0 \<le> x \<and> x < int ?n" using assms(1) by (simp add: list_all_iff)
  obtain ls bs where r: "bind_params (f_paramSlots def) vs ?s = Ret (Inr (), ?s\<lparr>st_locals := ls, st_initialized := bs\<rparr>)"
    and other: "\<forall>j. int j \<notin> set (take (length vs) (f_paramSlots def)) \<longrightarrow> ls ! j = st_locals ?s ! j \<and> bs ! j = st_initialized ?s ! j"
    and bound: "distinct (f_paramSlots def) \<longrightarrow>
      (\<forall>k < min (length (f_paramSlots def)) (length vs). ls ! nat (f_paramSlots def ! k) = vs ! k \<and> bs ! nat (f_paramSlots def ! k))"
    using bind_params_slots [of ?s ?n "f_paramSlots def" vs, OF _ _ in_range] by auto
  show ?thesis
  proof (rule that)
    show "enterUserFrame p H def None vs s = Ret (Inr (), s\<lparr>
       st_callFrames := \<lparr>cf_returnPC = st_pc s, cf_locals = st_locals s, cf_initialized = st_initialized s,
         cf_extras = st_extras s, cf_refWrites = st_refWrites s, cf_iterators = st_iterators s,
         cf_deferMark = length (st_deferred s)\<rparr> # st_callFrames s,
       st_locals := ls, st_initialized := bs, st_extras := [], st_refWrites := [], st_iterators := [],
       st_pc := f_entryPC def\<rparr>)"
      using r assms(2)
      by (simp add: enterUserFrame_def push_frame_def fresh_frame_def frameSlots_def bind_receiver_def goto_pc_def
          mthen_def mbind_def modify_def ret_def)
    show "\<forall>k < min (length (f_paramSlots def)) (length vs). ls ! nat (f_paramSlots def ! k) = vs ! k \<and> bs ! nat (f_paramSlots def ! k)"
      using bound assms(3) by blast
    show "\<forall>j < ?n. int j \<notin> set (take (length vs) (f_paramSlots def)) \<longrightarrow> \<not> bs ! j" using other by simp
  qed
qed

text \<open>C13. A call of a compiled function and its return: the call binds every argument to its parameter slot,
  leaves every other slot of the new frame unset and resumes at the entry; a return from that frame, whatever
  ran in between, puts back the caller's locals, flags, extras and iterators, drops the frame and leaves the
  caller's operand stack less the arguments with the result on top.\<close>

theorem call_and_return:
  assumes "lookupUserFunc p (i_name i) = Some def"
    and "list_all (\<lambda>x. 0 \<le> x \<and> x < int (length (p_localNames p))) (f_paramSlots def)"
    and "distinct (f_paramSlots def)" and "f_variadicSlot def < 0"
    and "st_stack s = rev vs @ below" and "i_a i = int (length vs)"
  shows "\<exists>t. exec_Call p H i s = Ret (Inr Goto, t) \<and> st_pc t = f_entryPC def \<and> st_stack t = below \<and>
    (\<forall>k < min (length (f_paramSlots def)) (length vs).
       st_locals t ! nat (f_paramSlots def ! k) = vs ! k \<and> st_initialized t ! nat (f_paramSlots def ! k)) \<and>
    (\<forall>j < length (p_localNames p). int j \<notin> set (take (length vs) (f_paramSlots def)) \<longrightarrow> \<not> st_initialized t ! j) \<and>
    (\<forall>u v. st_callFrames u = st_callFrames t \<and> st_deferred u = st_deferred t \<and> st_stack u = v # below \<longrightarrow>
       exec_Return p H u = Ret (Inr Advance, u\<lparr>st_stack := v # below, st_pc := st_pc s, st_callFrames := st_callFrames s,
         st_locals := st_locals s, st_initialized := st_initialized s, st_extras := st_extras s,
         st_refWrites := st_refWrites s, st_iterators := st_iterators s\<rparr>))"
proof -
  let ?s = "s\<lparr>st_stack := below\<rparr>"
  obtain ls bs where e: "enterUserFrame p H def None vs ?s = Ret (Inr (), ?s\<lparr>
       st_callFrames := \<lparr>cf_returnPC = st_pc ?s, cf_locals = st_locals ?s, cf_initialized = st_initialized ?s,
         cf_extras = st_extras ?s, cf_refWrites = st_refWrites ?s, cf_iterators = st_iterators ?s,
         cf_deferMark = length (st_deferred ?s)\<rparr> # st_callFrames ?s,
       st_locals := ls, st_initialized := bs, st_extras := [], st_refWrites := [], st_iterators := [],
       st_pc := f_entryPC def\<rparr>)" (is "_ = Ret (_, ?t)")
    and "\<forall>k < min (length (f_paramSlots def)) (length vs). ls ! nat (f_paramSlots def ! k) = vs ! k \<and> bs ! nat (f_paramSlots def ! k)"
    and "\<forall>j < length (p_localNames p). int j \<notin> set (take (length vs) (f_paramSlots def)) \<longrightarrow> \<not> bs ! j"
    by (rule enter_function [OF assms(2,4,3)])
  moreover have "exec_Call p H i s = Ret (Inr Goto, ?t)"
    using e assms(1,5,6)
    by (simp add: exec_Call_def args_def enter_user_def mthen_def mbind_def gets_def modify_def ret_def)
  moreover have "exec_Return p H u = Ret (Inr Advance, u\<lparr>st_stack := v # below, st_pc := st_pc s, st_callFrames := st_callFrames s,
         st_locals := st_locals s, st_initialized := st_initialized s, st_extras := st_extras s,
         st_refWrites := st_refWrites s, st_iterators := st_iterators s\<rparr>)"
    if "st_callFrames u = st_callFrames ?t" "st_deferred u = st_deferred ?t" "st_stack u = v # below" for u v
    using that
    by (simp add: exec_Return_def pop_def unwindDeferred_def errors_Join_def none_or_raise_def goto_pc_def push_next_def push_def
        next_pc_def restore_frame_def mthen_def mbind_def gets_def modify_def ret_def)
  ultimately show ?thesis by (intro exI [of _ ?t]) simp
qed

text \<open>A host that knows nothing and records what it is asked to invoke.\<close>

definition idle :: "'r \<Rightarrow> ('w, 'r) hop" where
  "idle r = (\<lambda>h w. HReturn r h w)"

definition log_host :: "val list FullHost" where
  "log_host =
     \<lparr>h_Construct = \<lambda>_ _. idle (Inr VNil), h_CallMethod = \<lambda>_ _ _. idle (Inr VNil), h_Call = \<lambda>_ _ _. idle (Inr VNil),
      h_GetProperty = \<lambda>_ _. idle VNil, h_SetProperty = \<lambda>_ _ _ _. idle None, h_Lookup = \<lambda>_. idle VNil,
      h_SetGlobal = \<lambda>_ _. idle False, h_Constant = \<lambda>_. idle (Inr VNil), h_SetConstant = \<lambda>_ _. idle (),
      h_Array = \<lambda>_. idle VNil, h_Index = \<lambda>_ _. idle VNil, h_SetIndex = \<lambda>_ _ _ _ _. idle None,
      h_SetEntry = \<lambda>_ _ _. idle None, h_UnsetIndex = \<lambda>_ _. idle (Inr VNil), h_MatchCatch = \<lambda>_ _. idle True,
      h_Throw = \<lambda>_. idle (ErrorString ''thrown''), h_CatchValue = \<lambda>e. idle (VError e), h_ClassConst = \<lambda>_ _. idle (Inr VNil),
      h_Cast = \<lambda>_ v. idle v, h_Binary = \<lambda>_ _ _. idle (Inr VNil), h_Unary = \<lambda>_ _. idle (Inr VNil), h_Truthy = \<lambda>_. idle True,
      h_Entries = \<lambda>_. idle [], h_Echo = \<lambda>_. idle None,
      h_InvokeCallable = \<lambda>v h w. HReturn (if v = VInt 2 then Some (ErrorString ''two'') else None) h (w @ [v]),
      h_SetID = \<lambda>_ _. idle (), h_InvokeValue = None, h_UnsetProperty = None, h_CallStatic = None, h_GetStaticProp = None,
      h_SetStaticProp = None, h_CallableValue = None, h_CallableMember = None, h_StaticVarBag = None, h_Include = None,
      h_Globals = None\<rparr>"

text \<open>A frame called from a frame, with three registrations of its own above one of the caller's.\<close>

definition called_frame :: "val list execState" where
  "called_frame =
     \<lparr>st_stack = [VInt 5], st_locals = [VNil, VNil], st_initialized = [False, False], st_extras = [],
      st_refWrites = [], st_iterators = [], st_handlers = [],
      st_callFrames = [\<lparr>cf_returnPC = 7, cf_locals = [VInt 1, VNil], cf_initialized = [True, False], cf_extras = [],
        cf_refWrites = [], cf_iterators = [], cf_deferMark = 1\<rparr>],
      st_deferred = [VInt 3, VNil, VInt 2, VInt 9], st_pc = 3,
      st_heap = \<lparr>h_arrays = Map.empty, h_objects = Map.empty, h_classes = Map.empty, h_colls = Map.empty, h_next = 0\<rparr>,
      st_world = []\<rparr>"

theorem deferred_run_in_reverse_witness:
  "\<exists>s'. unwindDeferred two_names log_host 1 called_frame = Ret (Inr (Some (Joined [ErrorString ''two''])), s') \<and>
     st_world s' = [VInt 3, VInt 2] \<and> st_deferred s' = [VInt 9]"
proof -
  let ?answer = "\<lambda>v. if v = VInt 2 then Some (ErrorString ''two'') else None"
  have "unwindDeferred two_names log_host 1 called_frame =
    Ret (Inr (errors_Join (List.map_filter ?answer (ran (rev [VInt 2, VNil, VInt 3])))),
         called_frame\<lparr>st_deferred := [VInt 9], st_world := st_world called_frame @ ran (rev [VInt 2, VNil, VInt 3])\<rparr>)"
    by (rule deferred_run_in_reverse) (simp_all add: log_host_def called_frame_def)
  then show ?thesis by (simp add: ran_def called_frame_def errors_Join_def map_filter_simps)
qed

definition one_function :: Program where
  "one_function = two_names\<lparr>p_userFuncs := [(''f'', \<lparr>f_entryPC = 4, f_paramSlots = [1], f_variadicSlot = - 1\<rparr>)]\<rparr>"

theorem call_and_return_witness:
  "\<exists>t. exec_Call one_function log_host ((instr OpCall)\<lparr>i_name := ''f'', i_a := 1\<rparr>) called_frame = Ret (Inr Goto, t) \<and>
     st_pc t = 4 \<and> st_locals t ! 1 = VInt 5 \<and> \<not> st_initialized t ! 0"
proof -
  let ?i = "(instr OpCall)\<lparr>i_name := ''f'', i_a := 1\<rparr>" and ?d = "\<lparr>f_entryPC = 4, f_paramSlots = [1], f_variadicSlot = - 1\<rparr>"
  have "lookupUserFunc one_function (i_name ?i) = Some ?d"
    and "list_all (\<lambda>x. 0 \<le> x \<and> x < int (length (p_localNames one_function))) (f_paramSlots ?d)"
    and "distinct (f_paramSlots ?d)" and "f_variadicSlot ?d < 0"
    and "st_stack called_frame = rev [VInt 5] @ []" and "i_a ?i = int (length [VInt 5 :: val])"
    by (simp_all add: lookupUserFunc_def one_function_def two_names_def called_frame_def)
  from call_and_return [OF this, of log_host]
  show ?thesis by (auto simp: one_function_def two_names_def)
qed

section \<open>Errors that no handler sees\<close>

text \<open>C15. \<open>exit()\<close> is not catchable: an error that is a script exit, or wraps or joins one, is offered to no
  handler however many are armed, and the run ends with exactly that error once the deferred callables ran.\<close>

theorem exit_passes_every_handler:
  assumes "exiting e"
  shows "handle p H e s = Ret (Inr False, s) \<and>
    settle p H (Inl (Raise e)) s = mbind (unwindDeferred p H 0) (\<lambda>_. ret (Some (Inl e))) s"
  using assms
  by (simp add: handle_def settle_def finish_def mbind_def gets_def ret_def split: list.split)

theorem exit_passes_every_handler_witness:
  "handle two_names log_host (Wrapped ''main'' (ScriptExit 3)) called_frame = Ret (Inr False, called_frame)"
  using exit_passes_every_handler [of "Wrapped ''main'' (ScriptExit 3)" two_names log_host called_frame] by simp

text \<open>
  The search over a group's clauses for a host that answers at once: \<open>M\<close> is what it answers of a declared type. The
  first clause that matches is entered with the caller's frames as they are; when none does, nothing has changed.
\<close>

lemma select_first_clause:
  assumes "\<And>ty h w. h_MatchCatch H ty e h w = HReturn (M ty) h w" and "\<And>h w. h_CatchValue H e h w = HReturn v h w"
    and "length (st_initialized s) = length (st_locals s)"
  shows "case find (\<lambda>c. M (t_declaredType c)) clauses of
      None \<Rightarrow> select_clause p H h e clauses s = Ret (Inr False, s)
    | Some c \<Rightarrow> \<exists>t. select_clause p H h e clauses s = Ret (Inr True, t) \<and> st_pc t = t_target c \<and>
        st_callFrames t = st_callFrames s"
proof (induction clauses)
  case (Cons c cs)
  show ?case
  proof (cases "M (t_declaredType c)")
    case True
    then show ?thesis
      using assms
      by (auto simp: mbind_def gets_def mthen_def modify_def ret_def host_def set_slot_def slice_at_def index_at_def
          from_some_def goto_pc_def)
  next
    case False
    then have "select_clause p H h e (c # cs) s = select_clause p H h e cs s"
      by (simp add: mbind_def host_def assms(1))
    then show ?thesis using Cons.IH False by (simp only: find.simps if_False)
  qed
qed (simp add: ret_def)

lemma handle_here:
  assumes "st_handlers s = h # hs" and "\<not> exiting e" and "eh_group h < int (length (p_catchGroups p))"
    and "length (st_callFrames s) \<le> eh_frameDepth h"
    and "\<And>ty h w. h_MatchCatch H ty (innermost e) h w = HReturn (M ty) h w"
    and "\<And>h w. h_CatchValue H (innermost e) h w = HReturn v h w"
    and "0 \<le> eh_pending h" and "nat (eh_pending h) < length (st_locals s)" and "length (st_initialized s) = length (st_locals s)"
  shows "\<exists>t. handle p H e s = Ret (Inr True, t) \<and> st_callFrames t = st_callFrames s \<and>
    st_pc t = (case find (\<lambda>c. M (t_declaredType c)) (if eh_group h < 0 then [] else p_catchGroups p ! nat (eh_group h)) of
      Some c \<Rightarrow> t_target c | None \<Rightarrow> eh_target h)"
proof -
  let ?clauses = "if eh_group h < 0 then [] else p_catchGroups p ! nat (eh_group h)"
  let ?s = "s\<lparr>st_handlers := hs, st_stack := drop (length (st_stack s) - eh_stackDepth h) (st_stack s)\<rparr>"
  have step: "handle p H e s = mbind (select_clause p H h (innermost e) ?clauses)
      (\<lambda>entered. if entered then ret True else park_pending h (innermost e)) ?s"
  proof (cases "eh_group h < 0")
    case True
    then show ?thesis
      using assms(1-4) by (simp add: handle_def drop_handler_def enter_handler_def mthen_def mbind_def gets_def modify_def ret_def)
  next
    case False
    then have "index_at (p_catchGroups p) (eh_group h) = Some ?clauses" using assms(3) by (auto simp: index_at_def)
    then show ?thesis
      using assms(1-4) False
      by (simp add: handle_def drop_handler_def enter_handler_def slice_at_def from_some_def mthen_def mbind_def gets_def
          modify_def ret_def)
  qed
  have "length (st_initialized ?s) = length (st_locals ?s)" using assms(9) by simp
  note first = select_first_clause [where clauses = ?clauses and p = p and h = h, OF assms(5,6) this]
  show ?thesis
  proof (cases "find (\<lambda>c. M (t_declaredType c)) ?clauses")
    case None
    then show ?thesis
      using first assms(7-9) unfolding step
      by (simp add: park_pending_def set_slot_def goto_pc_def slice_at_def index_at_def from_some_def mthen_def mbind_def
          gets_def modify_def ret_def)
  next
    case (Some c)
    then show ?thesis using first unfolding step by (auto simp: mbind_def ret_def)
  qed
qed

text \<open>C14. A \<open>return\<close> out of a try, from its body or from a catch clause, does not disarm the try: after the frame
  is gone its handler is still on top, with the group it was armed with, and the next error the caller raises is taken by
  it. Control enters the clause of the returned function that matches, the first in order, or else its finally block,
  in the caller's frame. This is for a function with nothing deferred and an error that is not an
  exit; the host's two answers, which types match and what a catch variable holds, are taken to have no effect of their
  own.\<close>

theorem return_leaves_handler_armed:
  assumes "st_stack u = v # below" and "st_callFrames u = f # fs" and "cf_deferMark f = length (st_deferred u)"
    and "st_handlers u = h # hs" and "eh_frameDepth h = length (st_callFrames u)"
    and "eh_group h < int (length (p_catchGroups p))"
    and "0 \<le> eh_pending h" and "nat (eh_pending h) < length (cf_locals f)" and "length (cf_initialized f) = length (cf_locals f)"
    and "\<not> exiting e"
    and "\<And>ty h w. h_MatchCatch H ty (innermost e) h w = HReturn (M ty) h w"
    and "\<And>h w. h_CatchValue H (innermost e) h w = HReturn cv h w"
  shows "\<exists>u' t. exec_Return p H u = Ret (Inr Advance, u') \<and> st_handlers u' = h # hs \<and>
    length (st_callFrames u') < eh_frameDepth h \<and>
    handle p H e u' = Ret (Inr True, t) \<and> st_callFrames t = fs \<and>
    st_pc t = (case find (\<lambda>c. M (t_declaredType c)) (if eh_group h < 0 then [] else p_catchGroups p ! nat (eh_group h)) of
      Some c \<Rightarrow> t_target c | None \<Rightarrow> eh_target h)"
proof -
  let ?u = "restore_frame f (u\<lparr>st_pc := cf_returnPC f, st_stack := v # below\<rparr>)"
  have "exec_Return p H u = Ret (Inr Advance, ?u)"
    using assms(1-3)
    by (simp add: exec_Return_def pop_def unwindDeferred_def errors_Join_def none_or_raise_def goto_pc_def push_next_def
        push_def next_pc_def restore_frame_def mthen_def mbind_def gets_def modify_def ret_def)
  moreover have u: "st_handlers ?u = h # hs" "st_callFrames ?u = fs" "st_locals ?u = cf_locals f"
    "st_initialized ?u = cf_initialized f"
    using assms(2,4) by (simp_all add: restore_frame_def)
  moreover have "length (st_callFrames ?u) < eh_frameDepth h" using assms(2,5) u(2) by simp
  moreover note handle_here [OF u(1) assms(10,6) _ assms(11,12,7)]
  ultimately show ?thesis using assms(8,9) by fastforce
qed

text \<open>The program of the example has one clause group: a try that catches a \<open>Timeout\<close> at 6 and anything else at 9.\<close>

definition two_clauses :: Program where
  "two_clauses = two_names\<lparr>p_catchGroups :=
     [[\<lparr>t_declaredType = ''Timeout'', t_local = 1, t_target = 6\<rparr>, \<lparr>t_declaredType = ''Exception'', t_local = - 1, t_target = 9\<rparr>]]\<rparr>"

theorem return_leaves_handler_armed_witness:
  "\<exists>u' t. exec_Return two_clauses (log_host\<lparr>h_MatchCatch := \<lambda>ty _. idle (ty = ''Exception'')\<rparr>)
       (called_frame\<lparr>st_deferred := [VInt 9], st_handlers :=
         [\<lparr>eh_target = 12, eh_group = 0, eh_pending = 0, eh_start = 2, eh_end = 5, eh_stackDepth = 0, eh_frameDepth = 1\<rparr>]\<rparr>)
     = Ret (Inr Advance, u') \<and>
     handle two_clauses (log_host\<lparr>h_MatchCatch := \<lambda>ty _. idle (ty = ''Exception'')\<rparr>) (ErrorString ''later'') u' =
       Ret (Inr True, t) \<and>
     st_pc t = 9 \<and> st_callFrames t = []"
proof -
  let ?H = "log_host\<lparr>h_MatchCatch := \<lambda>ty _. idle (ty = ''Exception'')\<rparr>"
  let ?h = "\<lparr>eh_target = 12, eh_group = 0, eh_pending = 0, eh_start = 2, eh_end = 5, eh_stackDepth = 0, eh_frameDepth = 1\<rparr>"
  let ?u = "called_frame\<lparr>st_deferred := [VInt 9], st_handlers := [?h]\<rparr>"
  let ?f = "hd (st_callFrames called_frame)" and ?e = "ErrorString ''later''"
  have "st_stack ?u = VInt 5 # []" "st_callFrames ?u = ?f # []" "cf_deferMark ?f = length (st_deferred ?u)"
    "st_handlers ?u = ?h # []" "eh_frameDepth ?h = length (st_callFrames ?u)"
    "eh_group ?h < int (length (p_catchGroups two_clauses))" "0 \<le> eh_pending ?h"
    "nat (eh_pending ?h) < length (cf_locals ?f)" "length (cf_initialized ?f) = length (cf_locals ?f)" "\<not> exiting ?e"
    "\<And>ty h w. h_MatchCatch ?H ty (innermost ?e) h w = HReturn (ty = ''Exception'') h w"
    "\<And>h w. h_CatchValue ?H (innermost ?e) h w = HReturn (VError ?e) h w"
    by (simp_all add: called_frame_def two_clauses_def idle_def log_host_def)
  from return_leaves_handler_armed [OF this] show ?thesis by (auto simp: two_clauses_def)
qed

text \<open>A host whose deferred callables do what they did but never report an error.\<close>

primrec hush :: "('w, goerr option) hact \<Rightarrow> ('w, goerr option) hact" where
  "hush (HReturn r h w) = HReturn None h w"
| "hush (HInvoke c xs h w k) = HInvoke c xs h w (\<lambda>r h' w'. hush (k r h' w'))"
| "hush (HSnapshot k) = HSnapshot (\<lambda>vars. hush (k vars))"
| "hush (HWriteBack vars k) = HWriteBack vars (hush k)"
| "hush (HSetRef depth slot v k) = HSetRef depth slot v (hush k)"

definition hushed :: "'w FullHost \<Rightarrow> 'w FullHost" where
  "hushed H = H\<lparr>h_InvokeCallable := \<lambda>cb h w. hush (h_InvokeCallable H cb h w)\<rparr>"

lemma hush_answers: "mbind (run_hact p (hush a)) (\<lambda>_. m) s = mbind (run_hact p a) (\<lambda>_. m) s"
  by (induction a arbitrary: s rule: hact_tree_induct) (simp_all add: mbind_def)

lemma host_hushed:
  "mbind (host p (h_InvokeCallable (hushed H) cb)) (\<lambda>_. m) = mbind (host p (h_InvokeCallable H cb)) (\<lambda>_. m)"
  by (rule ext) (use hush_answers in \<open>simp add: hushed_def host_def mbind_def\<close>)

lemma unwind_loop_hushed:
  "mbind (unwind_loop p (hushed H) n errs') (\<lambda>_. m) = mbind (unwind_loop p H n errs) (\<lambda>_. m)"
proof (induction n arbitrary: errs errs')
  case (Suc n)
  define M where "M = mbind (unwind_loop p H n []) (\<lambda>_. m)"
  have rest: "mbind (unwind_loop p H n xs) (\<lambda>_. m) = M" "mbind (unwind_loop p (hushed H) n xs) (\<lambda>_. m) = M" for xs
    using Suc.IH unfolding M_def by metis+
  have step: "mbind (unwind_loop p G (Suc n) xs) (\<lambda>_. m) = mbind (gets st_deferred) (\<lambda>ds.
      case ds of [] \<Rightarrow> m | cb # rest \<Rightarrow> mthen (modify (\<lambda>s. s\<lparr>st_deferred := rest\<rparr>))
        (if cb = VNil then M else mbind (host p (h_InvokeCallable G cb)) (\<lambda>_. M)))" if "G = H \<or> G = hushed H" for G xs
  proof -
    have later: "(\<lambda>r. mbind (case r of None \<Rightarrow> unwind_loop p G n xs | Some e \<Rightarrow> unwind_loop p G n (xs @ [e])) (\<lambda>_. m)) =
        (\<lambda>_. M)"
      using that rest by (auto split: option.split)
    have "mbind (case ds of [] \<Rightarrow> ret xs | cb # rest \<Rightarrow> mthen (modify (\<lambda>s. s\<lparr>st_deferred := rest\<rparr>))
        (if cb = VNil then unwind_loop p G n xs else mbind (host p (h_InvokeCallable G cb)) (\<lambda>r.
          case r of None \<Rightarrow> unwind_loop p G n xs | Some e \<Rightarrow> unwind_loop p G n (xs @ [e])))) (\<lambda>_. m) =
      (case ds of [] \<Rightarrow> m | cb # rest \<Rightarrow> mthen (modify (\<lambda>s. s\<lparr>st_deferred := rest\<rparr>))
        (if cb = VNil then M else mbind (host p (h_InvokeCallable G cb)) (\<lambda>_. M)))" for ds
      using that rest by (cases ds) (auto simp: mthen_def mbind_assoc later)
    then show ?thesis by (simp only: unwind_loop.simps mbind_assoc)
  qed
  show ?case unfolding step [OF disjI1 [OF refl]] step [OF disjI2 [OF refl]] host_hushed ..
qed simp

lemma unwindDeferred_hushed: "mbind (unwindDeferred p (hushed H) mark) (\<lambda>_. m) = mbind (unwindDeferred p H mark) (\<lambda>_. m)"
  unfolding unwindDeferred_def mbind_assoc mbind_ret by (rule arg_cong [where f = "mbind _"], rule ext) (rule unwind_loop_hushed)

lemma unwind_frames_hushed: "unwind_frames p (hushed H) n = unwind_frames p H n"
  by (induction n) (simp, unfold unwind_frames.simps unwindDeferred_hushed, simp)

lemma select_clause_hushed: "select_clause p (hushed H) h e clauses = select_clause p H h e clauses"
proof (induction clauses)
  case (Cons c cs)
  have "h_MatchCatch (hushed H) = h_MatchCatch H" "h_CatchValue (hushed H) = h_CatchValue H" by (simp_all add: hushed_def)
  then show ?case unfolding select_clause.simps Cons.IH by (simp only:)
qed simp

text \<open>C34. What a deferred callable answers while an error unwinds the frame that registered it is lost, an
  \<open>exit()\<close> too: the search for a handler goes through the same steps to the same end, the same clause or pending
  error, stack, frames and store, as it would had every callable done what it did and reported success.\<close>

theorem exit_in_deferred_is_dropped: "handle p H e s = handle p (hushed H) e s"
  unfolding handle_def enter_handler_def unwind_frames_hushed select_clause_hushed ..

text \<open>A deferred \<open>exit(0)\<close> under an error: the pending slot holds the first error and the script goes on at 4.\<close>

theorem exit_in_deferred_is_dropped_witness:
  "\<exists>t. handle two_names (log_host\<lparr>h_InvokeCallable := \<lambda>v. idle (Some (ScriptExit 0))\<rparr>) (ErrorString ''x'')
     (called_frame\<lparr>st_deferred := [VInt 2], st_handlers :=
       [\<lparr>eh_target = 4, eh_group = - 1, eh_pending = 0, eh_start = 2, eh_end = 3, eh_stackDepth = 0, eh_frameDepth = 0\<rparr>],
       st_callFrames := [(hd (st_callFrames called_frame))\<lparr>cf_deferMark := 0\<rparr>]\<rparr>) = Ret (Inr True, t) \<and> st_pc t = 4 \<and>
     st_locals t ! 0 = VError (ErrorString ''x'') \<and> st_deferred t = []"
  by (subst exit_in_deferred_is_dropped) (simp add: hushed_def idle_def called_frame_def handle_def drop_handler_def enter_handler_def park_pending_def set_slot_def
      goto_pc_def slice_at_def index_at_def from_some_def unwindDeferred_def host_def restore_frame_def mthen_def mbind_def
      gets_def modify_def ret_def two_names_def)

end
