(* ===== verification/Convert.thy ===== *)
theory Convert
  imports IncDec Copy
begin

text \<open>
  \<open>runner/convert.go\<close>: the coercions the operators read. They repeat the scanner of
  \<open>internal/phpval\<close> in a second form; the lemmas show where the two agree and where they do not.
  The text of an error is the error's own \<open>Error\<close> method and so a parameter (\<open>text\<close>).
\<close>

section \<open>Text and truth\<close>

definition phpString :: "(goerr \<Rightarrow> string) \<Rightarrow> val \<Rightarrow> string" where
  "phpString text v =
     (case v of
        VStr s \<Rightarrow> s
      | VInt x \<Rightarrow> FormatInt x
      | VError e \<Rightarrow> text e
      | _ \<Rightarrow> String v)"

text \<open>The widened value of a typed number is an int64 or a float64, so one more step answers.\<close>

definition phpTruthy :: "heap \<Rightarrow> val \<Rightarrow> bool" where
  "phpTruthy h v =
     (case v of
        VNil \<Rightarrow> False
      | VBool b \<Rightarrow> b
      | VStr s \<Rightarrow> s \<noteq> '''' \<and> s \<noteq> ''0''
      | VGoInt x \<Rightarrow> x \<noteq> 0
      | VInt x \<Rightarrow> x \<noteq> 0
      | VFloat x \<Rightarrow> \<not> f_eq x f_zero
      | VArray a \<Rightarrow> (case h_arrays h a of Some arr \<Rightarrow> 0 < Array_Len arr | None \<Rightarrow> False)
      | VBytes s \<Rightarrow> s \<noteq> '''' \<and> s \<noteq> ''0''
      | _ \<Rightarrow>
          (case GoWiden v of
             Some (VInt x) \<Rightarrow> x \<noteq> 0
           | Some (VFloat x) \<Rightarrow> \<not> f_eq x f_zero
           | _ \<Rightarrow> (case LenValues h v of Some n \<Rightarrow> 0 < n | None \<Rightarrow> True)))"

section \<open>The numeric prefix of a string\<close>

definition numericPrefix :: "string \<Rightarrow> string \<times> bool" where
  "numericPrefix s =
     (case sign_run (dropWhile (\<lambda>c. c \<in> set blanks) s) of (sign, s1) \<Rightarrow>
      case digit_run s1 of (whole, s2) \<Rightarrow>
      case (if s2 \<noteq> [] \<and> hd s2 = CHR ''.''
            then (case digit_run (tl s2) of (fraction, r) \<Rightarrow>
                    if whole \<noteq> [] \<or> fraction \<noteq> [] then (fraction, hd s2 # fraction, r, True)
                    else ([], [], s2, False))
            else ([], [], s2, False))
      of (fraction, point, s3, isFloat) \<Rightarrow>
        if length whole + length fraction = 0 then ([], False)
        else if s3 \<noteq> [] \<and> (hd s3 = CHR ''e'' \<or> hd s3 = CHR ''E'')
        then (case sign_run (tl s3) of (esign, r1) \<Rightarrow>
              case digit_run r1 of (exponent, r2) \<Rightarrow>
                if exponent \<noteq> [] then (sign @ whole @ point @ hd s3 # esign @ exponent, True)
                else (sign @ whole @ point, isFloat))
        else (sign @ whole @ point, isFloat))"

text \<open>
  Go's conversion of a float outside int64 is left to the machine; amd64 answers the smallest
  int64 for it and for NaN.
\<close>

definition convert_i64 :: "f64 \<Rightarrow> i64" where
  "convert_i64 f = (if f_le (f_neg twoPow63) f \<and> f_lt f twoPow63 then to_i64 f else min_i64)"

definition stringToInt :: "string \<Rightarrow> i64" where
  "stringToInt s =
     (case numericPrefix s of (prefix, isFloat) \<Rightarrow>
        if prefix = [] then 0
        else if \<not> isFloat
        then (case ParseInt prefix of
                Some i \<Rightarrow> i
              | None \<Rightarrow> if has_prefix ''-'' prefix then min_i64 else max_i64)
        else convert_i64 (parseFloat prefix))"

section \<open>Numbers\<close>

definition namedScalarInt :: "val \<Rightarrow> i64" where
  "namedScalarInt v =
     (case v of
        VNamed ty (Inl n) text \<Rightarrow> n
      | VNamed ty (Inr x) text \<Rightarrow> ToInt64 x
      | VFloat32 x \<Rightarrow> ToInt64 x
      | _ \<Rightarrow> 0)"

definition toInt_of :: "val \<Rightarrow> i64" where
  "toInt_of v =
     (case v of
        VGoInt x \<Rightarrow> x
      | VInt x \<Rightarrow> x
      | VFloat x \<Rightarrow> ToInt64 x
      | VBool b \<Rightarrow> if b then 1 else 0
      | VStr s \<Rightarrow> stringToInt s
      | _ \<Rightarrow> (case GoClipInt v of Some clipped \<Rightarrow> clipped | None \<Rightarrow> namedScalarInt v))"

definition toFloat_of :: "val \<Rightarrow> f64" where
  "toFloat_of v =
     (case v of
        VGoInt x \<Rightarrow> of_i64 x
      | VInt x \<Rightarrow> of_i64 x
      | VFloat x \<Rightarrow> x
      | VBool b \<Rightarrow> if b then of_i64 1 else f_zero
      | VStr s \<Rightarrow> (case numericPrefix s of (prefix, isFloat) \<Rightarrow> if prefix = [] then f_zero else parseFloat prefix)
      | _ \<Rightarrow>
          (case GoWiden v of
             Some (VInt x) \<Rightarrow> of_i64 x
           | Some (VFloat x) \<Rightarrow> x
           | _ \<Rightarrow> f_zero))"

section \<open>Casts\<close>

text \<open>
  The casts allocate what they build. \<open>std\<close> is the address of the class every stdClass instance
  shares. A host value other than a scalar or a collection is a struct or a function behind a
  pointer, which \<open>isObjectValue\<close> takes as an object.
\<close>

definition alloc_object :: "object \<Rightarrow> heap \<Rightarrow> addr \<times> heap" where
  "alloc_object ob h = (h_next h, h\<lparr>h_objects := (h_objects h)(h_next h \<mapsto> ob), h_next := Suc (h_next h)\<rparr>)"

definition isObjectValue :: "val \<Rightarrow> bool" where
  "isObjectValue v =
     (case v of
        VObject a \<Rightarrow> True
      | VClosure i c \<Rightarrow> True
      | VSetter d s \<Rightarrow> True
      | VError e \<Rightarrow> True
      | VOpaque t i \<Rightarrow> True
      | _ \<Rightarrow> False)"

definition new_array :: "heap \<Rightarrow> array \<Rightarrow> val \<times> heap" where
  "new_array h a = (case alloc_array a h of (p, h') \<Rightarrow> (VArray p, h'))"

definition new_object :: "heap \<Rightarrow> object \<Rightarrow> val \<times> heap" where
  "new_object h ob = (case alloc_object ob h of (p, h') \<Rightarrow> (VObject p, h'))"

definition helperToObject :: "addr \<Rightarrow> heap \<Rightarrow> val \<Rightarrow> val \<times> heap" where
  "helperToObject std h v =
     (if v = VNil then new_object h (NewObject (Some std))
      else if IsCollection v
      then new_object h (RangeValues h v (\<lambda>key x ob. (True, SetProp ob (String key) x)) (NewObject (Some std)))
      else if isObjectValue v then (v, h)
      else new_object h (SetProp (NewObject (Some std)) ''scalar'' v))"

definition class_of :: "heap \<Rightarrow> object \<Rightarrow> php_class option" where
  "class_of h ob = (case o_Class ob of Some c \<Rightarrow> h_classes h c | None \<Rightarrow> None)"

definition object_entries :: "heap \<Rightarrow> object \<Rightarrow> array" where
  "object_entries h ob =
     Object_Range (class_of h ob) ob (\<lambda>name x out. (True, Array_Set out (Key (VStr name)) x))
       (NewArraySize (int (Object_Len ob)))"

definition array_of :: "heap \<Rightarrow> val \<Rightarrow> val \<times> heap" where
  "array_of h v =
     (case v of
        VNil \<Rightarrow> new_array h NewArray
      | VObject a \<Rightarrow>
          (case h_objects h a of
             Some ob \<Rightarrow> new_array h (object_entries h ob)
           | None \<Rightarrow> new_array h NewArray)
      | VArray a \<Rightarrow> (v, h)
      | VColl c \<Rightarrow> new_array h (ToArray h v)
      | _ \<Rightarrow> new_array h (Array_Append (NewArraySize 1) v))"

definition helperCast :: "(goerr \<Rightarrow> string) \<Rightarrow> addr \<Rightarrow> string \<Rightarrow> heap \<Rightarrow> val \<Rightarrow> val \<times> heap" where
  "helperCast text std typ h v =
     (if typ = ''bool'' \<or> typ = ''boolean'' then (VBool (phpTruthy h v), h)
      else if typ = ''int'' \<or> typ = ''integer''
      then (if IsCollection v then (VInt (if phpTruthy h v then 1 else 0), h) else (VInt (toInt_of v), h))
      else if typ = ''float'' \<or> typ = ''double'' \<or> typ = ''real'' then (VFloat (toFloat_of v), h)
      else if typ = ''string'' then (VStr (phpString text v), h)
      else if typ = ''array'' then array_of h v
      else if typ = ''object'' then helperToObject std h v
      else (v, h))"

section \<open>The two scanners\<close>

lemma numericPrefix_leadingFloat: "numericPrefix s = (fst (leadingFloat s), \<not> snd (leadingFloat s))"
  unfolding numericPrefix_def leadingFloat_def
  by (auto simp: Let_def split: prod.splits list.splits if_splits)

text \<open>A string spelling a float no int64 can hold, where the two conversions part.\<close>

definition past_int64 :: "string \<Rightarrow> bool" where
  "past_int64 s \<longleftrightarrow>
     (case leadingFloat s of (prefix, isInt) \<Rightarrow>
        \<not> isInt \<and> \<not> (f_le (f_neg twoPow63) (parseFloat prefix) \<and> f_lt (parseFloat prefix) twoPow63))"

lemma ParseFloat_empty [simp]: "parseFloat [] = f_zero"
  by code_simp

text \<open>
  Where the two integers part: a string that spells a float no int64 holds, which Go's own conversion answers, and a named
  Go scalar, whose number only the engines' copy reads.
\<close>

lemma zero_in_int64: "f_le (f_neg twoPow63) f_zero" "f_lt f_zero twoPow63"
  by code_simp+

lemma toInt_of_Int_of:
  "toInt_of v =
     (case v of
        VStr s \<Rightarrow> if past_int64 s then min_i64 else Int_of v
      | VNamed ty x text \<Rightarrow> namedScalarInt v
      | _ \<Rightarrow> Int_of v)"
  by (cases v)
    (auto simp: toInt_of_def Int_of_def stringToInt_def numericPrefix_leadingFloat parseInt_def past_int64_def ToInt64_def
      convert_i64_def GoClipInt_def namedScalarInt_def split_def zero_in_int64 split: option.split)

text \<open>C25. The engines' own coercions and the library's (\<open>internal/phpval\<close>), two copies of one rule. As a float they agree
  on every value. As a truth value they agree on every value but a byte slice, which the engines read as the string it
  carries. As an integer they agree on every value but two kinds: a string spelling a float beyond int64, where the engines
  answer the smallest int64, and a named Go scalar (\<open>time.Month\<close>), which the engines read as its number and the
  library as 0.\<close>

theorem coercions_agree:
  "toFloat_of v = Float v \<and>
   phpTruthy h v = (case v of VBytes s \<Rightarrow> s \<noteq> '''' \<and> s \<noteq> ''0'' | _ \<Rightarrow> Truthy h v) \<and>
   toInt_of v =
     (case v of
        VStr s \<Rightarrow> if past_int64 s then min_i64 else Int_of v
      | VNamed ty (Inl n) text \<Rightarrow> n
      | VNamed ty (Inr x) text \<Rightarrow> ToInt64 x
      | _ \<Rightarrow> Int_of v) \<and>
   Int_of (VNamed ty x text) = 0"
proof -
  have "toFloat_of v = Float v"
    by (cases v) (auto simp: toFloat_of_def Float_def numericPrefix_leadingFloat)
  moreover have "phpTruthy h v = (case v of VBytes s \<Rightarrow> s \<noteq> '''' \<and> s \<noteq> ''0'' | _ \<Rightarrow> Truthy h v)"
    by (cases v) (auto simp: phpTruthy_def Truthy_def)
  moreover have "Int_of (VNamed ty x text) = 0" by (simp add: Int_of_def GoClipInt_def)
  ultimately show ?thesis
    using toInt_of_Int_of [of v] by (simp add: namedScalarInt_def split: val.split sum.split)
qed

text \<open>The exceptions are real: the two conversions of \<open>"1e20"\<close> and of March, and the truth of a byte slice \<open>"0"\<close>.\<close>

lemma coercions_differ:
  "toInt_of (VStr ''1e20'') = min_i64" "Int_of (VStr ''1e20'') = 7766279631452241920"
  "toInt_of (VNamed ''time.Month'' (Inl 3) (Some ''March'')) = 3" "Int_of (VNamed ''time.Month'' (Inl 3) (Some ''March'')) = 0"
  "\<not> phpTruthy h (VBytes ''0'')" "Truthy h (VBytes ''0'')"
  by (code_simp, code_simp, code_simp, code_simp, simp_all add: phpTruthy_def Truthy_def LenValues_def)

theorem coercions_agree_witness:
  "toInt_of (VStr '' 12abc'') = Int_of (VStr '' 12abc'') \<and> (\<forall>h. phpTruthy h (VStr ''0.0'') = Truthy h (VStr ''0.0''))"
proof -
  have "leadingFloat '' 12abc'' = (''12'', True)"
    by (simp add: leadingFloat_def digit_run_def sign_run_def is_sign_def is_digit_def blanks_def code_def)
  then have "\<not> past_int64 '' 12abc''" by (simp add: past_int64_def)
  then show ?thesis
    using coercions_agree [of "VStr '' 12abc''"] coercions_agree [of "VStr ''0.0''"] by simp
qed

end
