(* ===== verification/Operators.thy ===== *)
theory Operators
  imports Convert Compare Bytecode
begin

unbundle bit_operations_syntax

text \<open>
  \<open>runner/operators.go\<close> and \<open>runner/operators_gowidth.go\<close>: php's operators as both engines apply
  them, and \<open>flatHost.Binary\<close> and \<open>Unary\<close>, the bytecode host's entry to them.

  Parameters stand for what a host value's own code decides: the text of an error, \<open>math.Pow\<close>,
  \<open>reflect.DeepEqual\<close> on values of Go types and the class test of \<open>instanceof\<close>. The comparisons descend
  into arrays under the bound of \<open>Compare\<close> and answer \<open>None\<close> where it does not reach.
\<close>

record runtime =
  r_text :: "goerr \<Rightarrow> string"
  r_pow :: "f64 \<Rightarrow> f64 \<Rightarrow> f64"
  r_deepEqual :: "heap \<Rightarrow> val \<Rightarrow> val \<Rightarrow> bool"
  r_instanceOf :: "heap \<Rightarrow> val \<Rightarrow> val \<Rightarrow> bool"

section \<open>Identity\<close>

fun as_bytes :: "val \<Rightarrow> string option" where
  "as_bytes (VBytes s) = Some s"
| "as_bytes _ = None"

definition text_of :: "val \<Rightarrow> string option" where
  "text_of v = (case v of VStr s \<Rightarrow> Some s | _ \<Rightarrow> as_bytes v)"

definition int_pair :: "val \<Rightarrow> val \<Rightarrow> bool" where
  "int_pair a b =
     (case b of VInt y \<Rightarrow> toInt_of a = y | VGoInt y \<Rightarrow> toInt_of a = y | _ \<Rightarrow> False)"

definition identical_pairs ::
  "(val \<Rightarrow> val \<Rightarrow> bool option) \<Rightarrow> array \<Rightarrow> array \<Rightarrow> (val \<times> val) list \<Rightarrow> bool option"
where
  "identical_pairs same x y keys =
     fold (\<lambda>(k, l) r.
       case r of
         Some True \<Rightarrow>
           (case same k l of
              Some True \<Rightarrow>
                same (case Array_Get x k of Some v \<Rightarrow> v | None \<Rightarrow> VNil) (case Array_Get y l of Some v \<Rightarrow> v | None \<Rightarrow> VNil)
            | _ \<Rightarrow> same k l)
       | _ \<Rightarrow> r) keys (Some True)"

definition identicalArrays ::
  "(val \<Rightarrow> val \<Rightarrow> bool option) \<Rightarrow> heap \<Rightarrow> addr \<Rightarrow> addr \<Rightarrow> bool option"
where
  "identicalArrays same h a b =
     (if a = b then Some True
      else
        (let x = ToArray h (VArray a); y = ToArray h (VArray b)
         in if Array_Len x \<noteq> Array_Len y then Some False
            else identical_pairs same x y (zip (Array_Keys x) (Array_Keys y))))"

fun phpIdentical :: "runtime \<Rightarrow> nat \<Rightarrow> heap \<Rightarrow> val \<Rightarrow> val \<Rightarrow> bool option" where
  "phpIdentical R n h a b =
     (case a of
        VNil \<Rightarrow> Some (b = VNil)
      | VBool x \<Rightarrow> Some (b = VBool x)
      | VStr x \<Rightarrow> Some (text_of b = Some x)
      | VBytes x \<Rightarrow> Some (text_of b = Some x)
      | VInt x \<Rightarrow> Some (int_pair a b)
      | VGoInt x \<Rightarrow> Some (int_pair a b)
      | VFloat x \<Rightarrow> Some (case b of VFloat y \<Rightarrow> f_eq x y | _ \<Rightarrow> False)
      | VArray x \<Rightarrow>
          (case b of
             VArray y \<Rightarrow> (case n of 0 \<Rightarrow> None | Suc m \<Rightarrow> identicalArrays (phpIdentical R m h) h x y)
           | _ \<Rightarrow> Some False)
      | VObject x \<Rightarrow> Some (b = VObject x)
      | _ \<Rightarrow> Some (b \<noteq> VNil \<and> r_deepEqual R h a b))"

section \<open>Comparison\<close>

definition isNaNValue :: "val \<Rightarrow> bool" where
  "isNaNValue v = (case v of VFloat f \<Rightarrow> f_is_nan f | _ \<Rightarrow> False)"

definition inBoolDomain :: "val \<Rightarrow> bool" where
  "inBoolDomain v = (case v of VNil \<Rightarrow> True | VBool b \<Rightarrow> True | _ \<Rightarrow> False)"

definition unordered :: "val \<Rightarrow> val \<Rightarrow> bool" where
  "unordered a b \<longleftrightarrow> (isNaNValue a \<or> isNaNValue b) \<and> \<not> inBoolDomain a \<and> \<not> inBoolDomain b"

definition phpCompare :: "runtime \<Rightarrow> nat \<Rightarrow> heap \<Rightarrow> string \<Rightarrow> val \<Rightarrow> val \<Rightarrow> bool option" where
  "phpCompare R n h operator a b =
     (if operator = ''==='' then phpIdentical R n h a b
      else if operator = ''!=='' then map_option Not (phpIdentical R n h a b)
      else if unordered a b then Some (operator = ''!='')
      else map_option (\<lambda>c.
        if operator = ''=='' then c = 0
        else if operator = ''!='' then c \<noteq> 0
        else if operator = ''<'' then c < 0
        else if operator = ''<='' then c \<le> 0
        else if operator = ''>'' then 0 < c
        else 0 \<le> c) (Compare n h a b))"

definition phpLooseEqual :: "runtime \<Rightarrow> nat \<Rightarrow> heap \<Rightarrow> val \<Rightarrow> val \<Rightarrow> bool option" where
  "phpLooseEqual R n h a b = phpCompare R n h ''=='' a b"

definition phpSpaceship :: "nat \<Rightarrow> heap \<Rightarrow> val \<Rightarrow> val \<Rightarrow> i64 option" where
  "phpSpaceship n h a b =
     (if unordered a b then Some 1
      else map_option (\<lambda>c. if c < 0 then - 1 else if 0 < c then 1 else 0) (Compare n h a b))"

section \<open>Typed Go numbers\<close>

definition types_refused :: "string \<Rightarrow> string \<Rightarrow> string \<Rightarrow> goerr" where
  "types_refused l operator r = OperandError (''Unsupported operand types: '' @ l @ '' '' @ operator @ '' '' @ r)"

text \<open>\<open>None\<close> is the false flag: neither operand carries a width.\<close>

definition goOperandWidth :: "string \<Rightarrow> val \<Rightarrow> val \<Rightarrow> (goerr + GoWidth) option" where
  "goOperandWidth operator a b =
     (case (GoWidthOf a, GoWidthOf b) of
        (None, None) \<Rightarrow> None
      | (Some l, Some r) \<Rightarrow>
          if w_Name l \<noteq> w_Name r then Some (Inl (types_refused (w_Name l) operator (w_Name r))) else Some (Inr l)
      | (Some l, None) \<Rightarrow> Some (Inr l)
      | (None, Some r) \<Rightarrow> Some (Inr r))"

definition goOperandInt :: "val \<Rightarrow> i64" where
  "goOperandInt v = (case GoInt v of Some bits \<Rightarrow> bits | None \<Rightarrow> Int_of v)"

definition goOperandFloat :: "val \<Rightarrow> f64" where
  "goOperandFloat v = (case v of VFloat32 f \<Rightarrow> f | _ \<Rightarrow> Float v)"

definition div_by_zero :: goerr where
  "div_by_zero = DivisionByZeroError ''Division by zero''"

definition mod_by_zero :: goerr where
  "mod_by_zero = DivisionByZeroError ''Modulo by zero''"

definition goSignedArith :: "runtime \<Rightarrow> string \<Rightarrow> GoWidth \<Rightarrow> val \<Rightarrow> val \<Rightarrow> (goerr + val) option" where
  "goSignedArith R operator w a b =
     (let x = goOperandInt a; y = goOperandInt b
      in if operator = ''+'' then Some (Inr (Narrow w (VInt (x + y))))
         else if operator = ''-'' then Some (Inr (Narrow w (VInt (x - y))))
         else if operator = ''*'' then Some (Inr (Narrow w (VInt (x * y))))
         else if operator = ''/''
         then (if y = 0 then Some (Inl div_by_zero) else Some (Inr (Narrow w (VInt (go_quot x y)))))
         else if operator = ''%''
         then (if y = 0 then Some (Inl mod_by_zero) else Some (Inr (Narrow w (VInt (go_rem x y)))))
         else if operator = ''**'' then Some (Inr (Narrow w (VInt (ToInt64 (r_pow R (of_i64 x) (of_i64 y))))))
         else None)"

definition goUnsignedArith :: "runtime \<Rightarrow> string \<Rightarrow> GoWidth \<Rightarrow> val \<Rightarrow> val \<Rightarrow> (goerr + val) option" where
  "goUnsignedArith R operator w a b =
     (let x = goOperandInt a; y = goOperandInt b
      in if operator = ''+'' then Some (Inr (Narrow w (VInt (x + y))))
         else if operator = ''-'' then Some (Inr (Narrow w (VInt (x - y))))
         else if operator = ''*'' then Some (Inr (Narrow w (VInt (x * y))))
         else if operator = ''/''
         then (if y = 0 then Some (Inl div_by_zero) else Some (Inr (Narrow w (VInt (x div y)))))
         else if operator = ''%''
         then (if y = 0 then Some (Inl mod_by_zero) else Some (Inr (Narrow w (VInt (x mod y)))))
         else if operator = ''**'' then Some (Inr (Narrow w (VInt (ToInt64 (r_pow R (of_u64 x) (of_u64 y))))))
         else None)"

definition goFloatArith :: "runtime \<Rightarrow> string \<Rightarrow> GoWidth \<Rightarrow> val \<Rightarrow> val \<Rightarrow> (goerr + val) option" where
  "goFloatArith R operator w a b =
     (let x = goOperandFloat a; y = goOperandFloat b
      in if operator = ''+'' then Some (Inr (Narrow w (VFloat (f_add x y))))
         else if operator = ''-'' then Some (Inr (Narrow w (VFloat (f_sub x y))))
         else if operator = ''*'' then Some (Inr (Narrow w (VFloat (f_mul x y))))
         else if operator = ''/''
         then (if f_eq y f_zero then Some (Inl div_by_zero) else Some (Inr (Narrow w (VFloat (f_div x y)))))
         else if operator = ''%''
         then (let l = ToInt64 x; r = ToInt64 y
               in if r = 0 then Some (Inl mod_by_zero) else Some (Inr (Narrow w (VFloat (of_i64 (go_rem l r))))))
         else if operator = ''**'' then Some (Inr (Narrow w (VFloat (r_pow R x y))))
         else None)"

text \<open>The flag and the error of \<open>goArith\<close>: \<open>None\<close> leaves the operands to php's own arithmetic.\<close>

definition goArith :: "runtime \<Rightarrow> string \<Rightarrow> val \<Rightarrow> val \<Rightarrow> (goerr + val) option" where
  "goArith R operator a b =
     (case goOperandWidth operator a b of
        None \<Rightarrow> None
      | Some (Inl e) \<Rightarrow> Some (Inl e)
      | Some (Inr w) \<Rightarrow>
          if w_Float w then goFloatArith R operator w a b
          else if w_Signed w then goSignedArith R operator w a b
          else goUnsignedArith R operator w a b)"

definition shiftLeft :: "i64 \<Rightarrow> i64 \<Rightarrow> i64" where
  "shiftLeft x count = (if 64 \<le> sint count then 0 else push_bit (nat (sint count)) x)"

definition shiftRight :: "GoWidth \<Rightarrow> i64 \<Rightarrow> i64 \<Rightarrow> i64" where
  "shiftRight w x count =
     (if 64 \<le> sint count then (if w_Signed w \<and> sint x < 0 then - 1 else 0)
      else if w_Signed w then signed_drop_bit (nat (sint count)) x
      else drop_bit (nat (sint count)) x)"

definition negative_shift :: goerr where
  "negative_shift = ArithmeticError ''Bit shift by negative number''"

definition goBitwise :: "string \<Rightarrow> val \<Rightarrow> val \<Rightarrow> (goerr + val) option" where
  "goBitwise operator a b =
     (case goOperandWidth operator a b of
        None \<Rightarrow> None
      | Some (Inl e) \<Rightarrow> Some (Inl e)
      | Some (Inr w) \<Rightarrow>
          if w_Float w then Some (Inl (types_refused (w_Name w) operator (w_Name w)))
          else
            (let x = goOperandInt a; y = goOperandInt b
             in if operator = ''&'' then Some (Inr (Narrow w (VInt (x AND y))))
                else if operator = ''|'' then Some (Inr (Narrow w (VInt (x OR y))))
                else if operator = ''^'' then Some (Inr (Narrow w (VInt (x XOR y))))
                else if operator = ''<<''
                then (if sint y < 0 then Some (Inl negative_shift) else Some (Inr (Narrow w (VInt (shiftLeft x y)))))
                else if operator = ''>>''
                then (if sint y < 0 then Some (Inl negative_shift) else Some (Inr (Narrow w (VInt (shiftRight w x y)))))
                else None))"

definition goNegate :: "val \<Rightarrow> val option" where
  "goNegate v =
     (case GoWidthOf v of
        None \<Rightarrow> None
      | Some w \<Rightarrow>
          if w_Float w then Some (Narrow w (VFloat (f_neg (goOperandFloat v))))
          else Some (Narrow w (VInt (- goOperandInt v))))"

definition goBitNot :: "val \<Rightarrow> val option" where
  "goBitNot v =
     (case GoWidthOf v of
        None \<Rightarrow> None
      | Some w \<Rightarrow> if w_Float w then None else Some (Narrow w (VInt (NOT (goOperandInt v)))))"

section \<open>Arithmetic\<close>

definition isFloat :: "val \<Rightarrow> bool" where
  "isFloat v = (case v of VFloat f \<Rightarrow> True | _ \<Rightarrow> False)"

definition unionArrays :: "array \<Rightarrow> array \<Rightarrow> array" where
  "unionArrays left right =
     Array_Range right (\<lambda>key v out. (True, if Array_Get out key = None then Array_Set out key v else out))
       (Array_Range left (\<lambda>key v out. (True, Array_Set out key v))
         (NewArraySize (int (Array_Len left + Array_Len right))))"

text \<open>The square-and-multiply loop; \<open>None\<close> is the first product that leaves int64.\<close>

fun pow_loop :: "nat \<Rightarrow> i64 \<Rightarrow> i64 \<Rightarrow> i64 option" where
  "pow_loop e result sq =
     (if e = 0 then Some result
      else
        (case (if odd e then OverflowMulInt result sq else Some result) of
           None \<Rightarrow> None
         | Some r \<Rightarrow>
             if e = 1 then Some r
             else (case OverflowMulInt sq sq of None \<Rightarrow> None | Some s \<Rightarrow> pow_loop (e div 2) r s)))"

declare pow_loop.simps [simp del]

definition phpPow :: "runtime \<Rightarrow> val \<Rightarrow> val \<Rightarrow> val" where
  "phpPow R a b =
     (if isFloat a \<or> isFloat b then VFloat (r_pow R (toFloat_of a) (toFloat_of b))
      else
        (let base = toInt_of a; exponent = toInt_of b
         in if sint exponent < 0 then VFloat (r_pow R (of_i64 base) (of_i64 exponent))
            else (case pow_loop (nat (sint exponent)) 1 base of
                    Some r \<Rightarrow> VInt r
                  | None \<Rightarrow> VFloat (r_pow R (of_i64 base) (of_i64 exponent)))))"

text \<open>A numeric string operand is its number.\<close>

definition operand_number :: "val \<Rightarrow> val" where
  "operand_number v =
     (case v of VStr s \<Rightarrow> (case StringNumber s of Some n \<Rightarrow> n | None \<Rightarrow> v) | _ \<Rightarrow> v)"

definition phpNumberArith :: "runtime \<Rightarrow> string \<Rightarrow> val \<Rightarrow> val \<Rightarrow> goerr + val" where
  "phpNumberArith R operator a b =
     (if operator = ''%''
      then (if toInt_of b = 0 then Inl mod_by_zero else Inr (VInt (go_rem (toInt_of a) (toInt_of b))))
      else if operator = ''**'' then Inr (phpPow R a b)
      else if isFloat a \<or> isFloat b
      then
        (let x = toFloat_of a; y = toFloat_of b
         in if operator = ''+'' then Inr (VFloat (f_add x y))
            else if operator = ''-'' then Inr (VFloat (f_sub x y))
            else if operator = ''*'' then Inr (VFloat (f_mul x y))
            else if operator = ''/'' then (if f_eq y f_zero then Inl div_by_zero else Inr (VFloat (f_div x y)))
            else Inr (VFloat f_zero))
      else
        (let x = toInt_of a; y = toInt_of b
         in if operator = ''+'' then Inr (AddInt x y)
            else if operator = ''-'' then Inr (SubInt x y)
            else if operator = ''*'' then Inr (MulInt x y)
            else if operator = ''/'' then (if y = 0 then Inl div_by_zero else Inr (DivInt x y))
            else Inr (VInt 0)))"

definition array_at :: "heap \<Rightarrow> val \<Rightarrow> array option" where
  "array_at h v = (case v of VArray a \<Rightarrow> Some (ToArray h v) | _ \<Rightarrow> None)"

definition phpArith :: "runtime \<Rightarrow> string \<Rightarrow> heap \<Rightarrow> val \<Rightarrow> val \<Rightarrow> (goerr + val) \<times> heap" where
  "phpArith R operator h a b =
     (case (if operator = ''+'' then array_at h a else None, array_at h b) of
        (Some left, Some right) \<Rightarrow> (case new_array h (unionArrays left right) of (v, h') \<Rightarrow> (Inr v, h'))
      | _ \<Rightarrow>
          (case goArith R operator a b of
             Some r \<Rightarrow> (r, h)
           | None \<Rightarrow> (phpNumberArith R operator (operand_number a) (operand_number b), h)))"

section \<open>Bits\<close>

definition byte_at :: "string \<Rightarrow> nat \<Rightarrow> nat" where
  "byte_at s i = (if i < length s then of_char (s ! i) else 0)"

definition bitwiseString :: "string \<Rightarrow> string \<Rightarrow> string \<Rightarrow> string" where
  "bitwiseString operator a b =
     (let n = (if operator = ''|'' then max (length a) (length b) else min (length a) (length b))
      in map (\<lambda>i. char_of
           (if operator = ''&'' then byte_at a i AND byte_at b i
            else if operator = ''|'' then byte_at a i OR byte_at b i
            else byte_at a i XOR byte_at b i)) [0..<n])"

definition phpBitwise :: "string \<Rightarrow> val \<Rightarrow> val \<Rightarrow> goerr + val" where
  "phpBitwise operator a b =
     (if operator = ''&'' \<or> operator = ''|'' \<or> operator = ''^''
      then
        (case (a, b) of
           (VStr l, VStr r) \<Rightarrow> Inr (VStr (bitwiseString operator l r))
         | _ \<Rightarrow>
             (case goBitwise operator a b of
                Some r \<Rightarrow> r
              | None \<Rightarrow>
                  (let x = toInt_of a; y = toInt_of b
                   in Inr (VInt (if operator = ''&'' then x AND y else if operator = ''|'' then x OR y else x XOR y)))))
      else if operator = ''<<'' \<or> operator = ''>>''
      then
        (case goBitwise operator a b of
           Some r \<Rightarrow> r
         | None \<Rightarrow>
             (let x = toInt_of a; count = toInt_of b
              in if sint count < 0 then Inl negative_shift
                 else if operator = ''<<'' then Inr (VInt (push_bit (nat (sint count)) x))
                 else Inr (VInt (signed_drop_bit (nat (sint count)) x))))
      else Inl (ErrorString (''unsupported bitwise operator '' @ operator)))"

definition phpNegate :: "runtime \<Rightarrow> heap \<Rightarrow> val \<Rightarrow> val" where
  "phpNegate R h v =
     (case v of
        VFloat f \<Rightarrow> VFloat (f_neg f)
      | _ \<Rightarrow>
          (case goNegate v of
             Some negated \<Rightarrow> negated
           | None \<Rightarrow> (case fst (phpArith R ''-'' h (VInt 0) v) of Inr r \<Rightarrow> r | Inl e \<Rightarrow> VNil)))"

definition phpBitNot :: "val \<Rightarrow> val" where
  "phpBitNot v =
     (case v of
        VStr s \<Rightarrow> VStr (map (\<lambda>c. char_of (255 - of_char c :: nat)) s)
      | _ \<Rightarrow> (case goBitNot v of Some inverted \<Rightarrow> inverted | None \<Rightarrow> VInt (NOT (toInt_of v))))"

section \<open>The host's operators\<close>

definition helperConcat :: "runtime \<Rightarrow> val \<Rightarrow> val \<Rightarrow> string" where
  "helperConcat R a b = phpString (r_text R) a @ phpString (r_text R) b"

definition Binary :: "runtime \<Rightarrow> nat \<Rightarrow> string \<Rightarrow> heap \<Rightarrow> val \<Rightarrow> val \<Rightarrow> ((goerr + val) \<times> heap) option" where
  "Binary R n operator h left right =
     (if operator = ''.'' then Some (Inr (VStr (helperConcat R left right)), h)
      else if operator \<in> {''+'', ''-'', ''*'', ''/'', ''%'', ''**''} then Some (phpArith R operator h left right)
      else if operator \<in> {''&'', ''|'', ''^'', ''<<'', ''>>''} then Some (phpBitwise operator left right, h)
      else if operator = ''instanceof'' then Some (Inr (VBool (r_instanceOf R h left right)), h)
      else if operator \<in> {''=='', ''!='', ''==='', ''!=='', ''<'', ''<='', ''>'', ''>=''}
      then map_option (\<lambda>r. (Inr (VBool r), h)) (phpCompare R n h operator left right)
      else if operator = ''<=>'' then map_option (\<lambda>c. (Inr (VInt c), h)) (phpSpaceship n h left right)
      else if operator = ''&&'' then Some (Inr (VBool (phpTruthy h left \<and> phpTruthy h right)), h)
      else if operator = ''||'' then Some (Inr (VBool (phpTruthy h left \<or> phpTruthy h right)), h)
      else if operator = ''xor'' then Some (Inr (VBool (phpTruthy h left \<noteq> phpTruthy h right)), h)
      else Some (Inl (ErrorString (''unsupported binary operator '' @ operator)), h))"

definition Unary :: "runtime \<Rightarrow> string \<Rightarrow> heap \<Rightarrow> val \<Rightarrow> (goerr + val) \<times> heap" where
  "Unary R operator h v =
     (if operator = ''!'' then (Inr (VBool (\<not> phpTruthy h v)), h)
      else if operator = ''+'' then phpArith R ''+'' h (VInt 0) v
      else if operator = ''-'' then (Inr (phpNegate R h v), h)
      else if operator = ''~'' then (Inr (phpBitNot v), h)
      else (Inl (ErrorString (''unsupported unary operator '' @ operator)), h))"

end
