(* ===== verification/OperatorLaws.thy ===== *)
theory OperatorLaws
  imports Operators Cycle
begin

text \<open>
  What the operators promise: the engine's inlined shapes against the host's table, the exact
  powers, and the wrap of the typed numbers at their width.
\<close>

section \<open>The inlined operators\<close>

lemma compare_ints [simp]:
  "Compare (Suc n) h (VInt x) (VInt y) =
     Some (if sint x < sint y then - 1 else if sint y < sint x then 1 else 0)"
  by (simp add: compare_non_arrays_def null_string_def compare_scalars_def phpNumeric_def num_of_int_def compareNumbers_def compareBools_def)

lemma ints_ordered [simp]: "\<not> unordered (VInt x) (VInt y)"
  by (simp add: unordered_def isNaNValue_def)

lemma sint_eq_iff: "sint (x :: i64) = sint y \<longleftrightarrow> x = y"
  by (rule signed_word_eqI [THEN iffI]) simp_all

lemma i64_neq_iff: "(x :: i64) \<noteq> y \<longleftrightarrow> sint x < sint y \<or> sint y < sint x"
  using sint_eq_iff [of x y] by linarith

lemma i64_eq_iff: "(x :: i64) = y \<longleftrightarrow> \<not> sint x < sint y \<and> \<not> sint y < sint x"
  using i64_neq_iff by blast

lemma no_width [simp]: "goArith R operator (VInt x) (VInt y) = None"
  by (simp add: goArith_def goOperandWidth_def)

lemma int_operands [simp]: "phpArith R operator h (VInt x) (VInt y) = (phpNumberArith R operator (VInt x) (VInt y), h)"
  by (simp add: phpArith_def array_at_def operand_number_def)

lemma inlined_operators:
  "fast_ints (binOpClass operator) x y = Some v \<Longrightarrow>
   operator \<in> {''+'', ''-'', ''*'', ''/'', ''%'', ''<'', ''<='', ''>'', ''>='', ''=='', ''!='', ''==='', ''!==''}"
  by (rule ccontr) (simp add: binOpClass_def fast_ints_def split: if_splits)

lemma fast_ints_host:
  assumes "fast_ints (binOpClass operator) x y = Some v"
  shows "Binary R (Suc n) operator h (VInt x) (VInt y) = Some (Inr v, h)"
  using inlined_operators [OF assms] assms
  by (elim insertE emptyE)
    (simp_all add: fast_ints_def binOpClass_def Binary_def phpNumberArith_def toInt_of_def isFloat_def phpCompare_def
      int_pair_def ModInt_def del: Compare.simps split: if_splits, auto simp: i64_eq_iff [of x y])

lemma fast_concat_host:
  "fast_concat l r = Some v \<Longrightarrow> Binary R n ''.'' h l r = Some (Inr v, h)"
  by (cases l; cases r) (auto simp: fast_concat_def Binary_def helperConcat_def phpString_def)

lemma fastBinary_host:
  assumes "fastBinary (binOpClass operator) l r = Some v"
  shows "Binary R (Suc n) operator h l r = Some (Inr v, h)"
proof (cases "binOpClass operator = binConcat")
  case True
  then have "operator = ''.''" by (auto simp: binOpClass_def split: if_splits)
  then show ?thesis using assms True by (simp add: fastBinary_def fast_concat_host)
next
  case False
  then show ?thesis using assms
    by (cases l; cases r) (auto simp: fastBinary_def intro: fast_ints_host)
qed

text \<open>A host of the machine whose operators are these: each call answers at once, with the store it left.\<close>

definition host_operators :: "runtime \<Rightarrow> nat \<Rightarrow> 'w FullHost \<Rightarrow> bool" where
  "host_operators R n H \<longleftrightarrow>
     (\<forall>operator l r h w res h'. Binary R n operator h l r = Some (res, h') \<longrightarrow> h_Binary H operator l r h w = HReturn res h' w)"

text \<open>C12. The operators the bytecode machine evaluates inline are unobservable: for an instruction whose class
  the compiler resolved from its operator, the inlined shapes (int by int, string and int concatenations) give
  the value, the heap and the absence of an error that the host's own operator would have given.\<close>

theorem inlined_operator_unobservable:
  assumes "host_operators R (Suc n) H" and "i_b i = binOpClass (i_name i) \<or> i_b i = binNone"
  shows "binary_value p H i l r s = host_val p (h_Binary H (i_name i) l r) s"
proof (cases "if i_b i \<noteq> binNone then fastBinary (i_b i) l r else None")
  case None
  then show ?thesis by (simp add: binary_value_def)
next
  case (Some v)
  then have "fastBinary (binOpClass (i_name i)) l r = Some v" using assms(2) by (auto split: if_splits)
  from fastBinary_host [OF this]
  have "h_Binary H (i_name i) l r (st_heap s) (st_world s) = HReturn (Inr v) (st_heap s) (st_world s)"
    using assms(1) unfolding host_operators_def by blast
  then show ?thesis
    using Some by (simp add: binary_value_def host_val_def host_def mbind_def or_raise_def ret_def)
qed

section \<open>Powers\<close>

lemma product_exact: "OverflowMulInt x y = Some z \<Longrightarrow> sint z = sint x * sint y"
  unfolding OverflowMulInt_exact by (auto simp del: of_int_mult simp: sint_word_of_int split: if_splits)

lemma pow_loop_exact:
  "pow_loop e result sq = Some r \<Longrightarrow> sint r = sint result * sint sq ^ e"
proof (induction e result sq rule: pow_loop.induct)
  case (1 e result sq)
  show ?case
  proof (cases "e = 0")
    case True
    then show ?thesis using 1(2) by (simp add: pow_loop.simps)
  next
    case False
    obtain r' where r': "(if odd e then OverflowMulInt result sq else Some result) = Some r'"
      and rest: "(if e = 1 then Some r' else case OverflowMulInt sq sq of None \<Rightarrow> None | Some s \<Rightarrow> pow_loop (e div 2) r' s) = Some r"
      using 1(2) False by (subst (asm) pow_loop.simps) (auto split: option.splits)
    have first: "sint r' = (if odd e then sint result * sint sq else sint result)"
      using r' product_exact by (auto split: if_splits)
    show ?thesis
    proof (cases "e = 1")
      case True
      then show ?thesis using rest first by simp
    next
      case False
      then obtain s where s: "OverflowMulInt sq sq = Some s" "pow_loop (e div 2) r' s = Some r"
        using rest by (auto split: option.splits)
      have "sint s = sint sq * sint sq" by (rule product_exact [OF s(1)])
      moreover have "sint r = sint r' * sint s ^ (e div 2)"
        using 1(1) [OF \<open>e \<noteq> 0\<close> r' _ s(1,2)] False by simp
      ultimately have "sint r = sint r' * sint sq ^ (2 * (e div 2))" by (simp add: power_mult power2_eq_square)
      then show ?thesis
        using first by (cases "odd e") (simp_all add: mult.assoc power_Suc [symmetric] del: power_Suc)
    qed
  qed
qed

text \<open>C28. An integer power is exact or a float: where \<open>**\<close> on two ints answers an int, that int is the
  mathematical power, so no product of the square-and-multiply loop ever wraps; a negative exponent always
  goes to the float power.\<close>

theorem integer_power_exact:
  assumes "phpPow R (VInt base) (VInt exponent) = VInt r"
  shows "0 \<le> sint exponent \<and> sint r = sint base ^ nat (sint exponent)"
proof -
  have "\<not> sint exponent < 0 \<and> pow_loop (nat (sint exponent)) 1 base = Some r"
    using assms by (simp add: phpPow_def isFloat_def toInt_of_def split: if_splits option.splits)
  then show ?thesis using pow_loop_exact [of "nat (sint exponent)" 1 base r] by simp
qed

lemma power_witness_loop: "pow_loop 10 1 (2 :: i64) = Some 1024"
proof -
  have "OverflowMulInt 1 4 = Some (4 :: i64)" "OverflowMulInt 2 2 = Some (4 :: i64)" "OverflowMulInt 4 4 = Some (16 :: i64)"
    "OverflowMulInt 16 16 = Some (256 :: i64)" "OverflowMulInt 4 256 = Some (1024 :: i64)"
    unfolding OverflowMulInt_exact by (simp_all add: in_i64_def)
  note products = this
  have p1: "pow_loop 1 4 (256 :: i64) = Some 1024" by (subst pow_loop.simps) (simp add: products)
  have p2: "pow_loop 2 4 (16 :: i64) = Some 1024" by (subst pow_loop.simps) (simp add: products p1 [unfolded One_nat_def])
  have p5: "pow_loop 5 1 (4 :: i64) = Some 1024" by (subst pow_loop.simps) (simp add: products p2)
  show ?thesis by (subst pow_loop.simps) (simp add: products p5)
qed

theorem integer_power_exact_witness:
  "\<forall>R. phpPow R (VInt 2) (VInt 10) = VInt 1024 \<and> sint (1024 :: i64) = 2 ^ 10"
proof
  fix R
  have "phpPow R (VInt 2) (VInt 10) = VInt 1024"
    using power_witness_loop by (simp add: phpPow_def isFloat_def toInt_of_def)
  then show "phpPow R (VInt 2) (VInt 10) = VInt 1024 \<and> sint (1024 :: i64) = 2 ^ 10"
    using integer_power_exact [of R 2 10 1024] by simp
qed

section \<open>Typed numbers\<close>

lemma mod_dvd_cong: "n mod m = n' mod m \<Longrightarrow> d dvd m \<Longrightarrow> n mod d = n' mod (d :: int)"
  by (metis mod_mod_cancel)

lemma wrap_at_cong:
  assumes "w \<in> snd ` set goWidths" and "n mod 18446744073709551616 = n' mod 18446744073709551616"
  shows "wrap_at w n = wrap_at w n'"
proof -
  note cong = mod_dvd_cong [OF assms(2)]
  have "(n + k) mod d = (n' + k) mod d" if "d dvd 18446744073709551616" for d k
    using cong [OF that] by (metis mod_add_left_eq)
  note shifted = this
  have widths: "n mod 256 = n' mod 256" "n mod 65536 = n' mod 65536" "n mod 4294967296 = n' mod 4294967296"
    "(n + 128) mod 256 = (n' + 128) mod 256" "(n + 32768) mod 65536 = (n' + 32768) mod 65536"
    "(n + 2147483648) mod 4294967296 = (n' + 2147483648) mod 4294967296"
    by (rule cong shifted, simp)+
  show ?thesis by (rule goWidths_cases [OF assms(1)]) (simp_all add: wrap_at_def widths assms(2))
qed

text \<open>
  The number an operand stands for: a typed value its own; one of php's numbers the int64 it converts to, which an unsigned
  width reads as 64 unsigned bits.
\<close>

definition operand_value :: "GoWidth \<Rightarrow> val \<Rightarrow> int" where
  "operand_value w v =
     (case GoWidthOf v of
        Some w' \<Rightarrow> typed_int v
      | None \<Rightarrow> if w_Signed w then sint (Int_of v) else uint (Int_of v))"

definition exact_result :: "string \<Rightarrow> int \<Rightarrow> int \<Rightarrow> int" where
  "exact_result operator x y =
     (if operator = ''+'' then x + y
      else if operator = ''-'' then x - y
      else if operator = ''*'' then x * y
      else if operator = ''/'' then x sdiv y
      else x smod y)"

lemma operand_value_bits:
  assumes "GoWidthOf v = Some w \<or> GoWidthOf v = None" and "\<not> w_Float w"
  shows "operand_value w v = (if w_Signed w then sint (goOperandInt v) else uint (goOperandInt v))"
proof -
  have "sint (scast (x :: 8 word) :: i64) = sint x" "sint (scast (y :: 16 word) :: i64) = sint y"
    "sint (scast (z :: 32 word) :: i64) = sint z" for x y z
    by (simp_all add: sint_up_scast is_up)
  moreover have "uint (ucast (x :: 8 word) :: i64) = uint x" "uint (ucast (y :: 16 word) :: i64) = uint y"
    "uint (ucast (z :: 32 word) :: i64) = uint z" for x y z
    by (simp_all add: uint_up_ucast is_up)
  ultimately show ?thesis
    using assms by (cases v) (auto simp: operand_value_def goOperandInt_def)
qed

lemma exact_words:
  "x + y = (word_of_int (sint x + sint y) :: i64)" "x + y = (word_of_int (uint x + uint y) :: i64)"
  "x - y = (word_of_int (sint x - sint y) :: i64)" "x - y = (word_of_int (uint x - uint y) :: i64)"
  "x * y = (word_of_int (sint x * sint y) :: i64)" "x * y = (word_of_int (uint x * uint y) :: i64)"
  "x div y = (word_of_int (uint x sdiv uint y) :: i64)" "x mod y = (word_of_int (uint x smod uint y) :: i64)"
proof -
  have "n sdiv m = n div m" if "0 \<le> n" "0 \<le> m" for n m :: int
    using that by (cases "n = 0"; cases "m = 0") (auto simp: signed_divide_int_def sgn_if)
  moreover from this have "n smod m = n mod m" if "0 \<le> n" "0 \<le> m" for n m :: int
    using that by (cases "n = 0") (auto simp: signed_modulo_int_def sgn_if minus_div_mult_eq_mod)
  ultimately show "x div y = (word_of_int (uint x sdiv uint y) :: i64)" "x mod y = (word_of_int (uint x smod uint y) :: i64)"
    by (simp_all add: word_div_def word_mod_def)
qed simp_all

lemma sint_word_mod: "sint (word_of_int k :: i64) mod 18446744073709551616 = k mod 18446744073709551616"
  using uint_i64 [of "word_of_int k"] uint_word_of_int [of k, where ?'a = 64] by simp

text \<open>The carrier of a result at a width is the exact result cut to 64 bits.\<close>

lemma goArith_exact:
  assumes "goOperandWidth operator a b = Some (Inr w)" and "\<not> w_Float w"
    and "operator \<in> {''+'', ''-'', ''*'', ''/'', ''%''}"
    and "GoWidthOf a = Some w \<or> GoWidthOf a = None" and "GoWidthOf b = Some w \<or> GoWidthOf b = None"
  shows "goArith R operator a b =
    (if operator = ''/'' \<and> operand_value w b = 0 then Some (Inl div_by_zero)
     else if operator = ''%'' \<and> operand_value w b = 0 then Some (Inl mod_by_zero)
     else Some (Inr (Narrow w (VInt (word_of_int (exact_result operator (operand_value w a) (operand_value w b)))))))"
proof (cases "w_Signed w")
  case True
  note v = operand_value_bits [OF assms(4,2)] operand_value_bits [OF assms(5,2)]
  have "goArith R operator a b = goSignedArith R operator w a b" using assms(1,2) True by (simp add: goArith_def)
  then show ?thesis
    using assms(3) True unfolding v
    by (auto simp: goSignedArith_def Let_def exact_result_def go_quot_def go_rem_def signed_eq_0_iff simp flip: exact_words(1,3,5))
next
  case False
  note v = operand_value_bits [OF assms(4,2)] operand_value_bits [OF assms(5,2)]
  have "goArith R operator a b = goUnsignedArith R operator w a b" using assms(1,2) False by (simp add: goArith_def)
  then show ?thesis
    using assms(3) False unfolding v
    by (auto simp: goUnsignedArith_def Let_def exact_result_def uint_0_iff simp flip: exact_words(2,4,6,7,8))
qed

text \<open>C21. Integer arithmetic at a Go width, the operators \<open>+\<close>, \<open>-\<close>, \<open>*\<close>, \<open>/\<close> and \<open>%\<close>: for two operands
  of one integer type, or one of them and one of php's own numbers, the answer is a value of that type, holding the exact
  sum, difference, product, quotient (truncated toward zero) or remainder wrapped at its width; a zero divisor is the
  error of its operator. Two different types are refused by any operator. Left out are \<open>**\<close>, which goes through
  floats, and the float width.\<close>

theorem typed_arithmetic_wraps:
  assumes "GoWidthOf a = Some w \<and> GoWidthOf b \<in> {Some w, None} \<or> GoWidthOf a = None \<and> GoWidthOf b = Some w"
    and "\<not> w_Float w" and "operator \<in> {''+'', ''-'', ''*'', ''/'', ''%''}"
    and "GoWidthOf c = Some w'" and "w_Name w' \<noteq> w_Name w" and "GoWidthOf d = Some w"
  shows "(if operator \<in> {''/'', ''%''} \<and> operand_value w b = 0
      then goArith R operator a b = Some (Inl (if operator = ''/'' then div_by_zero else mod_by_zero))
      else \<exists>v. goArith R operator a b = Some (Inr v) \<and> GoWidthOf v = Some w \<and>
        typed_int v = wrap_at w (exact_result operator (operand_value w a) (operand_value w b))) \<and>
    goArith R operator c d = Some (Inl (types_refused (w_Name w') operator (w_Name w)))"
proof -
  let ?n = "exact_result operator (operand_value w a) (operand_value w b)"
  have w: "w \<in> snd ` set goWidths" using assms(6) by (rule GoWidthOf_in_goWidths)
  have "goOperandWidth operator a b = Some (Inr w)" using assms(1) by (auto simp: goOperandWidth_def)
  note arith = goArith_exact [OF this assms(2,3)]
  have "typed_int (Narrow w (VInt (word_of_int ?n))) = wrap_at w ?n"
    using typed_int_Narrow [OF w assms(2), of "VInt (word_of_int ?n)"] wrap_at_cong [OF w sint_word_mod [of ?n]]
    by (simp add: toInt_def)
  moreover have "goArith R operator c d = Some (Inl (types_refused (w_Name w') operator (w_Name w)))"
    using assms(4-6) by (simp add: goArith_def goOperandWidth_def)
  ultimately show ?thesis using arith assms(1,3) GoWidthOf_Narrow [OF w] by auto
qed

theorem typed_arithmetic_wraps_witness:
  "\<forall>R. (\<exists>v. goArith R ''+'' (VInt8 100) (VInt8 100) = Some (Inr v) \<and> typed_int v = - 56) \<and>
     (\<exists>v. goArith R ''/'' (VInt8 (- 128)) (VInt (- 1)) = Some (Inr v) \<and> typed_int v = - 128) \<and>
     goArith R ''%'' (VInt8 100) (VInt8 0) = Some (Inl mod_by_zero)"
proof
  fix R
  let ?w = "\<lparr>w_Name = ''int8'', w_Bits = 8, w_Signed = True, w_Float = False\<rparr>"
  let ?w' = "\<lparr>w_Name = ''uint8'', w_Bits = 8, w_Signed = False, w_Float = False\<rparr>"
  have w: "GoWidthOf (VInt8 x) = Some ?w" "GoWidthOf (VUint8 0) = Some ?w'" for x by (simp_all add: goWidths_def)
  note law = typed_arithmetic_wraps [where w = ?w and d = "VInt8 0", OF _ _ _ w(2) _ w(1)]
  show "(\<exists>v. goArith R ''+'' (VInt8 100) (VInt8 100) = Some (Inr v) \<and> typed_int v = - 56) \<and>
     (\<exists>v. goArith R ''/'' (VInt8 (- 128)) (VInt (- 1)) = Some (Inr v) \<and> typed_int v = - 128) \<and>
     goArith R ''%'' (VInt8 100) (VInt8 0) = Some (Inl mod_by_zero)"
    using law [of "VInt8 100" "VInt8 100" "''+''" R] law [of "VInt8 (- 128)" "VInt (- 1)" "''/''" R]
      law [of "VInt8 100" "VInt8 0" "''%''" R] w
    by (auto simp: exact_result_def wrap_at_def operand_value_def Int_of_def)
qed

section \<open>A host with these operators\<close>

definition plain_runtime :: runtime where
  "plain_runtime = \<lparr>r_text = \<lambda>e. ''error'', r_pow = \<lambda>x y. f_zero, r_deepEqual = \<lambda>h a b. a = b, r_instanceOf = \<lambda>h a b. False\<rparr>"

definition operators_host :: "'w FullHost \<Rightarrow> 'w FullHost" where
  "operators_host H = H\<lparr>h_Binary := \<lambda>operator l r h w.
     (case Binary plain_runtime 1 operator h l r of
        Some (res, h') \<Rightarrow> HReturn res h' w
      | None \<Rightarrow> HReturn (Inl (HostError 0)) h w)\<rparr>"

theorem inlined_operator_unobservable_witness:
  "\<forall>(H :: unit FullHost) p s. binary_value p (operators_host H) ((instr OpBinary)\<lparr>i_name := ''+'', i_b := binAdd\<rparr>) (VInt 2) (VInt 3) s
     = host_val p (h_Binary (operators_host H) ''+'' (VInt 2) (VInt 3)) s"
proof (intro allI)
  fix H :: "unit FullHost" and p s
  have "host_operators plain_runtime (Suc 0) (operators_host H)"
    by (simp add: host_operators_def operators_host_def)
  from inlined_operator_unobservable [OF this, of "(instr OpBinary)\<lparr>i_name := ''+'', i_b := binAdd\<rparr>" p "VInt 2" "VInt 3" s]
  show "binary_value p (operators_host H) ((instr OpBinary)\<lparr>i_name := ''+'', i_b := binAdd\<rparr>) (VInt 2) (VInt 3) s
     = host_val p (h_Binary (operators_host H) ''+'' (VInt 2) (VInt 3)) s"
    by (simp add: binOpClass_def)
qed

end
