(* ===== verification/Syntax.thy ===== *)
theory Syntax
  imports Bytecode
begin

text \<open>
  \<open>model/ast.go\<close>: the tree the parser builds and the two engines consume. A node keeps the fields
  that decide what a program does; spellings, visibilities, source lines and the like, which the
  source keeps for printing, are left out. A pointer that may be nil is an option. \<open>For\<close> with no
  init and no post is a \<open>while\<close>. A \<open>StaticVar\<close> carries the identity of its node, which keys its
  storage.
\<close>

section \<open>Nodes\<close>

datatype 'e param =
  Param (pm_Name: string) (pm_Default: "'e option") (pm_ByRef: bool) (pm_Variadic: bool)

datatype 'e field = Field (fd_Name: string) (fd_Default: "'e option")

datatype 's catch = Catch (ct_Type: string) (ct_Var: string) (ct_Body: "'s list")

datatype ('e, 's) switch_case = SwitchCase (sc_Value: 'e) (sc_Body: "'s list")

datatype ('e, 's) func_decl =
  FuncDecl (fn_Class: string) (fn_Name: string) (fn_Params: "'e param list") (fn_Body: "'s list") (fn_Static: bool)

datatype ('e, 's) class_decl =
  ClassDecl (cd_Name: string) (cd_Implements: "string list") (cd_Fields: "'e field list")
    (cd_Statics: "'e field list") (cd_Consts: "'e field list") (cd_Methods: "('e, 's) func_decl list")

datatype ('e, 's) interface_decl =
  InterfaceDecl (id_Name: string) (id_Extends: "string list") (id_Consts: "'e field list")
    (id_Methods: "('e, 's) func_decl list")

datatype expr =
    Lit val
  | Interp "expr list"
  | Var string bool
  | ArrayLit "(expr option \<times> expr) list"
  | IndexExpr expr "expr option"
  | PropAccess expr string "expr option"
  | CallExpr string string "expr list" bool
  | MethodCall expr string "expr option" "expr list" bool
  | New string "expr option" "expr list" "(expr, stmt) class_decl option"
  | Ref expr
  | UnaryExpr string expr bool
  | Parenthesized expr
  | BinaryExpr string expr expr
  | Ternary expr "expr option" expr
  | Coalesce expr expr bool
  | ClassConst string string
  | StaticCall string string "expr option" "expr list" bool
  | StaticProp string string
  | InvokeExpr expr "expr list" bool
  | CastExpr string expr
  | Closure "expr param list" "(string \<times> bool) list" "stmt list" bool
  | AssignExpr expr string expr
  | ListExpr "expr option list"
  | IncludeExpr expr string bool
and stmt =
    InlineHTML string
  | EchoStmt "expr list"
  | ExprStmt expr
  | Assign expr string expr
  | IfStmt expr "stmt list" "stmt list"
  | Foreach expr "expr option" "expr option" bool string string "stmt list"
  | For "stmt option" "expr option" "stmt option" "stmt list"
  | DoWhile "stmt list" expr
  | ReturnStmt "expr option"
  | IncludeStmt expr string bool
  | FuncDeclStmt "(expr, stmt) func_decl"
  | ClassDeclStmt "(expr, stmt) class_decl"
  | InterfaceDeclStmt "(expr, stmt) interface_decl"
  | UseStmt
  | Declare "stmt list"
  | UnsetStmt "expr list"
  | StaticVar nat "(string \<times> expr option) list"
  | Global "string list"
  | ConstDecl "expr field list"
  | ThrowStmt expr
  | Try "stmt list" "stmt catch list" "stmt list"
  | Switch expr "(expr, stmt) switch_case list" "stmt list"
  | Break
  | Continue

text \<open>\<open>Program.AnonClasses\<close> holds the classes written inside expressions.\<close>

record ast =
  ast_Stmts :: "stmt list"
  ast_AnonClasses :: "(expr, stmt) class_decl list"

fun UnwrapParenthesized :: "expr \<Rightarrow> expr" where
  "UnwrapParenthesized (Parenthesized x) = UnwrapParenthesized x"
| "UnwrapParenthesized e = e"

section \<open>Sizes\<close>

text \<open>What a recursion over the tree needs to know of the sizes of parts inside lists and options.\<close>

lemma size_unwrap [termination_simp]: "size (UnwrapParenthesized e) \<le> size e"
  by (induction e rule: UnwrapParenthesized.induct) auto

lemma size_unwrapped: "UnwrapParenthesized e = e' \<Longrightarrow> size e' \<le> size e"
  using size_unwrap by blast

lemma size_member: "x \<in> set xs \<Longrightarrow> f x \<le> size_list f xs"
  by (induction xs) auto

lemma size_in_list [termination_simp]:
  "x \<in> set xs \<Longrightarrow> size x < Suc (size_list size xs)"
  using size_member [of x xs size] by simp

end
