(* ===== verification/Emit.thy ===== *)
theory Emit
  imports Syntax "HOL-Library.Monad_Syntax"
begin

text \<open>
  The state of \<open>flatstack/engine/program_compiler.go\<close> and what its methods do to it besides
  walking the tree: emitting an instruction, adding a constant, naming a slot, patching a jump.

  A rejected program is \<open>None\<close>; the text of the rejection, which names the path of the node, is not
  modelled. The loops of the compiler are kept beside the rest of its state: only statements
  read them, and the write-back a loop carries is a function on the rest.
\<close>

section \<open>State\<close>

record class_info =
  ci_Name :: string
  ci_Implements :: "string list"
  ci_Fields :: "expr field list"
  ci_Statics :: "expr field list"
  ci_Consts :: "expr field list"
  ci_Methods :: "(string \<times> (expr, stmt) func_decl) list"

record compiler =
  c_program :: Program
  c_classes :: "class_info list"
  c_locals :: "(string \<times> nat) list"
  c_class :: string
  c_nextIter :: nat
  c_statics :: "(string \<times> int) list option"
  c_inClosure :: bool

type_synonym code = "compiler \<Rightarrow> compiler option"

record loopContext =
  l_breaks :: "int list"
  l_continues :: "int list"
  l_continueTarget :: int
  l_writeBack :: "code option"

text \<open>The innermost loop comes first.\<close>

type_synonym block_state = "loopContext list \<times> compiler"

definition empty_program :: Program where
  "empty_program =
     \<lparr>p_code = [], p_constants = [], p_localNames = [], p_nameSlots = [], p_userFuncs = [],
      p_userFuncsFold = [], p_catchGroups = [], p_closures = []\<rparr>"

definition new_compiler :: compiler where
  "new_compiler =
     \<lparr>c_program = empty_program, c_classes = [], c_locals = [], c_class = '''', c_nextIter = 0,
      c_statics = None, c_inClosure = False\<rparr>"

section \<open>Emitting\<close>

definition here :: "compiler \<Rightarrow> int" where
  "here c = int (length (p_code (c_program c)))"

definition put :: "instruction \<Rightarrow> compiler \<Rightarrow> compiler" where
  "put i c = c\<lparr>c_program := (c_program c)\<lparr>p_code := p_code (c_program c) @ [i]\<rparr>\<rparr>"

definition emit :: "instruction \<Rightarrow> compiler \<Rightarrow> int \<times> compiler" where
  "emit i c = (here c, put i c)"

definition pool_constant :: "val \<Rightarrow> compiler \<Rightarrow> int \<times> compiler" where
  "pool_constant v c =
     (int (length (p_constants (c_program c))),
      c\<lparr>c_program := (c_program c)\<lparr>p_constants := p_constants (c_program c) @ [v]\<rparr>\<rparr>)"

definition slot :: "string \<Rightarrow> compiler \<Rightarrow> int \<times> compiler" where
  "slot name c =
     (case map_of (c_locals c) name of
        Some n \<Rightarrow> (int n, c)
      | None \<Rightarrow>
          (let n = length (p_localNames (c_program c))
           in (int n,
               c\<lparr>c_locals := AList.update name n (c_locals c),
                 c_program := (c_program c)\<lparr>p_localNames := p_localNames (c_program c) @ [name]\<rparr>\<rparr>)))"

definition staticSlot :: "string \<Rightarrow> compiler \<Rightarrow> int option" where
  "staticSlot name c = (case c_statics c of None \<Rightarrow> None | Some statics \<Rightarrow> map_of statics name)"

text \<open>\<open>c.program.code[x].target = t\<close> and the same for the field b, at an index \<open>emit\<close> answered.\<close>

definition edit :: "int \<Rightarrow> (instruction \<Rightarrow> instruction) \<Rightarrow> compiler \<Rightarrow> compiler" where
  "edit x f c =
     c\<lparr>c_program := (c_program c)\<lparr>p_code := (p_code (c_program c))[nat x := f (p_code (c_program c) ! nat x)]\<rparr>\<rparr>"

definition patch :: "int \<Rightarrow> int \<Rightarrow> compiler \<Rightarrow> compiler" where
  "patch x t = edit x (\<lambda>i. i\<lparr>i_target := t\<rparr>)"

definition patch_b :: "int \<Rightarrow> int \<Rightarrow> compiler \<Rightarrow> compiler" where
  "patch_b x t = edit x (\<lambda>i. i\<lparr>i_b := t\<rparr>)"

abbreviation patches :: "int list \<Rightarrow> int \<Rightarrow> compiler \<Rightarrow> compiler" where
  "patches xs t c \<equiv> fold (\<lambda>x. patch x t) xs c"

text \<open>The composite literals the compiler emits over and over.\<close>

definition push_const :: "val \<Rightarrow> compiler \<Rightarrow> compiler" where
  "push_const v c = (let (k, c) = pool_constant v c in put ((instr OpPushConst)\<lparr>i_a := k\<rparr>) c)"

definition load :: "int \<Rightarrow> compiler \<Rightarrow> compiler" where
  "load k = put ((instr OpLoad)\<lparr>i_a := k\<rparr>)"

definition store :: "int \<Rightarrow> compiler \<Rightarrow> compiler" where
  "store k = put ((instr OpStore)\<lparr>i_a := k\<rparr>)"

definition emit_jump :: "opcode \<Rightarrow> compiler \<Rightarrow> int \<times> compiler" where
  "emit_jump op = emit ((instr op)\<lparr>i_target := - 1\<rparr>)"

definition boolInt :: "bool \<Rightarrow> int" where
  "boolInt b = (if b then 1 else 0)"

definition slot_name :: "string \<Rightarrow> nat \<Rightarrow> string" where
  "slot_name what n = CHR 0x00 # what @ dec_digits (int n)"

definition resolveClass :: "string \<Rightarrow> compiler \<Rightarrow> string option" where
  "resolveClass name c =
     (if name = ''self'' \<or> name = ''static''
      then Some (if c_class c \<noteq> '''' then c_class c else name)
      else if name = ''parent'' then None
      else Some name)"

text \<open>A range over a list whose body may reject the program.\<close>

fun seq :: "('a \<Rightarrow> 's \<Rightarrow> 's option) \<Rightarrow> 'a list \<Rightarrow> 's \<Rightarrow> 's option" where
  "seq f [] s = Some s"
| "seq f (x # xs) s = do { s \<leftarrow> f x s; seq f xs s }"

lemma seq_cong [fundef_cong]:
  assumes "xs = ys" and "\<And>x s. x \<in> set ys \<Longrightarrow> f x s = g x s"
  shows "seq f xs = seq g ys"
proof
  fix s
  have "seq f ys s = seq g ys s" using assms(2) by (induction ys arbitrary: s) (auto intro!: bind_option_cong)
  then show "seq f xs s = seq g ys s" using assms(1) by simp
qed

section \<open>Parts of nodes\<close>

text \<open>\<open>strings.EqualFold\<close> against an ASCII name: the only runes outside ASCII that fold into it are the
  long s and the Kelvin sign.\<close>

fun fold_ascii :: "string \<Rightarrow> string" where
  "fold_ascii (a # b # c # s) =
     (if a = CHR 0xE2 \<and> b = CHR 0x84 \<and> c = CHR 0xAA then CHR ''k'' # fold_ascii s
      else if a = CHR 0xC5 \<and> b = CHR 0xBF then CHR ''s'' # fold_ascii (c # s)
      else to_lower a # fold_ascii (b # c # s))"
| "fold_ascii [a, b] = (if a = CHR 0xC5 \<and> b = CHR 0xBF then ''s'' else [to_lower a, to_lower b])"
| "fold_ascii s = map to_lower s"

definition callNames :: "string \<Rightarrow> string \<Rightarrow> string \<Rightarrow> bool" where
  "callNames name fallback fn \<longleftrightarrow>
     (let trim = (\<lambda>s. case s of [] \<Rightarrow> [] | ch # rest \<Rightarrow> if ch = CHR 0x5C then rest else s)
      in fold_ascii (trim name) = fn \<or> fold_ascii (trim fallback) = fn)"

definition byRefArgs :: "(string \<times> nat list) list" where
  "byRefArgs =
     [(''preg_match_all'', [2]), (''preg_match'', [2]), (''preg_replace_callback'', [4]), (''parse_str'', [1]),
      (''exec'', [2]), (''system'', [1]), (''passthru'', [1])]"

definition ByRefArg :: "string \<Rightarrow> string \<Rightarrow> nat \<Rightarrow> bool" where
  "ByRefArg name fallback index =
     (case map_of byRefArgs name of
        Some refs \<Rightarrow> index \<in> set refs
      | None \<Rightarrow> (case map_of byRefArgs fallback of Some refs \<Rightarrow> index \<in> set refs | None \<Rightarrow> False))"

end
