(* ===== verification/Assigns.thy ===== *)
theory Assigns
  imports Syntax
begin

text \<open>
  The end of \<open>model/copy.go\<close>: whether the body of a by-value \<open>foreach\<close> writes through the loop
  variable, which decides whether the loop copies each element.
\<close>

section \<open>Sizes\<close>

lemma size_catch_body:
  "c \<in> set cs \<Longrightarrow> s \<in> set (ct_Body c) \<Longrightarrow> size s < size_list (size_catch size) cs"
  using size_member [of c cs "size_catch size"] size_member [of s "ct_Body c" size] by (cases c) auto

lemma size_case_body:
  "c \<in> set cs \<Longrightarrow> s \<in> set (sc_Body c) \<Longrightarrow> size s < size_list (size_switch_case size size) cs"
  using size_member [of c cs "size_switch_case size size"] size_member [of s "sc_Body c" size] by (cases c) auto

section \<open>Definitions\<close>

function RootName :: "expr \<Rightarrow> string" where
  "RootName e =
     (case UnwrapParenthesized e of
        Var name const \<Rightarrow> if const then '''' else name
      | IndexExpr base index \<Rightarrow> RootName base
      | PropAccess base name nameExpr \<Rightarrow> RootName base
      | _ \<Rightarrow> '''')"
  by pat_completeness auto

termination
  by (relation "measure size") (auto dest!: size_unwrapped)

declare RootName.simps [simp del]

definition listAssignsTo :: "expr \<Rightarrow> string \<Rightarrow> bool" where
  "listAssignsTo target root \<longleftrightarrow>
     (case UnwrapParenthesized target of
        ListExpr elems \<Rightarrow> (\<exists>el \<in> set elems. case el of None \<Rightarrow> False | Some e \<Rightarrow> RootName e = root)
      | _ \<Rightarrow> False)"

definition callWritesBack :: "expr list \<Rightarrow> string \<Rightarrow> bool" where
  "callWritesBack args root \<longleftrightarrow>
     (\<exists>arg \<in> set args. case UnwrapParenthesized arg of Var name const \<Rightarrow> \<not> const \<and> name = root | _ \<Rightarrow> False)"

fun exprAssignsTo :: "expr \<Rightarrow> string \<Rightarrow> bool" where
  "exprAssignsTo (AssignExpr target op value) root \<longleftrightarrow>
     RootName target = root \<or> listAssignsTo target root \<or> exprAssignsTo value root"
| "exprAssignsTo (UnaryExpr op x postfix) root \<longleftrightarrow>
     (op = ''++'' \<or> op = ''--'') \<and> RootName x = root \<or> exprAssignsTo x root"
| "exprAssignsTo (Parenthesized x) root \<longleftrightarrow> exprAssignsTo x root"
| "exprAssignsTo (BinaryExpr op left right) root \<longleftrightarrow> exprAssignsTo left root \<or> exprAssignsTo right root"
| "exprAssignsTo (Interp parts) root \<longleftrightarrow> (\<exists>x \<in> set parts. exprAssignsTo x root)"
| "exprAssignsTo (Coalesce left right assign) root \<longleftrightarrow> exprAssignsTo left root \<or> exprAssignsTo right root"
| "exprAssignsTo (Ternary cond thn els) root \<longleftrightarrow>
     exprAssignsTo cond root \<or> (\<exists>x \<in> set_option thn. exprAssignsTo x root) \<or> exprAssignsTo els root"
| "exprAssignsTo (CastExpr typ x) root \<longleftrightarrow> exprAssignsTo x root"
| "exprAssignsTo (IndexExpr base index) root \<longleftrightarrow>
     exprAssignsTo base root \<or> (\<exists>x \<in> set_option index. exprAssignsTo x root)"
| "exprAssignsTo (PropAccess base name nameExpr) root \<longleftrightarrow>
     exprAssignsTo base root \<or> (\<exists>x \<in> set_option nameExpr. exprAssignsTo x root)"
| "exprAssignsTo (MethodCall base name nameExpr args first) root \<longleftrightarrow>
     exprAssignsTo base root \<or> (\<exists>x \<in> set args. exprAssignsTo x root)"
| "exprAssignsTo (CallExpr name fallback args first) root \<longleftrightarrow>
     (\<exists>x \<in> set args. exprAssignsTo x root) \<or> callWritesBack args root"
| "exprAssignsTo (StaticCall class name nameExpr args first) root \<longleftrightarrow> (\<exists>x \<in> set args. exprAssignsTo x root)"
| "exprAssignsTo (InvokeExpr callee args first) root \<longleftrightarrow>
     exprAssignsTo callee root \<or> (\<exists>x \<in> set args. exprAssignsTo x root)"
| "exprAssignsTo (New class classExpr args decl) root \<longleftrightarrow> (\<exists>x \<in> set args. exprAssignsTo x root)"
| "exprAssignsTo (ArrayLit items) root \<longleftrightarrow>
     (\<exists>(k, v) \<in> set items. (\<exists>x \<in> set_option k. exprAssignsTo x root) \<or> exprAssignsTo v root)"
| "exprAssignsTo (ListExpr elems) root \<longleftrightarrow> (\<exists>el \<in> set elems. \<exists>x \<in> set_option el. exprAssignsTo x root)"
| "exprAssignsTo (Closure params uses body static) root \<longleftrightarrow> False"
| "exprAssignsTo (IncludeExpr path keyword once) root \<longleftrightarrow> True"
| "exprAssignsTo e root \<longleftrightarrow> False"


definition root_is :: "expr option \<Rightarrow> string \<Rightarrow> bool" where
  "root_is target root \<longleftrightarrow> (case target of None \<Rightarrow> root = '''' | Some e \<Rightarrow> RootName e = root)"

function (sequential) stmtAssignsTo :: "stmt \<Rightarrow> string \<Rightarrow> bool" where
  "stmtAssignsTo (Assign target op value) root \<longleftrightarrow>
     RootName target = root \<or> listAssignsTo target root \<or> exprAssignsTo value root"
| "stmtAssignsTo (ExprStmt x) root \<longleftrightarrow> exprAssignsTo x root"
| "stmtAssignsTo (EchoStmt args) root \<longleftrightarrow> (\<exists>x \<in> set args. exprAssignsTo x root)"
| "stmtAssignsTo (IfStmt cond thn els) root \<longleftrightarrow>
     exprAssignsTo cond root \<or> (\<exists>s \<in> set thn. stmtAssignsTo s root) \<or> (\<exists>s \<in> set els. stmtAssignsTo s root)"
| "stmtAssignsTo (For init cond post body) root \<longleftrightarrow>
     (\<exists>s \<in> set_option init. stmtAssignsTo s root) \<or> (\<exists>x \<in> set_option cond. exprAssignsTo x root) \<or>
     (\<exists>s \<in> set_option post. stmtAssignsTo s root) \<or> (\<exists>s \<in> set body. stmtAssignsTo s root)"
| "stmtAssignsTo (Foreach source keyTarget valTarget byRef keyVar valVar body) root \<longleftrightarrow>
     root_is valTarget root \<or> root_is keyTarget root \<or> valVar = root \<or> keyVar = root \<or>
     exprAssignsTo source root \<or> (\<exists>s \<in> set body. stmtAssignsTo s root)"
| "stmtAssignsTo (Switch cond cases rest) root \<longleftrightarrow>
     exprAssignsTo cond root \<or> (\<exists>s \<in> set rest. stmtAssignsTo s root) \<or>
     (\<exists>c \<in> set cases. exprAssignsTo (sc_Value c) root \<or> (\<exists>s \<in> set (sc_Body c). stmtAssignsTo s root))"
| "stmtAssignsTo (Try body catches final) root \<longleftrightarrow>
     (\<exists>s \<in> set body. stmtAssignsTo s root) \<or> (\<exists>s \<in> set final. stmtAssignsTo s root) \<or>
     (\<exists>c \<in> set catches. ct_Var c = root \<or> (\<exists>s \<in> set (ct_Body c). stmtAssignsTo s root))"
| "stmtAssignsTo (ReturnStmt value) root \<longleftrightarrow> (\<exists>x \<in> set_option value. exprAssignsTo x root)"
| "stmtAssignsTo (ThrowStmt x) root \<longleftrightarrow> exprAssignsTo x root"
| "stmtAssignsTo (UnsetStmt targets) root \<longleftrightarrow> (\<exists>t \<in> set targets. RootName t = root)"
| "stmtAssignsTo (IncludeStmt path keyword once) root \<longleftrightarrow> True"
| "stmtAssignsTo s root \<longleftrightarrow> False"
  by pat_completeness auto

termination
  by (relation "measure (\<lambda>(s, root). size s)")
    (auto dest: size_in_list size_catch_body size_case_body simp: less_Suc_eq_le)

definition AssignsTo :: "expr \<Rightarrow> stmt list \<Rightarrow> bool" where
  "AssignsTo target body \<longleftrightarrow>
     (let root = RootName target in root = '''' \<or> (\<exists>s \<in> set body. stmtAssignsTo s root))"

end
