(* ===== verification/Compiler.thy ===== *)
theory Compiler
  imports Emit Assigns
begin

text \<open>
  \<open>flatstack/engine/program_compiler.go\<close> and \<open>program_assign.go\<close>: the translation of the tree into
  bytecode. The five functions recurse as the methods of the same names do; a part a method
  compiles is passed to a helper as the function that compiles it.
\<close>

section \<open>Helpers\<close>

definition binary :: "string \<Rightarrow> code \<Rightarrow> code \<Rightarrow> expr \<Rightarrow> code" where
  "binary name left right operand c =
     (let op = (if name = ''and'' then ''&&'' else if name = ''or'' then ''||'' else name)
      in if op = ''&&'' \<or> op = ''||'' then do {
           c \<leftarrow> left c;
           let (branch, c) = emit_jump (if op = ''||'' then OpJumpTrue else OpJumpFalse) c;
           c \<leftarrow> right c;
           let (end, c) = emit_jump OpJump (put (instr OpTruthy) c);
           let c = push_const (VBool (op = ''||'')) (patch branch (here c) c);
           Some (patch end (here c) c) }
         else if op = ''instanceof'' then do {
           c \<leftarrow> left c;
           c \<leftarrow> (case UnwrapParenthesized operand of
                  Var class const \<Rightarrow> if const then Some (push_const (VStr class) c) else right c
                | _ \<Rightarrow> right c);
           Some (put ((instr OpBinary)\<lparr>i_b := binOpClass name, i_name := name\<rparr>) c) }
         else if op \<in> {''.'', ''+'', ''-'', ''*'', ''/'', ''%'', ''**'', ''=='', ''!='', ''==='', ''!=='', ''<'',
                       ''<='', ''>'', ''>='', ''&'', ''|'', ''^'', ''<<'', ''>>'', ''<=>'', ''xor''} then do {
           c \<leftarrow> left c;
           c \<leftarrow> right c;
           Some (put ((instr OpBinary)\<lparr>i_b := binOpClass name, i_name := name\<rparr>) c) }
         else None)"

definition concat_part :: "compiler \<Rightarrow> compiler" where
  "concat_part = put ((instr OpBinary)\<lparr>i_b := binConcat, i_name := ''.''\<rparr>)"

definition coalesce :: "code \<Rightarrow> code \<Rightarrow> code" where
  "coalesce left right c = do {
     c \<leftarrow> left c;
     let (set, c) = emit_jump OpJumpNotNil (put (instr OpDup) c);
     c \<leftarrow> right (put (instr OpPop) c);
     Some (patch set (here c) c) }"

definition ternary :: "code \<Rightarrow> code option \<Rightarrow> code \<Rightarrow> code" where
  "ternary cond thn els c = do {
     c \<leftarrow> cond c;
     let (false, c) = emit_jump OpJumpFalse (put (instr OpDup) c);
     c \<leftarrow> (case thn of None \<Rightarrow> Some c | Some thn \<Rightarrow> thn (put (instr OpPop) c));
     let (end, c) = emit_jump OpJump c;
     c \<leftarrow> els (put (instr OpPop) (patch false (here c) c));
     Some (patch end (here c) c) }"

definition load_var :: "string \<Rightarrow> compiler \<Rightarrow> compiler" where
  "load_var name c =
     (case staticSlot name c of
        Some k \<Rightarrow> put ((instr OpStaticLoad)\<lparr>i_a := k, i_name := name\<rparr>) c
      | None \<Rightarrow> (let (k, c) = slot name c in load k c))"

definition methodName :: "string \<Rightarrow> code option \<Rightarrow> code" where
  "methodName name nameExpr c = (case nameExpr of None \<Rightarrow> Some (push_const (VStr name) c) | Some m \<Rightarrow> m c)"

text \<open>The class, the static and the loop context of a function body, restored behind it.\<close>

definition scoped :: "string \<Rightarrow> (string \<times> int) list option \<Rightarrow> bool \<Rightarrow> code \<Rightarrow> code" where
  "scoped class statics inClosure body c = do {
     c' \<leftarrow> body (c\<lparr>c_class := class, c_statics := statics, c_inClosure := inClosure\<rparr>);
     Some (c'\<lparr>c_class := c_class c, c_statics := c_statics c, c_inClosure := c_inClosure c\<rparr>) }"

fun paramSlots :: "expr param list \<Rightarrow> int list \<Rightarrow> compiler \<Rightarrow> (int list \<times> int \<times> compiler) option" where
  "paramSlots [] slots c = Some (slots, - 1, c)"
| "paramSlots (p # ps) slots c =
     (if pm_Variadic p
      then (if ps \<noteq> [] then None else (let (k, c) = slot (pm_Name p) c in Some (slots, k, c)))
      else (let (k, c) = slot (pm_Name p) c in paramSlots ps (slots @ [k]) c))"

definition add_function :: "string \<Rightarrow> userFuncDef \<Rightarrow> compiler \<Rightarrow> compiler" where
  "add_function key def c =
     c\<lparr>c_program := (c_program c)\<lparr>p_userFuncs := AList.update key def (p_userFuncs (c_program c))\<rparr>\<rparr>"

definition function_code ::
  "string \<Rightarrow> string \<Rightarrow> bool \<Rightarrow> expr param list \<Rightarrow> code \<Rightarrow> (block_state \<Rightarrow> block_state option) \<Rightarrow> code"
where
  "function_code key class receiver params defaults body c = do {
     let (around, c) = emit_jump OpJump c;
     let entry = here c;
     scoped class (Some []) False (\<lambda>c. do {
       let (slots, c) = (if receiver then (let (k, c) = slot ''this'' c in ([k], c)) else ([], c));
       (slots, variadic, c) \<leftarrow> paramSlots params slots c;
       c \<leftarrow> defaults c;
       (ls, c) \<leftarrow> body ([], c);
       let c = put (instr OpReturn) (push_const VNil c);
       let c = patch around (here c) c;
       Some (add_function key \<lparr>f_entryPC = entry, f_paramSlots = slots, f_variadicSlot = variadic\<rparr> c) }) c }"

definition classMethod ::
  "string \<Rightarrow> (expr, stmt) func_decl \<Rightarrow> code \<Rightarrow> (block_state \<Rightarrow> block_state option) \<Rightarrow> code"
where
  "classMethod class node = function_code (class @ ''::'' @ fn_Name node) class True (fn_Params node)"

definition funcDecl :: "(expr, stmt) func_decl \<Rightarrow> code \<Rightarrow> (block_state \<Rightarrow> block_state option) \<Rightarrow> code" where
  "funcDecl node = function_code (fn_Name node) '''' False (fn_Params node)"

text \<open>\<open>class.Methods[node.Name] = node\<close> for the first class of the name.\<close>

fun attach_method :: "(expr, stmt) func_decl \<Rightarrow> class_info list \<Rightarrow> class_info list" where
  "attach_method node [] = []"
| "attach_method node (k # ks) =
     (if ci_Name k = fn_Class node
      then k\<lparr>ci_Methods := AList.update (fn_Name node) node (ci_Methods k)\<rparr> # ks
      else k # attach_method node ks)"

fun closure_params :: "expr param list \<Rightarrow> int list \<Rightarrow> compiler \<Rightarrow> (int list \<times> compiler) option" where
  "closure_params [] slots c = Some (slots, c)"
| "closure_params (p # ps) slots c =
     (if pm_Default p \<noteq> None \<or> pm_ByRef p \<or> pm_Variadic p then None
      else (let (k, c) = slot (pm_Name p) c in closure_params ps (slots @ [k]) c))"

fun closure_uses :: "(string \<times> bool) list \<Rightarrow> int list \<Rightarrow> compiler \<Rightarrow> (int list \<times> compiler) option" where
  "closure_uses [] slots c = Some (slots, c)"
| "closure_uses ((name, byRef) # uses) slots c =
     (if byRef then None else (let (k, c) = slot name c in closure_uses uses (slots @ [k]) c))"

definition add_closure :: "closureDef \<Rightarrow> compiler \<Rightarrow> int \<times> compiler" where
  "add_closure def c =
     (int (length (p_closures (c_program c))),
      c\<lparr>c_program := (c_program c)\<lparr>p_closures := p_closures (c_program c) @ [def]\<rparr>\<rparr>)"

definition closure ::
  "expr param list \<Rightarrow> (string \<times> bool) list \<Rightarrow> bool \<Rightarrow> (block_state \<Rightarrow> block_state option) \<Rightarrow> code"
where
  "closure params uses static body c = do {
     (slots, c) \<leftarrow> closure_params params [] c;
     (captures, c) \<leftarrow> closure_uses uses [] c;
     let (this, c) = (if \<not> static \<and> c_class c \<noteq> '''' then slot ''this'' c else (- 1, c));
     let (around, c) = emit_jump OpJump c;
     let entry = here c;
     c \<leftarrow> scoped (if static then '''' else c_class c) None True (\<lambda>c. map_option snd (body ([], c))) c;
     let c = put (instr OpReturn) (push_const VNil c);
     let c = patch around (here c) c;
     let (k, c) = add_closure \<lparr>k_entryPC = entry, k_paramSlots = slots, k_captures = captures, k_thisSlot = this\<rparr> c;
     Some (put ((instr OpClosure)\<lparr>i_a := k\<rparr>) c) }"

text \<open>\<open>$a ??= b\<close>: the value read, kept when it is set, and otherwise the store.\<close>

definition coalesce_store :: "compiler \<Rightarrow> code \<Rightarrow> bool \<Rightarrow> compiler option" where
  "coalesce_store c assign keep = do {
     let (isSet, c) = emit_jump OpJumpNotNil (put (instr OpDup) c);
     c \<leftarrow> assign (put (instr OpPop) c);
     let c = patch isSet (here c) c;
     Some (if keep then c else put (instr OpPop) c) }"

definition indexSlots :: "compiler \<Rightarrow> int \<times> int \<times> compiler" where
  "indexSlots c =
     (let at = nat (here c);
          (base, c) = slot (slot_name ''assign-base-'' at) c;
          (key, c) = slot (slot_name ''assign-key-'' at) c
      in (base, key, c))"

definition resolveIndex :: "code \<Rightarrow> code \<Rightarrow> int \<Rightarrow> int \<Rightarrow> code" where
  "resolveIndex base index baseSlot keySlot c = do {
     c \<leftarrow> base c;
     c \<leftarrow> index (store baseSlot c);
     Some (store keySlot c) }"

definition coalesceIndex :: "code \<Rightarrow> code \<Rightarrow> code \<Rightarrow> bool \<Rightarrow> code" where
  "coalesceIndex base index right keep c = do {
     let (baseSlot, keySlot, c) = indexSlots c;
     c \<leftarrow> resolveIndex base index baseSlot keySlot c;
     let c = put (instr OpIndex) (load keySlot (load baseSlot c));
     coalesce_store c (\<lambda>c. do {
       c \<leftarrow> right c;
       Some (put ((instr OpSetIndex)\<lparr>i_c := boolInt True, i_name := ''=''\<rparr>) (load keySlot (load baseSlot c))) }) keep }"

definition coalesceProp :: "code \<Rightarrow> string \<Rightarrow> code \<Rightarrow> bool \<Rightarrow> code" where
  "coalesceProp base name right keep c = do {
     let (recv, c) = slot (slot_name ''assign-recv-'' (nat (here c))) c;
     c \<leftarrow> base c;
     let c = put ((instr OpGetProperty)\<lparr>i_name := name\<rparr>) (load recv (store recv c));
     coalesce_store c (\<lambda>c. do {
       c \<leftarrow> right c;
       Some (put ((instr OpSetProperty)\<lparr>i_b := boolInt True, i_name := name, i_extra := ''=''\<rparr>) (load recv c)) }) keep }"

definition coalesce_of :: "expr \<Rightarrow> (expr \<times> expr) option" where
  "coalesce_of value = (case value of Coalesce left right marked \<Rightarrow> if marked then Some (left, right) else None | _ \<Rightarrow> None)"

definition target_of :: "expr option \<Rightarrow> string \<Rightarrow> expr option" where
  "target_of target name =
     (case target of Some e \<Rightarrow> Some e | None \<Rightarrow> if name \<noteq> '''' then Some (Var name False) else None)"


text \<open>The switches over the shape of a target and of an argument.\<close>

datatype target =
    TVar string
  | TIndex expr "expr option"
  | TProp expr string "expr option"
  | TStaticProp string string
  | TOther

definition target_view :: "expr \<Rightarrow> target" where
  "target_view e =
     (case e of
        Var name const \<Rightarrow> TVar name
      | IndexExpr base index \<Rightarrow> TIndex base index
      | PropAccess base name nameExpr \<Rightarrow> TProp base name nameExpr
      | StaticProp class name \<Rightarrow> TStaticProp class name
      | _ \<Rightarrow> TOther)"

definition is_Lit :: "expr \<Rightarrow> bool" where
  "is_Lit e = (case e of Lit v \<Rightarrow> True | _ \<Rightarrow> False)"

definition lit_string :: "expr \<Rightarrow> string option" where
  "lit_string e = (case e of Lit v \<Rightarrow> (case v of VStr s \<Rightarrow> Some s | _ \<Rightarrow> None) | _ \<Rightarrow> None)"

definition var_name :: "expr \<Rightarrow> string option" where
  "var_name e = (case e of Var name const \<Rightarrow> Some name | _ \<Rightarrow> None)"

definition compact_dynamic :: "code \<Rightarrow> code" where
  "compact_dynamic name c = do {
     c \<leftarrow> name c;
     Some (put (instr OpCompactDynamic) (put ((instr OpCast)\<lparr>i_name := ''string''\<rparr>) c)) }"

definition is_New :: "expr \<Rightarrow> bool" where
  "is_New e = (case e of New class classExpr args decl \<Rightarrow> True | _ \<Rightarrow> False)"

text \<open>The targets \<open>listAssignment\<close> unpacks into.\<close>

definition elems_of :: "expr \<Rightarrow> expr option list option" where
  "elems_of target =
     (case target of
        ListExpr elems \<Rightarrow> Some elems
      | ArrayLit items \<Rightarrow> Some (map (\<lambda>(key, item). Some item) items)
      | _ \<Rightarrow> None)"

definition new_loop :: "int \<Rightarrow> code option \<Rightarrow> loopContext" where
  "new_loop target writeBack =
     \<lparr>l_breaks = [], l_continues = [], l_continueTarget = target, l_writeBack = writeBack\<rparr>"

fun add_continue :: "int \<Rightarrow> loopContext list \<Rightarrow> loopContext list" where
  "add_continue x [] = []"
| "add_continue x (l # ls) =
     (if l_continueTarget l \<noteq> - 1 then l\<lparr>l_continues := l_continues l @ [x]\<rparr> # ls
      else l # add_continue x ls)"

definition iterator_slots :: "bool \<Rightarrow> compiler \<Rightarrow> int \<times> int \<times> compiler" where
  "iterator_slots keyed c =
     (let n = c_nextIter c;
          c = c\<lparr>c_nextIter := Suc n\<rparr>;
          (key, c) = (if keyed then slot (slot_name ''foreach-key-'' n) c else (- 1, c));
          (val, c) = slot (slot_name ''foreach-value-'' n) c
      in (key, val, c))"

definition declare_statics :: "string list \<Rightarrow> int \<Rightarrow> compiler \<Rightarrow> compiler" where
  "declare_statics names k c =
     c\<lparr>c_statics := map_option (fold (\<lambda>name. AList.update name k) names) (c_statics c)\<rparr>"

definition param_default :: "string \<Rightarrow> code \<Rightarrow> code" where
  "param_default name value c = do {
     let (k, c) = slot name c;
     let (bound, c) = emit_jump OpJumpTrue (put ((instr OpInitialized)\<lparr>i_a := k\<rparr>) c);
     c \<leftarrow> value c;
     let c = store k c;
     Some (patch bound (here c) c) }"

fun catch_clauses :: "stmt catch list \<Rightarrow> compiler \<Rightarrow> catchClause list \<times> compiler" where
  "catch_clauses [] c = ([], c)"
| "catch_clauses (h # hs) c =
     (let (k, c) = (if ct_Var h \<noteq> [] then slot (ct_Var h) c else (- 1, c));
          (clauses, c) = catch_clauses hs c
      in (\<lparr>t_declaredType = ct_Type h, t_local = k, t_target = - 1\<rparr> # clauses, c))"

definition add_group :: "catchClause list \<Rightarrow> compiler \<Rightarrow> compiler" where
  "add_group clauses c =
     c\<lparr>c_program := (c_program c)\<lparr>p_catchGroups := p_catchGroups (c_program c) @ [clauses]\<rparr>\<rparr>"

text \<open>\<open>clauses[i].target = t\<close>, whose slice the group shares.\<close>

definition set_clause :: "nat \<Rightarrow> nat \<Rightarrow> int \<Rightarrow> compiler \<Rightarrow> compiler" where
  "set_clause n i t c =
     (let groups = p_catchGroups (c_program c); clauses = groups ! n
      in c\<lparr>c_program := (c_program c)\<lparr>p_catchGroups :=
             groups[n := clauses[i := (clauses ! i)\<lparr>t_target := t\<rparr>]]\<rparr>\<rparr>)"

section \<open>Sizes of the parts\<close>

lemma size_view:
  "target_view e = TIndex base i \<Longrightarrow> size base + size_option size i + 1 \<le> size e"
  "target_view e = TProp base name n \<Longrightarrow> size base + 1 \<le> size e"
  by (cases e; auto simp: target_view_def)+

lemma size_unwrapped_part: "n \<le> size (UnwrapParenthesized e) \<Longrightarrow> n \<le> size e"
  using size_unwrap [of e] by simp

lemma size_coalesce: "coalesce_of val = Some (left, right) \<Longrightarrow> size left + size right + 1 = size val"
  by (cases val) (auto simp: coalesce_of_def split: if_splits)

lemma size_target_of: "target_of target name = Some e \<Longrightarrow> size e \<le> size_option size target"
  by (cases target) (auto simp: target_of_def split: if_splits)

lemma enumerate_member: "(i, x) \<in> set (enumerate n xs) \<Longrightarrow> x \<in> set xs"
  by (simp add: enumerate_eq_zip set_zip_rightD)

lemma size_in_items: "(k, v) \<in> set items \<Longrightarrow> size_option size k + size v < size_list (size_prod (size_option size) size) items"
  by (induction items) auto

lemma size_in_elems: "Some e \<in> set elems \<Longrightarrow> size e < size_list (size_option size) elems"
  by (induction elems) auto

lemma elems_cases:
  assumes "elems_of target = Some elems"
  obtains "target = ListExpr elems" | items where "target = ArrayLit items" "elems = map (\<lambda>(key, item). Some item) items"
  using assms by (cases target) (auto simp: elems_of_def)

lemma size_elems:
  assumes "elems_of target = Some elems" and "(i, Some e) \<in> set (enumerate n elems)"
  shows "size e < size target"
  using assms(1)
proof (cases rule: elems_cases)
  case 1
  then show ?thesis using size_in_elems [OF enumerate_member [OF assms(2)]] by simp
next
  case (2 items)
  then obtain k where "(k, e) \<in> set items" using enumerate_member [OF assms(2)] by auto
  then show ?thesis using 2(1) size_in_items by fastforce
qed

lemma size_default: "p \<in> set ps \<Longrightarrow> pm_Default p = Some e \<Longrightarrow> size e < size_list (size_param size) ps"
  using size_member [of p ps "size_param size"] by (cases p) auto

lemma size_func:
  "p \<in> set (fn_Params node) \<Longrightarrow> pm_Default p = Some e \<Longrightarrow> size e < size_func_decl size size node"
  "s \<in> set (fn_Body node) \<Longrightarrow> size s < size_func_decl size size node"
  using size_default [of p "fn_Params node" e] size_member [of s "fn_Body node" size] by (cases node, simp)+

lemma size_const: "f \<in> set fs \<Longrightarrow> fd_Default f = Some e \<Longrightarrow> size e < size_list (size_field size) fs"
  using size_member [of f fs "size_field size"] by (cases f) auto

lemma size_static: "(name, Some e) \<in> set vars \<Longrightarrow> size e < size_list (size_prod (\<lambda>x. 0) (size_option size)) vars"
  by (induction vars) auto

lemma size_case_value: "k \<in> set ks \<Longrightarrow> size (sc_Value k) < size_list (size_switch_case size size) ks"
  using size_member [of k ks "size_switch_case size size"] by (cases k) auto

lemma size_zip_case: "(k, hit) \<in> set (zip ks hits) \<Longrightarrow> s \<in> set (sc_Body k) \<Longrightarrow> size s < size_list (size_switch_case size size) ks"
  by (auto dest: set_zip_leftD size_case_body)

lemma size_enum_catch: "(i, h) \<in> set (enumerate n hs) \<Longrightarrow> s \<in> set (ct_Body h) \<Longrightarrow> size s < size_list (size_catch size) hs"
  by (auto dest: enumerate_member size_catch_body)

lemma size_listed: "x \<in> set xs \<Longrightarrow> size x < size_list size xs"
  by (induction xs) auto

lemma size_in_enumerate: "(i, x) \<in> set (enumerate n xs) \<Longrightarrow> size x < size_list size xs"
  by (auto dest: enumerate_member size_listed)

section \<open>The translation\<close>

function (sequential) expr :: "expr \<Rightarrow> code"
  and ensureContainer :: "expr \<Rightarrow> code"
  and storeTop :: "expr \<Rightarrow> code"
  and assignment :: "expr \<Rightarrow> string \<Rightarrow> expr \<Rightarrow> bool \<Rightarrow> code"
  and stmt :: "stmt \<Rightarrow> block_state \<Rightarrow> block_state option"
where
  "expr (Lit v) c = Some (push_const v c)"
| "expr (Interp parts) c =
     (case parts of
        [] \<Rightarrow> Some (push_const (VStr '''') c)
      | p # ps \<Rightarrow> do {
          c \<leftarrow> (if is_Lit p then expr p c
                else do { c \<leftarrow> expr p (push_const (VStr '''') c); Some (concat_part c) });
          seq (\<lambda>p c. do { c \<leftarrow> expr p c; Some (concat_part c) }) ps c })"
| "expr (Parenthesized x) c = expr x c"
| "expr (Ref x) c = expr x c"
| "expr (Var name const) c =
     (if const then (let (k, c) = slot name c in Some (put ((instr OpLoadConst)\<lparr>i_a := k\<rparr>) c))
      else Some (load_var name c))"
| "expr (ArrayLit items) c = do {
     c \<leftarrow> seq (\<lambda>(key, val) c. do {
            c \<leftarrow> (case key of None \<Rightarrow> Some (push_const VNil c) | Some k \<Rightarrow> expr k c);
            expr val c }) items c;
     Some (put ((instr OpArray)\<lparr>i_a := int (length items)\<rparr>) c) }"
| "expr (IndexExpr base index) c =
     (case index of
        None \<Rightarrow> None
      | Some i \<Rightarrow> do { c \<leftarrow> expr base c; c \<leftarrow> expr i c; Some (put (instr OpIndex) c) })"
| "expr (BinaryExpr op left right) c = binary op (expr left) (expr right) right c"
| "expr (UnaryExpr op x postfix) c =
     (if op = ''++'' \<or> op = ''--'' then
        (case target_view x of
           TVar name \<Rightarrow>
             (case staticSlot name c of
                Some k \<Rightarrow>
                  Some (put ((instr OpIncDecStatic)\<lparr>i_a := k, i_b := boolInt postfix, i_name := name, i_extra := op\<rparr>) c)
              | None \<Rightarrow>
                  (let (k, c) = slot name c
                   in Some (put ((instr OpIncDecLocal)\<lparr>i_a := k, i_b := boolInt postfix, i_name := op\<rparr>) c)))
         | TProp base name nameExpr \<Rightarrow>
             if nameExpr \<noteq> None then None
             else do {
               c \<leftarrow> expr base c;
               Some (put ((instr OpIncDecProp)\<lparr>i_b := boolInt postfix, i_name := name, i_extra := op\<rparr>) c) }
         | TIndex base index \<Rightarrow>
             (case index of
                None \<Rightarrow> None
              | Some i \<Rightarrow> do {
                  c \<leftarrow> expr base c;
                  c \<leftarrow> expr i c;
                  Some (put ((instr OpIncDecIndex)\<lparr>i_b := boolInt postfix, i_name := op\<rparr>) c) })
         | TStaticProp class name \<Rightarrow> None
         | TOther \<Rightarrow> None)
      else if op = ''!'' \<or> op = ''+'' \<or> op = ''-'' \<or> op = ''~'' then do {
        c \<leftarrow> expr x c;
        Some (put ((instr OpUnary)\<lparr>i_name := op\<rparr>) c) }
      else None)"
| "expr (Coalesce left right marked) c = coalesce (expr left) (expr right) c"
| "expr (Ternary cond thn els) c = ternary (expr cond) (case thn of None \<Rightarrow> None | Some t \<Rightarrow> Some (expr t)) (expr els) c"
| "expr (CallExpr name fallback args firstClass) c =
     (if firstClass then Some (put ((instr OpCallable)\<lparr>i_name := fallback\<rparr>) (push_const (VStr name) c))
      else if callNames name fallback ''func_get_args'' then None
      else if name = ''compact'' then
        (if args = [] \<or>
             (\<exists>arg \<in> set args. case lit_string (UnwrapParenthesized arg) of None \<Rightarrow> False | Some n \<Rightarrow> staticSlot n c \<noteq> None)
         then None
         else
           seq (\<lambda>arg c.
             case lit_string (UnwrapParenthesized arg) of
               Some n \<Rightarrow>
                 if n \<noteq> ''''
                 then (let (k, c) = slot n c in Some (put ((instr OpCompactEntry)\<lparr>i_a := k, i_name := n\<rparr>) c))
                 else compact_dynamic (expr arg) c
             | None \<Rightarrow> compact_dynamic (expr arg) c) args (put ((instr OpCompactInit)\<lparr>i_a := int (length args)\<rparr>) c))
      else if name = ''defer'' then
        (case args of
           [arg] \<Rightarrow> do { c \<leftarrow> expr arg c; Some (put (instr OpDefer) c) }
         | _ \<Rightarrow> None)
      else do {
        c \<leftarrow> seq (\<lambda>(i, arg) c.
               case var_name (UnwrapParenthesized arg) of
                 Some v \<Rightarrow>
                   if ByRefArg name fallback i
                   then (if staticSlot v c \<noteq> None then None
                         else (let (k, c) = slot v c in Some (put ((instr OpRef)\<lparr>i_a := k\<rparr>) c)))
                   else expr arg c
               | None \<Rightarrow> expr arg c) (enumerate 0 args) c;
        Some (put ((instr OpCall)\<lparr>i_a := int (length args), i_name := name, i_extra := fallback\<rparr>) c) })"
| "expr (New class classExpr args decl) c =
     (if decl \<noteq> None then None
      else do {
        c \<leftarrow> (case classExpr of None \<Rightarrow> Some c | Some e \<Rightarrow> expr e c);
        c \<leftarrow> seq expr args c;
        Some (put ((instr OpConstruct)\<lparr>i_a := int (length args), i_b := boolInt (classExpr \<noteq> None), i_name := class\<rparr>) c) })"
| "expr (MethodCall base name nameExpr args firstClass) c = do {
     c \<leftarrow> expr base c;
     if firstClass then do {
       c \<leftarrow> methodName name (case nameExpr of None \<Rightarrow> None | Some m \<Rightarrow> Some (expr m)) c;
       Some (put ((instr OpCallable)\<lparr>i_b := 1\<rparr>) c) }
     else do {
       c \<leftarrow> (case nameExpr of None \<Rightarrow> Some c | Some m \<Rightarrow> expr m c);
       c \<leftarrow> seq expr args c;
       Some (put ((instr OpCallMethod)\<lparr>i_a := int (length args), i_b := boolInt (nameExpr \<noteq> None), i_name := name\<rparr>) c) } }"
| "expr (InvokeExpr callee args firstClass) c = do {
     c \<leftarrow> expr callee c;
     if firstClass then Some (put (instr OpCallable) c)
     else do {
       c \<leftarrow> seq expr args c;
       Some (put ((instr OpInvoke)\<lparr>i_a := int (length args)\<rparr>) c) } }"
| "expr (StaticCall class name nameExpr args firstClass) c = do {
     class \<leftarrow> resolveClass class c;
     if firstClass then do {
       c \<leftarrow> methodName name (case nameExpr of None \<Rightarrow> None | Some m \<Rightarrow> Some (expr m)) (push_const (VStr class) c);
       Some (put ((instr OpCallable)\<lparr>i_b := 1\<rparr>) c) }
     else do {
       c \<leftarrow> (case nameExpr of None \<Rightarrow> Some c | Some m \<Rightarrow> expr m c);
       c \<leftarrow> seq expr args c;
       Some (put ((instr OpCallStatic)\<lparr>i_a := int (length args), i_b := boolInt (nameExpr \<noteq> None), i_name := class,
                i_extra := name\<rparr>) c) } }"
| "expr (StaticProp class name) c = do {
     class \<leftarrow> resolveClass class c;
     Some (put ((instr OpStaticProp)\<lparr>i_name := class, i_extra := name\<rparr>) c) }"
| "expr (PropAccess base name nameExpr) c =
     (if nameExpr \<noteq> None then None
      else do { c \<leftarrow> expr base c; Some (put ((instr OpGetProperty)\<lparr>i_name := name\<rparr>) c) })"
| "expr (ClassConst class name) c = do {
     class \<leftarrow> resolveClass class c;
     Some (put ((instr OpClassConst)\<lparr>i_name := class, i_extra := name\<rparr>) c) }"
| "expr (CastExpr typ x) c = do { c \<leftarrow> expr x c; Some (put ((instr OpCast)\<lparr>i_name := typ\<rparr>) c) }"
| "expr (AssignExpr target op val) c =
     (if op = '''' \<or> op = ''='' then assignment target op val True c
      else
        (case target_view (UnwrapParenthesized target) of
           TIndex base index \<Rightarrow>
             (case index of
                None \<Rightarrow> None
              | Some i \<Rightarrow> do {
                  let (baseSlot, keySlot, c) = indexSlots c;
                  c \<leftarrow> resolveIndex (ensureContainer base) (expr i) baseSlot keySlot c;
                  c \<leftarrow> expr val (load keySlot (load baseSlot c));
                  let c = put ((instr OpSetIndex)\<lparr>i_a := 1, i_name := op\<rparr>) c;
                  Some (put (instr OpIndex) (load keySlot (load baseSlot c))) })
         | TProp base name nameExpr \<Rightarrow>
             if nameExpr \<noteq> None then None
             else do {
               let (recv, c) = slot (slot_name ''assign-recv-'' (nat (here c))) c;
               c \<leftarrow> expr base c;
               c \<leftarrow> expr val (load recv (store recv c));
               let c = put ((instr OpSetProperty)\<lparr>i_a := 1, i_name := name, i_extra := op\<rparr>) c;
               Some (put ((instr OpGetProperty)\<lparr>i_name := name\<rparr>) (load recv c)) }
         | TStaticProp class name \<Rightarrow> do {
             class \<leftarrow> resolveClass class c;
             c \<leftarrow> expr val c;
             let (k, c) = pool_constant (VStr op) c;
             let c = put ((instr OpSetStaticProp)\<lparr>i_a := k, i_name := class, i_extra := name\<rparr>) c;
             Some (put ((instr OpStaticProp)\<lparr>i_name := class, i_extra := name\<rparr>) c) }
         | TVar name \<Rightarrow> assignment target op val True c
         | TOther \<Rightarrow> assignment target op val True c))"
| "expr (IncludeExpr path keyword once) c = do {
     c \<leftarrow> expr path c;
     Some (put ((instr OpInclude)\<lparr>i_a := boolInt once, i_name := keyword\<rparr>) c) }"
| "expr (Closure params uses body static) c = closure params uses static (seq stmt body) c"
| "expr (ListExpr elems) c = None"

| "ensureContainer e c =
     (case target_view (UnwrapParenthesized e) of
        TVar name \<Rightarrow>
          let c = put (instr OpDup) (put (instr OpEnsureArray) (load_var name c))
          in (case staticSlot name c of
                Some k \<Rightarrow> Some (put ((instr OpStaticStore)\<lparr>i_a := k, i_name := name\<rparr>) c)
              | None \<Rightarrow> (let (k, c) = slot name c in Some (store k c)))
      | TIndex base index \<Rightarrow>
          (case index of
             None \<Rightarrow> None
           | Some i \<Rightarrow> do { c \<leftarrow> ensureContainer base c; c \<leftarrow> expr i c; Some (put (instr OpVivifyIndex) c) })
      | TProp base name nameExpr \<Rightarrow>
          if nameExpr \<noteq> None then None
          else do { c \<leftarrow> expr base c; Some (put ((instr OpVivifyProperty)\<lparr>i_name := name\<rparr>) c) }
      | TStaticProp class name \<Rightarrow> do {
          class \<leftarrow> resolveClass class c;
          let c = put ((instr OpStaticProp)\<lparr>i_name := class, i_extra := name\<rparr>) c;
          let (k, c) = pool_constant (VStr ''='') (put (instr OpDup) (put (instr OpEnsureArray) c));
          Some (put ((instr OpSetStaticProp)\<lparr>i_a := k, i_name := class, i_extra := name\<rparr>) c) }
      | TOther \<Rightarrow> expr e c)"

| "storeTop target c =
     (case target_view target of
        TVar name \<Rightarrow>
          (case staticSlot name c of
             Some k \<Rightarrow> Some (put ((instr OpStaticStore)\<lparr>i_a := k, i_name := name\<rparr>) c)
           | None \<Rightarrow> (let (k, c) = slot name c in Some (store k c)))
      | TIndex base index \<Rightarrow>
          (case index of
             None \<Rightarrow> None
           | Some i \<Rightarrow> do {
               c \<leftarrow> expr base c;
               c \<leftarrow> expr i c;
               Some (put ((instr OpSetIndex)\<lparr>i_name := ''=''\<rparr>) c) })
      | TProp base name nameExpr \<Rightarrow>
          if nameExpr \<noteq> None then None
          else do { c \<leftarrow> expr base c; Some (put ((instr OpSetProperty)\<lparr>i_name := name, i_extra := ''=''\<rparr>) c) }
      | TStaticProp class name \<Rightarrow> None
      | TOther \<Rightarrow> None)"

| "assignment target op val keep c =
     (case coalesce_of val of
        Some (left, right) \<Rightarrow>
          let whole = do {
            c \<leftarrow> expr left c;
            coalesce_store c (assignment target op right True) keep }
          in (case target_view (UnwrapParenthesized target) of
                TIndex base index \<Rightarrow>
                  (case index of
                     Some i \<Rightarrow> coalesceIndex (ensureContainer base) (expr i) (expr right) keep c
                   | None \<Rightarrow> whole)
              | TProp base name nameExpr \<Rightarrow>
                  if nameExpr = None then coalesceProp (expr base) name (expr right) keep c else whole
              | TVar name \<Rightarrow> whole
              | TStaticProp class name \<Rightarrow> whole
              | TOther \<Rightarrow> whole)
      | None \<Rightarrow>
          (case target_view target of
              TIndex base index \<Rightarrow> do {
                c \<leftarrow> ensureContainer base c;
                c \<leftarrow> (case index of
                       None \<Rightarrow> Some c
                     | Some i \<Rightarrow> if op = ''[]='' then Some c else expr i c);
                c \<leftarrow> expr val c;
                Some (put ((instr OpSetIndex)\<lparr>i_a := 1, i_b := boolInt (index = None \<or> op = ''[]=''),
                         i_c := boolInt keep, i_name := op\<rparr>) c) }
            | TProp base name nameExpr \<Rightarrow>
                if nameExpr \<noteq> None then None
                else do {
                  c \<leftarrow> expr base c;
                  c \<leftarrow> expr val c;
                  Some (put ((instr OpSetProperty)\<lparr>i_a := 1, i_b := boolInt keep, i_name := name, i_extra := op\<rparr>) c) }
            | TVar name \<Rightarrow> do {
                c \<leftarrow> expr val c;
                case staticSlot name c of
                  Some k \<Rightarrow>
                    Some (put ((instr OpStaticStore)\<lparr>i_a := k, i_b := boolInt keep, i_name := name, i_extra := op\<rparr>) c)
                | None \<Rightarrow>
                    (let constructed = (op = '''' \<or> op = ''='') \<and> is_New (UnwrapParenthesized val);
                         (k, c) = slot name c
                     in Some (put ((instr OpStore)\<lparr>i_a := k, i_b := boolInt keep, i_name := op,
                          i_extra := (if constructed then name else '''')\<rparr>) c)) }
            | TStaticProp class name \<Rightarrow> do {
                c \<leftarrow> expr val c;
                class \<leftarrow> resolveClass class c;
                let (k, c) = pool_constant (VStr op) c;
                Some (put ((instr OpSetStaticProp)\<lparr>i_a := k, i_b := boolInt keep, i_name := class, i_extra := name\<rparr>) c) }
            | TOther \<Rightarrow>
                (case elems_of target of
                   None \<Rightarrow> None
                 | Some elems \<Rightarrow> do {
                     c \<leftarrow> expr val c;
                     let (src, c) = slot (slot_name ''list-'' (nat (here c))) c;
                     c \<leftarrow> seq (\<lambda>(i, elem) c.
                            case elem of
                              None \<Rightarrow> Some c
                            | Some e \<Rightarrow> storeTop e (put (instr OpIndex) (push_const (VInt (of_nat i)) (load src c))))
                          (enumerate 0 elems) (store src c);
                     Some (if keep then load src c else c) })))"

| "stmt (InlineHTML text) (ls, c) = Some (ls, put (instr OpEcho) (push_const (VStr text) c))"
| "stmt (EchoStmt args) (ls, c) = do {
     c \<leftarrow> seq (\<lambda>arg c. do { c \<leftarrow> expr arg c; Some (put (instr OpEcho) c) }) args c;
     Some (ls, c) }"
| "stmt (ExprStmt x) (ls, c) = do { c \<leftarrow> expr x c; Some (ls, put (instr OpPop) c) }"
| "stmt (Assign target op val) (ls, c) = do { c \<leftarrow> assignment target op val False c; Some (ls, c) }"
| "stmt (IfStmt cond thn els) (ls, c) = do {
     c \<leftarrow> expr cond c;
     let (false, c) = emit_jump OpJumpFalse c;
     (ls, c) \<leftarrow> seq stmt thn (ls, c);
     let (end, c) = emit_jump OpJump c;
     (ls, c) \<leftarrow> seq stmt els (ls, patch false (here c) c);
     Some (ls, patch end (here c) c) }"
| "stmt (For init cond post body) (ls, c) = do {
     (ls, c) \<leftarrow> (case init of None \<Rightarrow> Some (ls, c) | Some s \<Rightarrow> stmt s (ls, c));
     let start = here c;
     (exit, c) \<leftarrow> (case cond of
                   None \<Rightarrow> Some ([], c)
                 | Some e \<Rightarrow> do { c \<leftarrow> expr e c; let (exit, c) = emit_jump OpJumpFalse c; Some ([exit], c) });
     (ls, c) \<leftarrow> seq stmt body (new_loop (- 2) None # ls, c);
     let postPC = here c;
     let c = patches (l_continues (hd ls)) postPC c;
     let ls = (hd ls)\<lparr>l_continueTarget := postPC\<rparr> # tl ls;
     (ls, c) \<leftarrow> (case post of None \<Rightarrow> Some (ls, c) | Some s \<Rightarrow> stmt s (ls, c));
     let c = put ((instr OpJump)\<lparr>i_target := start\<rparr>) c;
     let c = patches exit (here c) c;
     Some (tl ls, patches (l_breaks (hd ls)) (here c) c) }"
| "stmt (DoWhile body cond) (ls, c) = do {
     let start = here c;
     (ls, c) \<leftarrow> seq stmt body (new_loop (- 2) None # ls, c);
     let c = patches (l_continues (hd ls)) (here c) c;
     c \<leftarrow> expr cond c;
     let c = put ((instr OpJumpTrue)\<lparr>i_target := start\<rparr>) c;
     Some (tl ls, patches (l_breaks (hd ls)) (here c) c) }"
| "stmt (Foreach source keyTarget valTarget byRef keyVar valVar body) (ls, c) =
     (case target_of valTarget valVar of
        None \<Rightarrow> None
      | Some val \<Rightarrow> do {
          c \<leftarrow> expr source c;
          let iterator = int (c_nextIter c);
          let (keySlot, valSlot, c) = iterator_slots (target_of keyTarget keyVar \<noteq> None) c;
          let c = put ((instr OpIterInit)\<lparr>i_a := iterator\<rparr>) c;
          let (next, c) = emit ((instr OpIterNext)\<lparr>i_a := iterator, i_b := keySlot, i_c := valSlot, i_target := - 1\<rparr>) c;
          c \<leftarrow> (case target_of keyTarget keyVar of None \<Rightarrow> Some c | Some key \<Rightarrow> storeTop key (load keySlot c));
          let c = load valSlot c;
          c \<leftarrow> storeTop val (if \<not> byRef \<and> AssignsTo val body then put (instr OpCopyValue) c else c);
          let writeBack = (\<lambda>c. do { c \<leftarrow> expr val c; Some (put ((instr OpIterSet)\<lparr>i_a := iterator\<rparr>) c) });
          (ls, c) \<leftarrow> seq stmt body (new_loop (- 2) (if byRef then Some writeBack else None) # ls, c);
          let continuePC = here c;
          c \<leftarrow> (if byRef then writeBack c else Some c);
          let c = put ((instr OpJump)\<lparr>i_target := next\<rparr>) c;
          let breakPC = here c;
          c \<leftarrow> (if byRef then do { c \<leftarrow> writeBack c; Some (put ((instr OpJump)\<lparr>i_target := - 1\<rparr>) c) } else Some c);
          let closePC = here c;
          let c = patch next closePC (put ((instr OpIterClose)\<lparr>i_a := iterator\<rparr>) c);
          let c = (if byRef then patch (closePC - 1) closePC c else c);
          let c = patches (l_breaks (hd ls)) breakPC c;
          Some (tl ls, patches (l_continues (hd ls)) continuePC c) })"
| "stmt UseStmt (ls, c) = Some (ls, c)"
| "stmt (ConstDecl consts) (ls, c) = do {
     c \<leftarrow> seq (\<lambda>entry c.
            case fd_Default entry of
              None \<Rightarrow> None
            | Some e \<Rightarrow> do { c \<leftarrow> expr e c; Some (put ((instr OpDefineConst)\<lparr>i_name := fd_Name entry\<rparr>) c) }) consts c;
     Some (ls, c) }"
| "stmt (Global names) (ls, c) = Some (ls, c)"
| "stmt (StaticVar node vars) (ls, c) =
     (if c_statics c = None \<or> c_inClosure c then None
      else do {
        let (k, c) = pool_constant (VOpaque None node) c;
        let (seeded, c) = emit_jump OpJumpTrue (put ((instr OpStaticSeeded)\<lparr>i_a := k\<rparr>) c);
        c \<leftarrow> seq (\<lambda>(name, init) c. do {
               c \<leftarrow> (case init of None \<Rightarrow> Some (push_const VNil c) | Some e \<Rightarrow> expr e c);
               Some (put ((instr OpStaticStore)\<lparr>i_a := k, i_name := name\<rparr>) c) }) vars c;
        Some (ls, declare_statics (map fst vars) k (patch seeded (here c) c)) })"
| "stmt (Declare body) (ls, c) = seq stmt body (ls, c)"
| "stmt (UnsetStmt targets) (ls, c) = do {
     c \<leftarrow> seq (\<lambda>target c.
            case target_view (UnwrapParenthesized target) of
              TVar name \<Rightarrow>
                if staticSlot name c \<noteq> None then None
                else (let (k, c) = slot name c in Some (put ((instr OpUnsetLocal)\<lparr>i_a := k\<rparr>) c))
            | TProp base name nameExpr \<Rightarrow>
                if nameExpr \<noteq> None then None
                else do { c \<leftarrow> expr base c; Some (put ((instr OpUnsetProp)\<lparr>i_name := name\<rparr>) c) }
            | TIndex base index \<Rightarrow>
                (case index of
                   None \<Rightarrow> None
                 | Some i \<Rightarrow>
                     (case var_name (UnwrapParenthesized base) of
                        Some name \<Rightarrow>
                          if staticSlot name c \<noteq> None then None
                          else do {
                            let (k, c) = slot name c;
                            c \<leftarrow> expr base c;
                            c \<leftarrow> expr i c;
                            Some (put ((instr OpUnsetIndex)\<lparr>i_a := k\<rparr>) c) }
                      | None \<Rightarrow> None))
            | TStaticProp class name \<Rightarrow> None
            | TOther \<Rightarrow> None) targets c;
     Some (ls, c) }"
| "stmt (Switch cond cases rest) (ls, c) = do {
     c \<leftarrow> expr cond c;
     let (condSlot, c) = slot (slot_name ''switch-'' (nat (here c))) c;
     (jumps, c) \<leftarrow> seq (\<lambda>k (jumps, c). do {
            c \<leftarrow> expr (sc_Value k) (load condSlot c);
            let (hit, c) = emit_jump OpJumpTrue (put ((instr OpBinary)\<lparr>i_b := binEq, i_name := ''==''\<rparr>) c);
            Some (jumps @ [hit], c) }) cases ([], store condSlot c);
     let (otherwise, c) = emit_jump OpJump c;
     (ls, c) \<leftarrow> seq (\<lambda>(k, hit) (ls, c). seq stmt (sc_Body k) (ls, patch hit (here c) c))
       (zip cases jumps) (new_loop (- 1) None # ls, c);
     (ls, c) \<leftarrow> seq stmt rest (ls, patch otherwise (here c) c);
     Some (tl ls, patches (l_breaks (hd ls)) (here c) c) }"
| "stmt (Try body catches final) (ls, c) =
     (if catches = [] then None
      else do {
        let n = length (p_catchGroups (c_program c));
        let (pending, c) = slot (slot_name ''try-pending-'' n) c;
        let (clauses, c) = catch_clauses catches c;
        let (push, c) = emit ((instr OpTryPush)\<lparr>i_a := int n, i_c := pending, i_target := - 1\<rparr>) (add_group clauses c);
        (ls, c) \<leftarrow> seq stmt body (ls, c);
        let (pop, c) = emit (instr OpTryPop) c;
        let (exit, c) = emit_jump OpJump (patch_b push pop c);
        (exits, ls, c) \<leftarrow> seq (\<lambda>(i, clause) (exits, ls, c). do {
               (ls, c) \<leftarrow> seq stmt (ct_Body clause) (ls, set_clause n i (here c) c);
               let (exit, c) = emit_jump OpJump c;
               Some (exits @ [exit], ls, c) }) (enumerate 0 catches) ([exit], ls, c);
        let c = patch push (here c) (patches exits (here c) c);
        (ls, c) \<leftarrow> seq stmt final (ls, c);
        Some (ls, put ((instr OpRethrow)\<lparr>i_a := pending\<rparr>) c) })"
| "stmt (ThrowStmt x) (ls, c) = do { c \<leftarrow> expr x c; Some (ls, put (instr OpThrow) c) }"
| "stmt (ClassDeclStmt node) (ls, c) = Some (ls, c)"
| "stmt (InterfaceDeclStmt node) (ls, c) = Some (ls, c)"
| "stmt (IncludeStmt path keyword once) (ls, c) = do {
     c \<leftarrow> expr path c;
     Some (ls, put (instr OpPop) (put ((instr OpInclude)\<lparr>i_a := boolInt once, i_name := keyword\<rparr>) c)) }"
| "stmt (FuncDeclStmt node) (ls, c) = do {
     let defaults = seq (\<lambda>p c.
       case pm_Default p of
         None \<Rightarrow> Some c
       | Some e \<Rightarrow> if pm_Variadic p then Some c else param_default (pm_Name p) (expr e) c) (fn_Params node);
     c \<leftarrow> (if fn_Class node \<noteq> ''''
           then classMethod (fn_Class node) node defaults (seq stmt (fn_Body node))
             (c\<lparr>c_classes := attach_method node (c_classes c)\<rparr>)
           else funcDecl node defaults (seq stmt (fn_Body node)) c);
     Some (ls, c) }"
| "stmt (ReturnStmt val) (ls, c) = do {
     c \<leftarrow> (case val of None \<Rightarrow> Some (push_const VNil c) | Some e \<Rightarrow> expr e c);
     c \<leftarrow> seq (\<lambda>l c. case l_writeBack l of None \<Rightarrow> Some c | Some writeBack \<Rightarrow> writeBack c) ls c;
     Some (ls, put (instr OpReturn) c) }"
| "stmt Break (ls, c) =
     (case ls of
        [] \<Rightarrow> None
      | l # rest \<Rightarrow>
          (let (x, c) = emit_jump OpJump c in Some (l\<lparr>l_breaks := l_breaks l @ [x]\<rparr> # rest, c)))"
| "stmt Continue (ls, c) =
     (if list_all (\<lambda>l. l_continueTarget l = - 1) ls then None
      else (let (x, c) = emit_jump OpJump c in Some (add_continue x ls, c)))"
  by pat_completeness auto


termination
proof (relation "measure (case_sum (case_sum (\<lambda>(e, c). 3 * size e) (\<lambda>(e, c). 3 * size e + 1))
        (case_sum (\<lambda>(e, c). 3 * size e + 1)
          (case_sum (\<lambda>(target, op, val, keep, c). 3 * (size target + size val) + 2) (\<lambda>(s, st). 3 * size s))))",
    goal_cases)
  case 1
  then show ?case by simp
qed (auto dest!: size_view size_unwrapped_part size_coalesce size_target_of size_in_items size_case_value
      dest: size_listed [where ?'a = expr] size_listed [where ?'a = stmt] size_func size_const size_static
        size_zip_case size_case_body size_catch_body size_enum_catch size_default size_elems size_in_enumerate)

declare ensureContainer.simps [simp del] storeTop.simps [simp del] assignment.simps [simp del]

lemmas translate_induct = expr_ensureContainer_storeTop_assignment_stmt.induct

end
