(* ===== verification/Interfaces.thy ===== *)
theory Interfaces
  imports Syntax
begin

text \<open>
  \<open>model/interfaces.go\<close>: the check of a class against the interfaces it declares. An interface names
  methods; a class that implements it must declare every method it or an interface it extends
  names. Names are compared in lower case, which the model applies to ASCII letters only.
\<close>

section \<open>Definitions\<close>

abbreviation lower :: "string \<Rightarrow> string" where
  "lower \<equiv> map to_lower"

type_synonym interface_index = "(string \<times> (expr, stmt) interface_decl) list"

record contractMethod =
  cm_Interface :: string
  cm_Method :: string

record InterfaceViolation =
  iv_Decl :: "(expr, stmt) class_decl"
  iv_Class :: string
  iv_Interface :: string
  iv_Method :: string

definition interfaceIndex :: "stmt list \<Rightarrow> interface_index" where
  "interfaceIndex stmts =
     fold (\<lambda>s index. case s of
             InterfaceDeclStmt d \<Rightarrow> AList.update (lower (id_Name d)) d index
           | _ \<Rightarrow> index) stmts []"

fun add_methods ::
  "string \<Rightarrow> (expr, stmt) func_decl list \<Rightarrow> string list \<Rightarrow> contractMethod list \<Rightarrow> string list \<times> contractMethod list"
where
  "add_methods interface [] seen out = (seen, out)"
| "add_methods interface (m # ms) seen out =
     (if lower (fn_Name m) \<in> set seen then add_methods interface ms seen out
      else add_methods interface ms (lower (fn_Name m) # seen)
        (out @ [\<lparr>cm_Interface = interface, cm_Method = fn_Name m\<rparr>]))"

definition unvisited :: "interface_index \<Rightarrow> string list \<Rightarrow> nat" where
  "unvisited index visited = card (fst ` set index - set visited)"

lemma unvisited_less:
  "k \<notin> set visited \<Longrightarrow> map_of index k = Some d \<Longrightarrow> unvisited index (k # visited) < unvisited index visited"
proof -
  assume k: "k \<notin> set visited" "map_of index k = Some d"
  then have "k \<in> fst ` set index" by (auto dest: map_of_SomeD intro: rev_image_eqI)
  then show ?thesis unfolding unvisited_def using k(1) by (intro psubset_card_mono) auto
qed

lemma unvisited_None: "map_of index k = None \<Longrightarrow> unvisited index (k # visited) = unvisited index visited"
  unfolding unvisited_def by (rule arg_cong [where f = card]) (auto simp: map_of_eq_None_iff)

text \<open>
  \<open>collectContract\<close> calls itself for the interfaces a declaration extends, in order; the list holds
  the calls still to make. A key is visited once, so a cycle of \<open>extends\<close> ends.
\<close>

function collectContract ::
  "string list \<Rightarrow> interface_index \<Rightarrow> string list \<Rightarrow> string list \<Rightarrow> contractMethod list \<Rightarrow> contractMethod list"
where
  "collectContract [] index visited seen out = out"
| "collectContract (name # names) index visited seen out =
     (if lower name \<in> set visited then collectContract names index visited seen out
      else
        (case map_of index (lower name) of
           None \<Rightarrow> collectContract names index (lower name # visited) seen out
         | Some decl \<Rightarrow>
             (let (seen', out') = add_methods (id_Name decl) (id_Methods decl) seen out
              in collectContract (id_Extends decl @ names) index (lower name # visited) seen' out')))"
  by pat_completeness auto

termination
  by (relation "measures [\<lambda>(names, index, visited, seen, out). unvisited index visited,
      \<lambda>(names, index, visited, seen, out). length names]")
    (auto simp: unvisited_None unvisited_less)

definition contractOf :: "string \<Rightarrow> interface_index \<Rightarrow> contractMethod list" where
  "contractOf name index = collectContract [name] index [] [] []"

definition declaredMethods :: "(expr, stmt) class_decl \<Rightarrow> stmt list \<Rightarrow> string list" where
  "declaredMethods cd stmts =
     map (\<lambda>m. lower (fn_Name m)) (cd_Methods cd) @
     List.map_filter (\<lambda>s. case s of
         FuncDeclStmt fd \<Rightarrow>
           if fn_Class fd \<noteq> [] \<and> lower (fn_Class fd) = lower (cd_Name cd) then Some (lower (fn_Name fd)) else None
       | _ \<Rightarrow> None) stmts"

definition class_violations :: "stmt list \<Rightarrow> (expr, stmt) class_decl \<Rightarrow> InterfaceViolation list" where
  "class_violations stmts cd =
     concat (map (\<lambda>name.
       map (\<lambda>req. \<lparr>iv_Decl = cd, iv_Class = cd_Name cd, iv_Interface = cm_Interface req, iv_Method = cm_Method req\<rparr>)
         (filter (\<lambda>req. lower (cm_Method req) \<notin> set (declaredMethods cd stmts))
           (contractOf name (interfaceIndex stmts)))) (cd_Implements cd))"

definition CheckInterfaces :: "stmt list \<Rightarrow> (expr, stmt) class_decl list \<Rightarrow> InterfaceViolation list" where
  "CheckInterfaces stmts extra =
     (if interfaceIndex stmts = [] then []
      else
        (let decls = List.map_filter (\<lambda>s. case s of ClassDeclStmt cd \<Rightarrow> Some cd | _ \<Rightarrow> None) stmts @ extra
         in concat (map (class_violations stmts) decls)))"

text \<open>The violations, none for a program that keeps its contracts.\<close>

definition CheckInterfaceContracts :: "ast \<Rightarrow> InterfaceViolation list" where
  "CheckInterfaceContracts prog = CheckInterfaces (ast_Stmts prog) (ast_AnonClasses prog)"

function walk_names :: "string list \<Rightarrow> interface_index \<Rightarrow> string list \<Rightarrow> string list" where
  "walk_names [] index seen = []"
| "walk_names (name # names) index seen =
     (if lower name \<in> set seen then walk_names names index seen
      else
        (case map_of index (lower name) of
           None \<Rightarrow> lower name # walk_names names index (lower name # seen)
         | Some decl \<Rightarrow> lower name # walk_names (id_Extends decl @ names) index (lower name # seen)))"
  by pat_completeness auto

termination
  by (relation "measures [\<lambda>(names, index, seen). unvisited index seen, \<lambda>(names, index, seen). length names]")
    (auto simp: unvisited_None unvisited_less)

definition InterfaceNames :: "(expr, stmt) class_decl \<Rightarrow> stmt list \<Rightarrow> string list" where
  "InterfaceNames cd stmts =
     (if cd_Implements cd = [] then [] else walk_names (cd_Implements cd) (interfaceIndex stmts) [])"

end
