(* ===== verification/Compile.thy ===== *)
theory Compile
  imports Compiler Interfaces Fusion
begin

text \<open>
  \<open>Compile\<close> in \<open>flatstack/engine/program_compiler.go\<close>: the classes of a program are checked and
  registered, their methods compiled, then its statements, and the pass of \<open>fuse.go\<close> runs over the
  result.

  \<open>class.Methods\<close> is a Go map, whose range has no order of its own: \<open>order\<close> is the order one range
  over the entries happens to take.
\<close>

section \<open>Definitions\<close>

datatype rejection = Contract "InterfaceViolation list" | Unsupported | Panic

definition class_of_decl :: "stmt list \<Rightarrow> (expr, stmt) class_decl \<Rightarrow> class_info" where
  "class_of_decl stmts decl =
     \<lparr>ci_Name = cd_Name decl, ci_Implements = InterfaceNames decl stmts, ci_Fields = cd_Fields decl,
      ci_Statics = cd_Statics decl, ci_Consts = cd_Consts decl,
      ci_Methods = fold (\<lambda>m. AList.update (fn_Name m) m) (cd_Methods decl) []\<rparr>"

definition collectClasses :: "ast \<Rightarrow> compiler \<Rightarrow> compiler" where
  "collectClasses prog c =
     c\<lparr>c_classes := c_classes c @
        List.map_filter (\<lambda>s. case s of
            ClassDeclStmt decl \<Rightarrow> Some (class_of_decl (ast_Stmts prog) decl)
          | _ \<Rightarrow> None) (ast_Stmts prog)\<rparr>"

type_synonym method_table = "(string \<times> (expr, stmt) func_decl) list"

definition param_defaults :: "(expr, stmt) func_decl \<Rightarrow> code" where
  "param_defaults node =
     seq (\<lambda>p c.
       case pm_Default p of
         None \<Rightarrow> Some c
       | Some e \<Rightarrow> if pm_Variadic p then Some c else param_default (pm_Name p) (expr e) c) (fn_Params node)"

text \<open>The range is over pointers: a method a nested declaration attaches is in the class by the time its turn comes.\<close>

definition class_methods :: "(method_table \<Rightarrow> method_table) \<Rightarrow> code" where
  "class_methods order c =
     seq (\<lambda>k c.
       case drop k (c_classes c) of
         [] \<Rightarrow> Some c
       | class # rest \<Rightarrow>
           seq (\<lambda>(name, m) c.
             if fn_Name m = ''__construct'' \<or> fn_Name m = ci_Name class then Some c
             else classMethod (ci_Name class) m (param_defaults m) (seq stmt (fn_Body m)) c)
           (order (ci_Methods class)) c) [0..<length (c_classes c)] c"

definition lower_program :: "(method_table \<Rightarrow> method_table) \<Rightarrow> ast \<Rightarrow> Program option" where
  "lower_program order prog = do {
     c \<leftarrow> class_methods order (collectClasses prog new_compiler);
     (ls, c) \<leftarrow> seq stmt (ast_Stmts prog) ([], c);
     Some ((c_program c)\<lparr>p_nameSlots := c_locals c\<rparr>) }"

definition Compile :: "(method_table \<Rightarrow> method_table) \<Rightarrow> ast \<Rightarrow> rejection + Program" where
  "Compile order prog =
     (if CheckInterfaceContracts prog \<noteq> [] then Inl (Contract (CheckInterfaceContracts prog))
      else
        (case lower_program order prog of
           None \<Rightarrow> Inl Unsupported
         | Some p \<Rightarrow> (case finish_program p of None \<Rightarrow> Inl Panic | Some q \<Rightarrow> Inr q)))"

end
