(* ===== verification/Parsed.thy ===== *)
theory Parsed
  imports Compiler
begin

text \<open>
  What the parser guarantees of a tree, as far as the bytecode depends on it: the post step of a
  \<open>for\<close> is an expression or an assignment (\<open>parseSimpleStmt\<close>), and the name of a free function
  holds no \<open>::\<close>.
\<close>

definition simple_step :: "stmt \<Rightarrow> bool" where
  "simple_step s \<longleftrightarrow> (case s of ExprStmt x \<Rightarrow> True | Assign target op val \<Rightarrow> True | _ \<Rightarrow> False)"

definition method_key :: "string \<Rightarrow> bool" where
  "method_key name \<longleftrightarrow> (\<exists>class method. name = class @ ''::'' @ method)"

lemma size_method:
  assumes "m \<in> set (cd_Methods node)"
  shows "p \<in> set (fn_Params m) \<Longrightarrow> pm_Default p = Some e \<Longrightarrow> size e < size_class_decl size size node"
    and "s \<in> set (fn_Body m) \<Longrightarrow> size s < size_class_decl size size node"
  using size_member [OF assms, of "size_func_decl size size"] size_func(1) [of p m e] size_func(2) [of s m]
  by (cases node, force)+

function (sequential) parsed_expr :: "expr \<Rightarrow> bool" and parsed_stmt :: "stmt \<Rightarrow> bool" where
  "parsed_expr (Lit v) \<longleftrightarrow> True"
| "parsed_expr (Interp parts) \<longleftrightarrow> (\<forall>x \<in> set parts. parsed_expr x)"
| "parsed_expr (Var name const) \<longleftrightarrow> True"
| "parsed_expr (ArrayLit items) \<longleftrightarrow> (\<forall>(k, v) \<in> set items. (\<forall>x \<in> set_option k. parsed_expr x) \<and> parsed_expr v)"
| "parsed_expr (IndexExpr base index) \<longleftrightarrow> parsed_expr base \<and> (\<forall>x \<in> set_option index. parsed_expr x)"
| "parsed_expr (PropAccess base name nameExpr) \<longleftrightarrow> parsed_expr base \<and> (\<forall>x \<in> set_option nameExpr. parsed_expr x)"
| "parsed_expr (CallExpr name fallback args first) \<longleftrightarrow> (\<forall>x \<in> set args. parsed_expr x)"
| "parsed_expr (MethodCall base name nameExpr args first) \<longleftrightarrow>
     parsed_expr base \<and> (\<forall>x \<in> set_option nameExpr. parsed_expr x) \<and> (\<forall>x \<in> set args. parsed_expr x)"
| "parsed_expr (New class classExpr args decl) \<longleftrightarrow>
     (\<forall>x \<in> set_option classExpr. parsed_expr x) \<and> (\<forall>x \<in> set args. parsed_expr x)"
| "parsed_expr (Ref x) \<longleftrightarrow> parsed_expr x"
| "parsed_expr (UnaryExpr op x postfix) \<longleftrightarrow> parsed_expr x"
| "parsed_expr (Parenthesized x) \<longleftrightarrow> parsed_expr x"
| "parsed_expr (BinaryExpr op left right) \<longleftrightarrow> parsed_expr left \<and> parsed_expr right"
| "parsed_expr (Ternary cond thn els) \<longleftrightarrow> parsed_expr cond \<and> (\<forall>x \<in> set_option thn. parsed_expr x) \<and> parsed_expr els"
| "parsed_expr (Coalesce left right marked) \<longleftrightarrow> parsed_expr left \<and> parsed_expr right"
| "parsed_expr (ClassConst class name) \<longleftrightarrow> True"
| "parsed_expr (StaticCall class name nameExpr args first) \<longleftrightarrow>
     (\<forall>x \<in> set_option nameExpr. parsed_expr x) \<and> (\<forall>x \<in> set args. parsed_expr x)"
| "parsed_expr (StaticProp class name) \<longleftrightarrow> True"
| "parsed_expr (InvokeExpr callee args first) \<longleftrightarrow> parsed_expr callee \<and> (\<forall>x \<in> set args. parsed_expr x)"
| "parsed_expr (CastExpr typ x) \<longleftrightarrow> parsed_expr x"
| "parsed_expr (Closure params uses body static) \<longleftrightarrow> (\<forall>s \<in> set body. parsed_stmt s)"
| "parsed_expr (AssignExpr target op val) \<longleftrightarrow> parsed_expr target \<and> parsed_expr val"
| "parsed_expr (ListExpr elems) \<longleftrightarrow> (\<forall>el \<in> set elems. \<forall>x \<in> set_option el. parsed_expr x)"
| "parsed_expr (IncludeExpr path keyword once) \<longleftrightarrow> parsed_expr path"

| "parsed_stmt (EchoStmt args) \<longleftrightarrow> (\<forall>x \<in> set args. parsed_expr x)"
| "parsed_stmt (ExprStmt x) \<longleftrightarrow> parsed_expr x"
| "parsed_stmt (Assign target op val) \<longleftrightarrow> parsed_expr target \<and> parsed_expr val"
| "parsed_stmt (IfStmt cond thn els) \<longleftrightarrow>
     parsed_expr cond \<and> (\<forall>s \<in> set thn. parsed_stmt s) \<and> (\<forall>s \<in> set els. parsed_stmt s)"
| "parsed_stmt (Foreach source keyTarget valTarget byRef keyVar valVar body) \<longleftrightarrow>
     parsed_expr source \<and> (\<forall>x \<in> set_option keyTarget. parsed_expr x) \<and> (\<forall>x \<in> set_option valTarget. parsed_expr x) \<and>
     (\<forall>s \<in> set body. parsed_stmt s)"
| "parsed_stmt (For init cond post body) \<longleftrightarrow>
     (\<forall>s \<in> set_option init. parsed_stmt s) \<and> (\<forall>x \<in> set_option cond. parsed_expr x) \<and>
     (\<forall>s \<in> set_option post. simple_step s \<and> parsed_stmt s) \<and> (\<forall>s \<in> set body. parsed_stmt s)"
| "parsed_stmt (DoWhile body cond) \<longleftrightarrow> (\<forall>s \<in> set body. parsed_stmt s) \<and> parsed_expr cond"
| "parsed_stmt (ReturnStmt val) \<longleftrightarrow> (\<forall>x \<in> set_option val. parsed_expr x)"
| "parsed_stmt (IncludeStmt path keyword once) \<longleftrightarrow> parsed_expr path"
| "parsed_stmt (FuncDeclStmt node) \<longleftrightarrow>
     (fn_Class node = [] \<longrightarrow> \<not> method_key (fn_Name node)) \<and>
     (\<forall>p \<in> set (fn_Params node). \<forall>x \<in> set_option (pm_Default p). parsed_expr x) \<and>
     (\<forall>s \<in> set (fn_Body node). parsed_stmt s)"
| "parsed_stmt (ClassDeclStmt node) \<longleftrightarrow>
     (\<forall>m \<in> set (cd_Methods node).
        (\<forall>p \<in> set (fn_Params m). \<forall>x \<in> set_option (pm_Default p). parsed_expr x) \<and>
        (\<forall>s \<in> set (fn_Body m). parsed_stmt s))"
| "parsed_stmt (Declare body) \<longleftrightarrow> (\<forall>s \<in> set body. parsed_stmt s)"
| "parsed_stmt (UnsetStmt targets) \<longleftrightarrow> (\<forall>x \<in> set targets. parsed_expr x)"
| "parsed_stmt (StaticVar node vars) \<longleftrightarrow> (\<forall>(name, init) \<in> set vars. \<forall>x \<in> set_option init. parsed_expr x)"
| "parsed_stmt (ConstDecl consts) \<longleftrightarrow> (\<forall>f \<in> set consts. \<forall>x \<in> set_option (fd_Default f). parsed_expr x)"
| "parsed_stmt (ThrowStmt x) \<longleftrightarrow> parsed_expr x"
| "parsed_stmt (Try body catches final) \<longleftrightarrow>
     (\<forall>s \<in> set body. parsed_stmt s) \<and> (\<forall>h \<in> set catches. \<forall>s \<in> set (ct_Body h). parsed_stmt s) \<and>
     (\<forall>s \<in> set final. parsed_stmt s)"
| "parsed_stmt (Switch cond cases rest) \<longleftrightarrow>
     parsed_expr cond \<and>
     (\<forall>k \<in> set cases. parsed_expr (sc_Value k) \<and> (\<forall>s \<in> set (sc_Body k). parsed_stmt s)) \<and>
     (\<forall>s \<in> set rest. parsed_stmt s)"
| "parsed_stmt s \<longleftrightarrow> True"
  by pat_completeness auto

termination
  by (relation "measure (case_sum size size)")
    (auto dest!: size_in_items
      dest: size_listed [where ?'a = expr] size_listed [where ?'a = stmt] size_func size_method size_const size_static
        size_case_value size_case_body size_catch_body size_in_elems)

definition parsed_func :: "(expr, stmt) func_decl \<Rightarrow> bool" where
  "parsed_func m \<longleftrightarrow>
     (\<forall>p \<in> set (fn_Params m). \<forall>x \<in> set_option (pm_Default p). parsed_expr x) \<and> (\<forall>s \<in> set (fn_Body m). parsed_stmt s)"

definition parsed :: "ast \<Rightarrow> bool" where
  "parsed prog \<longleftrightarrow> (\<forall>s \<in> set (ast_Stmts prog). parsed_stmt s)"

end
