(* ===== verification/CompilerRules.thy ===== *)
theory CompilerRules
  imports Parsed Compile SlotSafety
begin

text \<open>
  What the state of \<open>flatstack/engine/program_compiler.go\<close> keeps while it emits: every operand lies
  in its table and every recorded program counter in the stream, but for the jumps still to be
  patched and the clauses still to be placed; and a rule for each primitive of the compiler.
\<close>

section \<open>The state between two instructions\<close>

abbreviation stream :: "compiler \<Rightarrow> instruction list" where
  "stream c \<equiv> p_code (c_program c)"

definition locals_count :: "compiler \<Rightarrow> int" where
  "locals_count c = int (length (p_localNames (c_program c)))"

definition constants_count :: "compiler \<Rightarrow> int" where
  "constants_count c = int (length (p_constants (c_program c)))"

definition closures_count :: "compiler \<Rightarrow> int" where
  "closures_count c = int (length (p_closures (c_program c)))"

definition groups_count :: "compiler \<Rightarrow> int" where
  "groups_count c = int (length (p_catchGroups (c_program c)))"

lemmas count_defs = locals_count_def constants_count_def closures_count_def groups_count_def here_def

abbreviation slot_in :: "compiler \<Rightarrow> int \<Rightarrow> bool" where
  "slot_in c k \<equiv> 0 \<le> k \<and> k < locals_count c"

abbreviation const_in :: "compiler \<Rightarrow> int \<Rightarrow> bool" where
  "const_in c k \<equiv> 0 \<le> k \<and> k < constants_count c"

abbreviation pc_in :: "compiler \<Rightarrow> int \<Rightarrow> bool" where
  "pc_in c t \<equiv> 0 \<le> t \<and> t \<le> here c"

definition fine :: "compiler \<Rightarrow> instruction \<Rightarrow> bool" where
  "fine c i \<longleftrightarrow> instr_ok (c_program c) i \<and> (\<forall>t \<in> set (recorded i). pc_in c t) \<and>
     (i_op i = OpBinary \<longrightarrow> i_target i = 0)"

definition patchable :: "opcode \<Rightarrow> bool" where
  "patchable op \<longleftrightarrow> jumps op \<or> op = OpTryPush"

definition func_in :: "compiler \<Rightarrow> string \<times> userFuncDef \<Rightarrow> bool" where
  "func_in c nd \<longleftrightarrow> func_ok (c_program c) (snd nd) \<and> pc_in c (f_entryPC (snd nd)) \<and>
     (method_key (fst nd) \<longrightarrow> f_paramSlots (snd nd) \<noteq> [])"

definition tables_ok :: "compiler \<Rightarrow> bool" where
  "tables_ok c \<longleftrightarrow>
     (\<forall>(name, n) \<in> set (c_locals c). slot_in c (int n)) \<and>
     (\<forall>statics. c_statics c = Some statics \<longrightarrow> (\<forall>(name, k) \<in> set statics. const_in c k)) \<and>
     (\<forall>d \<in> set (p_closures (c_program c)). closure_ok (c_program c) d \<and> pc_in c (k_entryPC d)) \<and>
     (\<forall>nd \<in> set (p_userFuncs (c_program c)). func_in c nd) \<and>
     p_userFuncsFold (c_program c) = [] \<and>
     (\<forall>class \<in> set (c_classes c). \<forall>nm \<in> set (ci_Methods class). parsed_func (snd nm))"

text \<open>
  A mark is a jump, the push of a try, or a clause of a catch group. A jump whose target is
  negative is still to be patched, a clause whose target is negative still to be placed.
\<close>

datatype mark = At int | TryAt int | Clause nat nat

fun stands :: "compiler \<Rightarrow> mark \<Rightarrow> bool" where
  "stands c (At x) \<longleftrightarrow> 0 \<le> x \<and> nat x < length (stream c) \<and> patchable (i_op (stream c ! nat x))"
| "stands c (TryAt x) \<longleftrightarrow> 0 \<le> x \<and> nat x < length (stream c) \<and> i_op (stream c ! nat x) = OpTryPush"
| "stands c (Clause n i) \<longleftrightarrow>
     n < length (p_catchGroups (c_program c)) \<and> i < length (p_catchGroups (c_program c) ! n)"

fun target_of_mark :: "compiler \<Rightarrow> mark \<Rightarrow> int" where
  "target_of_mark c (At x) = i_target (stream c ! nat x)"
| "target_of_mark c (TryAt x) = 0"
| "target_of_mark c (Clause n i) = t_target (p_catchGroups (c_program c) ! n ! i)"

definition known :: "compiler \<Rightarrow> mark set" where
  "known c = {m. stands c m}"

definition pending :: "compiler \<Rightarrow> mark set" where
  "pending c = {m. stands c m \<and> target_of_mark c m < 0}"

definition soft :: "compiler \<Rightarrow> instruction \<Rightarrow> bool" where
  "soft c i \<longleftrightarrow> fine c i \<or> patchable (i_op i) \<and> i_target i < 0 \<and> fine c (i\<lparr>i_target := 0\<rparr>)"

definition clauses_in :: "compiler \<Rightarrow> catchClause list list \<Rightarrow> bool" where
  "clauses_in c gs \<longleftrightarrow> (\<forall>clauses \<in> set gs. \<forall>k \<in> set clauses. t_target k \<le> here c \<and> t_local k < locals_count c)"

definition sound :: "compiler \<Rightarrow> bool" where
  "sound c \<longleftrightarrow>
     tables_ok c \<and> (\<forall>i \<in> set (stream c). soft c i) \<and> clauses_in c (p_catchGroups (c_program c))"

text \<open>The state only grows: tables keep what they hold, and an instruction its opcode.\<close>

definition grown :: "compiler \<Rightarrow> compiler \<Rightarrow> bool" where
  "grown c c' \<longleftrightarrow>
     here c \<le> here c' \<and> locals_count c \<le> locals_count c' \<and> constants_count c \<le> constants_count c' \<and>
     closures_count c \<le> closures_count c' \<and> groups_count c \<le> groups_count c' \<and>
     (\<forall>x < length (stream c). i_op (stream c' ! x) = i_op (stream c ! x)) \<and>
     (\<forall>n < length (p_catchGroups (c_program c)).
        length (p_catchGroups (c_program c') ! n) = length (p_catchGroups (c_program c) ! n))"

lemma grown_refl [simp]: "grown c c"
  by (simp add: grown_def)

lemma grown_trans: "grown a b \<Longrightarrow> grown b c \<Longrightarrow> grown a c"
  unfolding grown_def count_defs by (auto simp: order.trans)

lemma grownD:
  assumes "grown c c'"
  shows "here c \<le> here c'" "locals_count c \<le> locals_count c'" "constants_count c \<le> constants_count c'"
    "closures_count c \<le> closures_count c'" "groups_count c \<le> groups_count c'"
  using assms by (simp_all add: grown_def)

lemma grown_slot: "grown c c' \<Longrightarrow> slot_ok (c_program c) k \<Longrightarrow> slot_ok (c_program c') k"
  using grownD(2) [of c c'] by (auto simp: slot_ok_def count_defs)

lemma grown_const: "grown c c' \<Longrightarrow> const_ok (c_program c) k \<Longrightarrow> const_ok (c_program c') k"
  using grownD(3) [of c c'] by (auto simp: const_ok_def count_defs)

lemma grown_group: "grown c c' \<Longrightarrow> group_ok (c_program c) k \<Longrightarrow> group_ok (c_program c') k"
  using grownD(5) [of c c'] by (auto simp: group_ok_def count_defs)

lemma grown_length:
  "grown c c' \<Longrightarrow> k < int (length (p_localNames (c_program c))) \<Longrightarrow> k < int (length (p_localNames (c_program c')))"
  "grown c c' \<Longrightarrow> k < int (length (p_closures (c_program c))) \<Longrightarrow> k < int (length (p_closures (c_program c')))"
  using grownD(2,4) [of c c'] by (auto simp: count_defs)

lemma grown_instr: "grown c c' \<Longrightarrow> instr_ok (c_program c) i \<Longrightarrow> instr_ok (c_program c') i"
  by (cases "i_op i") (auto simp: instr_ok_def intro: grown_slot grown_const grown_group grown_length)

lemma grown_func: "grown c c' \<Longrightarrow> func_in c nd \<Longrightarrow> func_in c' nd"
  using grownD(1) [of c c']
  by (auto simp: func_in_def func_ok_def list_all_iff intro: grown_slot grown_length)

lemma grown_closure:
  "grown c c' \<Longrightarrow> closure_ok (c_program c) d \<and> pc_in c (k_entryPC d) \<Longrightarrow> closure_ok (c_program c') d \<and> pc_in c' (k_entryPC d)"
  using grownD(1) [of c c'] by (auto simp: closure_ok_def list_all_iff intro: grown_slot grown_length)

lemma tables_step:
  assumes g: "grown c c'" and t: "tables_ok c"
    and locals: "\<And>x n. (x, n) \<in> set (c_locals c') \<Longrightarrow> (x, n) \<in> set (c_locals c) \<or> slot_in c' (int n)"
    and statics: "\<And>xs x k. c_statics c' = Some xs \<Longrightarrow> (x, k) \<in> set xs \<Longrightarrow>
      (\<exists>ys. c_statics c = Some ys \<and> (x, k) \<in> set ys) \<or> const_in c' k"
    and closures: "\<And>d. d \<in> set (p_closures (c_program c')) \<Longrightarrow> d \<in> set (p_closures (c_program c)) \<or>
      closure_ok (c_program c') d \<and> pc_in c' (k_entryPC d)"
    and funcs: "\<And>nd. nd \<in> set (p_userFuncs (c_program c')) \<Longrightarrow> nd \<in> set (p_userFuncs (c_program c)) \<or> func_in c' nd"
    and fold: "p_userFuncsFold (c_program c') = p_userFuncsFold (c_program c)"
    and classes: "\<And>k nm. k \<in> set (c_classes c') \<Longrightarrow> nm \<in> set (ci_Methods k) \<Longrightarrow>
      (\<exists>k' \<in> set (c_classes c). nm \<in> set (ci_Methods k')) \<or> parsed_func (snd nm)"
  shows "tables_ok c'"
proof -
  note grow = grownD [OF g]
  note t' = t [unfolded tables_ok_def, THEN conjunct1] t [unfolded tables_ok_def, THEN conjunct2]
  have "\<forall>(name, n) \<in> set (c_locals c'). slot_in c' (int n)" using t'(1) grow(2) locals by fastforce
  moreover have "const_in c' k" if x: "c_statics c' = Some xs" "(x, k) \<in> set xs" for x k xs
    using statics [OF x] t'(2) grow(3) by fastforce
  moreover have "\<forall>d \<in> set (p_closures (c_program c')). closure_ok (c_program c') d \<and> pc_in c' (k_entryPC d)"
    using t'(2) grown_closure [OF g] closures by blast
  moreover have "\<forall>nd \<in> set (p_userFuncs (c_program c')). func_in c' nd" using t'(2) grown_func [OF g] funcs by blast
  moreover have "\<forall>k \<in> set (c_classes c'). \<forall>nm \<in> set (ci_Methods k). parsed_func (snd nm)" using t'(2) classes by blast
  ultimately show ?thesis using t'(2) unfolding tables_ok_def fold by blast
qed

lemma grown_tables:
  assumes "grown c c'" and "tables_ok c"
    and "c_locals c' = c_locals c" "c_statics c' = c_statics c" "p_closures (c_program c') = p_closures (c_program c)"
    "p_userFuncs (c_program c') = p_userFuncs (c_program c)" "p_userFuncsFold (c_program c') = p_userFuncsFold (c_program c)"
    "c_classes c' = c_classes c"
  shows "tables_ok c'"
  by (rule tables_step [OF assms(1,2)]) (auto simp: assms(3-))

lemma grown_fine: "grown c c' \<Longrightarrow> fine c i \<Longrightarrow> fine c' i"
  unfolding fine_def using grown_instr grownD(1) by (metis order.trans)

lemma grown_soft: "grown c c' \<Longrightarrow> soft c i \<Longrightarrow> soft c' i"
  by (auto simp: soft_def intro: grown_fine)

lemma grown_clauses: "grown c c' \<Longrightarrow> clauses_in c gs \<Longrightarrow> clauses_in c' gs"
  using grownD(1,2) [of c c'] by (fastforce simp: clauses_in_def)

lemma sound_tables: "sound c \<Longrightarrow> tables_ok c"
  by (simp add: sound_def)

lemma sound_beside:
  assumes "sound c" and g: "grown c c'" and "tables_ok c'" and "stream c' = stream c"
    and "p_catchGroups (c_program c') = p_catchGroups (c_program c)"
  shows "sound c'"
  using assms(1,3) grown_soft [OF g] grown_clauses [OF g] unfolding sound_def assms(4,5) by blast

lemma sound_same:
  assumes "sound c" and "grown c c'" and "stream c' = stream c"
    and "p_catchGroups (c_program c') = p_catchGroups (c_program c)"
    and "c_locals c' = c_locals c" "c_statics c' = c_statics c" "p_closures (c_program c') = p_closures (c_program c)"
    "p_userFuncs (c_program c') = p_userFuncs (c_program c)" "p_userFuncsFold (c_program c') = p_userFuncsFold (c_program c)"
    "c_classes c' = c_classes c"
  shows "sound c'"
  using grown_tables [OF assms(2) sound_tables [OF assms(1)] assms(5-)] sound_beside [OF assms(1,2)] assms(3,4) by blast

text \<open>The marks depend on the stream and the groups alone.\<close>

lemma marks_same:
  assumes "stream c' = stream c" and "p_catchGroups (c_program c') = p_catchGroups (c_program c)"
  shows "known c' = known c" "pending c' = pending c"
proof -
  have s: "stands c' m = stands c m" "target_of_mark c' m = target_of_mark c m" for m by (cases m; simp add: assms)+
  show "known c' = known c" "pending c' = pending c" unfolding known_def pending_def s by (rule refl)+
qed

section \<open>Primitives\<close>


lemma grown_put [simp]: "grown c (put i c)"
  by (simp add: grown_def count_defs put_def nth_append)

lemma sound_put:
  assumes "sound c" and "soft (put i c) i"
  shows "sound (put i c)"
proof -
  have g: "grown c (put i c)" by simp
  have "tables_ok (put i c)" by (rule grown_tables [OF g]) (use assms(1) in \<open>simp_all add: sound_def put_def\<close>)
  moreover have "set (stream (put i c)) = insert i (set (stream c))" by (simp add: put_def)
  moreover have "p_catchGroups (c_program (put i c)) = p_catchGroups (c_program c)" by (simp add: put_def)
  ultimately show ?thesis using assms grown_soft [OF g] grown_clauses [OF g] unfolding sound_def by force
qed

lemma stands_put: "stands (put i c) m \<longleftrightarrow>
  stands c m \<or> m = At (here c) \<and> patchable (i_op i) \<or> m = TryAt (here c) \<and> i_op i = OpTryPush"
  by (cases m) (auto simp: put_def here_def nth_append less_Suc_eq)

lemma known_put [simp]:
  "known (put i c) = known c \<union> (if patchable (i_op i) then {At (here c)} else {}) \<union>
     (if i_op i = OpTryPush then {TryAt (here c)} else {})"
  by (auto simp: known_def stands_put)

lemma pending_put [simp]:
  "pending (put i c) = pending c \<union> (if patchable (i_op i) \<and> i_target i < 0 then {At (here c)} else {})"
proof -
  have "target_of_mark (put i c) m = target_of_mark c m" if "stands c m" for m
    using that by (cases m) (auto simp: put_def nth_append)
  moreover have "target_of_mark (put i c) (At (here c)) = i_target i" "target_of_mark (put i c) (TryAt (here c)) = 0"
    by (simp_all add: put_def here_def)
  moreover have "\<not> stands c (At (here c))" by (simp add: here_def)
  ultimately show ?thesis by (auto simp: pending_def stands_put)
qed

definition add_constant :: "val \<Rightarrow> compiler \<Rightarrow> compiler" where
  "add_constant v c = snd (pool_constant v c)"

lemma pool_constant_eq: "pool_constant v c = (constants_count c, add_constant v c)"
  by (simp add: pool_constant_def add_constant_def constants_count_def)

lemma grown_add_constant [simp]: "grown c (add_constant v c)"
  by (simp add: grown_def count_defs add_constant_def pool_constant_def)

lemma sound_add_constant: "sound c \<Longrightarrow> sound (add_constant v c)"
  by (erule sound_same) (simp_all add: add_constant_def pool_constant_def grown_def count_defs)

lemma marks_add_constant [simp]:
  "known (add_constant v c) = known c" "pending (add_constant v c) = pending c"
  by (rule marks_same; simp add: add_constant_def pool_constant_def)+

lemma counts_put [simp]:
  "here (put i c) = here c + 1" "locals_count (put i c) = locals_count c" "constants_count (put i c) = constants_count c"
  "closures_count (put i c) = closures_count c" "groups_count (put i c) = groups_count c"
  by (simp_all add: count_defs put_def)

lemma counts_add_constant [simp]:
  "here (add_constant v c) = here c" "locals_count (add_constant v c) = locals_count c"
  "constants_count (add_constant v c) = constants_count c + 1"
  "closures_count (add_constant v c) = closures_count c" "groups_count (add_constant v c) = groups_count c"
  by (simp_all add: count_defs add_constant_def pool_constant_def)

lemma here_nonneg [simp]: "0 \<le> here c" "0 \<le> constants_count c" "0 \<le> closures_count c" "0 \<le> groups_count c" "0 \<le> locals_count c"
  by (simp_all add: count_defs)

text \<open>What an instruction must satisfy, in the counts of the state.\<close>

lemma fine_simp:
  "fine c i \<longleftrightarrow>
     (case i_op i of
        OpLoad \<Rightarrow> slot_in c (i_a i)
      | OpLoadConst \<Rightarrow> slot_in c (i_a i)
      | OpStore \<Rightarrow> slot_in c (i_a i)
      | OpUnsetLocal \<Rightarrow> slot_in c (i_a i)
      | OpInitialized \<Rightarrow> slot_in c (i_a i)
      | OpIncDecLocal \<Rightarrow> slot_in c (i_a i)
      | OpRethrow \<Rightarrow> slot_in c (i_a i)
      | OpCompactEntry \<Rightarrow> slot_in c (i_a i)
      | OpPushConst \<Rightarrow> const_in c (i_a i)
      | OpSetStaticProp \<Rightarrow> const_in c (i_a i)
      | OpStaticSeeded \<Rightarrow> const_in c (i_a i)
      | OpStaticLoad \<Rightarrow> const_in c (i_a i)
      | OpStaticStore \<Rightarrow> const_in c (i_a i)
      | OpIncDecStatic \<Rightarrow> const_in c (i_a i)
      | OpBinary \<Rightarrow> i_target i = 0
      | OpBinLL \<Rightarrow> slot_in c (i_a i) \<and> slot_in c (i_c i) \<and> (i_target i = 0 \<or> slot_in c (i_target i - 1))
      | OpBinLC \<Rightarrow> slot_in c (i_a i) \<and> const_in c (i_c i) \<and> (i_target i = 0 \<or> slot_in c (i_target i - 1))
      | OpBinTC \<Rightarrow> const_in c (i_c i) \<and> (i_target i = 0 \<or> slot_in c (i_target i - 1))
      | OpArray \<Rightarrow> 0 \<le> i_a i
      | OpUnsetIndex \<Rightarrow> i_a i < locals_count c
      | OpIterInit \<Rightarrow> 0 \<le> i_a i
      | OpIterNext \<Rightarrow> 0 \<le> i_a i \<and> pc_in c (i_target i) \<and> i_b i < locals_count c \<and> slot_in c (i_c i)
      | OpIterSet \<Rightarrow> 0 \<le> i_a i
      | OpIterClose \<Rightarrow> 0 \<le> i_a i
      | OpJump \<Rightarrow> pc_in c (i_target i)
      | OpJumpFalse \<Rightarrow> pc_in c (i_target i)
      | OpJumpTrue \<Rightarrow> pc_in c (i_target i)
      | OpJumpNotNil \<Rightarrow> pc_in c (i_target i)
      | OpTryPush \<Rightarrow> i_a i < groups_count c \<and> pc_in c (i_target i) \<and> pc_in c (i_b i) \<and> slot_in c (i_c i)
      | OpClosure \<Rightarrow> 0 \<le> i_a i \<and> i_a i < closures_count c
      | _ \<Rightarrow> True)"
  unfolding fine_def
  by (cases "i_op i") (auto simp: instr_ok_def slot_ok_def const_ok_def group_ok_def recorded_def jumps_def count_defs)

section \<open>Slots, patches and tables\<close>

lemma alist_update_member: "(k, v) \<in> set (AList.update a b xs) \<Longrightarrow> k = a \<and> v = b \<or> (k, v) \<in> set xs"
  by (induction xs) (auto split: if_splits)

lemma slot_known: "tables_ok c \<Longrightarrow> map_of (c_locals c) name = Some n \<Longrightarrow> slot_in c (int n)"
  unfolding tables_ok_def by (auto dest!: map_of_SomeD bspec)

lemma slot_facts:
  assumes "slot name c = (k, c')" and "sound c"
  shows "sound c'" "grown c c'" "slot_in c' k" "here c' = here c" "known c' = known c" "pending c' = pending c"
proof -
  have "sound c' \<and> grown c c' \<and> slot_in c' k \<and> stream c' = stream c \<and> p_catchGroups (c_program c') = p_catchGroups (c_program c)"
  proof (cases "map_of (c_locals c) name")
    case (Some n)
    then have "k = int n" "c' = c" using assms(1) by (simp_all add: slot_def)
    then show ?thesis using assms(2) slot_known [OF sound_tables [OF assms(2)] Some] by simp
  next
    case None
    let ?n = "length (p_localNames (c_program c))"
    have k: "k = int ?n" and c': "c' = c\<lparr>c_locals := AList.update name ?n (c_locals c),
        c_program := (c_program c)\<lparr>p_localNames := p_localNames (c_program c) @ [name]\<rparr>\<rparr>"
      using None assms(1) by (simp_all add: slot_def Let_def)
    have g: "grown c c'" by (simp add: grown_def count_defs c')
    have "tables_ok c'"
      by (rule tables_step [OF g sound_tables [OF assms(2)]]) (auto simp: c' count_defs dest!: alist_update_member)
    then have "sound c'" by (rule sound_beside [OF assms(2) g]) (simp_all add: c')
    then show ?thesis using g k by (simp add: c' count_defs)
  qed
  then show "sound c'" "grown c c'" "slot_in c' k" "here c' = here c" "known c' = known c" "pending c' = pending c"
    using marks_same [of c' c] by (simp_all add: here_def)
qed

lemma static_known: "tables_ok c \<Longrightarrow> staticSlot name c = Some k \<Longrightarrow> const_in c k"
  unfolding tables_ok_def staticSlot_def by (auto dest!: map_of_SomeD bspec split: option.splits)

lemma grown_edit: "i_op (f (stream c ! nat x)) = i_op (stream c ! nat x) \<Longrightarrow> grown c (edit x f c)"
  by (cases "nat x < length (stream c)") (auto simp: grown_def count_defs edit_def nth_list_update)

lemma grown_patch [simp]: "grown c (patch x t c)" "grown c (patch_b x t c)"
  by (simp_all add: patch_def patch_b_def grown_edit)

lemma counts_patch [simp]:
  "here (patch x t c) = here c" "locals_count (patch x t c) = locals_count c" "constants_count (patch x t c) = constants_count c"
  "closures_count (patch x t c) = closures_count c" "groups_count (patch x t c) = groups_count c"
  "here (patch_b x t c) = here c" "locals_count (patch_b x t c) = locals_count c" "constants_count (patch_b x t c) = constants_count c"
  "closures_count (patch_b x t c) = closures_count c" "groups_count (patch_b x t c) = groups_count c"
  by (simp_all add: count_defs patch_def patch_b_def edit_def)

lemma sound_edit:
  assumes "sound c" and "i_op (f (stream c ! nat x)) = i_op (stream c ! nat x)"
    and "nat x < length (stream c) \<Longrightarrow> soft c (stream c ! nat x) \<Longrightarrow> soft c (f (stream c ! nat x))"
  shows "sound (edit x f c)"
proof -
  have g: "grown c (edit x f c)" by (rule grown_edit) (rule assms(2))
  have t: "tables_ok (edit x f c)"
    by (rule grown_tables [OF g sound_tables [OF assms(1)]]) (simp_all add: edit_def)
  have s: "stream (edit x f c) = (stream c)[nat x := f (stream c ! nat x)]"
    "p_catchGroups (c_program (edit x f c)) = p_catchGroups (c_program c)" "here (edit x f c) = here c"
    by (simp_all add: edit_def count_defs)
  have "soft c i" if "i \<in> set ((stream c)[nat x := f (stream c ! nat x)])" for i
  proof (cases "nat x < length (stream c)")
    case True
    then have "soft c (f (stream c ! nat x))" using assms(1,3) by (simp add: sound_def)
    then show ?thesis using that assms(1) set_update_subset_insert unfolding sound_def by fastforce
  next
    case False
    then show ?thesis using that assms(1) by (simp add: sound_def list_update_beyond)
  qed
  then show ?thesis using t assms(1) grown_soft [OF g] grown_clauses [OF g] unfolding sound_def s by blast
qed

lemma stands_edit: "i_op (f (stream c ! nat x)) = i_op (stream c ! nat x) \<Longrightarrow> stands (edit x f c) m = stands c m"
  by (cases m; cases "nat x < length (stream c)") (auto simp: edit_def nth_list_update)

lemma known_patch [simp]: "known (patch x t c) = known c" "known (patch_b x t c) = known c"
  by (simp_all add: known_def patch_def patch_b_def stands_edit)

lemma pending_patch [simp]:
  assumes "0 \<le> t" and "At x \<in> known c"
  shows "pending (patch x t c) = pending c - {At x}"
proof -
  have "m \<in> pending (patch x t c) \<longleftrightarrow> m \<in> pending c - {At x}" for m
    using assms by (cases m) (auto simp: pending_def known_def patch_def edit_def nth_list_update stands_edit)
  then show ?thesis by blast
qed

lemma pending_patch_b [simp]: "pending (patch_b x t c) = pending c"
proof -
  have "m \<in> pending (patch_b x t c) \<longleftrightarrow> m \<in> pending c" for m
    by (cases m; cases "nat x < length (stream c)") (auto simp: pending_def patch_b_def edit_def nth_list_update)
  then show ?thesis by blast
qed

lemma sound_patch:
  assumes "sound c" and "At x \<in> known c" and "pc_in c t"
  shows "sound (patch x t c)"
  unfolding patch_def
proof (rule sound_edit [OF assms(1)])
  assume "soft c (stream c ! nat x)"
  then show "soft c ((stream c ! nat x)\<lparr>i_target := t\<rparr>)"
    using assms(2,3) by (auto simp: known_def soft_def patchable_def jumps_def fine_simp split: opcode.splits)
qed simp_all

lemma sound_patch_b:
  assumes "sound c" and "TryAt x \<in> known c" and "pc_in c t"
  shows "sound (patch_b x t c)"
  unfolding patch_b_def
proof (rule sound_edit [OF assms(1)])
  assume "soft c (stream c ! nat x)"
  then show "soft c ((stream c ! nat x)\<lparr>i_b := t\<rparr>)"
    using assms(2,3) by (auto simp: known_def soft_def fine_simp)
qed simp_all

lemma sound_add_closure:
  assumes "sound c" and "closure_ok (c_program c) d" and "pc_in c (k_entryPC d)" and "add_closure d c = (k, c')"
  shows "sound c'" "k = closures_count c" "here c' = here c" "locals_count c' = locals_count c"
    "constants_count c' = constants_count c" "closures_count c' = closures_count c + 1" "groups_count c' = groups_count c"
    "known c' = known c" "pending c' = pending c"
proof -
  have k: "k = closures_count c" and c': "c' = c\<lparr>c_program := (c_program c)\<lparr>p_closures := p_closures (c_program c) @ [d]\<rparr>\<rparr>"
    using assms(4) by (simp_all add: add_closure_def closures_count_def)
  show counts: "k = closures_count c" "here c' = here c" "locals_count c' = locals_count c"
    "constants_count c' = constants_count c" "closures_count c' = closures_count c + 1" "groups_count c' = groups_count c"
    by (simp_all add: k c' count_defs)
  show "known c' = known c" "pending c' = pending c" by (rule marks_same; simp add: c')+
  have g: "grown c c'" by (simp add: grown_def count_defs c')
  have "closure_ok (c_program c') d \<and> pc_in c' (k_entryPC d)" using grown_closure [OF g] assms(2,3) by blast
  then have "tables_ok c'" by (intro tables_step [OF g sound_tables [OF assms(1)]]) (auto simp: c')
  then show "sound c'" by (rule sound_beside [OF assms(1) g]) (simp_all add: c')
qed

lemma update_pair: "nd \<in> set (AList.update a b xs) \<Longrightarrow> nd = (a, b) \<or> nd \<in> set xs"
  by (cases nd) (auto dest: alist_update_member)

lemma sound_add_function:
  assumes "sound c" and "func_in c (key, d)"
  shows "sound (add_function key d c)"
proof -
  let ?c = "add_function key d c"
  have g: "grown c ?c" by (simp add: grown_def count_defs add_function_def)
  then have "func_in ?c (key, d)" using assms(2) by (rule grown_func)
  then have "tables_ok ?c"
    by (intro tables_step [OF g sound_tables [OF assms(1)]]) (auto simp: add_function_def dest!: update_pair)
  then show ?thesis by (rule sound_beside [OF assms(1) g]) (simp_all add: add_function_def)
qed

lemma counts_add_function [simp]:
  "here (add_function key d c) = here c" "locals_count (add_function key d c) = locals_count c"
  "constants_count (add_function key d c) = constants_count c"
  "closures_count (add_function key d c) = closures_count c" "groups_count (add_function key d c) = groups_count c"
  by (simp_all add: count_defs add_function_def)

lemma marks_tables [simp]:
  "known (add_function key d c) = known c" "pending (add_function key d c) = pending c"
  "known (c\<lparr>c_class := class, c_statics := statics, c_inClosure := b\<rparr>) = known c"
  "pending (c\<lparr>c_class := class, c_statics := statics, c_inClosure := b\<rparr>) = pending c"
  "known (declare_statics names k c) = known c" "pending (declare_statics names k c) = pending c"
  "known (c\<lparr>c_classes := ks\<rparr>) = known c" "pending (c\<lparr>c_classes := ks\<rparr>) = pending c"
  "known (c\<lparr>c_nextIter := n\<rparr>) = known c" "pending (c\<lparr>c_nextIter := n\<rparr>) = pending c"
  by (rule marks_same; simp add: add_function_def declare_statics_def)+

text \<open>Fields the tables do not depend on, or depend on alone.\<close>

lemma sound_scope:
  assumes "sound c"
    and "\<And>xs x k. statics = Some xs \<Longrightarrow> (x, k) \<in> set xs \<Longrightarrow> const_in c k"
  shows "sound (c\<lparr>c_class := class, c_statics := statics, c_inClosure := b\<rparr>)"
proof -
  let ?c = "c\<lparr>c_class := class, c_statics := statics, c_inClosure := b\<rparr>"
  have g: "grown c ?c" by (simp add: grown_def count_defs)
  then have "tables_ok ?c"
    using assms(2) by (intro tables_step [OF g sound_tables [OF assms(1)]]) (auto simp: count_defs)
  then show ?thesis by (rule sound_beside [OF assms(1) g]) simp_all
qed

lemma counts_scope [simp]:
  "here (c\<lparr>c_class := class, c_statics := statics, c_inClosure := b\<rparr>) = here c"
  "locals_count (c\<lparr>c_class := class, c_statics := statics, c_inClosure := b\<rparr>) = locals_count c"
  "constants_count (c\<lparr>c_class := class, c_statics := statics, c_inClosure := b\<rparr>) = constants_count c"
  "closures_count (c\<lparr>c_class := class, c_statics := statics, c_inClosure := b\<rparr>) = closures_count c"
  "groups_count (c\<lparr>c_class := class, c_statics := statics, c_inClosure := b\<rparr>) = groups_count c"
  by (simp_all add: count_defs)

lemma fold_update_member:
  "(x, v) \<in> set (fold (\<lambda>name. AList.update name k) names xs) \<Longrightarrow> v = k \<or> (x, v) \<in> set xs"
  by (induction names arbitrary: xs) (auto dest!: alist_update_member)

lemma sound_declare_statics:
  assumes "sound c" and "const_in c k"
  shows "sound (declare_statics names k c)"
proof -
  let ?c = "declare_statics names k c"
  have g: "grown c ?c" by (simp add: grown_def count_defs declare_statics_def)
  have "tables_ok ?c"
    by (rule tables_step [OF g sound_tables [OF assms(1)]])
      (use assms(2) in \<open>auto simp: declare_statics_def count_defs dest!: fold_update_member\<close>)
  then show ?thesis by (rule sound_beside [OF assms(1) g]) (simp_all add: declare_statics_def)
qed

lemma counts_declare_statics [simp]:
  "here (declare_statics names k c) = here c" "locals_count (declare_statics names k c) = locals_count c"
  "constants_count (declare_statics names k c) = constants_count c"
  "closures_count (declare_statics names k c) = closures_count c" "groups_count (declare_statics names k c) = groups_count c"
  by (simp_all add: count_defs declare_statics_def)

lemma attach_method_member:
  "k \<in> set (attach_method node ks) \<Longrightarrow> nm \<in> set (ci_Methods k) \<Longrightarrow>
   (\<exists>k' \<in> set ks. nm \<in> set (ci_Methods k')) \<or> snd nm = node"
  by (induction ks) (auto split: if_splits dest!: update_pair)

lemma sound_attach:
  assumes "sound c" and "parsed_func node"
  shows "sound (c\<lparr>c_classes := attach_method node (c_classes c)\<rparr>)"
proof -
  let ?c = "c\<lparr>c_classes := attach_method node (c_classes c)\<rparr>"
  have g: "grown c ?c" by (simp add: grown_def count_defs)
  have "tables_ok ?c"
    by (rule tables_step [OF g sound_tables [OF assms(1)]]) (use assms(2) in \<open>auto dest!: attach_method_member\<close>)
  then show ?thesis by (rule sound_beside [OF assms(1) g]) simp_all
qed

lemma counts_attach [simp]:
  "here (c\<lparr>c_classes := ks\<rparr>) = here c" "locals_count (c\<lparr>c_classes := ks\<rparr>) = locals_count c"
  "constants_count (c\<lparr>c_classes := ks\<rparr>) = constants_count c"
  "closures_count (c\<lparr>c_classes := ks\<rparr>) = closures_count c" "groups_count (c\<lparr>c_classes := ks\<rparr>) = groups_count c"
  by (simp_all add: count_defs)

lemma sound_nextIter: "sound c \<Longrightarrow> sound (c\<lparr>c_nextIter := n\<rparr>)"
  by (erule sound_same) (simp_all add: grown_def count_defs)

lemma counts_nextIter [simp]:
  "here (c\<lparr>c_nextIter := n\<rparr>) = here c" "locals_count (c\<lparr>c_nextIter := n\<rparr>) = locals_count c"
  "constants_count (c\<lparr>c_nextIter := n\<rparr>) = constants_count c"
  "closures_count (c\<lparr>c_nextIter := n\<rparr>) = closures_count c" "groups_count (c\<lparr>c_nextIter := n\<rparr>) = groups_count c"
  by (simp_all add: count_defs)

section \<open>Catch groups\<close>

lemma sound_add_group:
  assumes "sound c" and "\<forall>k \<in> set clauses. t_target k < 0 \<and> t_local k < locals_count c"
  shows "sound (add_group clauses c)"
proof -
  let ?c = "add_group clauses c"
  have g: "grown c ?c" by (auto simp: grown_def count_defs add_group_def nth_append)
  have t: "tables_ok ?c" by (rule grown_tables [OF g sound_tables [OF assms(1)]]) (simp_all add: add_group_def)
  have s: "stream ?c = stream c" "p_catchGroups (c_program ?c) = p_catchGroups (c_program c) @ [clauses]" "here ?c = here c"
    by (simp_all add: add_group_def count_defs)
  have "clauses_in c [clauses]" using assms(2) by (fastforce simp: clauses_in_def count_defs)
  then have "clauses_in c (p_catchGroups (c_program c) @ [clauses])" using assms(1) by (auto simp: sound_def clauses_in_def)
  then show ?thesis using t assms(1) grown_soft [OF g] grown_clauses [OF g] unfolding sound_def s by blast
qed

lemma marks_add_group:
  assumes "\<forall>k \<in> set clauses. t_target k < 0"
  shows "known (add_group clauses c) = known c \<union> Clause (nat (groups_count c)) ` {..<length clauses}"
    and "pending (add_group clauses c) = pending c \<union> Clause (nat (groups_count c)) ` {..<length clauses}"
proof -
  have "stands (add_group clauses c) m \<longleftrightarrow> stands c m \<or> m \<in> Clause (nat (groups_count c)) ` {..<length clauses}" for m
    by (cases m) (auto simp: add_group_def nth_append count_defs less_Suc_eq)
  moreover have "target_of_mark (add_group clauses c) m = target_of_mark c m" if "stands c m" for m
    using that by (cases m) (auto simp: add_group_def nth_append)
  moreover have "target_of_mark (add_group clauses c) m < 0" if "m \<in> Clause (nat (groups_count c)) ` {..<length clauses}" for m
    using that assms by (auto simp: add_group_def count_defs)
  ultimately show "known (add_group clauses c) = known c \<union> Clause (nat (groups_count c)) ` {..<length clauses}"
    "pending (add_group clauses c) = pending c \<union> Clause (nat (groups_count c)) ` {..<length clauses}"
    by (auto simp: known_def pending_def)
qed

lemma set_clause_groups:
  "p_catchGroups (c_program (set_clause n i t c)) =
     (p_catchGroups (c_program c))[n := (p_catchGroups (c_program c) ! n)[i := (p_catchGroups (c_program c) ! n ! i)\<lparr>t_target := t\<rparr>]]"
  by (simp add: set_clause_def Let_def)

lemma sound_set_clause:
  assumes "sound c" and "Clause n i \<in> known c" and "pc_in c t"
  shows "sound (set_clause n i t c)"
proof -
  let ?c = "set_clause n i t c" and ?gs = "p_catchGroups (c_program c)"
  have k: "n < length ?gs" "i < length (?gs ! n)" using assms(2) by (simp_all add: known_def)
  have g: "grown c ?c" by (auto simp: grown_def count_defs set_clause_def Let_def nth_list_update k)
  have tb: "tables_ok ?c"
    by (rule grown_tables [OF g sound_tables [OF assms(1)]]) (simp_all add: set_clause_def Let_def)
  have s: "stream ?c = stream c" "here ?c = here c" by (simp_all add: set_clause_def Let_def count_defs)
  let ?k = "(?gs ! n ! i)\<lparr>t_target := t\<rparr>"
  have old: "t_target h \<le> here c \<and> t_local h < locals_count c" if "clauses \<in> set ?gs" "h \<in> set clauses" for clauses h
    using that assms(1) by (simp add: sound_def clauses_in_def)
  have new: "t_target ?k \<le> here c \<and> t_local ?k < locals_count c"
    using old [OF nth_mem [OF k(1)] nth_mem [OF k(2)]] assms(3) by simp
  have "t_target h \<le> here c \<and> t_local h < locals_count c"
    if m: "clauses \<in> set (p_catchGroups (c_program ?c))" "h \<in> set clauses" for clauses h
  proof -
    consider "clauses = (?gs ! n)[i := ?k]" | "clauses \<in> set ?gs"
      using m(1) set_update_subset_insert unfolding set_clause_groups by fastforce
    then show ?thesis
    proof cases
      case 1
      then consider "h = ?k" | "h \<in> set (?gs ! n)" using m(2) set_update_subset_insert by fastforce
      then show ?thesis using old [OF nth_mem [OF k(1)]] new by cases blast+
    qed (use old m(2) in blast)
  qed
  then have "clauses_in c (p_catchGroups (c_program ?c))" by (simp add: clauses_in_def)
  then show ?thesis using tb assms(1) grown_soft [OF g] grown_clauses [OF g] unfolding sound_def s by blast
qed

lemma known_set_clause [simp]: "known (set_clause n i t c) = known c"
proof -
  have "stands (set_clause n i t c) m = stands c m" for m
    by (cases m; cases "n < length (p_catchGroups (c_program c))")
      (auto simp: set_clause_groups nth_list_update, simp_all add: set_clause_def Let_def)
  then show ?thesis by (simp add: known_def)
qed

lemma pending_set_clause [simp]:
  assumes "0 \<le> t" and "Clause n i \<in> known c"
  shows "pending (set_clause n i t c) = pending c - {Clause n i}"
proof -
  have s: "stream (set_clause n i t c) = stream c" by (simp add: set_clause_def Let_def)
  have "m \<in> pending (set_clause n i t c) \<longleftrightarrow> m \<in> pending c - {Clause n i}" for m
    using assms by (cases m) (auto simp: pending_def known_def s set_clause_groups nth_list_update split: if_splits)
  then show ?thesis by blast
qed

lemma counts_groups [simp]:
  "here (add_group clauses c) = here c" "locals_count (add_group clauses c) = locals_count c"
  "constants_count (add_group clauses c) = constants_count c"
  "closures_count (add_group clauses c) = closures_count c" "groups_count (add_group clauses c) = groups_count c + 1"
  "here (set_clause n i t c) = here c" "locals_count (set_clause n i t c) = locals_count c"
  "constants_count (set_clause n i t c) = constants_count c"
  "closures_count (set_clause n i t c) = closures_count c" "groups_count (set_clause n i t c) = groups_count c"
  by (simp_all add: count_defs add_group_def set_clause_def Let_def)

end
