(* ===== verification/CompilerKeeps.thy ===== *)
theory CompilerKeeps
  imports CompilerRules
begin

text \<open>
  The calculus the translation of expressions and statements is checked with: a part of the compiler
  keeps the state sound, leaves no mark of its own pending and forgets none; a rule for each
  primitive, for the loops over lists, and for the helpers the translation is built from.
\<close>

section \<open>Partial correctness of a part of the compiler\<close>

definition gives :: "'a option \<Rightarrow> ('a \<Rightarrow> bool) \<Rightarrow> bool" where
  "gives m Q \<longleftrightarrow> (\<forall>a. m = Some a \<longrightarrow> Q a)"

lemma gives_Some [simp]: "gives (Some x) Q = Q x"
  by (simp add: gives_def)

lemma gives_None [simp]: "gives None Q"
  by (simp add: gives_def)

lemma gives_bind [simp]: "gives (Option.bind m f) Q = gives m (\<lambda>x. gives (f x) Q)"
  by (auto simp: gives_def bind_eq_Some_conv)

lemma gives_mono: "gives m Q \<Longrightarrow> (\<And>a. Q a \<Longrightarrow> Q' a) \<Longrightarrow> gives m Q'"
  by (auto simp: gives_def)

lemma gives_map: "gives (map_option f m) Q = gives m (\<lambda>x. Q (f x))"
  by (auto simp: gives_def)

lemma gives_seq:
  assumes "\<And>i s. i < length xs \<Longrightarrow> I i s \<Longrightarrow> gives (f (xs ! i) s) (I (Suc i))" and "I 0 s"
  shows "gives (seq f xs s) (I (length xs))"
  using assms
proof (induction xs arbitrary: I s)
  case (Cons x xs)
  have "gives (f x s) (I 1)" using Cons.prems(1) [of 0 s] Cons.prems(2) by simp
  moreover have "gives (seq f xs t) (I (Suc (length xs)))" if "I 1 t" for t
  proof -
    have "gives (f (xs ! i) s) (I (Suc (Suc i)))" if "i < length xs" "I (Suc i) s" for i s
      using Cons.prems(1) [of "Suc i" s] that by simp
    then show ?thesis using Cons.IH [of "\<lambda>i. I (Suc i)" t] \<open>I 1 t\<close> by simp
  qed
  ultimately show ?case by (auto intro: gives_mono)
qed simp

definition grows :: "compiler \<Rightarrow> compiler \<Rightarrow> bool" where
  "grows c c' \<longleftrightarrow>
     here c \<le> here c' \<and> locals_count c \<le> locals_count c' \<and> constants_count c \<le> constants_count c' \<and>
     closures_count c \<le> closures_count c' \<and> groups_count c \<le> groups_count c' \<and> known c \<subseteq> known c'"

definition keeps :: "code \<Rightarrow> bool" where
  "keeps m \<longleftrightarrow> (\<forall>c. sound c \<longrightarrow> gives (m c) (\<lambda>c'. sound c' \<and> pending c' \<subseteq> pending c \<and> grows c c'))"

lemma keepsI:
  "(\<And>c. sound c \<Longrightarrow> gives (m c) (\<lambda>c'. sound c' \<and> pending c' \<subseteq> pending c \<and> grows c c')) \<Longrightarrow> keeps m"
  by (simp add: keeps_def)

lemma gives_step:
  assumes "keeps m" and "sound c"
    and "\<And>c'. sound c' \<Longrightarrow> pending c' \<subseteq> pending c \<Longrightarrow> grows c c' \<Longrightarrow> Q c'"
  shows "gives (m c) Q"
proof (rule gives_mono)
  show "gives (m c) (\<lambda>c'. sound c' \<and> pending c' \<subseteq> pending c \<and> grows c c')" using assms(1,2) by (simp add: keeps_def)
qed (use assms(3) in blast)

lemma gives_slot:
  assumes "sound c"
    and "\<And>k c'. sound c' \<Longrightarrow> slot_in c' k \<Longrightarrow> here c' = here c \<Longrightarrow> known c' = known c \<Longrightarrow> pending c' = pending c \<Longrightarrow>
      grows c c' \<Longrightarrow> gives (f k c') Q"
  shows "gives (case slot name c of (k, c') \<Rightarrow> f k c') Q"
proof -
  obtain k c' where s: "slot name c = (k, c')" by fastforce
  show ?thesis using assms(2) [of c' k] slot_facts [OF s assms(1)] grownD [of c c'] by (simp add: s grows_def)
qed

definition jumping :: "opcode \<Rightarrow> compiler \<Rightarrow> compiler" where
  "jumping op = put ((instr op)\<lparr>i_target := - 1\<rparr>)"

lemma emit_jump_eq [simp]: "emit_jump op c = (here c, jumping op c)"
  by (simp add: emit_jump_def emit_def jumping_def)

lemma sound_jumping: "sound c \<Longrightarrow> op \<in> {OpJump, OpJumpFalse, OpJumpTrue, OpJumpNotNil} \<Longrightarrow> sound (jumping op c)"
  by (auto simp: jumping_def soft_def patchable_def jumps_def fine_simp instr_def intro!: sound_put)

lemma jumping_marks [simp]:
  "op \<in> {OpJump, OpJumpFalse, OpJumpTrue, OpJumpNotNil} \<Longrightarrow> known (jumping op c) = insert (At (here c)) (known c)"
  "op \<in> {OpJump, OpJumpFalse, OpJumpTrue, OpJumpNotNil} \<Longrightarrow> pending (jumping op c) = insert (At (here c)) (pending c)"
  "here (jumping op c) = here c + 1" "locals_count (jumping op c) = locals_count c"
  "constants_count (jumping op c) = constants_count c"
  "closures_count (jumping op c) = closures_count c" "groups_count (jumping op c) = groups_count c"
  by (auto simp: jumping_def patchable_def jumps_def instr_def)

text \<open>An instruction that is not a jump opens no mark.\<close>

definition plain :: "opcode \<Rightarrow> bool" where
  "plain op \<longleftrightarrow> \<not> patchable op"

lemma sound_plain: "sound c \<Longrightarrow> fine (put i c) i \<Longrightarrow> sound (put i c)"
  by (simp add: sound_put soft_def)

lemma sound_push_const: "sound c \<Longrightarrow> sound (push_const v c)"
  by (simp add: push_const_def pool_constant_eq, rule sound_plain, rule sound_add_constant, assumption)
    (simp add: fine_simp instr_def)

lemma push_const_facts [simp]:
  "here (push_const v c) = here c + 1" "locals_count (push_const v c) = locals_count c"
  "constants_count (push_const v c) = constants_count c + 1"
  "closures_count (push_const v c) = closures_count c" "groups_count (push_const v c) = groups_count c"
  "known (push_const v c) = known c" "pending (push_const v c) = pending c"
  by (simp_all add: push_const_def pool_constant_eq patchable_def jumps_def instr_def)

lemma sound_store: "sound c \<Longrightarrow> slot_in c k \<Longrightarrow> sound (store k c)"
  by (simp add: store_def sound_plain fine_simp instr_def)

lemma sound_load: "sound c \<Longrightarrow> slot_in c k \<Longrightarrow> sound (load k c)"
  by (simp add: load_def sound_plain fine_simp instr_def)

lemma load_store_facts [simp]:
  "here (load k c) = here c + 1" "locals_count (load k c) = locals_count c" "constants_count (load k c) = constants_count c"
  "closures_count (load k c) = closures_count c" "groups_count (load k c) = groups_count c"
  "known (load k c) = known c" "pending (load k c) = pending c"
  "here (store k c) = here c + 1" "locals_count (store k c) = locals_count c" "constants_count (store k c) = constants_count c"
  "closures_count (store k c) = closures_count c" "groups_count (store k c) = groups_count c"
  "known (store k c) = known c" "pending (store k c) = pending c"
  by (simp_all add: load_def store_def patchable_def jumps_def instr_def)

lemma grows_refl [simp]: "grows c c"
  by (simp add: grows_def)

lemmas building = gives_slot sound_plain sound_jumping sound_push_const sound_load sound_store sound_patch sound_patch_b
  sound_add_constant

lemmas shape = fine_simp instr_def pool_constant_eq patchable_def jumps_def Let_def

lemma keeps_coalesce:
  assumes "keeps left" and "keeps right"
  shows "keeps (coalesce left right)"
  unfolding coalesce_def
  by (rule keepsI) (auto intro!: assms [THEN gives_step] building simp: shape grows_def; blast)

lemma keeps_ternary:
  assumes cond: "keeps cond" and thn: "\<And>t. thn = Some t \<Longrightarrow> keeps t" and els: "keeps els"
  shows "keeps (ternary cond thn els)"
proof (cases thn)
  case None
  show ?thesis unfolding ternary_def None
    by (rule keepsI) (auto intro!: cond [THEN gives_step] els [THEN gives_step] building simp: shape grows_def; blast)
next
  case (Some t)
  show ?thesis unfolding ternary_def Some
    by (rule keepsI) (auto intro!: cond [THEN gives_step] els [THEN gives_step] thn [OF Some, THEN gives_step] building
      simp: shape grows_def; blast)
qed


lemma keeps_put: "(\<And>c. sound c \<Longrightarrow> fine (put i c) i) \<Longrightarrow> \<not> patchable (i_op i) \<Longrightarrow> i_op i \<noteq> OpTryPush \<Longrightarrow>
    keeps (\<lambda>c. Some (put i c))"
  by (rule keepsI) (auto simp: sound_plain grows_def)

lemma keeps_then:
  assumes "keeps m" and "keeps f"
  shows "keeps (\<lambda>c. Option.bind (m c) f)"
  by (rule keepsI) (auto intro!: assms [THEN gives_step] simp: grows_def; blast)

lemma keeps_seq:
  assumes "\<And>x. x \<in> set xs \<Longrightarrow> keeps (f x)"
  shows "keeps (seq f xs)"
proof (rule keepsI)
  fix c assume c: "sound c"
  show "gives (seq f xs c) (\<lambda>c'. sound c' \<and> pending c' \<subseteq> pending c \<and> grows c c')"
  proof (rule gives_seq [where I = "\<lambda>i c'. sound c' \<and> pending c' \<subseteq> pending c \<and> grows c c'"])
    fix i s assume "i < length xs" and "sound s \<and> pending s \<subseteq> pending c \<and> grows c s"
    then show "gives (f (xs ! i) s) (\<lambda>c'. sound c' \<and> pending c' \<subseteq> pending c \<and> grows c c')"
      by (auto intro!: assms [THEN gives_step] simp: grows_def; blast)
  qed (simp add: c)
qed

lemma keeps_logic:
  assumes "keeps left" and "keeps right" and "op \<in> {OpJumpTrue, OpJumpFalse}"
  shows "keeps (\<lambda>c. do {
           c \<leftarrow> left c;
           let (branch, c) = emit_jump op c;
           c \<leftarrow> right c;
           let (end, c) = emit_jump OpJump (put (instr OpTruthy) c);
           let c = push_const v (patch branch (here c) c);
           Some (patch end (here c) c) })"
proof -
  consider "op = OpJumpTrue" | "op = OpJumpFalse" using assms(3) by blast
  then show ?thesis
  proof cases
    case 1
    show ?thesis unfolding 1
      by (rule keepsI, simp add: Let_def, intro assms(1,2) [THEN gives_step] building)
        (simp_all add: shape grows_def, auto intro!: building simp: shape)
  next
    case 2
    show ?thesis unfolding 2
      by (rule keepsI, simp add: Let_def, intro assms(1,2) [THEN gives_step] building)
        (simp_all add: shape grows_def, auto intro!: building simp: shape)
  qed
qed

lemma keeps_load_var: "keeps (\<lambda>c. Some (load_var name c))"
proof (rule keepsI)
  fix c assume c: "sound c"
  show "gives (Some (load_var name c)) (\<lambda>c'. sound c' \<and> pending c' \<subseteq> pending c \<and> grows c c')"
  proof (cases "staticSlot name c")
    case (Some k)
    then show ?thesis using c static_known [OF sound_tables [OF c] Some]
      by (auto simp: load_var_def shape grows_def intro!: building)
  next
    case None
    have "gives (case slot name c of (k, c') \<Rightarrow> Some (load k c')) (\<lambda>c'. sound c' \<and> pending c' \<subseteq> pending c \<and> grows c c')"
      using c by (auto simp: grows_def intro!: building)
    then show ?thesis by (simp add: load_var_def None split_def Let_def)
  qed
qed

lemma keeps_methodName: "(\<And>m. nameExpr = Some m \<Longrightarrow> keeps m) \<Longrightarrow> keeps (methodName name nameExpr)"
  by (cases nameExpr) (auto simp: methodName_def keeps_def sound_push_const grows_def)

lemma keeps_binary:
  assumes "keeps left" and "keeps right"
  shows "keeps (binary name left right rhs)"
proof -
  define op where "op = (if name = ''and'' then ''&&'' else if name = ''or'' then ''||'' else name)"
  have side: "keeps (\<lambda>c. case UnwrapParenthesized rhs of
      Var class const \<Rightarrow> if const then Some (push_const (VStr class) c) else right c | _ \<Rightarrow> right c)"
    using assms(2) by (cases "UnwrapParenthesized rhs") (auto simp: keeps_def sound_push_const grows_def)
  have emitted: "keeps (\<lambda>c. Some (put ((instr OpBinary)\<lparr>i_b := binOpClass name, i_name := name\<rparr>) c))"
    by (rule keeps_put) (auto simp: shape)
  consider "op = ''&&'' \<or> op = ''||''" | "op = ''instanceof''" | "op \<noteq> ''&&''" "op \<noteq> ''||''" "op \<noteq> ''instanceof''" by blast
  then show ?thesis
  proof cases
    case 1
    then show ?thesis
      using keeps_logic [OF assms, of "if op = ''||'' then OpJumpTrue else OpJumpFalse" "VBool (op = ''||'')"]
      unfolding binary_def op_def [symmetric] Let_def by (simp cong: if_cong)
  next
    case 2
    then show ?thesis using keeps_then [OF assms(1) keeps_then [OF side emitted]]
      unfolding binary_def op_def [symmetric] Let_def by simp
  next
    case 3
    then show ?thesis using keeps_then [OF assms(1) keeps_then [OF assms(2) emitted]]
      unfolding binary_def op_def [symmetric] Let_def by (simp add: keeps_def)
  qed
qed

lemma keeps_coalesce_store:
  assumes "keeps assign"
  shows "keeps (\<lambda>c. coalesce_store c assign keep)"
  unfolding coalesce_store_def
  by (rule keepsI) (auto intro!: assms [THEN gives_step] building simp: shape grows_def; blast)

lemma gives_indexSlots:
  assumes "sound c"
    and "\<And>b k c'. sound c' \<Longrightarrow> slot_in c' b \<Longrightarrow> slot_in c' k \<Longrightarrow> here c' = here c \<Longrightarrow> known c' = known c \<Longrightarrow>
      pending c' = pending c \<Longrightarrow> grows c c' \<Longrightarrow> gives (f b k c') Q"
  shows "gives (case indexSlots c of (b, k, c') \<Rightarrow> f b k c') Q"
proof -
  obtain b c1 where 1: "slot (slot_name ''assign-base-'' (nat (here c))) c = (b, c1)" by fastforce
  obtain k c2 where 2: "slot (slot_name ''assign-key-'' (nat (here c))) c1 = (k, c2)" by fastforce
  note f1 = slot_facts [OF 1 assms(1)]
  note f2 = slot_facts [OF 2 f1(1)]
  have "slot_in c2 b" using f1(3) grownD(2) [OF f2(2)] by simp
  moreover have "grows c c2"
    using f1 f2 grownD [OF f1(2)] grownD [OF f2(2)] by (simp add: grows_def)
  ultimately show ?thesis using f1 f2 assms(2) [of c2 b k] by (simp add: indexSlots_def 1 2 Let_def)
qed

lemma keeps_resolveIndex_then:
  assumes "keeps base" and "keeps index"
    and "\<And>b k c. sound c \<Longrightarrow> slot_in c b \<Longrightarrow> slot_in c k \<Longrightarrow> gives (f b k c) (\<lambda>c'. sound c' \<and> pending c' \<subseteq> pending c \<and> grows c c')"
  shows "keeps (\<lambda>c. let (b, k, c) = indexSlots c in Option.bind (resolveIndex base index b k c) (f b k))"
  unfolding resolveIndex_def Let_def
  by (rule keepsI) (auto intro!: assms(1,2) [THEN gives_step] gives_indexSlots building
      gives_mono [OF assms(3)] simp: shape grows_def; blast)


lemma keeps_coalesceIndex:
  assumes "keeps base" and "keeps index" and "keeps right"
  shows "keeps (coalesceIndex base index right keep)"
  unfolding coalesceIndex_def resolveIndex_def coalesce_store_def
  by (rule keepsI, subst Let_def, rule gives_indexSlots, assumption, simp add: Let_def, intro assms [THEN gives_step] building)
    (simp_all add: shape grows_def, auto intro!: building simp: shape)

lemma keeps_coalesceProp:
  assumes "keeps base" and "keeps right"
  shows "keeps (coalesceProp base name right keep)"
  unfolding coalesceProp_def coalesce_store_def
  by (rule keepsI, subst Let_def, rule gives_slot, assumption, simp add: Let_def, intro assms [THEN gives_step] building)
    (simp_all add: shape grows_def, auto intro!: building simp: shape)

lemma keeps_compact_dynamic:
  assumes "keeps name"
  shows "keeps (compact_dynamic name)"
  unfolding compact_dynamic_def
  by (rule keepsI) (auto intro!: assms [THEN gives_step] building simp: shape grows_def; blast)

lemma keeps_param_default:
  assumes "keeps value"
  shows "keeps (param_default name value)"
  unfolding param_default_def
  by (rule keepsI, subst Let_def, rule gives_slot, assumption, simp add: Let_def, intro assms [THEN gives_step] building)
    (simp_all add: shape grows_def, auto intro!: building simp: shape)

text \<open>The slots of parameters and captures.\<close>

definition slots_in :: "compiler \<Rightarrow> int list \<Rightarrow> bool" where
  "slots_in c slots \<longleftrightarrow> list_all (slot_in c) slots"

lemma slots_in_simps [simp]: "slots_in c []" "slots_in c (xs @ ys) \<longleftrightarrow> slots_in c xs \<and> slots_in c ys"
    "slots_in c (x # xs) \<longleftrightarrow> slot_in c x \<and> slots_in c xs"
  by (simp_all add: slots_in_def)

lemma slots_in_grows: "slots_in c xs \<Longrightarrow> grows c c' \<Longrightarrow> slots_in c' xs"
  by (auto simp: slots_in_def grows_def list_all_iff)

definition named :: "compiler \<Rightarrow> compiler \<Rightarrow> bool" where
  "named c c' \<longleftrightarrow> sound c' \<and> here c' = here c \<and> known c' = known c \<and> pending c' = pending c \<and> grows c c'"

lemma named_trans: "named a b \<Longrightarrow> named b c \<Longrightarrow> named a c"
  by (auto simp: named_def grows_def)

lemma named_slot: "slot name c = (k, c') \<Longrightarrow> sound c \<Longrightarrow> named c c' \<and> slot_in c' k"
  using slot_facts [of name c k c'] grownD [of c c'] by (simp add: named_def grows_def)

lemma paramSlots_facts:
  "paramSlots ps slots c = Some (slots', v, c') \<Longrightarrow> sound c \<Longrightarrow> slots_in c slots \<Longrightarrow>
   named c c' \<and> slots_in c' slots' \<and> v < locals_count c' \<and> (slots \<noteq> [] \<longrightarrow> slots' \<noteq> [])"
proof (induction ps slots c rule: paramSlots.induct)
  case (1 slots c)
  then show ?case by (auto simp: named_def order.strict_trans2 [of "-1" 0])
next
  case (2 p ps slots c)
  obtain k c1 where s: "slot (pm_Name p) c = (k, c1)" by fastforce
  note n = named_slot [OF s "2.prems"(2)]
  have old: "slots_in c1 slots" using "2.prems"(3) n slots_in_grows by (auto simp: named_def)
  show ?case
  proof (cases "pm_Variadic p")
    case True
    then show ?thesis using "2.prems" n old by (auto simp: s split: if_splits)
  next
    case False
    then have "named c1 c' \<and> slots_in c' slots' \<and> v < locals_count c' \<and> slots' \<noteq> []"
      using "2.IH" [OF False s [symmetric]] "2.prems" n old by (auto simp: s named_def)
    then show ?thesis using n named_trans by blast
  qed
qed

lemma closure_params_facts:
  "closure_params ps slots c = Some (slots', c') \<Longrightarrow> sound c \<Longrightarrow> slots_in c slots \<Longrightarrow> named c c' \<and> slots_in c' slots'"
proof (induction ps slots c rule: closure_params.induct)
  case (2 p ps slots c)
  obtain k c1 where s: "slot (pm_Name p) c = (k, c1)" by fastforce
  note n = named_slot [OF s "2.prems"(2)]
  have old: "slots_in c1 slots" using "2.prems"(3) n slots_in_grows by (auto simp: named_def)
  then have "named c1 c' \<and> slots_in c' slots'"
    using "2.IH" [OF _ s [symmetric]] "2.prems" n by (auto simp: s named_def split: if_splits)
  then show ?case using n named_trans by blast
qed (simp add: named_def)

lemma closure_uses_facts:
  "closure_uses us slots c = Some (slots', c') \<Longrightarrow> sound c \<Longrightarrow> slots_in c slots \<Longrightarrow> named c c' \<and> slots_in c' slots'"
proof (induction us slots c rule: closure_uses.induct)
  case (2 name byRef us slots c)
  obtain k c1 where s: "slot name c = (k, c1)" by fastforce
  note n = named_slot [OF s "2.prems"(2)]
  have old: "slots_in c1 slots" using "2.prems"(3) n slots_in_grows by (auto simp: named_def)
  then have "named c1 c' \<and> slots_in c' slots'"
    using "2.IH" [OF _ s [symmetric]] "2.prems" n by (auto simp: s named_def split: if_splits)
  then show ?case using n named_trans by blast
qed (simp add: named_def)

section \<open>Loops under construction\<close>

text \<open>The jumps the open loops still owe a target.\<close>

definition owed :: "loopContext list \<Rightarrow> mark set" where
  "owed ls = (\<Union>l \<in> set ls. At ` (set (l_breaks l) \<union> set (l_continues l)))"

definition later_loop :: "loopContext \<Rightarrow> loopContext \<Rightarrow> bool" where
  "later_loop l l' \<longleftrightarrow>
     set (l_breaks l) \<subseteq> set (l_breaks l') \<and> set (l_continues l) \<subseteq> set (l_continues l') \<and>
     l_continueTarget l' = l_continueTarget l \<and> l_writeBack l' = l_writeBack l \<and>
     (l_continueTarget l = - 1 \<longrightarrow> l_continues l' = l_continues l)"

abbreviation later_loops :: "loopContext list \<Rightarrow> loopContext list \<Rightarrow> bool" where
  "later_loops \<equiv> list_all2 later_loop"

definition carried :: "loopContext list \<Rightarrow> bool" where
  "carried ls \<longleftrightarrow> (\<forall>l \<in> set ls. \<forall>w. l_writeBack l = Some w \<longrightarrow> keeps w)"

definition built :: "loopContext list \<Rightarrow> compiler \<Rightarrow> bool" where
  "built ls c \<longleftrightarrow> sound c \<and> owed ls \<subseteq> known c \<and> carried ls"

definition after :: "loopContext list \<Rightarrow> compiler \<Rightarrow> block_state \<Rightarrow> bool" where
  "after ls c = (\<lambda>(ls', c').
     built ls' c' \<and> grows c c' \<and> later_loops ls ls' \<and> pending c' \<subseteq> pending c \<union> owed ls')"

definition walks :: "(block_state \<Rightarrow> block_state option) \<Rightarrow> bool" where
  "walks f \<longleftrightarrow> (\<forall>ls c. built ls c \<longrightarrow> gives (f (ls, c)) (after ls c))"

lemma owed_simps [simp]: "owed [] = {}" "owed (l # ls) = At ` (set (l_breaks l) \<union> set (l_continues l)) \<union> owed ls"
  by (auto simp: owed_def)

lemma carried_simps [simp]: "carried []" "carried (l # ls) \<longleftrightarrow> (\<forall>w. l_writeBack l = Some w \<longrightarrow> keeps w) \<and> carried ls"
  by (simp_all add: carried_def)

lemma later_refl [simp]: "later_loop l l" "later_loops ls ls"
  by (simp_all add: later_loop_def list_all2_refl)

lemma later_trans: "later_loops a b \<Longrightarrow> later_loops b c \<Longrightarrow> later_loops a c"
  by (rule list_all2_trans [of later_loop later_loop]) (auto simp: later_loop_def)

lemma later_owed: "later_loops ls ls' \<Longrightarrow> owed ls \<subseteq> owed ls'"
  by (induction rule: list_all2_induct) (auto simp: later_loop_def)

lemma grows_trans: "grows a b \<Longrightarrow> grows b c \<Longrightarrow> grows a c"
  by (auto simp: grows_def)

lemma after_trans: "after ls c (ls', c') \<Longrightarrow> after ls' c' st \<Longrightarrow> after ls c st"
  unfolding after_def by (auto dest: later_owed intro: grows_trans later_trans)

lemma walksI: "(\<And>ls c. built ls c \<Longrightarrow> gives (f (ls, c)) (after ls c)) \<Longrightarrow> walks f"
  by (simp add: walks_def)

lemma gives_walk:
  assumes "walks f" and "built ls c" and "\<And>ls' c'. after ls c (ls', c') \<Longrightarrow> Q (ls', c')"
  shows "gives (f (ls, c)) Q"
proof (rule gives_mono)
  show "gives (f (ls, c)) (after ls c)" using assms(1,2) by (simp add: walks_def)
qed (use assms(3) in auto)

lemma after_built: "after ls c (ls', c') \<Longrightarrow> built ls' c'"
  by (simp add: after_def)

lemma walks_seq:
  assumes "\<And>x. x \<in> set xs \<Longrightarrow> walks (f x)"
  shows "walks (seq f xs)"
proof (rule walksI)
  fix ls c assume b: "built ls c"
  show "gives (seq f xs (ls, c)) (after ls c)"
  proof (rule gives_seq [where I = "\<lambda>i. after ls c"])
    fix i st assume i: "i < length xs" and a: "after ls c st"
    obtain ls' c' where st: "st = (ls', c')" by fastforce
    show "gives (f (xs ! i) st) (after ls c)"
      unfolding st using after_built [OF a [unfolded st]] after_trans [OF a [unfolded st]]
      by (intro gives_walk [OF assms]) (simp_all add: i)
  qed (use b in \<open>simp add: after_def built_def\<close>)
qed

text \<open>A part that leaves the loops alone.\<close>

lemma walks_keeps:
  assumes "keeps m"
  shows "walks (\<lambda>(ls, c). Option.bind (m c) (\<lambda>c. Some (ls, c)))"
  by (rule walksI) (auto simp: built_def after_def grows_def intro!: assms [THEN gives_step]; blast)

lemma keeps_body:
  assumes "walks body"
  shows "keeps (\<lambda>c. map_option snd (body ([], c)))"
proof (rule keepsI)
  fix c assume "sound c"
  then have "gives (body ([], c)) (\<lambda>st. sound (snd st) \<and> pending (snd st) \<subseteq> pending c \<and> grows c (snd st))"
    by (intro gives_walk [OF assms]) (auto simp: built_def after_def)
  then show "gives (map_option snd (body ([], c))) (\<lambda>c'. sound c' \<and> pending c' \<subseteq> pending c \<and> grows c c')" by (simp only: gives_map)
qed


section \<open>Functions and closures\<close>

lemma gives_scoped:
  assumes "sound c" and "\<And>xs x k. statics = Some xs \<Longrightarrow> (x, k) \<in> set xs \<Longrightarrow> const_in c k"
    and "\<And>c1. named c c1 \<Longrightarrow> gives (body c1) (\<lambda>c2. sound c2 \<and> grows c1 c2 \<and> pending c2 \<subseteq> P)"
  shows "gives (scoped class statics inside body c) (\<lambda>c'. sound c' \<and> grows c c' \<and> pending c' \<subseteq> P)"
proof -
  let ?c = "c\<lparr>c_class := class, c_statics := statics, c_inClosure := inside\<rparr>"
  have n: "named c ?c" using sound_scope [OF assms(1,2)] by (simp add: named_def grows_def)
  have "sound (c'\<lparr>c_class := c_class c, c_statics := c_statics c, c_inClosure := c_inClosure c\<rparr>)"
    if c': "sound c'" "grows ?c c'" for c'
  proof (rule sound_scope [OF c'(1)])
    fix xs x k assume "c_statics c = Some xs" "(x, k) \<in> set xs"
    then have "const_in c k" using sound_tables [OF assms(1)] by (auto simp: tables_ok_def)
    then show "const_in c' k" using c'(2) by (simp add: grows_def)
  qed
  then show ?thesis
    unfolding scoped_def using assms(3) [OF n] n
    by (auto elim!: gives_mono simp: named_def grows_def)
qed

lemma keeps_function_code:
  assumes "keeps defaults" and "walks body" and "method_key key \<longrightarrow> receiver"
  shows "keeps (function_code key class receiver params defaults body)"
proof (rule keepsI)
  fix c assume c: "sound c"
  let ?j = "jumping OpJump c"
  let ?P = "pending c"
  have finish: "gives (body ([], d)) (\<lambda>(ls, d). sound (add_function key \<lparr>f_entryPC = here ?j, f_paramSlots = slots, f_variadicSlot = v\<rparr>
        (patch (here c) (here (put (instr OpReturn) (push_const VNil d))) (put (instr OpReturn) (push_const VNil d)))) \<and>
      grows a d \<and> pending (patch (here c) (here (put (instr OpReturn) (push_const VNil d))) (put (instr OpReturn) (push_const VNil d))) \<subseteq> ?P)"
    if d: "sound d" "grows ?j a" "grows a d" "pending d \<subseteq> insert (At (here c)) ?P" "slots_in d slots" "v < locals_count d"
      "receiver \<longrightarrow> slots \<noteq> []" for d slots v a
  proof (rule gives_walk [OF assms(2)])
    fix ls e assume "after [] d (ls, e)"
    then have e: "sound e" "grows d e" "pending e \<subseteq> pending d" by (auto simp: after_def built_def)
    let ?r = "put (instr OpReturn) (push_const VNil e)"
    let ?d = "\<lparr>f_entryPC = here ?j, f_paramSlots = slots, f_variadicSlot = v\<rparr>"
    have j: "At (here c) \<in> known ?r" using d(2,3) e(2) by (auto simp: grows_def)
    have r: "sound (patch (here c) (here ?r) ?r)"
      by (rule sound_patch [OF _ j]) (auto simp: shape intro!: building e(1))
    have l: "slots_in e slots" "v < locals_count e" "here ?j \<le> here e"
      using d(2,3,5,6) e(2) by (auto simp: grows_def slots_in_def list_all_iff)
    then have "func_in (patch (here c) (here ?r) ?r) (key, ?d)"
      using d(7) assms(3)
      by (auto simp: func_in_def func_ok_def slots_in_def list_all_iff slot_ok_def locals_count_def [symmetric])
    then show "case (ls, e) of (ls, d) \<Rightarrow> sound (add_function key ?d (patch (here c) (here (put (instr OpReturn) (push_const VNil d)))
        (put (instr OpReturn) (push_const VNil d)))) \<and> grows a d \<and>
        pending (patch (here c) (here (put (instr OpReturn) (push_const VNil d))) (put (instr OpReturn) (push_const VNil d))) \<subseteq> ?P"
      using sound_add_function [OF r] d(3,4) e(2,3) j by (auto simp: shape intro: grows_trans)
  qed (use d in \<open>simp add: built_def\<close>)
  have j: "sound ?j" using sound_jumping [OF c] by simp
  have "gives (scoped class (Some []) False (\<lambda>c'. do {
       let (slots, c') = (if receiver then (let (k, c') = slot ''this'' c' in ([k], c')) else ([], c'));
       (slots, variadic, c') \<leftarrow> paramSlots params slots c';
       c' \<leftarrow> defaults c';
       (ls, c') \<leftarrow> body ([], c');
       let c' = put (instr OpReturn) (push_const VNil c');
       let c' = patch (here c) (here c') c';
       Some (add_function key \<lparr>f_entryPC = here ?j, f_paramSlots = slots, f_variadicSlot = variadic\<rparr> c') }) ?j)
     (\<lambda>c'. sound c' \<and> grows ?j c' \<and> pending c' \<subseteq> ?P)"
  proof (rule gives_scoped [OF j])
    fix a assume a: "named ?j a"
    obtain slots b where r: "(if receiver then (let (k, c') = slot ''this'' a in ([k], c')) else ([], a)) = (slots, b)" by fastforce
    have b: "named a b \<and> slots_in b slots \<and> (receiver \<longrightarrow> slots \<noteq> [])"
    proof (cases receiver)
      case True
      obtain k b' where s: "slot ''this'' a = (k, b')" by fastforce
      show ?thesis using True r s named_slot [OF s] a by (auto simp: named_def)
    next
      case False
      then show ?thesis using r a by (auto simp: named_def)
    qed
    have params: "gives (paramSlots params slots b) (\<lambda>(slots', v, d). named b d \<and> slots_in d slots' \<and> v < locals_count d \<and>
        (slots \<noteq> [] \<longrightarrow> slots' \<noteq> []))"
      using paramSlots_facts b by (auto simp: gives_def named_def)
    show "gives (do {
       let (slots, c') = (if receiver then (let (k, c') = slot ''this'' a in ([k], c')) else ([], a));
       (slots, variadic, c') \<leftarrow> paramSlots params slots c';
       c' \<leftarrow> defaults c';
       (ls, c') \<leftarrow> body ([], c');
       let c' = put (instr OpReturn) (push_const VNil c');
       let c' = patch (here c) (here c') c';
       Some (add_function key \<lparr>f_entryPC = here ?j, f_paramSlots = slots, f_variadicSlot = variadic\<rparr> c') })
      (\<lambda>c2. sound c2 \<and> grows a c2 \<and> pending c2 \<subseteq> ?P)"
      unfolding r unfolding Let_def prod.case gives_bind
    proof (rule gives_mono [OF params], clarsimp simp only: prod.case gives_bind, rule gives_step [OF assms(1)])
      fix s v d e
      assume d: "named b d" "slots_in d s" "v < locals_count d" "slots \<noteq> [] \<longrightarrow> s \<noteq> []"
        and e: "sound e" "pending e \<subseteq> pending d" "grows d e"
      have g: "grows ?j a" "grows a e" "pending e \<subseteq> insert (At (here c)) ?P"
        using a b d(1) e by (auto simp: named_def intro: grows_trans)
      have "slots_in e s" "v < locals_count e" "receiver \<longrightarrow> s \<noteq> []"
        using d(2-4) e(3) b slots_in_grows by (auto simp: grows_def)
      from finish [OF e(1) g this] show "gives (body ([], e)) (\<lambda>x. gives (case x of (ls, d) \<Rightarrow> Some (add_function key
          \<lparr>f_entryPC = here ?j, f_paramSlots = s, f_variadicSlot = v\<rparr> (patch (here c)
            (here (put (instr OpReturn) (push_const VNil d))) (put (instr OpReturn) (push_const VNil d)))))
          (\<lambda>c2. sound c2 \<and> grows a c2 \<and> pending c2 \<subseteq> ?P))"
        by (rule gives_mono) (auto simp: shape grows_def)
    qed (simp add: named_def)
  qed simp
  then show "gives (function_code key class receiver params defaults body c) (\<lambda>c'. sound c' \<and> pending c' \<subseteq> ?P \<and> grows c c')"
    unfolding function_code_def emit_jump_eq Let_def prod.case by (rule gives_mono) (auto simp: grows_def)
qed

lemma keeps_closure:
  assumes "walks body"
  shows "keeps (closure params uses static body)"
proof (rule keepsI)
  fix c assume c: "sound c"
  have params: "gives (closure_params params [] c) (\<lambda>(slots, d). named c d \<and> slots_in d slots)"
    using closure_params_facts [of params "[]" c] c by (auto simp: gives_def slots_in_def)
  have captures: "gives (closure_uses uses [] d) (\<lambda>(slots, e). named d e \<and> slots_in e slots)" if "named c d" for d
    using closure_uses_facts that by (auto simp: gives_def named_def)
  show "gives (closure params uses static body c) (\<lambda>c'. sound c' \<and> pending c' \<subseteq> pending c \<and> grows c c')"
    unfolding closure_def gives_bind
  proof (rule gives_mono [OF params], clarsimp simp only: prod.case gives_bind, rule gives_mono [OF captures], assumption,
      clarsimp simp only: prod.case)
    fix slots d caps e
    assume d: "named c d" "slots_in d slots" and e: "named d e" "slots_in e caps"
    have slots: "slots_in e slots" using d(2) e(1) slots_in_grows by (simp add: named_def)
    obtain this f where t: "(if \<not> static \<and> c_class e \<noteq> '''' then slot ''this'' e else (- 1, e)) = (this, f)" by fastforce
    have f: "named c f \<and> slots_in f slots \<and> slots_in f caps \<and> this < locals_count f"
    proof (cases "\<not> static \<and> c_class e \<noteq> ''''")
      case True
      then have s: "slot ''this'' e = (this, f)" using t by simp
      then show ?thesis using named_slot [OF s] d e slots slots_in_grows by (auto simp: named_def intro: grows_trans)
    next
      case False
      then have "f = e" "this = - 1" using t by (auto split: if_splits)
      moreover have "- 1 < locals_count e" using here_nonneg(5) [of e] by linarith
      ultimately show ?thesis using d e slots by (auto simp: named_def intro: grows_trans)
    qed
    have j: "sound (jumping OpJump f)" using f sound_jumping by (simp add: named_def)
    have scope: "gives (scoped cl None True (\<lambda>c. map_option snd (body ([], c))) (jumping OpJump f))
      (\<lambda>c'. sound c' \<and> grows (jumping OpJump f) c' \<and> pending c' \<subseteq> insert (At (here f)) (pending c))" for cl
      using f by (intro gives_scoped [OF j] gives_step [OF keeps_body [OF assms]]) (auto simp: named_def)
    let ?r = "\<lambda>g. patch (here f) (here g + 2) (put (instr OpReturn) (push_const VNil g))"
    let ?d = "\<lparr>k_entryPC = here f + 1, k_paramSlots = slots, k_captures = caps, k_thisSlot = this\<rparr>"
    have last: "sound (put ((instr OpClosure)\<lparr>i_a := k\<rparr>) h) \<and> pending (put ((instr OpClosure)\<lparr>i_a := k\<rparr>) h) \<subseteq> pending c \<and>
        grows c (put ((instr OpClosure)\<lparr>i_a := k\<rparr>) h)"
      if g: "sound g" "grows (jumping OpJump f) g" "pending g \<subseteq> insert (At (here f)) (pending c)" and h: "add_closure ?d (?r g) = (k, h)"
      for g h k
    proof -
      have m: "At (here f) \<in> known g" using g(2) by (simp add: grows_def)
      have r: "sound (?r g)" by (rule sound_patch) (auto simp: shape m intro!: building g(1))
      have "closure_ok (c_program (?r g)) ?d"
        using f g(2) by (auto simp: closure_ok_def grows_def slots_in_def list_all_iff slot_ok_def locals_count_def [symmetric])
      note h' = sound_add_closure [OF r this _ h]
      show ?thesis using h' f g m grown_refl by (auto simp: shape grows_def named_def intro!: sound_plain)
    qed
    show "gives (let (this, c) = (if \<not> static \<and> c_class e \<noteq> '''' then slot ''this'' e else (- 1, e)); (around, c) = emit_jump OpJump c;
        entry = here c
      in Option.bind (scoped (if static then '''' else c_class c) None True (\<lambda>c. map_option snd (body ([], c))) c)
          (\<lambda>c. let c = put (instr OpReturn) (push_const VNil c); c = patch around (here c) c;
                  (k, c) = add_closure \<lparr>k_entryPC = entry, k_paramSlots = slots, k_captures = caps, k_thisSlot = this\<rparr> c
              in Some (put ((instr OpClosure)\<lparr>i_a := k\<rparr>) c)))
      (\<lambda>c'. sound c' \<and> pending c' \<subseteq> pending c \<and> grows c c')"
      unfolding t unfolding emit_jump_eq Let_def prod.case gives_bind
      apply (rule gives_mono [OF scope])
      subgoal premises g for g
      proof -
        obtain k h where h: "add_closure ?d (?r g) = (k, h)" by fastforce
        have eq: "here (jumping OpJump f) = here f + 1" "here (put (instr OpReturn) (push_const VNil g)) = here g + 2" by simp_all
        show ?thesis unfolding eq h prod.case gives_Some using g h by (intro last) blast+
      qed
      done
  qed
qed

end
