(* ===== verification/Translate.thy ===== *)
theory Translate
  imports CompilerKeeps
begin

text \<open>
  The translation keeps the compiler's state sound: every expression, target, assignment and
  statement of a parsed program, by induction on its size.
\<close>

section \<open>Parsed parts\<close>

lemma parsed_unwrap [simp]: "parsed_expr (UnwrapParenthesized e) = parsed_expr e"
  by (induction e rule: UnwrapParenthesized.induct) auto

lemma parsed_view:
  assumes "parsed_expr e"
  shows "target_view e = TIndex base index \<Longrightarrow> parsed_expr base"
    and "target_view e = TIndex base (Some i) \<Longrightarrow> parsed_expr i"
    and "target_view e = TProp base name nameExpr \<Longrightarrow> parsed_expr base"
  using assms by (cases e; auto simp: target_view_def)+

lemma parsed_coalesce: "coalesce_of val = Some (left, right) \<Longrightarrow> parsed_expr val \<Longrightarrow> parsed_expr left \<and> parsed_expr right"
  by (cases val) (auto simp: coalesce_of_def split: if_splits)

lemma parsed_target_of: "target_of t name = Some e \<Longrightarrow> (\<And>x. t = Some x \<Longrightarrow> parsed_expr x) \<Longrightarrow> parsed_expr e"
  by (cases t) (auto simp: target_of_def split: if_splits)

lemma parsed_elems: "elems_of target = Some elems \<Longrightarrow> parsed_expr target \<Longrightarrow> Some e \<in> set elems \<Longrightarrow> parsed_expr e"
  by (cases target) (auto simp: elems_of_def)

section \<open>Hypothesis on smaller parts\<close>

definition below :: "nat \<Rightarrow> bool" where
  "below n \<longleftrightarrow>
     (\<forall>e. size e < n \<longrightarrow> parsed_expr e \<longrightarrow> keeps (expr e) \<and> keeps (ensureContainer e) \<and> keeps (storeTop e)) \<and>
     (\<forall>s. size s < n \<longrightarrow> parsed_stmt s \<longrightarrow> walks (stmt s))"

lemma belowD:
  assumes "below n"
  shows "size e < n \<Longrightarrow> parsed_expr e \<Longrightarrow> keeps (expr e)"
    and "size e < n \<Longrightarrow> parsed_expr e \<Longrightarrow> keeps (ensureContainer e)"
    and "size e < n \<Longrightarrow> parsed_expr e \<Longrightarrow> keeps (storeTop e)"
    and "size s < n \<Longrightarrow> parsed_stmt s \<Longrightarrow> walks (stmt s)"
  using assms by (auto simp: below_def)

lemma below_mono: "below n \<Longrightarrow> m \<le> n \<Longrightarrow> below m"
  by (auto simp: below_def)

lemma keeps_eq: "keeps g \<Longrightarrow> (\<And>c. f c = g c) \<Longrightarrow> keeps f"
  by (simp add: keeps_def)

lemma keeps_None: "keeps (\<lambda>c. None)"
  by (simp add: keeps_def)

lemma keeps_skip: "keeps Some"
  by (simp add: keeps_def)

text \<open>An instruction behind a part, and a part that is there or not.\<close>

lemma keeps_option:
  assumes "\<And>e. x = Some e \<Longrightarrow> keeps (f e)" and "keeps g"
  shows "keeps (\<lambda>c. case x of None \<Rightarrow> g c | Some e \<Rightarrow> f e c)"
  using assms by (cases x) auto

lemma keeps_emit:
  assumes "keeps m" and "\<And>c. fine c i" and "\<not> patchable (i_op i)" and "i_op i \<noteq> OpTryPush"
  shows "keeps (\<lambda>c. Option.bind (m c) (\<lambda>c. Some (put i c)))"
  by (rule keepsI) (auto intro!: assms(1) [THEN gives_step] sound_plain simp: assms grows_def)

lemma keeps_both_emit:
  assumes "keeps m" and "keeps m'" and "\<And>c. fine c i" and "\<not> patchable (i_op i)" and "i_op i \<noteq> OpTryPush"
  shows "keeps (\<lambda>c. do { c \<leftarrow> m c; c \<leftarrow> m' c; Some (put i c) })"
  by (rule keeps_then [OF assms(1) keeps_emit]) (use assms in auto)

lemma keeps_seq_emit:
  assumes "\<And>e. e \<in> set xs \<Longrightarrow> keeps (f e)" and "\<And>c. fine c i" and "\<not> patchable (i_op i)" and "i_op i \<noteq> OpTryPush"
  shows "keeps (\<lambda>c. Option.bind (seq f xs c) (\<lambda>c. Some (put i c)))"
  by (rule keeps_emit [OF keeps_seq]) (use assms in auto)

section \<open>Storing\<close>

lemma keeps_store_name:
  "keeps (\<lambda>c. case staticSlot name c of
     Some k \<Rightarrow> Some (put ((instr OpStaticStore)\<lparr>i_a := k, i_name := name\<rparr>) c)
   | None \<Rightarrow> (let (k, c) = slot name c in Some (store k c)))"
proof (rule keepsI)
  fix c assume c: "sound c"
  show "gives (case staticSlot name c of
     Some k \<Rightarrow> Some (put ((instr OpStaticStore)\<lparr>i_a := k, i_name := name\<rparr>) c)
   | None \<Rightarrow> (let (k, c) = slot name c in Some (store k c))) (\<lambda>c'. sound c' \<and> pending c' \<subseteq> pending c \<and> grows c c')"
  proof (cases "staticSlot name c")
    case (Some k)
    then show ?thesis using c static_known [OF sound_tables [OF c] Some]
      by (auto simp: shape grows_def intro!: building)
  next
    case None
    then show ?thesis using c by (auto simp: Let_def grows_def intro!: building)
  qed
qed

lemma view_parts:
  assumes "below n" and "parsed_expr e" and "size e \<le> n"
  shows "target_view e = TIndex base index \<Longrightarrow> keeps (expr base)"
    and "target_view e = TIndex base index \<Longrightarrow> keeps (ensureContainer base)"
    and "target_view e = TIndex base (Some i) \<Longrightarrow> keeps (expr i)"
    and "target_view e = TProp base name nameExpr \<Longrightarrow> keeps (expr base)"
proof -
  have s: "target_view e = TIndex base index \<Longrightarrow> size base < n" "target_view e = TIndex base (Some i) \<Longrightarrow> size i < n"
    "target_view e = TProp base name nameExpr \<Longrightarrow> size base < n"
    using size_view [of e] assms(3) by fastforce+
  show "target_view e = TIndex base index \<Longrightarrow> keeps (expr base)"
    "target_view e = TIndex base index \<Longrightarrow> keeps (ensureContainer base)"
    "target_view e = TIndex base (Some i) \<Longrightarrow> keeps (expr i)"
    "target_view e = TProp base name nameExpr \<Longrightarrow> keeps (expr base)"
    using s parsed_view [OF assms(2)] belowD [OF assms(1)] by blast+
qed

lemma keeps_storeTop:
  assumes "below (size e)" and "parsed_expr e"
  shows "keeps (storeTop e)"
proof (cases "target_view e")
  case (TVar name)
  then show ?thesis using keeps_store_name [of name] by (simp add: storeTop.simps [abs_def] cong: option.case_cong)
next
  case (TIndex base index)
  show ?thesis
  proof (cases index)
    case None
    show ?thesis by (rule keeps_eq [OF keeps_None]) (simp add: storeTop.simps TIndex None)
  next
    case (Some i)
    note k = view_parts(1,3) [OF assms order.refl TIndex [unfolded Some]]
    show ?thesis by (rule keeps_eq [OF keeps_both_emit [OF k]]) (simp_all add: storeTop.simps TIndex Some shape)
  qed
next
  case (TProp base name nameExpr)
  show ?thesis
  proof (cases nameExpr)
    case None
    show ?thesis
      by (rule keeps_eq [OF keeps_emit [OF view_parts(4) [OF assms order.refl TProp]]]) (simp_all add: storeTop.simps TProp None shape)
  qed (rule keeps_eq [OF keeps_None], simp add: storeTop.simps TProp)
qed (rule keeps_eq [OF keeps_None], simp add: storeTop.simps)+

lemma keeps_ensure_var:
  "keeps (\<lambda>c. let c = put (instr OpDup) (put (instr OpEnsureArray) (load_var name c))
     in (case staticSlot name c of
           Some k \<Rightarrow> Some (put ((instr OpStaticStore)\<lparr>i_a := k, i_name := name\<rparr>) c)
         | None \<Rightarrow> (let (k, c) = slot name c in Some (store k c))))"
proof -
  have m: "keeps (\<lambda>c. Some (put (instr OpDup) (put (instr OpEnsureArray) (load_var name c))))"
    using keeps_load_var [of name] by (auto simp: keeps_def shape grows_def intro!: building)
  show ?thesis using keeps_then [OF m keeps_store_name [of name]] by (simp add: Let_def)
qed

lemma keeps_ensureContainer:
  assumes "below (size e)" and "parsed_expr e" and "keeps (expr e)"
  shows "keeps (ensureContainer e)"
proof -
  have u: "parsed_expr (UnwrapParenthesized e)" using assms(2) by simp
  note parts = view_parts [OF assms(1) u size_unwrap]
  show ?thesis
  proof (cases "target_view (UnwrapParenthesized e)")
    case (TVar name)
    show ?thesis by (rule keeps_eq [OF keeps_ensure_var]) (simp add: ensureContainer.simps TVar)
  next
    case (TIndex base index)
    show ?thesis
    proof (cases index)
      case None
      show ?thesis by (rule keeps_eq [OF keeps_None]) (simp add: ensureContainer.simps TIndex None)
    next
      case (Some i)
      note k = parts(2,3) [OF TIndex [unfolded Some]]
      show ?thesis by (rule keeps_eq [OF keeps_both_emit [OF k]]) (simp_all add: ensureContainer.simps TIndex Some shape)
    qed
  next
    case (TProp base name nameExpr)
    show ?thesis
    proof (cases nameExpr)
      case None
      show ?thesis
        by (rule keeps_eq [OF keeps_emit [OF parts(4) [OF TProp]]]) (simp_all add: ensureContainer.simps TProp None shape)
    qed (rule keeps_eq [OF keeps_None], simp add: ensureContainer.simps TProp)
  next
    case (TStaticProp cl name)
    show ?thesis
      by (rule keepsI) (auto simp: ensureContainer.simps TStaticProp shape grows_def resolveClass_def intro!: building)
  next
    case TOther
    show ?thesis by (rule keeps_eq [OF assms(3)]) (simp add: ensureContainer.simps TOther)
  qed
qed

section \<open>Assigning\<close>

lemma keeps_assign_name:
  assumes "keeps m"
  shows "keeps (\<lambda>c. do {
      c \<leftarrow> m c;
      case staticSlot name c of
        Some k \<Rightarrow> Some (put ((instr OpStaticStore)\<lparr>i_a := k, i_b := b, i_name := name, i_extra := op\<rparr>) c)
      | None \<Rightarrow> (let (k, c) = slot name c in Some (put ((instr OpStore)\<lparr>i_a := k, i_b := b, i_name := op, i_extra := e\<rparr>) c)) })"
proof (rule keeps_then [OF assms], rule keepsI)
  fix c assume c: "sound c"
  show "gives (case staticSlot name c of
        Some k \<Rightarrow> Some (put ((instr OpStaticStore)\<lparr>i_a := k, i_b := b, i_name := name, i_extra := op\<rparr>) c)
      | None \<Rightarrow> (let (k, c) = slot name c in Some (put ((instr OpStore)\<lparr>i_a := k, i_b := b, i_name := op, i_extra := e\<rparr>) c)))
      (\<lambda>c'. sound c' \<and> pending c' \<subseteq> pending c \<and> grows c c')"
  proof (cases "staticSlot name c")
    case (Some k)
    then show ?thesis using c static_known [OF sound_tables [OF c] Some]
      by (auto simp: shape grows_def intro!: building)
  next
    case None
    then show ?thesis using c by (auto simp: shape grows_def intro!: building)
  qed
qed

lemma keeps_list_assign:
  assumes m: "keeps m" and elems: "\<And>e. Some e \<in> set elems \<Longrightarrow> keeps (storeTop e)"
  shows "keeps (\<lambda>c. do {
     c \<leftarrow> m c;
     let (src, c) = slot (slot_name ''list-'' (nat (here c))) c;
     c \<leftarrow> seq (\<lambda>(i, elem) c.
            case elem of
              None \<Rightarrow> Some c
            | Some e \<Rightarrow> storeTop e (put (instr OpIndex) (push_const (VInt (of_nat i)) (load src c))))
          (enumerate 0 elems) (store src c);
     Some (if keep then load src c else c) })"
proof (rule keeps_then [OF m], rule keepsI)
  fix c assume c: "sound c"
  obtain src d where s: "slot (slot_name ''list-'' (nat (here c))) c = (src, d)" by fastforce
  note d = named_slot [OF s c]
  let ?I = "\<lambda>e. sound e \<and> pending e \<subseteq> pending c \<and> grows d e"
  have "gives (seq (\<lambda>(i, elem) c.
            case elem of
              None \<Rightarrow> Some c
            | Some e \<Rightarrow> storeTop e (put (instr OpIndex) (push_const (VInt (of_nat i)) (load src c))))
          (enumerate 0 elems) (store src d)) ?I"
  proof (rule gives_seq [where I = "\<lambda>i. ?I"])
    fix i e assume i: "i < length (enumerate 0 elems)" and e: "?I e"
    then have at: "enumerate 0 elems ! i = (i, elems ! i)" by (simp add: nth_enumerate_eq)
    show "gives ((case enumerate 0 elems ! i of (i, elem) \<Rightarrow> \<lambda>c.
            case elem of
              None \<Rightarrow> Some c
            | Some e \<Rightarrow> storeTop e (put (instr OpIndex) (push_const (VInt (of_nat i)) (load src c)))) e) ?I"
    proof (cases "elems ! i")
      case None
      then show ?thesis using e by (simp add: at)
    next
      case (Some x)
      then have "keeps (storeTop x)" using i elems [of x] nth_mem [of i elems] by simp
      moreover have "slot_in e src" using d e by (simp add: grows_def)
      ultimately show ?thesis unfolding at Some using e
        by (auto simp: shape grows_def intro!: building elim!: gives_step; blast)
    qed
  qed (use d in \<open>auto simp: named_def grows_def intro!: building\<close>)
  then show "gives (let (src, c) = slot (slot_name ''list-'' (nat (here c))) c
      in Option.bind (seq (\<lambda>(i, elem) c.
            case elem of
              None \<Rightarrow> Some c
            | Some e \<Rightarrow> storeTop e (put (instr OpIndex) (push_const (VInt (of_nat i)) (load src c))))
          (enumerate 0 elems) (store src c)) (\<lambda>c. Some (if keep then load src c else c)))
      (\<lambda>c'. sound c' \<and> pending c' \<subseteq> pending c \<and> grows c c')"
    unfolding Let_def s prod.case gives_bind
    by (rule gives_mono) (use d in \<open>auto simp: named_def grows_def intro!: building\<close>)
qed

lemma keeps_assignment:
  assumes "below (size target + size val + 1)" and "parsed_expr target" and "parsed_expr val"
  shows "keeps (assignment target op val keep)"
  using assms
proof (induction "size val" arbitrary: val keep rule: less_induct)
  case less
  have t: "size target \<le> size target + size val + 1" by simp
  have u: "size (UnwrapParenthesized target) \<le> size target + size val + 1" using size_unwrap [of target] by simp
  note parts = view_parts [OF less.prems(1,2) t]
  note inner = view_parts [OF less.prems(1) _ u]
  have v: "keeps (expr val)" using belowD(1) [OF less.prems(1) _ less.prems(3)] by simp
  show ?case
  proof (cases "coalesce_of val")
    case (Some lr)
    then obtain left right where lr: "coalesce_of val = Some (left, right)" by fastforce
    have s: "size left + size right + 1 = size val" using size_coalesce [OF lr] .
    have p: "parsed_expr left" "parsed_expr right" using parsed_coalesce [OF lr less.prems(3)] by simp_all
    have k: "keeps (expr left)" "keeps (expr right)" using belowD(1) [OF less.prems(1)] p s by simp_all
    have "below (size target + size right + 1)" using below_mono [OF less.prems(1)] s by simp
    then have "keeps (assignment target op right True)" using less.hyps [of right True] less.prems(2) p(2) s by simp
    then have whole: "keeps (\<lambda>c. do { c \<leftarrow> expr left c; coalesce_store c (assignment target op right True) keep })"
      by (rule keeps_then [OF k(1) keeps_coalesce_store])
    show ?thesis
    proof (cases "target_view (UnwrapParenthesized target)")
      case (TIndex base index)
      note at = inner [OF parsed_unwrap [THEN iffD2, OF less.prems(2)]]
      show ?thesis
      proof (cases index)
        case None
        show ?thesis by (rule keeps_eq [OF whole]) (simp add: assignment.simps lr TIndex None)
      next
        case (Some i)
        show ?thesis
          by (rule keeps_eq [OF keeps_coalesceIndex [OF at(2) [OF TIndex] at(3) [OF TIndex [unfolded Some]] k(2)]])
            (simp add: assignment.simps lr TIndex Some)
      qed
    next
      case (TProp base name nameExpr)
      note at = inner [OF parsed_unwrap [THEN iffD2, OF less.prems(2)]]
      show ?thesis
      proof (cases "nameExpr = None")
        case True
        show ?thesis
          by (rule keeps_eq [OF keeps_coalesceProp [OF at(4) [OF TProp] k(2)]]) (simp add: assignment.simps lr TProp True)
      next
        case False
        show ?thesis by (rule keeps_eq [OF whole]) (simp add: assignment.simps lr TProp False)
      qed
    qed (rule keeps_eq [OF whole], simp add: assignment.simps lr)+
  next
    case None
    show ?thesis
    proof (cases "target_view target")
      case (TVar name)
      show ?thesis
        by (rule keeps_eq [OF keeps_assign_name [OF v, where name = name and b = "boolInt keep" and op = op and e =
              "if (op = '''' \<or> op = ''='') \<and> is_New (UnwrapParenthesized val) then name else ''''"]])
          (simp only: assignment.simps None TVar option.case target.case Let_def)
    next
      case (TIndex base index)
      have i: "keeps (\<lambda>c. case index of None \<Rightarrow> Some c | Some i \<Rightarrow> if op = ''[]='' then Some c else expr i c)"
        using parts(3) TIndex keeps_skip by (cases index; cases "op = ''[]=''") auto
      show ?thesis
        by (rule keeps_eq [OF keeps_then [OF parts(2) [OF TIndex] keeps_both_emit [OF i v]]])
          (simp_all add: assignment.simps None TIndex shape)
    next
      case (TProp base name nameExpr)
      show ?thesis
      proof (cases "nameExpr = None")
        case True
        show ?thesis
          by (rule keeps_eq [OF keeps_both_emit [OF parts(4) [OF TProp] v]]) (simp_all add: assignment.simps None TProp True shape)
      qed (rule keeps_eq [OF keeps_None], simp add: assignment.simps None TProp)
    next
      case (TStaticProp cl name)
      show ?thesis
        by (rule keepsI) (auto simp: assignment.simps None TStaticProp shape grows_def resolveClass_def
          intro!: building v [THEN gives_step]; blast)
    next
      case TOther
      show ?thesis
      proof (cases "elems_of target")
        case None' : None
        show ?thesis by (rule keeps_eq [OF keeps_None]) (simp add: assignment.simps None TOther None')
      next
        case (Some elems)
        have e: "keeps (storeTop e)" if m: "Some e \<in> set elems" for e
        proof (rule belowD(3) [OF less.prems(1)])
          obtain n where "n < length elems" "elems ! n = Some e" using m by (auto simp: in_set_conv_nth)
          then have "(n, Some e) \<in> set (enumerate 0 elems)" by (auto simp: in_set_enumerate_eq)
          then show "size e < size target + size val + 1" using size_elems [OF Some] by fastforce
        qed (rule parsed_elems [OF Some less.prems(2) m])
        show ?thesis
          by (rule keeps_eq [OF keeps_list_assign [OF v e]]) (simp_all add: assignment.simps None TOther Some)
      qed
    qed
  qed
qed

section \<open>Expressions\<close>

lemma keeps_Var: "keeps (expr (Var name const))"
  by (cases const)
    (rule keepsI, auto simp: shape grows_def intro!: building, rule keeps_eq [OF keeps_load_var], simp)

lemma keeps_Interp:
  assumes "\<And>p. p \<in> set parts \<Longrightarrow> keeps (expr p)"
  shows "keeps (expr (Interp parts))"
proof (cases parts)
  case Nil
  then show ?thesis by (intro keepsI) (auto simp: grows_def intro!: building)
next
  case (Cons p ps)
  have part: "keeps (\<lambda>c. do { c \<leftarrow> expr x c; Some (concat_part c) })" if "x \<in> set parts" for x
    unfolding concat_part_def by (rule keeps_emit [OF assms [OF that]]) (simp_all add: shape)
  have p: "keeps (expr p)" using assms Cons by simp
  have first: "keeps (\<lambda>c. if is_Lit p then expr p c else do { c \<leftarrow> expr p (push_const (VStr '''') c); Some (concat_part c) })"
  proof (cases "is_Lit p")
    case False
    have e: "keeps (\<lambda>c. Some (push_const (VStr '''') c))" by (rule keepsI) (auto simp: grows_def intro!: building)
    have "p \<in> set parts" using Cons by simp
    then show ?thesis using keeps_then [OF e part [of p]] False by simp
  qed (use p in simp)
  have rest: "keeps (seq (\<lambda>p c. do { c \<leftarrow> expr p c; Some (concat_part c) }) ps)"
    by (rule keeps_seq, rule part) (simp add: Cons)
  show ?thesis by (rule keeps_eq [OF keeps_then [OF first rest]]) (simp add: Cons)
qed

lemma keeps_ArrayLit:
  assumes "\<And>k v. (k, v) \<in> set items \<Longrightarrow> (\<forall>x. k = Some x \<longrightarrow> keeps (expr x)) \<and> keeps (expr v)"
  shows "keeps (expr (ArrayLit items))"
proof -
  have "keeps (\<lambda>c. do { c \<leftarrow> (case key of None \<Rightarrow> Some (push_const VNil c) | Some k \<Rightarrow> expr k c); expr val c })"
    if "(key, val) \<in> set items" for key val
  proof (rule keeps_then)
    show "keeps (\<lambda>c. case key of None \<Rightarrow> Some (push_const VNil c) | Some k \<Rightarrow> expr k c)"
      by (rule keeps_option) (use assms [OF that] in \<open>auto simp: keeps_def grows_def intro!: building\<close>)
  qed (use assms [OF that] in simp)
  then have "keeps (\<lambda>c. do {
     c \<leftarrow> seq (\<lambda>(key, val) c. do {
            c \<leftarrow> (case key of None \<Rightarrow> Some (push_const VNil c) | Some k \<Rightarrow> expr k c);
            expr val c }) items c;
     Some (put ((instr OpArray)\<lparr>i_a := int (length items)\<rparr>) c) })"
    by (intro keeps_seq_emit) (auto simp: shape)
  then show ?thesis by (rule keeps_eq) simp
qed

lemma keeps_IncDec:
  assumes "below (size x)" and "parsed_expr x" and "op = ''++'' \<or> op = ''--''"
  shows "keeps (expr (UnaryExpr op x postfix))"
proof (cases "target_view x")
  case (TVar name)
  show ?thesis
  proof (rule keepsI)
    fix c assume c: "sound c"
    show "gives (expr (UnaryExpr op x postfix) c) (\<lambda>c'. sound c' \<and> pending c' \<subseteq> pending c \<and> grows c c')"
    proof (cases "staticSlot name c")
      case (Some k)
      then show ?thesis using assms(3) c static_known [OF sound_tables [OF c] Some] TVar
        by (auto simp: shape grows_def intro!: building)
    next
      case None
      then show ?thesis using assms(3) c TVar by (auto simp: shape grows_def intro!: building)
    qed
  qed
next
  case (TIndex base index)
  show ?thesis
  proof (cases index)
    case None
    show ?thesis by (rule keeps_eq [OF keeps_None]) (use assms(3) in \<open>simp add: TIndex None\<close>)
  next
    case (Some i)
    note k = view_parts(1,3) [OF assms(1,2) order.refl TIndex [unfolded Some]]
    show ?thesis by (rule keeps_eq [OF keeps_both_emit [OF k]]) (use assms(3) in \<open>simp_all add: TIndex Some shape\<close>)
  qed
next
  case (TProp base name nameExpr)
  show ?thesis
  proof (cases "nameExpr = None")
    case True
    show ?thesis
      by (rule keeps_eq [OF keeps_emit [OF view_parts(4) [OF assms(1,2) order.refl TProp]]])
        (use assms(3) in \<open>simp_all add: TProp True shape\<close>)
  qed (rule keeps_eq [OF keeps_None], use assms(3) in \<open>simp add: TProp\<close>)
qed (rule keeps_eq [OF keeps_None], use assms(3) in simp)+

lemma keeps_Unary:
  assumes "keeps (expr x)" and "\<not> (op = ''++'' \<or> op = ''--'')"
  shows "keeps (expr (UnaryExpr op x postfix))"
proof (cases "op = ''!'' \<or> op = ''+'' \<or> op = ''-'' \<or> op = ''~''")
  case True
  show ?thesis
    by (rule keeps_eq [OF keeps_emit [OF assms(1), of "(instr OpUnary)\<lparr>i_name := op\<rparr>"]]) (use True assms(2) in \<open>simp_all add: shape\<close>)
qed (rule keeps_eq [OF keeps_None], use assms(2) in simp)

lemma keeps_slot_put:
  assumes "\<And>c k. slot_in c k \<Longrightarrow> fine c (f k)" and "\<And>k. \<not> patchable (i_op (f k))" and "\<And>k. i_op (f k) \<noteq> OpTryPush"
  shows "keeps (\<lambda>c. let (k, c) = slot name c in Some (put (f k) c))"
  by (rule keepsI) (auto simp: grows_def assms Let_def intro!: building)

lemma keeps_compact:
  assumes "\<And>x. x \<in> set actuals \<Longrightarrow> keeps (expr x)"
  shows "keeps (expr (CallExpr ''compact'' fallback actuals False))"
proof (cases "callNames ''compact'' fallback ''func_get_args''")
  case True
  show ?thesis by (rule keeps_eq [OF keeps_None]) (simp add: True)
next
  case False
  have one: "keeps (\<lambda>c.
        case lit_string (UnwrapParenthesized arg) of
          Some n \<Rightarrow>
            if n \<noteq> ''''
            then (let (k, c) = slot n c in Some (put ((instr OpCompactEntry)\<lparr>i_a := k, i_name := n\<rparr>) c))
            else compact_dynamic (expr arg) c
        | None \<Rightarrow> compact_dynamic (expr arg) c)" if "arg \<in> set actuals" for arg
  proof -
    have d: "keeps (compact_dynamic (expr arg))" by (rule keeps_compact_dynamic [OF assms [OF that]])
    have s: "keeps (\<lambda>c. let (k, c) = slot n c in Some (put ((instr OpCompactEntry)\<lparr>i_a := k, i_name := n\<rparr>) c))" for n
      by (rule keeps_slot_put) (simp_all add: shape)
    show ?thesis using d s
      by (cases "lit_string (UnwrapParenthesized arg)"; cases "the (lit_string (UnwrapParenthesized arg)) = []") simp_all
  qed
  have init: "keeps (\<lambda>c. Some (put ((instr OpCompactInit)\<lparr>i_a := int (length actuals)\<rparr>) c))"
    by (rule keeps_put) (simp_all add: shape)
  have k: "keeps (\<lambda>c. Option.bind (Some (put ((instr OpCompactInit)\<lparr>i_a := int (length actuals)\<rparr>) c))
      (seq (\<lambda>arg c.
        case lit_string (UnwrapParenthesized arg) of
          Some n \<Rightarrow>
            if n \<noteq> ''''
            then (let (k, c) = slot n c in Some (put ((instr OpCompactEntry)\<lparr>i_a := k, i_name := n\<rparr>) c))
            else compact_dynamic (expr arg) c
        | None \<Rightarrow> compact_dynamic (expr arg) c) actuals))"
    by (rule keeps_then [OF init keeps_seq]) (rule one)
  show ?thesis
  proof (rule keepsI)
    fix c assume c: "sound c"
    show "gives (expr (CallExpr ''compact'' fallback actuals False) c) (\<lambda>c'. sound c' \<and> pending c' \<subseteq> pending c \<and> grows c c')"
      using k [unfolded keeps_def, rule_format, OF c] False by simp
  qed
qed

lemma keeps_Call:
  assumes "\<And>x. x \<in> set actuals \<Longrightarrow> keeps (expr x)" and "name \<noteq> ''compact''"
  shows "keeps (expr (CallExpr name fallback actuals False))"
proof -
  have one: "keeps (\<lambda>c.
        case var_name (UnwrapParenthesized arg) of
          Some v \<Rightarrow>
            if ByRefArg name fallback i
            then (if staticSlot v c \<noteq> None then None
                  else (let (k, c) = slot v c in Some (put ((instr OpRef)\<lparr>i_a := k\<rparr>) c)))
            else expr arg c
        | None \<Rightarrow> expr arg c)" if "(i, arg) \<in> set (enumerate 0 actuals)" for i arg
  proof -
    have d: "keeps (expr arg)" using assms(1) enumerate_member [OF that] .
    have "keeps (\<lambda>c. let (k, c) = slot v c in Some (put ((instr OpRef)\<lparr>i_a := k\<rparr>) c))" for v
      by (rule keeps_slot_put) (simp_all add: shape)
    then have "keeps (\<lambda>c. if staticSlot v c \<noteq> None then None
                  else (let (k, c) = slot v c in Some (put ((instr OpRef)\<lparr>i_a := k\<rparr>) c)))" for v
      by (auto simp: keeps_def)
    then show ?thesis using d
      by (cases "var_name (UnwrapParenthesized arg)"; cases "ByRefArg name fallback i") auto
  qed
  have actuals: "keeps (\<lambda>c. do {
        c \<leftarrow> seq (\<lambda>(i, arg) c.
               case var_name (UnwrapParenthesized arg) of
                 Some v \<Rightarrow>
                   if ByRefArg name fallback i
                   then (if staticSlot v c \<noteq> None then None
                         else (let (k, c) = slot v c in Some (put ((instr OpRef)\<lparr>i_a := k\<rparr>) c)))
                   else expr arg c
               | None \<Rightarrow> expr arg c) (enumerate 0 actuals) c;
        Some (put ((instr OpCall)\<lparr>i_a := int (length actuals), i_name := name, i_extra := fallback\<rparr>) c) })"
    by (rule keeps_seq_emit) (use one in \<open>auto simp: shape\<close>)
  consider "callNames name fallback ''func_get_args''" | "\<not> callNames name fallback ''func_get_args''" "name = ''defer''"
    | "\<not> callNames name fallback ''func_get_args''" "name \<noteq> ''defer''" by blast
  then show ?thesis
  proof cases
    case 1
    show ?thesis by (rule keeps_eq [OF keeps_None]) (simp add: 1)
  next
    case 2
    show ?thesis
    proof (cases "\<exists>arg. actuals = [arg]")
      case True
      then obtain arg where a: "actuals = [arg]" ..
      then have "keeps (expr arg)" using assms(1) by simp
      then have k: "keeps (\<lambda>c. do { c \<leftarrow> expr arg c; Some (put (instr OpDefer) c) })"
        by (rule keeps_emit) (simp_all add: shape)
      show ?thesis by (rule keeps_eq [OF k]) (use 2 in \<open>simp add: a\<close>)
    next
      case False
      then show ?thesis by (intro keeps_eq [OF keeps_None]) (use 2 in \<open>auto split: list.splits\<close>)
    qed
  next
    case 3
    show ?thesis by (rule keeps_eq [OF actuals]) (use 3 assms(2) in simp)
  qed
qed

lemma keeps_arguments:
  assumes "\<And>x. x \<in> set actuals \<Longrightarrow> keeps (expr x)" and "\<And>e. m = Some e \<Longrightarrow> keeps (expr e)"
    and "\<And>c. fine c i" and "\<not> patchable (i_op i)" and "i_op i \<noteq> OpTryPush"
  shows "keeps (\<lambda>c. do {
    c \<leftarrow> (case m of None \<Rightarrow> Some c | Some e \<Rightarrow> expr e c);
    c \<leftarrow> seq expr actuals c;
    Some (put i c) })"
proof (rule keeps_then)
  show "keeps (\<lambda>c. case m of None \<Rightarrow> Some c | Some e \<Rightarrow> expr e c)"
    by (rule keeps_option [OF assms(2)]) (auto simp: keeps_skip)
qed (rule keeps_seq_emit, use assms in auto)

lemma keeps_resolve:
  assumes "\<And>k. keeps (f k)"
  shows "keeps (\<lambda>c. Option.bind (resolveClass name c) (\<lambda>k. f k c))"
  using assms by (auto simp: keeps_def resolveClass_def)

lemma keeps_named_callable:
  assumes "\<And>e. m = Some e \<Longrightarrow> keeps (expr e)"
  shows "keeps (\<lambda>c. do {
    c \<leftarrow> methodName name (case m of None \<Rightarrow> None | Some e \<Rightarrow> Some (expr e)) c;
    Some (put ((instr OpCallable)\<lparr>i_b := 1\<rparr>) c) })"
  by (rule keeps_emit [OF keeps_methodName]) (use assms in \<open>auto simp: shape split: option.splits\<close>)

lemma keeps_New:
  assumes "\<And>x. x \<in> set actuals \<Longrightarrow> keeps (expr x)" and "\<And>e. classExpr = Some e \<Longrightarrow> keeps (expr e)"
  shows "keeps (expr (New cls classExpr actuals decl))"
proof (cases "decl = None")
  case True
  show ?thesis
    by (rule keeps_eq [OF keeps_arguments [OF assms,
          where i = "(instr OpConstruct)\<lparr>i_a := int (length actuals), i_b := boolInt (classExpr \<noteq> None), i_name := cls\<rparr>"]])
      (simp_all add: True shape)
qed (rule keeps_eq [OF keeps_None], simp)

lemma keeps_MethodCall:
  assumes base: "keeps (expr base)"
    and "\<And>x. x \<in> set actuals \<Longrightarrow> keeps (expr x)" and "\<And>e. nameExpr = Some e \<Longrightarrow> keeps (expr e)"
  shows "keeps (expr (MethodCall base name nameExpr actuals firstClass))"
proof (cases firstClass)
  case True
  show ?thesis by (rule keeps_eq [OF keeps_then [OF base keeps_named_callable [OF assms(3)]]]) (simp_all add: True)
next
  case False
  show ?thesis
    by (rule keeps_eq [OF keeps_then [OF base keeps_arguments [OF assms(2,3),
          where i = "(instr OpCallMethod)\<lparr>i_a := int (length actuals), i_b := boolInt (nameExpr \<noteq> None), i_name := name\<rparr>"]]])
      (simp_all add: False shape)
qed

lemma keeps_StaticCall:
  assumes "\<And>x. x \<in> set actuals \<Longrightarrow> keeps (expr x)" and "\<And>e. nameExpr = Some e \<Longrightarrow> keeps (expr e)"
  shows "keeps (expr (StaticCall cls name nameExpr actuals firstClass))"
proof (cases firstClass)
  case True
  have "keeps (\<lambda>c. Some (push_const (VStr k) c))" for k by (rule keepsI) (auto simp: grows_def intro!: building)
  note k = keeps_resolve [OF keeps_then [OF this keeps_named_callable [OF assms(2)]]]
  show ?thesis by (rule keeps_eq [OF k]) (simp_all add: True)
next
  case False
  have k: "keeps (\<lambda>c. Option.bind (resolveClass cls c) (\<lambda>k. do {
    c \<leftarrow> (case nameExpr of None \<Rightarrow> Some c | Some e \<Rightarrow> expr e c);
    c \<leftarrow> seq expr actuals c;
    Some (put ((instr OpCallStatic)\<lparr>i_a := int (length actuals), i_b := boolInt (nameExpr \<noteq> None), i_name := k,
                i_extra := name\<rparr>) c) }))"
    by (rule keeps_resolve, rule keeps_arguments) (use assms in \<open>auto simp: shape\<close>)
  show ?thesis by (rule keeps_eq [OF k]) (simp add: False)
qed

lemma keeps_Invoke:
  assumes base: "keeps (expr callee)" and "\<And>x. x \<in> set actuals \<Longrightarrow> keeps (expr x)"
  shows "keeps (expr (InvokeExpr callee actuals firstClass))"
proof (cases firstClass)
  case True
  show ?thesis by (rule keeps_eq [OF keeps_emit [OF base]]) (simp_all add: True shape)
next
  case False
  show ?thesis
    by (rule keeps_eq [OF keeps_then [OF base keeps_seq_emit [OF assms(2),
          where i = "(instr OpInvoke)\<lparr>i_a := int (length actuals)\<rparr>"]]])
      (simp_all add: False shape)
qed

lemma keeps_AssignExpr:
  assumes b: "below (size target + size val + 1)" and p: "parsed_expr target" "parsed_expr val"
  shows "keeps (expr (AssignExpr target op val))"
proof (cases "op = '''' \<or> op = ''=''")
  case True
  show ?thesis by (rule keeps_eq [OF keeps_assignment [OF assms]]) (use True in auto)
next
  case False
  have u: "parsed_expr (UnwrapParenthesized target)" using p(1) by simp
  have s: "size (UnwrapParenthesized target) \<le> size target + size val + 1" using size_unwrap [of target] by simp
  note parts = view_parts [OF b u s]
  have v: "keeps (expr val)" using belowD(1) [OF b _ p(2)] by simp
  show ?thesis
  proof (cases "target_view (UnwrapParenthesized target)")
    case (TVar name)
    show ?thesis by (rule keeps_eq [OF keeps_assignment [OF assms]]) (use False in \<open>simp add: TVar\<close>)
  next
    case TOther
    show ?thesis by (rule keeps_eq [OF keeps_assignment [OF assms]]) (use False in \<open>simp add: TOther\<close>)
  next
    case (TIndex base index)
    show ?thesis
    proof (cases index)
      case None
      show ?thesis by (rule keeps_eq [OF keeps_None]) (use False in \<open>simp add: TIndex None\<close>)
    next
      case (Some i)
      note k = parts(2,3) [OF TIndex [unfolded Some]]
      have "keeps (\<lambda>c. do {
                  let (baseSlot, keySlot, c) = indexSlots c;
                  c \<leftarrow> resolveIndex (ensureContainer base) (expr i) baseSlot keySlot c;
                  c \<leftarrow> expr val (load keySlot (load baseSlot c));
                  let c = put ((instr OpSetIndex)\<lparr>i_a := 1, i_name := op\<rparr>) c;
                  Some (put (instr OpIndex) (load keySlot (load baseSlot c))) })"
        unfolding resolveIndex_def
        by (rule keepsI, subst Let_def, rule gives_indexSlots, assumption, simp add: Let_def,
            intro k [THEN gives_step] v [THEN gives_step] building)
          (simp_all add: shape grows_def, auto intro!: building simp: shape)
      then show ?thesis by (rule keeps_eq) (use False in \<open>simp add: TIndex Some\<close>)
    qed
  next
    case (TProp base name nameExpr)
    note k = parts(4) [OF TProp]
    show ?thesis
    proof (cases "nameExpr = None")
      case True
      have "keeps (\<lambda>c. do {
               let (recv, c) = slot (slot_name ''assign-recv-'' (nat (here c))) c;
               c \<leftarrow> expr base c;
               c \<leftarrow> expr val (load recv (store recv c));
               let c = put ((instr OpSetProperty)\<lparr>i_a := 1, i_name := name, i_extra := op\<rparr>) c;
               Some (put ((instr OpGetProperty)\<lparr>i_name := name\<rparr>) (load recv c)) })"
        by (rule keepsI, subst Let_def, rule gives_slot, assumption, simp add: Let_def,
            intro k [THEN gives_step] v [THEN gives_step] building)
          (simp_all add: shape grows_def, auto intro!: building simp: shape)
      then show ?thesis by (rule keeps_eq) (use False in \<open>simp add: TProp True\<close>)
    qed (rule keeps_eq [OF keeps_None], use False in \<open>simp add: TProp\<close>)
  next
    case (TStaticProp cls name)
    have "keeps (\<lambda>c. Option.bind (resolveClass cls c) (\<lambda>k. do {
             c \<leftarrow> expr val c;
             let (n, c) = pool_constant (VStr op) c;
             let c = put ((instr OpSetStaticProp)\<lparr>i_a := n, i_name := k, i_extra := name\<rparr>) c;
             Some (put ((instr OpStaticProp)\<lparr>i_name := k, i_extra := name\<rparr>) c) }))"
      by (rule keeps_resolve, rule keeps_then [OF v], rule keepsI) (auto simp: shape grows_def intro!: building)
    then show ?thesis by (rule keeps_eq) (use False in \<open>simp add: TStaticProp\<close>)
  qed
qed

lemma keeps_expr:
  assumes b: "below (size e)" and p: "parsed_expr e"
  shows "keeps (expr e)"
proof (cases e)
  case (Lit v)
  show ?thesis unfolding Lit by (rule keepsI) (auto simp: grows_def intro!: building)
next
  case (Interp parts)
  show ?thesis unfolding Interp
    by (rule keeps_Interp, rule belowD(1) [OF b]) (use p in \<open>auto simp: Interp dest: size_listed\<close>)
next
  case (Parenthesized x)
  have "keeps (expr x)" by (rule belowD(1) [OF b]) (use p in \<open>simp_all add: Parenthesized\<close>)
  then show ?thesis by (rule keeps_eq) (simp add: Parenthesized)
next
  case (Ref x)
  have "keeps (expr x)" by (rule belowD(1) [OF b]) (use p in \<open>simp_all add: Ref\<close>)
  then show ?thesis by (rule keeps_eq) (simp add: Ref)
next
  case (Var name const)
  then show ?thesis by (simp only: keeps_Var)
next
  case (ArrayLit items)
  have "(\<forall>x. k = Some x \<longrightarrow> keeps (expr x)) \<and> keeps (expr v)" if m: "(k, v) \<in> set items" for k v
    using size_in_items [OF m] p m by (auto simp: ArrayLit intro!: belowD(1) [OF b])
  then show ?thesis unfolding ArrayLit by (rule keeps_ArrayLit)
next
  case (IndexExpr base index)
  show ?thesis
  proof (cases index)
    case None
    show ?thesis by (rule keeps_eq [OF keeps_None]) (simp add: IndexExpr None)
  next
    case (Some i)
    have k: "keeps (expr base)" "keeps (expr i)"
      by (rule belowD(1) [OF b]; use p in \<open>simp add: IndexExpr Some\<close>)+
    show ?thesis by (rule keeps_eq [OF keeps_both_emit [OF k]]) (simp_all add: IndexExpr Some shape)
  qed
next
  case (BinaryExpr op left right)
  have k: "keeps (expr left)" "keeps (expr right)"
    by (rule belowD(1) [OF b]; use p in \<open>simp add: BinaryExpr\<close>)+
  show ?thesis by (rule keeps_eq [OF keeps_binary [OF k]]) (simp add: BinaryExpr)
next
  case (UnaryExpr op x postfix)
  have x: "below (size x)" "parsed_expr x" "keeps (expr x)"
    using below_mono [OF b] belowD(1) [OF b] p by (simp_all add: UnaryExpr)
  then show ?thesis unfolding UnaryExpr using keeps_IncDec [OF x(1,2)] keeps_Unary [OF x(3)] by blast
next
  case (Coalesce left right marked)
  have k: "keeps (expr left)" "keeps (expr right)"
    by (rule belowD(1) [OF b]; use p in \<open>simp add: Coalesce\<close>)+
  show ?thesis by (rule keeps_eq [OF keeps_coalesce [OF k]]) (simp add: Coalesce)
next
  case (Ternary cond thn els)
  have k: "keeps (expr cond)" "keeps (expr els)"
    by (rule belowD(1) [OF b]; use p in \<open>simp add: Ternary\<close>)+
  have t: "keeps t" if "(case thn of None \<Rightarrow> None | Some t \<Rightarrow> Some (expr t)) = Some t" for t
    using that p by (auto simp: Ternary split: option.splits intro!: belowD(1) [OF b])
  show ?thesis by (rule keeps_eq [OF keeps_ternary [OF k(1) t k(2)]]) (simp_all add: Ternary)
next
  case (CallExpr name fallback actuals firstClass)
  have k: "keeps (expr x)" if "x \<in> set actuals" for x
    using that p size_listed [OF that] by (auto simp: CallExpr intro!: belowD(1) [OF b])
  show ?thesis
  proof (cases firstClass)
    case True
    show ?thesis unfolding CallExpr by (rule keepsI) (auto simp: True shape grows_def intro!: building)
  next
    case False
    then show ?thesis unfolding CallExpr using keeps_compact [OF k] keeps_Call [OF k] by (cases "name = ''compact''") auto
  qed
next
  case (New cls classExpr actuals decl)
  have "keeps (expr x)" if "x \<in> set actuals" for x
    using that p size_listed [OF that] by (auto simp: New intro!: belowD(1) [OF b])
  moreover have "keeps (expr x)" if "classExpr = Some x" for x
    using that p by (auto simp: New intro!: belowD(1) [OF b])
  ultimately show ?thesis unfolding New by (rule keeps_New)
next
  case (MethodCall base name nameExpr actuals firstClass)
  have "keeps (expr base)" by (rule belowD(1) [OF b]) (use p in \<open>simp_all add: MethodCall\<close>)
  moreover have "keeps (expr x)" if "x \<in> set actuals" for x
    using that p size_listed [OF that] by (auto simp: MethodCall intro!: belowD(1) [OF b])
  moreover have "keeps (expr x)" if "nameExpr = Some x" for x
    using that p by (auto simp: MethodCall intro!: belowD(1) [OF b])
  ultimately show ?thesis unfolding MethodCall by (rule keeps_MethodCall)
next
  case (InvokeExpr callee actuals firstClass)
  have "keeps (expr callee)" by (rule belowD(1) [OF b]) (use p in \<open>simp_all add: InvokeExpr\<close>)
  moreover have "keeps (expr x)" if "x \<in> set actuals" for x
    using that p size_listed [OF that] by (auto simp: InvokeExpr intro!: belowD(1) [OF b])
  ultimately show ?thesis unfolding InvokeExpr by (rule keeps_Invoke)
next
  case (StaticCall cls name nameExpr actuals firstClass)
  have "keeps (expr x)" if "x \<in> set actuals" for x
    using that p size_listed [OF that] by (auto simp: StaticCall intro!: belowD(1) [OF b])
  moreover have "keeps (expr x)" if "nameExpr = Some x" for x
    using that p by (auto simp: StaticCall intro!: belowD(1) [OF b])
  ultimately show ?thesis unfolding StaticCall by (rule keeps_StaticCall)
next
  case (StaticProp cls name)
  show ?thesis unfolding StaticProp by (rule keepsI) (auto simp: shape grows_def resolveClass_def intro!: building)
next
  case (PropAccess base name nameExpr)
  show ?thesis
  proof (cases "nameExpr = None")
    case True
    have k: "keeps (expr base)" by (rule belowD(1) [OF b]) (use p in \<open>simp_all add: PropAccess\<close>)
    show ?thesis by (rule keeps_eq [OF keeps_emit [OF k]]) (simp_all add: PropAccess True shape)
  qed (rule keeps_eq [OF keeps_None], simp add: PropAccess)
next
  case (ClassConst cls name)
  show ?thesis unfolding ClassConst by (rule keepsI) (auto simp: shape grows_def resolveClass_def intro!: building)
next
  case (CastExpr ty x)
  have k: "keeps (expr x)" by (rule belowD(1) [OF b]) (use p in \<open>simp_all add: CastExpr\<close>)
  show ?thesis by (rule keeps_eq [OF keeps_emit [OF k]]) (simp_all add: CastExpr shape)
next
  case (AssignExpr target op val)
  show ?thesis unfolding AssignExpr
    by (rule keeps_AssignExpr) (use below_mono [OF b] p in \<open>simp_all add: AssignExpr\<close>)
next
  case (IncludeExpr path keyword once)
  have k: "keeps (expr path)" by (rule belowD(1) [OF b]) (use p in \<open>simp_all add: IncludeExpr\<close>)
  show ?thesis by (rule keeps_eq [OF keeps_emit [OF k]]) (simp_all add: IncludeExpr shape)
next
  case (Closure ps us body st)
  have "walks (seq stmt body)"
    by (rule walks_seq, rule belowD(4) [OF b]) (use p in \<open>auto simp: Closure dest: size_listed\<close>)
  from keeps_closure [OF this] show ?thesis by (rule keeps_eq) (simp add: Closure)
next
  case (ListExpr elems)
  show ?thesis by (rule keeps_eq [OF keeps_None]) (simp add: ListExpr)
qed

end
