(* ===== verification/TranslateStmts.thy ===== *)
theory TranslateStmts
  imports Translate
begin

text \<open>
  The translation of statements keeps the compiler's state sound, with the jumps of the open loops
  as what it may still owe; and of every statement and expression together, by induction on size.
\<close>

section \<open>Rules\<close>

lemma gives_walk':
  assumes "walks f" and "sound c" and "owed ls \<subseteq> known c" and "carried ls"
    and "\<And>ls' c'. sound c' \<Longrightarrow> owed ls' \<subseteq> known c' \<Longrightarrow> carried ls' \<Longrightarrow> grows c c' \<Longrightarrow> later_loops ls ls' \<Longrightarrow>
      owed ls \<subseteq> owed ls' \<Longrightarrow> pending c' \<subseteq> pending c \<union> owed ls' \<Longrightarrow> Q (ls', c')"
  shows "gives (f (ls, c)) Q"
proof (rule gives_walk [OF assms(1)])
  fix ls' c' assume "after ls c (ls', c')"
  then show "Q (ls', c')" using later_owed by (intro assms(5)) (auto simp: after_def built_def)
qed (use assms(2-4) in \<open>simp add: built_def\<close>)

lemma later_new_loop:
  "later_loop (new_loop t wb) l \<Longrightarrow> l_continueTarget l = t \<and> l_writeBack l = wb \<and> (t = - 1 \<longrightarrow> l_continues l = [])"
  by (auto simp: later_loop_def new_loop_def)

lemma gives_loop:
  assumes "walks f" and "sound c" and "owed ls \<subseteq> known c" and "carried ls" and "\<And>w. wb = Some w \<Longrightarrow> keeps w"
    and "\<And>l ls' c'. sound c' \<Longrightarrow> At ` set (l_breaks l) \<subseteq> known c' \<Longrightarrow> At ` set (l_continues l) \<subseteq> known c' \<Longrightarrow>
      owed ls' \<subseteq> known c' \<Longrightarrow> carried ls' \<Longrightarrow> grows c c' \<Longrightarrow> later_loops ls ls' \<Longrightarrow> owed ls \<subseteq> owed ls' \<Longrightarrow>
      later_loop (new_loop t wb) l \<Longrightarrow>
      pending c' \<subseteq> pending c \<union> At ` set (l_breaks l) \<union> At ` set (l_continues l) \<union> owed ls' \<Longrightarrow> Q (l # ls', c')"
  shows "gives (f (new_loop t wb # ls, c)) Q"
proof (rule gives_walk' [OF assms(1,2)])
  fix ls0 c'
  assume a: "sound c'" "owed ls0 \<subseteq> known c'" "carried ls0" "grows c c'" "later_loops (new_loop t wb # ls) ls0"
    "pending c' \<subseteq> pending c \<union> owed ls0"
  obtain l ls' where l: "ls0 = l # ls'" "later_loop (new_loop t wb) l" "later_loops ls ls'"
    using a(5) by (auto simp: list_all2_Cons1)
  show "Q (ls0, c')" unfolding l(1)
    by (rule assms(6) [OF a(1)]) (use a l later_owed [OF l(3)] in auto)
qed (use assms(3-5) in \<open>auto simp: new_loop_def\<close>)

lemma patches_facts:
  assumes "sound c" and "At ` set xs \<subseteq> known c" and "pc_in c t"
  shows "sound (patches xs t c)" "known (patches xs t c) = known c" "pending (patches xs t c) = pending c - At ` set xs"
    "here (patches xs t c) = here c" "locals_count (patches xs t c) = locals_count c"
    "constants_count (patches xs t c) = constants_count c" "closures_count (patches xs t c) = closures_count c"
    "groups_count (patches xs t c) = groups_count c"
proof -
  have "sound (patches xs t c) \<and> known (patches xs t c) = known c \<and> pending (patches xs t c) = pending c - At ` set xs \<and>
    here (patches xs t c) = here c \<and> locals_count (patches xs t c) = locals_count c \<and>
    constants_count (patches xs t c) = constants_count c \<and> closures_count (patches xs t c) = closures_count c \<and>
    groups_count (patches xs t c) = groups_count c"
    using assms
  proof (induction xs arbitrary: c)
    case (Cons x xs)
    then have "sound (patch x t c)" by (intro sound_patch) auto
    then show ?case using Cons.IH [of "patch x t c"] Cons.prems by auto
  qed simp
  then show "sound (patches xs t c)" "known (patches xs t c) = known c" "pending (patches xs t c) = pending c - At ` set xs"
    "here (patches xs t c) = here c" "locals_count (patches xs t c) = locals_count c"
    "constants_count (patches xs t c) = constants_count c" "closures_count (patches xs t c) = closures_count c"
    "groups_count (patches xs t c) = groups_count c" by blast+
qed

lemma walks_simple:
  assumes "keeps m" and "\<And>ls c. f (ls, c) = do { c \<leftarrow> m c; Some (ls, c) }"
  shows "walks f"
  using walks_keeps [OF assms(1)] by (simp add: walks_def assms(2))

lemma walks_plain: "(\<And>ls c. f (ls, c) = Some (ls, c)) \<Longrightarrow> walks f"
  by (rule walks_simple [OF keeps_skip]) simp

lemma walks_None: "(\<And>ls c. f (ls, c) = None) \<Longrightarrow> walks f"
  by (simp add: walks_def)

lemmas after_simps = after_def built_def grows_def

definition back_to :: "opcode \<Rightarrow> int \<Rightarrow> compiler \<Rightarrow> compiler" where
  "back_to op t = put ((instr op)\<lparr>i_target := t\<rparr>)"

lemma sound_back_to: "sound c \<Longrightarrow> pc_in c t \<Longrightarrow> op \<in> {OpJump, OpJumpTrue} \<Longrightarrow> sound (back_to op t c)"
  by (auto simp: back_to_def fine_simp instr_def intro!: sound_plain)

lemma back_to_facts [simp]:
  "op \<in> {OpJump, OpJumpTrue} \<Longrightarrow> known (back_to op t c) = insert (At (here c)) (known c)"
  "op \<in> {OpJump, OpJumpTrue} \<Longrightarrow> 0 \<le> t \<Longrightarrow> pending (back_to op t c) = pending c"
  "here (back_to op t c) = here c + 1" "locals_count (back_to op t c) = locals_count c"
  "constants_count (back_to op t c) = constants_count c" "closures_count (back_to op t c) = closures_count c"
  "groups_count (back_to op t c) = groups_count c"
  by (auto simp: back_to_def patchable_def jumps_def instr_def)

lemma loop_end:
  assumes "sound d" and "At ` set xs \<subseteq> known d" and "owed ls' \<subseteq> known d" and "carried ls'" and "grows c d"
    and "later_loops ls ls'" and "pending d \<subseteq> pending c \<union> At ` set xs \<union> owed ls'"
  shows "after ls c (ls', patches xs (here d) d)"
  using assms patches_facts [OF assms(1,2), of "here d"] by (auto simp: after_simps)

section \<open>Branches and loops\<close>

lemma walks_If:
  assumes cond: "keeps (expr cond)" and thn: "walks (seq stmt thn)" and els: "walks (seq stmt els)"
  shows "walks (stmt (IfStmt cond thn els))"
  apply (rule walksI)
  apply (clarsimp simp: Let_def built_def)
  apply (rule gives_step [OF cond], assumption)
  apply (rule gives_walk' [OF thn])
     apply (simp_all add: sound_jumping)
    apply (auto simp: grows_def) [1]
  apply (rule gives_walk' [OF els])
     apply (intro building; simp add: grows_def)
    apply (simp_all add: grows_def)
   apply (blast)
  apply (auto simp: after_simps intro!: building elim: later_trans)
  done

lemma walks_DoWhile:
  assumes body: "walks (seq stmt body)" and cond: "keeps (expr cond)"
  shows "walks (stmt (DoWhile body cond))"
  apply (rule walksI)
  apply (clarsimp simp: Let_def built_def back_to_def [symmetric])
  apply (rule gives_loop [OF body]; simp?)
  apply (rule gives_step [OF cond])
   apply (rule patches_facts; simp add: grows_def)
  subgoal premises p for ls c l ls' c1 c2
  proof -
    let ?d = "back_to OpJumpTrue (here c) c2"
    note q = patches_facts [OF p(4,6), of "here c1", simplified]
    have g: "grows c1 c2" "pending c2 \<subseteq> pending c1 - At ` set (l_continues l)" using p(16,15) q by (simp_all add: grows_def)
    have "after ls c (ls', patches (l_breaks l) (here ?d) ?d)"
    proof (rule loop_end)
      show "sound ?d" using p(9) g(1) sound_back_to [OF p(14)] by (simp add: grows_def)
    qed (use p g in \<open>auto simp: grows_def\<close>)
    then show ?thesis by simp
  qed
  done

lemma walks_Break: "walks (stmt Break)"
proof (rule walksI)
  fix ls c assume "built ls c"
  then show "gives (stmt Break (ls, c)) (after ls c)"
    by (cases ls) (auto simp: after_simps later_loop_def sound_jumping)
qed

lemma add_continue_facts:
  "later_loops ls (add_continue x ls)" "owed (add_continue x ls) \<subseteq> insert (At x) (owed ls)"
  "carried ls \<Longrightarrow> carried (add_continue x ls)"
  "\<not> list_all (\<lambda>l. l_continueTarget l = - 1) ls \<Longrightarrow> At x \<in> owed (add_continue x ls)"
  by (induction ls) (auto simp: later_loop_def)

lemma walks_Continue: "walks (stmt Continue)"
proof (rule walksI)
  fix ls :: "loopContext list" and c assume b: "built ls c"
  show "gives (stmt Continue (ls, c)) (after ls c)"
  proof (cases "list_all (\<lambda>l. l_continueTarget l = - 1) ls")
    case False
    then show ?thesis
      using b add_continue_facts [where ls = ls and x = "here c"] by (auto simp: after_simps sound_jumping simp del: add_continue.simps)
  qed simp
qed

lemma walks_Return:
  assumes "\<And>e. val = Some e \<Longrightarrow> keeps (expr e)"
  shows "walks (stmt (ReturnStmt val))"
proof (rule walksI)
  fix ls c assume b: "built ls c"
  have v: "keeps (\<lambda>c. case val of None \<Rightarrow> Some (push_const VNil c) | Some e \<Rightarrow> expr e c)"
    by (rule keeps_option [OF assms]) (auto simp: keeps_def grows_def intro!: building)
  have w: "keeps (seq (\<lambda>l c. case l_writeBack l of None \<Rightarrow> Some c | Some writeBack \<Rightarrow> writeBack c) ls)"
    by (rule keeps_seq, rule keeps_option) (use b in \<open>auto simp: built_def carried_def keeps_skip\<close>)
  have "keeps (\<lambda>c. do {
     c \<leftarrow> (case val of None \<Rightarrow> Some (push_const VNil c) | Some e \<Rightarrow> expr e c);
     c \<leftarrow> seq (\<lambda>l c. case l_writeBack l of None \<Rightarrow> Some c | Some writeBack \<Rightarrow> writeBack c) ls c;
     Some (put (instr OpReturn) c) })"
    by (rule keeps_both_emit [OF v w]) (simp_all add: shape)
  then have "walks (\<lambda>(ls', c). do { c \<leftarrow> (do {
     c \<leftarrow> (case val of None \<Rightarrow> Some (push_const VNil c) | Some e \<Rightarrow> expr e c);
     c \<leftarrow> seq (\<lambda>l c. case l_writeBack l of None \<Rightarrow> Some c | Some writeBack \<Rightarrow> writeBack c) ls c;
     Some (put (instr OpReturn) c) }); Some (ls', c) })"
    by (rule walks_keeps)
  then show "gives (stmt (ReturnStmt val) (ls, c)) (after ls c)" using b by (simp add: walks_def)
qed

lemma simple_step_keeps:
  assumes "simple_step s" and "below n" and "size s < n" and "parsed_stmt s"
  obtains m where "keeps m" and "\<And>ls c. stmt s (ls, c) = do { c \<leftarrow> m c; Some (ls, c) }"
proof (cases s)
  case (ExprStmt x)
  have "keeps (expr x)" by (rule belowD(1) [OF assms(2)]) (use assms(3,4) in \<open>simp_all add: ExprStmt\<close>)
  then have "keeps (\<lambda>c. do { c \<leftarrow> expr x c; Some (put (instr OpPop) c) })" by (rule keeps_emit) (simp_all add: shape)
  then show ?thesis by (rule that) (simp add: ExprStmt)
next
  case (Assign target op val)
  have "keeps (assignment target op val False)"
    by (rule keeps_assignment) (use assms(3,4) below_mono [OF assms(2)] in \<open>simp_all add: Assign\<close>)
  then show ?thesis by (rule that) (simp add: Assign)
qed (use assms(1) in \<open>simp_all add: simple_step_def\<close>)

lemma walks_For:
  assumes init: "\<And>s. init = Some s \<Longrightarrow> walks (stmt s)" and cond: "\<And>e. cond = Some e \<Longrightarrow> keeps (expr e)"
    and body: "walks (seq stmt body)"
    and post: "\<And>s. post = Some s \<Longrightarrow> \<exists>m. keeps m \<and> (\<forall>ls c. stmt s (ls, c) = do { c \<leftarrow> m c; Some (ls, c) })"
  shows "walks (stmt (For init cond post body))"
proof -
  have first: "gives (case init of None \<Rightarrow> Some (ls, c) | Some s \<Rightarrow> stmt s (ls, c)) (after ls c)" if "built ls c" for ls c
    using that init by (cases init) (auto simp: walks_def, simp add: after_simps)
  have test: "gives (case cond of
        None \<Rightarrow> Some ([], c)
      | Some e \<Rightarrow> do { c \<leftarrow> expr e c; case emit_jump OpJumpFalse c of (exit, c) \<Rightarrow> Some ([exit], c) })
    (\<lambda>(exit, d). sound d \<and> grows c d \<and> At ` set exit \<subseteq> known d \<and> pending d \<subseteq> pending c \<union> At ` set exit)"
    if "sound c" for c
  proof (cases cond)
    case None
    then show ?thesis using that by (simp add: grows_def)
  next
    case (Some e)
    show ?thesis unfolding Some
      by (simp, rule gives_step [OF cond [OF Some] that]) (auto simp: grows_def sound_jumping)
  qed
  obtain m where m: "keeps m" and step: "\<And>ls c. (case post of None \<Rightarrow> Some (ls, c) | Some s \<Rightarrow> stmt s (ls, c)) =
      do { c \<leftarrow> m c; Some (ls, c) }"
    using post keeps_skip by (cases post) auto
  show ?thesis
    apply (rule walksI)
    apply (unfold stmt.simps gives_bind Let_def step back_to_def [symmetric])
    apply (rule gives_mono [OF first], assumption)
    apply (clarsimp simp only: prod.case gives_bind)
    apply (rule gives_mono [OF test], simp add: after_simps)
    apply (clarsimp simp only: prod.case gives_bind)
    apply (rule gives_loop [OF body])
        apply simp
       apply (auto simp: after_simps) [1]
      apply (simp add: after_simps)
     apply simp
    apply (simp only: prod.case gives_bind gives_Some list.sel)
    apply (rule gives_step [OF m])
     apply (rule patches_facts; simp)
    subgoal premises p for ls c ls1 c1 exit c2 l ls' c3 c4
    proof -
      let ?d = "back_to OpJump (here c1) c4"
      let ?e = "patches exit (here ?d) ?d"
      note q = patches_facts [OF p(7) p(9), of "here c3", simplified]
      have g: "grows c3 c4" "pending c4 \<subseteq> pending c3 - At ` set (l_continues l)" using p(19,18) q by (simp_all add: grows_def)
      have a: "grows c c1" "later_loops ls ls1" "pending c1 \<subseteq> pending c \<union> owed ls1" using p(2) by (simp_all add: after_def)
      have t: "grows c1 c4" using p(4,12) g(1) grows_trans by blast
      have d: "sound ?d" using sound_back_to [OF p(17)] t by (simp add: grows_def)
      have "At ` set exit \<subseteq> known ?d" using p(5,12) g(1) by (auto simp: grows_def)
      note e = patches_facts [OF d this, of "here ?d", simplified]
      have "after ls c (ls', patches (l_breaks l) (here ?e) ?e)"
      proof (rule loop_end)
        show "grows c ?e" using a(1) t e by (auto simp: grows_def)
        show "later_loops ls ls'" using a(2) p(13) by (rule later_trans)
        show "pending ?e \<subseteq> pending c \<union> At ` set (l_breaks l) \<union> owed ls'"
          using a(3) p(6,14,16) g(2) e(3) by (simp, blast)
      qed (use p e g in \<open>auto simp: grows_def\<close>)
      then show ?thesis by simp
    qed
    done
qed

section \<open>Foreach\<close>

lemma iterator_slots_facts:
  assumes "iterator_slots keyed c = (k, v, c')" and "sound c"
  shows "named c c'" "k < locals_count c'" "keyed \<Longrightarrow> 0 \<le> k" "slot_in c' v"
proof -
  let ?c = "c\<lparr>c_nextIter := Suc (c_nextIter c)\<rparr>"
  have n: "named c ?c" using sound_nextIter [OF assms(2)] by (simp add: named_def grows_def)
  obtain k1 c1 where k1: "(if keyed then slot (slot_name ''foreach-key-'' (c_nextIter c)) ?c else (- 1, ?c)) = (k1, c1)" by fastforce
  obtain v1 c2 where v1: "slot (slot_name ''foreach-value-'' (c_nextIter c)) c1 = (v1, c2)" by fastforce
  have r: "k = k1" "v = v1" "c' = c2" using assms(1) by (simp_all add: iterator_slots_def Let_def k1 v1)
  have c1: "named ?c c1 \<and> k1 < locals_count c1 \<and> (keyed \<longrightarrow> 0 \<le> k1)"
  proof (cases keyed)
    case True
    then have "slot (slot_name ''foreach-key-'' (c_nextIter c)) ?c = (k1, c1)" using k1 by simp
    from named_slot [OF this] n show ?thesis by (simp add: named_def)
  next
    case False
    then have e: "k1 = - 1" "c1 = ?c" using k1 by auto
    have "- 1 < locals_count ?c" using here_nonneg(5) [of ?c] by linarith
    then show ?thesis using n False unfolding e by (simp add: named_def)
  qed
  then have "named c1 c2 \<and> slot_in c2 v1" using named_slot [OF v1] by (simp add: named_def)
  then show "named c c'" "k < locals_count c'" "keyed \<Longrightarrow> 0 \<le> k" "slot_in c' v"
    unfolding r using n c1 named_trans by (auto simp: named_def grows_def)
qed

lemma gives_iterator:
  assumes "sound c"
    and "\<And>k v c'. named c c' \<Longrightarrow> k < locals_count c' \<Longrightarrow> (keyed \<longrightarrow> 0 \<le> k) \<Longrightarrow> slot_in c' v \<Longrightarrow> gives (f k v c') Q"
  shows "gives (case iterator_slots keyed c of (k, v, c') \<Rightarrow> f k v c') Q"
proof -
  obtain k v c' where s: "iterator_slots keyed c = (k, v, c')" by (cases "iterator_slots keyed c") auto
  show ?thesis using assms(2) [of c' k v] iterator_slots_facts [OF s assms(1)] by (simp add: s)
qed

definition next_jump :: "int \<Rightarrow> int \<Rightarrow> int \<Rightarrow> compiler \<Rightarrow> compiler" where
  "next_jump i k v = put ((instr OpIterNext)\<lparr>i_a := i, i_b := k, i_c := v, i_target := - 1\<rparr>)"

lemma sound_next_jump:
  "sound c \<Longrightarrow> 0 \<le> i \<Longrightarrow> k < locals_count c \<Longrightarrow> slot_in c v \<Longrightarrow> sound (next_jump i k v c)"
  by (auto simp: next_jump_def soft_def patchable_def jumps_def fine_simp instr_def intro!: sound_put)

lemma next_jump_facts [simp]:
  "known (next_jump i k v c) = insert (At (here c)) (known c)" "pending (next_jump i k v c) = insert (At (here c)) (pending c)"
  "here (next_jump i k v c) = here c + 1" "locals_count (next_jump i k v c) = locals_count c"
  "constants_count (next_jump i k v c) = constants_count c" "closures_count (next_jump i k v c) = closures_count c"
  "groups_count (next_jump i k v c) = groups_count c"
  by (auto simp: next_jump_def patchable_def jumps_def instr_def)

text \<open>What the head of a \<open>foreach\<close> leaves: the instruction at \<open>next\<close> still to be patched.\<close>

definition headed :: "compiler \<Rightarrow> int \<Rightarrow> compiler \<Rightarrow> bool" where
  "headed c next c' \<longleftrightarrow> sound c' \<and> grows c c' \<and> At next \<in> known c' \<and> 0 \<le> next \<and> next < here c' \<and>
     pending c' \<subseteq> insert (At next) (pending c)"

lemma gives_headed:
  assumes "keeps m" and "headed c next c1" and "\<And>c2. headed c next c2 \<Longrightarrow> grows c1 c2 \<Longrightarrow> Q c2"
  shows "gives (m c1) Q"
proof (rule gives_step [OF assms(1)])
  show "sound c1" using assms(2) by (simp add: headed_def)
  fix c2 assume "sound c2" "pending c2 \<subseteq> pending c1" "grows c1 c2"
  then show "Q c2" using assms(2) by (intro assms(3)) (auto simp: headed_def grows_def)
qed

lemma headed_put: "headed c next c1 \<Longrightarrow> sound (put i c1) \<Longrightarrow> \<not> patchable (i_op i) \<Longrightarrow> i_op i \<noteq> OpTryPush \<Longrightarrow> headed c next (put i c1)"
  by (auto simp: headed_def grows_def)

lemma headed_load: "headed c next c1 \<Longrightarrow> slot_in c1 k \<Longrightarrow> headed c next (load k c1)"
  by (auto simp: headed_def grows_def intro!: building)

lemma foreach_close:
  assumes "sound d" and "At ` set bs \<subseteq> known d" and "At ` set ks \<subseteq> known d" and "owed ls' \<subseteq> known d" and "carried ls'"
    and "grows c d" and "later_loops ls ls'" and "pending d \<subseteq> pending c \<union> At ` set bs \<union> At ` set ks \<union> owed ls'"
    and "pc_in d breakPC" and "pc_in d continuePC"
  shows "after ls c (ls', patches ks continuePC (patches bs breakPC d))"
proof -
  note b = patches_facts [OF assms(1,2,9)]
  have "At ` set ks \<subseteq> known (patches bs breakPC d)" "pc_in (patches bs breakPC d) continuePC" using assms(3,10) b by simp_all
  note k = patches_facts [OF b(1) this]
  have "pending (patches ks continuePC (patches bs breakPC d)) \<subseteq> pending c \<union> owed ls'"
    unfolding k(3) b(3) using assms(8) by blast
  then show ?thesis using assms(4-7) b k by (simp add: after_simps)
qed

lemma walks_Foreach:
  assumes source: "keeps (expr source)" and key: "\<And>t. target_of keyTarget keyVar = Some t \<Longrightarrow> keeps (storeTop t)"
    and val: "\<And>t. target_of valTarget valVar = Some t \<Longrightarrow> keeps (storeTop t) \<and> keeps (expr t)"
    and body: "walks (seq stmt body)"
  shows "walks (stmt (Foreach source keyTarget valTarget byRef keyVar valVar body))"
proof (cases "target_of valTarget valVar")
  case None
  then show ?thesis by (intro walks_None) simp
next
  case (Some t)
  note v = val [OF Some, THEN conjunct1]
  have w: "keeps (\<lambda>c. do { c \<leftarrow> expr t c; Some (put ((instr OpIterSet)\<lparr>i_a := int n\<rparr>) c) })" for n
    by (rule keeps_emit [OF val [OF Some, THEN conjunct2]]) (simp_all add: shape)
  show ?thesis
    apply (rule walksI)
    apply (unfold stmt.simps Some option.case gives_bind Let_def)
    apply (rule gives_step [OF source], simp add: after_simps)
    apply (rule gives_iterator, assumption)
    apply (unfold emit_def prod.case next_jump_def [symmetric] gives_bind)
    subgoal premises p for ls c c1 keySlot v' c2
    proof -
      let ?j = "next_jump (int (c_nextIter c1)) keySlot v' (put ((instr OpIterInit)\<lparr>i_a := int (c_nextIter c1)\<rparr>) c2)"
      let ?next = "here (put ((instr OpIterInit)\<lparr>i_a := int (c_nextIter c1)\<rparr>) c2)"
      have j: "headed c ?next ?j"
        using p by (auto simp: headed_def after_simps named_def shape intro!: sound_next_jump sound_plain)
      have k: "gives (case target_of keyTarget keyVar of None \<Rightarrow> Some ?j | Some key \<Rightarrow> storeTop key (load keySlot ?j))
          (\<lambda>d. headed c ?next d \<and> grows ?j d)"
      proof (cases "target_of keyTarget keyVar")
        case None
        then show ?thesis using j by simp
      next
        case (Some t')
        have "headed c ?next (load keySlot ?j)" by (rule headed_load [OF j]) (use p Some in \<open>simp add: shape\<close>)
        then show ?thesis unfolding Some
          by (auto intro!: gives_headed [OF key [OF Some]] elim: grows_trans [rotated] simp: grows_def)
      qed
      show ?thesis
        apply (rule gives_mono [OF k])
        apply (elim conjE)
        subgoal premises d for d
        proof -
          have l: "headed c ?next (load v' d)"
            by (rule headed_load [OF d(1)]) (use p d(2) in \<open>simp add: shape grows_def\<close>)
          then have "headed c ?next (if \<not> byRef \<and> AssignsTo t body then put (instr OpCopyValue) (load v' d) else load v' d)"
            by (auto simp: shape headed_def grows_def intro!: sound_plain)
          then show ?thesis
            apply (rule gives_headed [OF v])
            apply (rule gives_loop [OF body])
                apply (simp add: headed_def)
               apply (use p in \<open>auto simp: headed_def after_simps\<close>) [1]
              apply (use p in \<open>simp add: after_simps\<close>) 
             apply (use w in \<open>auto split: if_splits\<close>) [1]
            apply (simp only: prod.case gives_bind list.sel)
            subgoal premises q for e l ls' g
            proof -
              let ?I = "int (c_nextIter c1)"
              have n: "?next = here c2 + 1" "here c2 + 1 < here e" "At (here c2 + 1) \<in> known g" "here e \<le> here g"
                using q(1,8) by (auto simp: headed_def grows_def)
              have gc: "grows c g" using q(1,8) by (auto simp: headed_def intro: grows_trans)
              have pg: "pending g \<subseteq> insert (At (here c2 + 1)) (pending c) \<union> At ` set (l_breaks l) \<union> At ` set (l_continues l) \<union> owed ls'"
                using q(1,12) by (auto simp: headed_def)
              show ?thesis
              proof (cases byRef)
                case False
                let ?d = "patch (here c2 + 1) (here g + 1) (put ((instr OpIterClose)\<lparr>i_a := ?I\<rparr>) (back_to OpJump (here c2 + 1) g))"
                have b: "sound (back_to OpJump (here c2 + 1) g)" using n by (intro sound_back_to [OF q(3)]) simp_all
                have d: "sound ?d" by (rule sound_patch [OF sound_plain [OF b]]) (use n in \<open>simp_all add: shape\<close>)
                have "after ls c (ls', patches (l_continues l) (here g) (patches (l_breaks l) (here g + 1) ?d))"
                proof (rule foreach_close [OF d])
                  show "pending ?d \<subseteq> pending c \<union> At ` set (l_breaks l) \<union> At ` set (l_continues l) \<union> owed ls'"
                    using pg n(3) by (simp add: shape, blast)
                qed (use q(4-7,9) gc n in \<open>auto simp: shape grows_def\<close>)
                then show ?thesis using False by (simp add: back_to_def)
              next
                case True
                have finish: "after ls c (ls', patches (l_continues l) (here g) (patches (l_breaks l) brk
                    (patch (here h) (here h + 1) (patch (here c2 + 1) (here h + 1) (put ((instr OpIterClose)\<lparr>i_a := ?I\<rparr>) (jumping OpJump h))))))"
                  if h: "sound h" "grows g h" "pending h \<subseteq> pending g" "pc_in h brk" for h brk
                proof -
                  let ?p = "put ((instr OpIterClose)\<lparr>i_a := ?I\<rparr>) (jumping OpJump h)"
                  have nh: "At (here c2 + 1) \<in> known h" "here g \<le> here h" using n(3) h(2) by (auto simp: grows_def)
                  have s: "sound ?p" using sound_jumping [OF h(1)] by (intro sound_plain) (simp_all add: shape)
                  have s': "sound (patch (here c2 + 1) (here h + 1) ?p)" by (rule sound_patch [OF s]) (use nh in \<open>simp_all add: shape\<close>)
                  show ?thesis
                  proof (rule foreach_close)
                    show "sound (patch (here h) (here h + 1) (patch (here c2 + 1) (here h + 1) ?p))"
                      by (rule sound_patch [OF s']) (simp_all add: shape)
                    show "pending (patch (here h) (here h + 1) (patch (here c2 + 1) (here h + 1) ?p)) \<subseteq>
                        pending c \<union> At ` set (l_breaks l) \<union> At ` set (l_continues l) \<union> owed ls'"
                      using pg h(3) nh by (simp add: shape, blast)
                  qed (use q(4-7,9) gc h nh in \<open>auto simp: shape grows_def\<close>)
                qed
                have j: "back_to OpJump (- 1) h = jumping OpJump h" for h by (simp add: back_to_def jumping_def)
                note e = val [OF Some, THEN conjunct2]
                have set: "sound (put ((instr OpIterSet)\<lparr>i_a := ?I\<rparr>) h)" if "sound h" for h
                  using that by (intro sound_plain) (simp_all add: shape)
                show ?thesis using True
                  apply (simp add: back_to_def [symmetric] jumping_def [symmetric] j)
                  apply (rule gives_step [OF e q(3)])
                  subgoal premises r for h
                    apply (rule gives_step [OF e sound_back_to [OF set]])
                    subgoal by (rule r)
                    subgoal using r n by (simp add: grows_def)
                    subgoal by simp
                    subgoal premises u for h'
                    proof -
                      have g: "grows g (put ((instr OpIterSet)\<lparr>i_a := ?I\<rparr>) h')" using r u n by (auto simp: grows_def shape)
                      have p: "pending (put ((instr OpIterSet)\<lparr>i_a := ?I\<rparr>) h') \<subseteq> pending g"
                        using r u n by (simp add: shape)
                      show ?thesis using finish [OF set [OF u(1)] g p, of "here h + 2"] r u by (simp add: shape grows_def add.commute)
                    qed
                    done
                  done
              qed
            qed
            done
        qed
        done
    qed
    done
qed

section \<open>Switch\<close>

lemma switch_tests:
  assumes "\<And>k. k \<in> set ks \<Longrightarrow> keeps (expr (sc_Value k))" and "sound c" and "slot_in c s"
  shows "gives (seq (\<lambda>k (js, c). do {
            c \<leftarrow> expr (sc_Value k) (load s c);
            let (hit, c) = emit_jump OpJumpTrue (put ((instr OpBinary)\<lparr>i_b := binEq, i_name := ''==''\<rparr>) c);
            Some (js @ [hit], c) }) ks ([], c))
    (\<lambda>(js, d). length js = length ks \<and> sound d \<and> grows c d \<and> At ` set js \<subseteq> known d \<and>
      pending d \<subseteq> pending c \<union> At ` set js)"
proof (rule gives_seq [where I = "\<lambda>i (js, d). length js = i \<and> sound d \<and> grows c d \<and> At ` set js \<subseteq> known d \<and>
      pending d \<subseteq> pending c \<union> At ` set js"])
  fix i st assume i: "i < length ks"
    and st: "case st of (js, d) \<Rightarrow> length js = i \<and> sound d \<and> grows c d \<and> At ` set js \<subseteq> known d \<and>
      pending d \<subseteq> pending c \<union> At ` set js"
  obtain js d where [simp]: "st = (js, d)" by fastforce
  have d: "length js = i" "sound d" "grows c d" "At ` set js \<subseteq> known d" "pending d \<subseteq> pending c \<union> At ` set js"
    using st by simp_all
  have l: "sound (load s d)" using d(2,3) assms(3) by (intro sound_load) (simp_all add: grows_def)
  show "gives (case st of (js, c) \<Rightarrow> do {
            c \<leftarrow> expr (sc_Value (ks ! i)) (load s c);
            let (hit, c) = emit_jump OpJumpTrue (put ((instr OpBinary)\<lparr>i_b := binEq, i_name := ''==''\<rparr>) c);
            Some (js @ [hit], c) })
     (\<lambda>(js, d). length js = Suc i \<and> sound d \<and> grows c d \<and> At ` set js \<subseteq> known d \<and>
      pending d \<subseteq> pending c \<union> At ` set js)"
    apply (simp add: Let_def)
    apply (rule gives_step [OF assms(1) [OF nth_mem [OF i]] l])
    subgoal premises e for e
    proof -
      let ?b = "put ((instr OpBinary)\<lparr>i_b := binEq, i_name := ''==''\<rparr>) e"
      have "sound (jumping OpJumpTrue ?b)"
        by (rule sound_jumping) (use e(1) in \<open>auto simp: shape intro!: sound_plain\<close>)
      then show ?thesis using e d by (simp add: shape grows_def, blast)
    qed
    done
qed (use assms(2) in simp)

lemma switch_bodies:
  assumes "\<And>k. k \<in> set ks \<Longrightarrow> walks (seq stmt (sc_Body k))" and "length hits = length ks"
    and "sound c" and "owed ls \<subseteq> known c" and "carried ls" and "At ` set hits \<subseteq> known c"
  shows "gives (seq (\<lambda>(k, hit) (ls, c). seq stmt (sc_Body k) (ls, patch hit (here c) c)) (zip ks hits) (ls, c))
    (\<lambda>(ls', d). built ls' d \<and> grows c d \<and> later_loops ls ls' \<and> pending d \<subseteq> (pending c - At ` set hits) \<union> owed ls')"
proof -
  let ?I = "\<lambda>i (ls', d). built ls' d \<and> grows c d \<and> later_loops ls ls' \<and>
      pending d \<subseteq> (pending c - At ` set (take i hits)) \<union> owed ls'"
  have "gives (seq (\<lambda>(k, hit) (ls, c). seq stmt (sc_Body k) (ls, patch hit (here c) c)) (zip ks hits) (ls, c))
    (?I (length (zip ks hits)))"
  proof (rule gives_seq [where I = ?I])
    fix i st assume i: "i < length (zip ks hits)" and st: "?I i st"
    obtain ls1 d where [simp]: "st = (ls1, d)" by fastforce
    have d: "sound d" "owed ls1 \<subseteq> known d" "carried ls1" "grows c d" "later_loops ls ls1"
      "pending d \<subseteq> (pending c - At ` set (take i hits)) \<union> owed ls1"
      using st by (simp_all add: built_def)
    have "hits ! i \<in> set hits" using i by simp
    then have hit: "At (hits ! i) \<in> known d" using assms(6) d(4) by (auto simp: grows_def)
    have p: "sound (patch (hits ! i) (here d) d)" by (rule sound_patch [OF d(1) hit]) simp
    have t: "set (take (Suc i) hits) = insert (hits ! i) (set (take i hits))" using i by (simp add: take_Suc_conv_app_nth)
    show "gives ((case zip ks hits ! i of (k, hit) \<Rightarrow> \<lambda>(ls, c). seq stmt (sc_Body k) (ls, patch hit (here c) c)) st) (?I (Suc i))"
      using i apply simp
      apply (rule gives_walk' [OF assms(1) p])
         apply simp
        apply (use d(2) in simp)
       apply (rule d(3))
      using d hit later_owed apply (auto simp: built_def t grows_def intro: later_trans; blast)
      done
  qed (use assms in \<open>simp add: built_def\<close>)
  then show ?thesis by (rule gives_mono) (use assms(2) in auto)
qed

lemma marks_left:
  assumes "d = c - {a}" and "c \<subseteq> (insert a p - h) \<union> (b \<union> s)" and "p \<subseteq> q \<union> h"
  shows "d \<subseteq> q \<union> b \<union> s"
  using assms by blast

lemma marks_later:
  assumes "d \<subseteq> q \<union> b \<union> s" and "b \<subseteq> b'" and "s \<subseteq> s'" and "e \<subseteq> d \<union> (b' \<union> s')"
  shows "e \<subseteq> q \<union> b' \<union> s'"
  using assms by blast

lemma walks_Switch:
  assumes cond: "keeps (expr cond)" and tests: "\<And>k. k \<in> set ks \<Longrightarrow> keeps (expr (sc_Value k))"
    and bodies: "\<And>k. k \<in> set ks \<Longrightarrow> walks (seq stmt (sc_Body k))" and rest: "walks (seq stmt rest)"
  shows "walks (stmt (Switch cond ks rest))"
  apply (rule walksI)
  apply (unfold stmt.simps gives_bind, subst Let_def)
  apply (rule gives_step [OF cond], simp add: after_simps)
  apply (rule gives_slot, assumption)
  apply (unfold gives_bind)
  apply (rule gives_mono [OF switch_tests [OF tests]])
     apply assumption
    apply (simp add: sound_store)
   apply simp
  apply (clarsimp simp only: prod.case Let_def emit_jump_eq gives_bind)
  subgoal premises p for ls c c1 s c2 hits c3
  proof -
    have j: "sound (jumping OpJump c3)" using sound_jumping [OF p(13)] by simp
    have b: "sound c" "owed ls \<subseteq> known c" "carried ls" using p(1) by (simp_all add: built_def)
    have g: "grows c c3" using p(4,9,14) by (auto simp: grows_def)
    have pc3: "pending c3 \<subseteq> pending c \<union> At ` set hits" using p(3,8,16) by auto
    show ?thesis
      apply (rule gives_mono [OF switch_bodies [OF bodies p(12) j]])
          apply assumption
         apply (use b g in \<open>auto simp: grows_def new_loop_def\<close>) [1]
        apply (use b in \<open>simp add: new_loop_def\<close>)
       apply (use p(15) in auto) [1]
      apply (clarsimp simp: list_all2_Cons1 built_def)
      subgoal premises q for c4 l ls4
      proof -
        let ?d = "patch (here c3) (here c4) c4"
        have k: "At (here c3) \<in> known c4" using q(2) by (simp add: grows_def)
        have d: "sound ?d" by (rule sound_patch [OF q(1) k]) simp
        show ?thesis
        proof (rule gives_walk' [OF rest d])
          show "owed (l # ls4) \<subseteq> known ?d" "carried (l # ls4)" using q(6-9) by simp_all
          fix ls' e
          assume e: "sound e" "owed ls' \<subseteq> known e" "carried ls'" "grows ?d e" "later_loops (l # ls4) ls'"
            "pending e \<subseteq> pending ?d \<union> owed ls'"
          obtain l5 ls5 where l5: "ls' = l5 # ls5" "later_loop l l5" "later_loops ls4 ls5"
            using e(5) by (auto simp: list_all2_Cons1)
          have n: "l_continues l = []" "l_continues l5 = []" using later_new_loop [OF q(4)] l5(2) by (simp_all add: later_loop_def)
          have "after ls c (ls5, patches (l_breaks l5) (here e) e)"
          proof (rule loop_end [OF e(1)])
            show "At ` set (l_breaks l5) \<subseteq> known e" "owed ls5 \<subseteq> known e" "carried ls5" using e(2,3) by (auto simp: l5(1))
            show "grows c e" using g q(2) e(4) by (auto simp: grows_def)
            show "later_loops ls ls5" using later_trans [OF q(5) l5(3)] .
            have "pending ?d = pending c4 - {At (here c3)}" using k by simp
            moreover have "pending c4 \<subseteq> (insert (At (here c3)) (pending c3) - At ` set hits) \<union> (At ` set (l_breaks l) \<union> owed ls4)"
              using q(3) unfolding n(1) by simp
            ultimately have "pending ?d \<subseteq> pending c \<union> At ` set (l_breaks l) \<union> owed ls4" using pc3 by (rule marks_left)
            moreover have "At ` set (l_breaks l) \<subseteq> At ` set (l_breaks l5)" using l5(2) by (simp add: later_loop_def image_mono)
            moreover note later_owed [OF l5(3)]
            moreover have "pending e \<subseteq> pending ?d \<union> (At ` set (l_breaks l5) \<union> owed ls5)"
              using e(6) unfolding l5(1) owed_simps n(2) by simp
            ultimately show "pending e \<subseteq> pending c \<union> At ` set (l_breaks l5) \<union> owed ls5" by (rule marks_later)
          qed
          then show "gives (case (ls', e) of (ls, c) \<Rightarrow> Some (tl ls, patches (l_breaks (hd ls)) (here c) c)) (after ls c)"
            by (simp add: l5(1))
        qed
      qed
      done
  qed
  done

section \<open>Try\<close>

lemma slot_groups: "slot name c = (k, c') \<Longrightarrow> p_catchGroups (c_program c') = p_catchGroups (c_program c)"
  by (auto simp: slot_def Let_def split: option.splits)

lemma catch_clauses_facts:
  "catch_clauses hs c = (clauses, c') \<Longrightarrow> sound c \<Longrightarrow>
   named c c' \<and> length clauses = length hs \<and> (\<forall>k \<in> set clauses. t_target k < 0 \<and> t_local k < locals_count c') \<and>
     groups_count c' = groups_count c"
proof (induction hs arbitrary: c c' clauses)
  case (Cons h hs)
  obtain k c1 where s: "(if ct_Var h \<noteq> [] then slot (ct_Var h) c else (- 1, c)) = (k, c1)" by fastforce
  have n: "named c c1 \<and> groups_count c1 = groups_count c \<and> k < locals_count c1"
  proof (cases "ct_Var h = []")
    case False
    then have s': "slot (ct_Var h) c = (k, c1)" using s by simp
    then show ?thesis using named_slot [OF s' Cons.prems(2)] slot_groups [OF s'] by (simp add: groups_count_def)
  next
    case True
    moreover have "- 1 < locals_count c" using here_nonneg(5) [of c] by linarith
    ultimately show ?thesis using s Cons.prems by (simp add: named_def)
  qed
  obtain rest c2 where r: "catch_clauses hs c1 = (rest, c2)" by fastforce
  have rest: "named c1 c2 \<and> length rest = length hs \<and> (\<forall>k \<in> set rest. t_target k < 0 \<and> t_local k < locals_count c2) \<and>
    groups_count c2 = groups_count c1"
    using Cons.IH [OF r] n by (simp add: named_def)
  then have "k < locals_count c2" using n by (fastforce simp: named_def grows_def)
  then show ?case using Cons.prems(1) n rest named_trans by (auto simp: s r)
qed (simp add: named_def)

lemma try_handlers:
  assumes "\<And>h. h \<in> set hs \<Longrightarrow> walks (seq stmt (ct_Body h))"
    and "sound c" and "owed ls \<subseteq> known c" and "carried ls" and "At exit \<in> known c"
    and "Clause n ` {..<length hs} \<subseteq> known c"
  shows "gives (seq (\<lambda>(i, clause) (exits, ls, c). do {
               (ls, c) \<leftarrow> seq stmt (ct_Body clause) (ls, set_clause n i (here c) c);
               Some (exits @ [here c], ls, jumping OpJump c) }) (enumerate 0 hs) ([exit], ls, c))
    (\<lambda>(exits, ls', d). built ls' d \<and> grows c d \<and> later_loops ls ls' \<and> At ` set exits \<subseteq> known d \<and> exit \<in> set exits \<and>
       pending d \<subseteq> (pending c - Clause n ` {..<length hs}) \<union> (At ` set exits \<union> owed ls'))"
proof -
  let ?I = "\<lambda>i (exits, ls', d). built ls' d \<and> grows c d \<and> later_loops ls ls' \<and> At ` set exits \<subseteq> known d \<and> exit \<in> set exits \<and>
       pending d \<subseteq> (pending c - Clause n ` {..<i}) \<union> (At ` set exits \<union> owed ls')"
  have "gives (seq (\<lambda>(i, clause) (exits, ls, c). do {
               (ls, c) \<leftarrow> seq stmt (ct_Body clause) (ls, set_clause n i (here c) c);
               Some (exits @ [here c], ls, jumping OpJump c) }) (enumerate 0 hs) ([exit], ls, c)) (?I (length (enumerate 0 hs)))"
  proof (rule gives_seq [where I = ?I])
    fix i st assume i: "i < length (enumerate 0 hs)" and st: "?I i st"
    obtain exits ls1 d where [simp]: "st = (exits, ls1, d)" by (cases st) auto
    have d: "sound d" "owed ls1 \<subseteq> known d" "carried ls1" "grows c d" "later_loops ls ls1" "At ` set exits \<subseteq> known d"
      "exit \<in> set exits" "pending d \<subseteq> (pending c - Clause n ` {..<i}) \<union> (At ` set exits \<union> owed ls1)"
      using st by (simp_all add: built_def)
    have at: "enumerate 0 hs ! i = (i, hs ! i)" using i by (simp add: nth_enumerate_eq)
    have "Clause n i \<in> known c" using assms(6) i by auto
    then have k: "Clause n i \<in> known d" using d(4) by (auto simp: grows_def)
    have s: "sound (set_clause n i (here d) d)" by (rule sound_set_clause [OF d(1) k]) simp
    show "gives ((case enumerate 0 hs ! i of (i, clause) \<Rightarrow> \<lambda>(exits, ls, c). do {
               (ls, c) \<leftarrow> seq stmt (ct_Body clause) (ls, set_clause n i (here c) c);
               Some (exits @ [here c], ls, jumping OpJump c) }) st) (?I (Suc i))"
      apply (simp add: at Let_def)
      apply (rule gives_walk' [OF assms(1) s])
         apply (use i in simp)
        apply (use d(2) in simp)
       apply (rule d(3))
      subgoal premises q for ls' e
      proof -
        have "pending (set_clause n i (here d) d) \<subseteq> (pending c - Clause n ` {..<Suc i}) \<union> (At ` set exits \<union> owed ls1)"
          using d(8) k by (auto simp: lessThan_Suc)
        then have "pending e \<subseteq> (pending c - Clause n ` {..<Suc i}) \<union> (At ` set exits \<union> owed ls')"
          using q(6,7) by blast
        then show ?thesis using q(1-5) d(4-7) sound_jumping [OF q(1)]
          by (auto simp: built_def grows_def intro: later_trans; blast)
      qed
      done
  qed (use assms in \<open>auto simp: built_def\<close>)
  then show ?thesis by (rule gives_mono) auto
qed

definition try_push :: "nat \<Rightarrow> int \<Rightarrow> compiler \<Rightarrow> compiler" where
  "try_push n k = put ((instr OpTryPush)\<lparr>i_a := int n, i_c := k, i_target := - 1\<rparr>)"

lemma sound_try_push: "sound c \<Longrightarrow> int n < groups_count c \<Longrightarrow> slot_in c k \<Longrightarrow> sound (try_push n k c)"
  by (auto simp: try_push_def soft_def patchable_def jumps_def fine_simp instr_def intro!: sound_put)

lemma try_push_facts [simp]:
  "known (try_push n k c) = {At (here c), TryAt (here c)} \<union> known c" "pending (try_push n k c) = insert (At (here c)) (pending c)"
  "here (try_push n k c) = here c + 1" "locals_count (try_push n k c) = locals_count c"
  "constants_count (try_push n k c) = constants_count c" "closures_count (try_push n k c) = closures_count c"
  "groups_count (try_push n k c) = groups_count c"
  by (auto simp: try_push_def patchable_def jumps_def instr_def)

lemma try_left:
  assumes "b \<in> x" and "s1 \<subseteq> s2" and "y = e - x - {a}" and "e \<subseteq> (j - h) \<union> (x \<union> s2)"
    and "j \<subseteq> insert b (insert a (p \<union> h) \<union> s1)"
  shows "y \<subseteq> p \<union> s2"
  using assms by blast

lemma walks_Try:
  assumes body: "walks (seq stmt body)" and hs: "\<And>h. h \<in> set hs \<Longrightarrow> walks (seq stmt (ct_Body h))"
    and final: "walks (seq stmt final)"
  shows "walks (stmt (Try body hs final))"
proof (cases "hs = []")
  case True
  then show ?thesis by (intro walks_None) simp
next
  case False
  show ?thesis
  proof (rule walksI)
    fix ls c assume "built ls c"
    then have b: "sound c" "owed ls \<subseteq> known c" "carried ls" by (simp_all add: built_def)
    let ?n = "length (p_catchGroups (c_program c))"
    obtain k c1 where s: "slot (slot_name ''try-pending-'' ?n) c = (k, c1)" by fastforce
    obtain clauses c2 where cl: "catch_clauses hs c1 = (clauses, c2)" by fastforce
    note c1 = named_slot [OF s b(1)]
    have c2: "named c1 c2" "length clauses = length hs" "\<forall>k \<in> set clauses. t_target k < 0 \<and> t_local k < locals_count c2"
      "groups_count c2 = int ?n" "\<forall>k \<in> set clauses. t_target k < 0"
      using catch_clauses_facts [OF cl] c1 slot_groups [OF s] by (simp_all add: named_def groups_count_def)
    have n: "named c c2" using c1 c2(1) named_trans by blast
    let ?g = "add_group clauses c2"
    let ?p = "try_push ?n k ?g"
    have g: "sound ?g" using sound_add_group [OF _ c2(3)] n by (simp add: named_def)
    have m: "known ?g = known c \<union> Clause ?n ` {..<length hs}" "pending ?g = pending c \<union> Clause ?n ` {..<length hs}"
      using marks_add_group [OF c2(5)] n c2(2,4) by (simp_all add: named_def)
    have k: "slot_in c2 k" using c1 c2(1) by (simp add: named_def grows_def)
    have p: "sound ?p" using sound_try_push [OF g] c2(4) k by simp
    have gp: "grows c ?p" using n m(1) by (auto simp: named_def grows_def)
    have gp2: "grows c2 ?p" using n m(1) by (auto simp: named_def grows_def)
    have at: "here ?g = here c" using n by (simp add: named_def)
    show "gives (stmt (Try body hs final) (ls, c)) (after ls c)"
      apply (simp only: stmt.simps False if_False Let_def s cl prod.case emit_def try_push_def [symmetric] gives_bind)
      apply (rule gives_walk' [OF body p])
        apply (use b m in auto) [1]
       apply (rule b(3))
      apply (simp only: prod.case emit_jump_eq gives_bind at)
      subgoal premises q for ls1 d
      proof -
        let ?b = "patch_b (here c) (here d) (put (instr OpTryPop) d)"
        let ?j = "jumping OpJump ?b"
        have t: "TryAt (here c) \<in> known d" "At (here c) \<in> known d" using q(4) at by (auto simp: grows_def)
        have "sound ?b" by (rule sound_patch_b [OF sound_plain [OF q(1)]]) (use t in \<open>simp_all add: shape\<close>)
        then have j: "sound ?j" by (rule sound_jumping) simp
        have gj: "grows c ?j" "grows d ?j" using gp q(4) by (auto simp: shape grows_def)
        have pj: "pending ?j \<subseteq> insert (At (here ?b)) (insert (At (here c)) (pending c \<union> Clause ?n ` {..<length hs}) \<union> owed ls1)"
          using q(7) m(2) at by (auto simp: shape)
        show ?thesis
        proof (rule gives_mono [OF try_handlers [OF hs j]])
          show "owed ls1 \<subseteq> known ?j" "At (here ?b) \<in> known ?j" using q(2) by (auto simp: shape)
          show "Clause ?n ` {..<length hs} \<subseteq> known ?j" using q(4) m(1) by (auto simp: shape grows_def)
          show "carried ls1" by (rule q(3))
          fix st assume st: "case st of (exits, ls', d) \<Rightarrow> built ls' d \<and> grows ?j d \<and> later_loops ls1 ls' \<and>
            At ` set exits \<subseteq> known d \<and> here ?b \<in> set exits \<and>
            pending d \<subseteq> (pending ?j - Clause ?n ` {..<length hs}) \<union> (At ` set exits \<union> owed ls')"
          obtain exits ls2 e where [simp]: "st = (exits, ls2, e)" by (cases st) auto
          have e: "sound e" "owed ls2 \<subseteq> known e" "carried ls2" "grows ?j e" "later_loops ls1 ls2" "At ` set exits \<subseteq> known e"
            "here ?b \<in> set exits" "pending e \<subseteq> (pending ?j - Clause ?n ` {..<length hs}) \<union> (At ` set exits \<union> owed ls2)"
            using st by (simp_all add: built_def)
          have "pc_in e (here e)" by simp
          note x = patches_facts [OF e(1,6) this]
          let ?x = "patches exits (here e) e"
          have tx: "At (here c) \<in> known ?x" using t(2) gj(2) e(4) x(2) by (auto simp: grows_def)
          let ?y = "patch (here c) (here e) ?x"
          have y: "sound ?y" by (rule sound_patch [OF x(1) tx]) (simp add: x(4))
          have py: "pending ?y \<subseteq> pending c \<union> owed ls2"
          proof -
            have "At (here ?b) \<in> At ` set exits" using e(7) by simp
            moreover have "owed ls1 \<subseteq> owed ls2" using later_owed [OF e(5)] .
            moreover have "pending ?y = pending e - At ` set exits - {At (here c)}" using tx x(3) by simp
            ultimately show ?thesis using e(8) pj by (rule try_left)
          qed
          show "gives (case st of (exits, ls, d) \<Rightarrow> do {
              (ls, c) \<leftarrow> seq stmt final (ls, patch (here c) (here d) (patches exits (here d) d));
              Some (ls, put ((instr OpRethrow)\<lparr>i_a := k\<rparr>) c) }) (after ls c)"
            apply simp
            apply (rule gives_walk' [OF final y])
              apply (use e(2) x(2) in simp)
             apply (rule e(3))
            subgoal premises r for ls3 h
            proof -
              have "grows e ?y" using x by (simp add: grows_def)
              then have gh: "grows ?j h" using e(4) r(4) grows_trans by blast
              then have gh: "grows c h" "grows c2 h" using gj grows_trans [OF gp2] q(4) grows_trans by blast+
              have "slot_in h k" using k gh(2) by (simp add: grows_def)
              then have "sound (put ((instr OpRethrow)\<lparr>i_a := k\<rparr>) h)" using r(1) by (intro sound_plain) (simp_all add: shape)
              moreover have "later_loops ls ls3" using later_trans [OF q(5) later_trans [OF e(5) r(5)]] .
              moreover have "pending h \<subseteq> pending c \<union> owed ls3" using r(6,7) py by blast
              ultimately show ?thesis using r(2,3) gh(1) by (simp add: after_simps shape)
            qed
            done
        qed
      qed
      done
  qed
qed

section \<open>Declarations\<close>

lemma keeps_static:
  assumes "\<And>name e. (name, Some e) \<in> set vars \<Longrightarrow> keeps (expr e)"
  shows "keeps (\<lambda>c. do {
        let (k, c) = pool_constant v c;
        let (seeded, c) = emit_jump OpJumpTrue (put ((instr OpStaticSeeded)\<lparr>i_a := k\<rparr>) c);
        c \<leftarrow> seq (\<lambda>(name, init) c. do {
               c \<leftarrow> (case init of None \<Rightarrow> Some (push_const VNil c) | Some e \<Rightarrow> expr e c);
               Some (put ((instr OpStaticStore)\<lparr>i_a := k, i_name := name\<rparr>) c) }) vars c;
        Some (declare_statics (map fst vars) k (patch seeded (here c) c)) })"
proof (rule keepsI)
  fix c assume c: "sound c"
  let ?k = "constants_count c"
  let ?s = "put ((instr OpStaticSeeded)\<lparr>i_a := ?k\<rparr>) (add_constant v c)"
  let ?j = "jumping OpJumpTrue ?s"
  have "sound ?s" using sound_add_constant [OF c] by (intro sound_plain) (simp_all add: shape)
  then have j: "sound ?j" by (rule sound_jumping) simp
  have init: "keeps (\<lambda>c. case init of None \<Rightarrow> Some (push_const VNil c) | Some e \<Rightarrow> expr e c)" if "(name, init) \<in> set vars" for name init
    by (rule keeps_option) (use assms that in \<open>auto simp: keeps_def grows_def intro!: building\<close>)
  let ?I = "\<lambda>d. sound d \<and> grows ?j d \<and> pending d \<subseteq> pending ?j"
  have "gives (seq (\<lambda>(name, init) c. do {
               c \<leftarrow> (case init of None \<Rightarrow> Some (push_const VNil c) | Some e \<Rightarrow> expr e c);
               Some (put ((instr OpStaticStore)\<lparr>i_a := ?k, i_name := name\<rparr>) c) }) vars ?j) ?I"
  proof (rule gives_seq [where I = "\<lambda>i. ?I"])
    fix i d assume i: "i < length vars" and d: "?I d"
    obtain name init where v: "vars ! i = (name, init)" by fastforce
    then have "(name, init) \<in> set vars" using i nth_mem by fastforce
    note k = gives_step [OF init [OF this]]
    show "gives ((case vars ! i of (name, init) \<Rightarrow> \<lambda>c. do {
               c \<leftarrow> (case init of None \<Rightarrow> Some (push_const VNil c) | Some e \<Rightarrow> expr e c);
               Some (put ((instr OpStaticStore)\<lparr>i_a := ?k, i_name := name\<rparr>) c) }) d) ?I"
      unfolding v prod.case gives_bind
    proof (rule k)
      fix e assume e: "sound e" "pending e \<subseteq> pending d" "grows d e"
      then have g: "grows ?j e" using d grows_trans by blast
      then have "sound (put ((instr OpStaticStore)\<lparr>i_a := ?k, i_name := name\<rparr>) e)"
        by (intro sound_plain [OF e(1)]) (simp add: shape grows_def)
      moreover have "grows e (put ((instr OpStaticStore)\<lparr>i_a := ?k, i_name := name\<rparr>) e)" by (auto simp: grows_def)
      ultimately show "gives (Some (put ((instr OpStaticStore)\<lparr>i_a := ?k, i_name := name\<rparr>) e)) ?I"
        using e(2) d grows_trans [OF g] by (simp add: shape, blast)
    qed (use d in simp)
  qed (use j in simp)
  moreover have "sound (declare_statics (map fst vars) ?k (patch (here ?s) (here d) d)) \<and>
      pending (declare_statics (map fst vars) ?k (patch (here ?s) (here d) d)) \<subseteq> pending c \<and>
      grows c (declare_statics (map fst vars) ?k (patch (here ?s) (here d) d))" if d: "?I d" for d
  proof -
    have m: "At (here ?s) \<in> known d" using d by (simp add: grows_def)
    have "sound (patch (here ?s) (here d) d)" by (rule sound_patch [OF _ m]) (use d in simp_all)
    then have "sound (declare_statics (map fst vars) ?k (patch (here ?s) (here d) d))"
      by (rule sound_declare_statics) (use d in \<open>simp add: grows_def\<close>)
    then show ?thesis using d m by (auto simp: shape grows_def)
  qed
  ultimately show "gives (let (k, c) = pool_constant v c; (seeded, c) = emit_jump OpJumpTrue (put ((instr OpStaticSeeded)\<lparr>i_a := k\<rparr>) c)
      in Option.bind (seq (\<lambda>(name, init) c. do {
               c \<leftarrow> (case init of None \<Rightarrow> Some (push_const VNil c) | Some e \<Rightarrow> expr e c);
               Some (put ((instr OpStaticStore)\<lparr>i_a := k, i_name := name\<rparr>) c) }) vars c)
         (\<lambda>c. Some (declare_statics (map fst vars) k (patch seeded (here c) c))))
      (\<lambda>c'. sound c' \<and> pending c' \<subseteq> pending c \<and> grows c c')"
    unfolding Let_def pool_constant_eq emit_jump_eq prod.case gives_bind gives_Some by (rule gives_mono)
qed

lemma walks_StaticVar:
  assumes "\<And>name e. (name, Some e) \<in> set vars \<Longrightarrow> keeps (expr e)"
  shows "walks (stmt (StaticVar node vars))"
proof (rule walksI)
  fix ls c assume b: "built ls c"
  show "gives (stmt (StaticVar node vars) (ls, c)) (after ls c)"
  proof (cases "c_statics c = None \<or> c_inClosure c")
    case False
    show ?thesis
      using walks_keeps [OF keeps_static [where vars = vars and v = "VOpaque None node", OF assms]] b False
      by (simp add: walks_def Let_def pool_constant_eq)
  qed simp
qed

lemma keeps_guarded: "keeps m \<Longrightarrow> keeps (\<lambda>c. if p c then None else m c)"
  by (simp add: keeps_def)

lemma keeps_unset:
  assumes b: "below n" and p: "parsed_expr x" and s: "size x \<le> n"
  shows "keeps (\<lambda>c.
            case target_view (UnwrapParenthesized x) of
              TVar name \<Rightarrow>
                if staticSlot name c \<noteq> None then None
                else (let (k, c) = slot name c in Some (put ((instr OpUnsetLocal)\<lparr>i_a := k\<rparr>) c))
            | TProp base name nameExpr \<Rightarrow>
                if nameExpr \<noteq> None then None
                else do { c \<leftarrow> expr base c; Some (put ((instr OpUnsetProp)\<lparr>i_name := name\<rparr>) c) }
            | TIndex base index \<Rightarrow>
                (case index of
                   None \<Rightarrow> None
                 | Some i \<Rightarrow>
                     (case var_name (UnwrapParenthesized base) of
                        Some name \<Rightarrow>
                          if staticSlot name c \<noteq> None then None
                          else do {
                            let (k, c) = slot name c;
                            c \<leftarrow> expr base c;
                            c \<leftarrow> expr i c;
                            Some (put ((instr OpUnsetIndex)\<lparr>i_a := k\<rparr>) c) }
                      | None \<Rightarrow> None))
            | TStaticProp class name \<Rightarrow> None
            | TOther \<Rightarrow> None)"
proof -
  have u: "parsed_expr (UnwrapParenthesized x)" "size (UnwrapParenthesized x) \<le> n" using p s size_unwrap [of x] by simp_all
  note parts = view_parts [OF b u]
  show ?thesis
  proof (cases "target_view (UnwrapParenthesized x)")
    case (TVar name)
    have "keeps (\<lambda>c. let (k, c) = slot name c in Some (put ((instr OpUnsetLocal)\<lparr>i_a := k\<rparr>) c))"
      by (rule keeps_slot_put) (simp_all add: shape)
    from keeps_guarded [OF this] show ?thesis by (simp add: TVar)
  next
    case (TProp base name nameExpr)
    show ?thesis
    proof (cases "nameExpr = None")
      case True
      have "keeps (\<lambda>c. do { c \<leftarrow> expr base c; Some (put ((instr OpUnsetProp)\<lparr>i_name := name\<rparr>) c) })"
        by (rule keeps_emit [OF parts(4) [OF TProp]]) (simp_all add: shape)
      then show ?thesis by (simp add: TProp True)
    qed (simp add: TProp keeps_None)
  next
    case (TIndex base index)
    show ?thesis
    proof (cases index)
      case None
      then show ?thesis by (simp add: TIndex keeps_None)
    next
      case (Some i)
      note k = parts(1,3) [OF TIndex [unfolded Some]]
      show ?thesis
      proof (cases "var_name (UnwrapParenthesized base)")
        case None
        then show ?thesis by (simp add: TIndex Some keeps_None)
      next
        case s: (Some name)
        have "keeps (\<lambda>c. do {
                            let (k, c) = slot name c;
                            c \<leftarrow> expr base c;
                            c \<leftarrow> expr i c;
                            Some (put ((instr OpUnsetIndex)\<lparr>i_a := k\<rparr>) c) })"
          by (rule keepsI, subst Let_def, rule gives_slot, assumption, simp, intro k [THEN gives_step] building)
            (simp_all add: shape grows_def, auto intro!: building simp: shape)
        from keeps_guarded [OF this] show ?thesis by (simp add: TIndex Some s)
      qed
    qed
  qed (simp_all add: keeps_None)
qed

lemma walks_FuncDecl:
  assumes defaults: "\<And>p e. p \<in> set (fn_Params node) \<Longrightarrow> pm_Default p = Some e \<Longrightarrow> keeps (expr e)"
    and body: "walks (seq stmt (fn_Body node))" and p: "parsed_func node"
    and key: "fn_Class node = '''' \<Longrightarrow> \<not> method_key (fn_Name node)"
  shows "walks (stmt (FuncDeclStmt node))"
proof -
  have d: "keeps (seq (\<lambda>p c.
       case pm_Default p of
         None \<Rightarrow> Some c
       | Some e \<Rightarrow> if pm_Variadic p then Some c else param_default (pm_Name p) (expr e) c) (fn_Params node))"
  proof (rule keeps_seq, rule keeps_option)
    fix p e assume "p \<in> set (fn_Params node)" "pm_Default p = Some e"
    from keeps_param_default [OF defaults [OF this]]
    show "keeps (\<lambda>c. if pm_Variadic p then Some c else param_default (pm_Name p) (expr e) c)"
      using keeps_skip by (cases "pm_Variadic p") simp_all
  qed (rule keeps_skip)
  show ?thesis
  proof (cases "fn_Class node = ''''")
    case True
    have "keeps (funcDecl node (seq (\<lambda>p c.
       case pm_Default p of
         None \<Rightarrow> Some c
       | Some e \<Rightarrow> if pm_Variadic p then Some c else param_default (pm_Name p) (expr e) c) (fn_Params node)) (seq stmt (fn_Body node)))"
      unfolding funcDecl_def by (rule keeps_function_code [OF d body]) (use key [OF True] in simp)
    then show ?thesis by (rule walks_simple) (simp add: True)
  next
    case False
    have "keeps (classMethod (fn_Class node) node (seq (\<lambda>p c.
       case pm_Default p of
         None \<Rightarrow> Some c
       | Some e \<Rightarrow> if pm_Variadic p then Some c else param_default (pm_Name p) (expr e) c) (fn_Params node)) (seq stmt (fn_Body node)))"
      unfolding classMethod_def by (rule keeps_function_code [OF d body]) simp
    moreover have "keeps (\<lambda>c. Some (c\<lparr>c_classes := attach_method node (c_classes c)\<rparr>))"
      by (rule keepsI) (simp add: sound_attach p grows_def)
    ultimately have "keeps (\<lambda>c. Option.bind (Some (c\<lparr>c_classes := attach_method node (c_classes c)\<rparr>))
      (classMethod (fn_Class node) node (seq (\<lambda>p c.
       case pm_Default p of
         None \<Rightarrow> Some c
       | Some e \<Rightarrow> if pm_Variadic p then Some c else param_default (pm_Name p) (expr e) c) (fn_Params node)) (seq stmt (fn_Body node))))"
      by (intro keeps_then)
    then show ?thesis by (rule walks_simple) (use False in simp)
  qed
qed

section \<open>Every statement\<close>

lemma walks_stmt:
  assumes b: "below (size s)" and p: "parsed_stmt s"
  shows "walks (stmt s)"
proof -
  have xs: "walks (seq stmt body)" if "\<forall>x \<in> set body. parsed_stmt x" "size_list size body \<le> size s" for body
  proof (rule walks_seq, rule belowD(4) [OF b])
    fix x assume x: "x \<in> set body"
    show "size x < size s" using size_listed [OF x] that(2) by simp
    show "parsed_stmt x" using x that(1) by blast
  qed
  show ?thesis
  proof (cases s)
    case (InlineHTML t)
    have "keeps (\<lambda>c. Some (put (instr OpEcho) (push_const (VStr t) c)))"
      by (rule keepsI) (auto simp: shape grows_def intro!: building)
    then show ?thesis by (rule walks_simple) (simp add: InlineHTML)
  next
    case (EchoStmt es)
    have "keeps (seq (\<lambda>e c. do { c \<leftarrow> expr e c; Some (put (instr OpEcho) c) }) es)"
    proof (rule keeps_seq, rule keeps_emit)
      fix e assume "e \<in> set es"
      then show "keeps (expr e)" using p size_listed [of e es] by (intro belowD(1) [OF b]) (auto simp: EchoStmt)
    qed (simp_all add: shape)
    then show ?thesis by (rule walks_simple) (simp add: EchoStmt)
  next
    case (ExprStmt x)
    have "keeps (expr x)" by (rule belowD(1) [OF b]) (use p in \<open>simp_all add: ExprStmt\<close>)
    then have "keeps (\<lambda>c. do { c \<leftarrow> expr x c; Some (put (instr OpPop) c) })" by (rule keeps_emit) (simp_all add: shape)
    then show ?thesis by (rule walks_simple) (simp add: ExprStmt)
  next
    case (Assign target op val)
    have "keeps (assignment target op val False)"
      by (rule keeps_assignment) (use p below_mono [OF b] in \<open>simp_all add: Assign\<close>)
    then show ?thesis by (rule walks_simple) (simp add: Assign)
  next
    case (IfStmt cond thn els)
    have "keeps (expr cond)" by (rule belowD(1) [OF b]) (use p in \<open>simp_all add: IfStmt\<close>)
    moreover have "walks (seq stmt thn)" "walks (seq stmt els)"
      by (rule xs; use p in \<open>simp_all add: IfStmt\<close>)+
    ultimately show ?thesis unfolding IfStmt by (rule walks_If)
  next
    case (For init cond post body)
    have "walks (stmt x)" if "init = Some x" for x
      by (rule belowD(4) [OF b]) (use p that in \<open>simp_all add: For\<close>)
    moreover have "keeps (expr e)" if "cond = Some e" for e
      by (rule belowD(1) [OF b]) (use p that in \<open>simp_all add: For\<close>)
    moreover have "walks (seq stmt body)"
      by (rule xs) (use p in \<open>simp_all add: For\<close>)
    moreover have "\<exists>m. keeps m \<and> (\<forall>ls c. stmt x (ls, c) = do { c \<leftarrow> m c; Some (ls, c) })" if x: "post = Some x" for x
    proof -
      have st: "simple_step x" "size x < size s" "parsed_stmt x" using p x by (simp_all add: For)
      obtain m where m: "keeps m" "\<And>ls c. stmt x (ls, c) = do { c \<leftarrow> m c; Some (ls, c) }"
        by (rule simple_step_keeps [OF st(1) b st(2,3)]) (rule that)
      show ?thesis by (intro exI [of _ m] conjI allI m)
    qed
    ultimately show ?thesis unfolding For by (rule walks_For)
  next
    case (DoWhile body cond)
    have "walks (seq stmt body)"
      by (rule xs) (use p in \<open>simp_all add: DoWhile\<close>)
    moreover have "keeps (expr cond)" by (rule belowD(1) [OF b]) (use p in \<open>simp_all add: DoWhile\<close>)
    ultimately show ?thesis unfolding DoWhile by (rule walks_DoWhile)
  next
    case (Foreach source keyTarget valTarget byRef keyVar valVar body)
    have target: "keeps (storeTop t) \<and> keeps (expr t)"
      if t: "target_of x name = Some t" and x: "\<And>e. x = Some e \<Longrightarrow> parsed_expr e" "size_option size x < size s" for t x name
    proof -
      have "size t < size s" using size_target_of [OF t] x(2) by simp
      then show ?thesis using belowD(1,3) [OF b] parsed_target_of [OF t x(1)] by blast
    qed
    have "keeps (expr source)" by (rule belowD(1) [OF b]) (use p in \<open>simp_all add: Foreach\<close>)
    moreover have "keeps (storeTop t)" if "target_of keyTarget keyVar = Some t" for t
      using target [OF that] p by (simp add: Foreach)
    moreover have "keeps (storeTop t) \<and> keeps (expr t)" if "target_of valTarget valVar = Some t" for t
      using target [OF that] p by (simp add: Foreach)
    moreover have "walks (seq stmt body)"
      by (rule xs) (use p in \<open>simp_all add: Foreach\<close>)
    ultimately show ?thesis unfolding Foreach by (rule walks_Foreach)
  next
    case (ConstDecl cs)
    have "keeps (seq (\<lambda>entry c.
            case fd_Default entry of
              None \<Rightarrow> None
            | Some e \<Rightarrow> do { c \<leftarrow> expr e c; Some (put ((instr OpDefineConst)\<lparr>i_name := fd_Name entry\<rparr>) c) }) cs)"
    proof (rule keeps_seq, rule keeps_option, rule keeps_emit)
      fix f e assume f: "f \<in> set cs" "fd_Default f = Some e"
      then show "keeps (expr e)" using p size_const [OF f] by (intro belowD(1) [OF b]) (auto simp: ConstDecl)
    qed (simp_all add: shape keeps_None)
    then show ?thesis by (rule walks_simple) (simp add: ConstDecl)
  next
    case (StaticVar node vars)
    have "keeps (expr e)" if v: "(name, Some e) \<in> set vars" for name e
      using p v size_static [OF v] by (intro belowD(1) [OF b]) (auto simp: StaticVar)
    then show ?thesis unfolding StaticVar by (rule walks_StaticVar)
  next
    case (Declare body)
    have "walks (seq stmt body)"
      by (rule xs) (use p in \<open>simp_all add: Declare\<close>)
    then show ?thesis by (simp add: walks_def Declare)
  next
    case (UnsetStmt targets)
    have k: "keeps (seq (\<lambda>target c.
            case target_view (UnwrapParenthesized target) of
              TVar name \<Rightarrow>
                if staticSlot name c \<noteq> None then None
                else (let (k, c) = slot name c in Some (put ((instr OpUnsetLocal)\<lparr>i_a := k\<rparr>) c))
            | TProp base name nameExpr \<Rightarrow>
                if nameExpr \<noteq> None then None
                else do { c \<leftarrow> expr base c; Some (put ((instr OpUnsetProp)\<lparr>i_name := name\<rparr>) c) }
            | TIndex base index \<Rightarrow>
                (case index of
                   None \<Rightarrow> None
                 | Some i \<Rightarrow>
                     (case var_name (UnwrapParenthesized base) of
                        Some name \<Rightarrow>
                          if staticSlot name c \<noteq> None then None
                          else do {
                            let (k, c) = slot name c;
                            c \<leftarrow> expr base c;
                            c \<leftarrow> expr i c;
                            Some (put ((instr OpUnsetIndex)\<lparr>i_a := k\<rparr>) c) }
                      | None \<Rightarrow> None))
            | TStaticProp class name \<Rightarrow> None
            | TOther \<Rightarrow> None) targets)"
    proof (rule keeps_seq, rule keeps_unset [OF b])
      fix x assume "x \<in> set targets"
      then show "parsed_expr x" "size x \<le> size s" using p size_listed [of x targets] by (auto simp: UnsetStmt)
    qed
    show ?thesis by (rule walks_simple [OF k]) (simp only: UnsetStmt stmt.simps)
  next
    case (Switch cond ks rest)
    have "keeps (expr cond)" by (rule belowD(1) [OF b]) (use p in \<open>simp_all add: Switch\<close>)
    moreover have "keeps (expr (sc_Value k))" if "k \<in> set ks" for k
      using p that size_case_value [OF that] by (intro belowD(1) [OF b]) (auto simp: Switch)
    moreover have "walks (seq stmt (sc_Body k))" if k: "k \<in> set ks" for k
      by (rule walks_seq, rule belowD(4) [OF b]) (use p k size_case_body [OF k] in \<open>force simp: Switch\<close>)+
    moreover have "walks (seq stmt rest)"
      by (rule xs) (use p in \<open>simp_all add: Switch\<close>)
    ultimately show ?thesis unfolding Switch by (rule walks_Switch)
  next
    case (Try body hs final)
    have "walks (seq stmt body)"
      by (rule xs) (use p in \<open>simp_all add: Try\<close>)
    moreover have "walks (seq stmt (ct_Body h))" if h: "h \<in> set hs" for h
      by (rule walks_seq, rule belowD(4) [OF b]) (use p h size_catch_body [OF h] in \<open>force simp: Try\<close>)+
    moreover have "walks (seq stmt final)"
      by (rule xs) (use p in \<open>simp_all add: Try\<close>)
    ultimately show ?thesis unfolding Try by (rule walks_Try)
  next
    case (ThrowStmt x)
    have "keeps (expr x)" by (rule belowD(1) [OF b]) (use p in \<open>simp_all add: ThrowStmt\<close>)
    then have "keeps (\<lambda>c. do { c \<leftarrow> expr x c; Some (put (instr OpThrow) c) })" by (rule keeps_emit) (simp_all add: shape)
    then show ?thesis by (rule walks_simple) (simp add: ThrowStmt)
  next
    case (IncludeStmt path keyword once)
    have "keeps (expr path)" by (rule belowD(1) [OF b]) (use p in \<open>simp_all add: IncludeStmt\<close>)
    moreover have "keeps (\<lambda>c. Some (put (instr OpPop) (put ((instr OpInclude)\<lparr>i_a := boolInt once, i_name := keyword\<rparr>) c)))"
      by (rule keepsI) (auto simp: shape grows_def intro!: building)
    ultimately have "keeps (\<lambda>c. do {
        c \<leftarrow> expr path c;
        Some (put (instr OpPop) (put ((instr OpInclude)\<lparr>i_a := boolInt once, i_name := keyword\<rparr>) c)) })"
      by (rule keeps_then)
    then show ?thesis by (rule walks_simple) (simp add: IncludeStmt)
  next
    case (FuncDeclStmt node)
    have "keeps (expr e)" if "q \<in> set (fn_Params node)" "pm_Default q = Some e" for q e
      using p that size_func(1) [OF that] by (intro belowD(1) [OF b]) (auto simp: FuncDeclStmt)
    moreover have "walks (seq stmt (fn_Body node))"
      by (rule walks_seq, rule belowD(4) [OF b]) (use p size_func(2) [of _ node] in \<open>force simp: FuncDeclStmt\<close>)+
    moreover have "parsed_func node" using p by (simp add: FuncDeclStmt parsed_func_def)
    moreover have "\<not> method_key (fn_Name node)" if "fn_Class node = []" using p that by (simp add: FuncDeclStmt)
    ultimately show ?thesis unfolding FuncDeclStmt by (rule walks_FuncDecl)
  next
    case (ReturnStmt val)
    have "keeps (expr e)" if "val = Some e" for e
      by (rule belowD(1) [OF b]) (use p that in \<open>simp_all add: ReturnStmt\<close>)
    then show ?thesis unfolding ReturnStmt by (rule walks_Return)
  next
    case Break
    then show ?thesis by (simp only: walks_Break)
  next
    case Continue
    then show ?thesis by (simp only: walks_Continue)
  qed (auto intro: walks_plain)
qed

lemma below_all: "below n"
proof (induction n rule: less_induct)
  case (less n)
  have e: "keeps (expr e) \<and> keeps (ensureContainer e) \<and> keeps (storeTop e)" if "size e < n" "parsed_expr e" for e
    using less.IH [OF that(1)] that(2) keeps_expr keeps_ensureContainer keeps_storeTop by blast
  moreover have "walks (stmt s)" if "size s < n" "parsed_stmt s" for s
    using less.IH [OF that(1)] that(2) walks_stmt by blast
  ultimately show ?case unfolding below_def by blast
qed

lemma expr_keeps: "parsed_expr e \<Longrightarrow> keeps (expr e)"
  using keeps_expr below_all by blast

lemma stmt_walks: "parsed_stmt s \<Longrightarrow> walks (stmt s)"
  using walks_stmt below_all by blast

end
