(* ===== verification/CompiledCode.thy ===== *)
theory CompiledCode
  imports Compile TranslateStmts FusionRuns SlotSafety
begin

text \<open>
  What \<open>Compile\<close> promises the engine: the stream of a parsed program is one the peephole pass can
  take and the loop can run, before the pass and behind it.
\<close>

section \<open>The stream the compiler leaves\<close>

lemma settled:
  assumes "sound c" and "pending c = {}" and "i \<in> set (stream c)"
  shows "fine c i"
proof -
  obtain x where x: "x < length (stream c)" "i = stream c ! x" using assms(3) by (auto simp: in_set_conv_nth)
  have "At (int x) \<notin> pending c" using assms(2) by simp
  then have "patchable (i_op i) \<longrightarrow> 0 \<le> i_target i" using x by (auto simp: pending_def)
  moreover have "soft c i" using assms(1,3) by (simp add: sound_def)
  ultimately show ?thesis by (auto simp: soft_def)
qed

lemma placed:
  assumes "sound c" and "pending c = {}" and "clauses \<in> set (p_catchGroups (c_program c))" and "k \<in> set clauses"
  shows "pc_in c (t_target k) \<and> t_local k < locals_count c"
proof -
  obtain n where n: "n < length (p_catchGroups (c_program c))" "clauses = p_catchGroups (c_program c) ! n"
    using assms(3) by (auto simp: in_set_conv_nth)
  obtain i where i: "i < length clauses" "k = clauses ! i" using assms(4) by (auto simp: in_set_conv_nth)
  have "Clause n i \<notin> pending c" using assms(2) by simp
  then have "0 \<le> t_target k" using n i by (auto simp: pending_def)
  then show ?thesis using assms(1,3,4) by (simp add: sound_def clauses_in_def)
qed

lemma settled_stream:
  assumes s: "sound c" and p: "pending c = {}"
  shows "stream_ok ((c_program c)\<lparr>p_nameSlots := names\<rparr>)"
proof -
  note t = sound_tables [OF s, unfolded tables_ok_def]
  have "pc_in c t'" if "t' \<in> set (protectedPCs (c_program c))" for t'
  proof -
    from that consider i where "i \<in> set (stream c)" "t' \<in> set (recorded i)"
      | clauses k where "clauses \<in> set (p_catchGroups (c_program c))" "k \<in> set clauses" "t' = t_target k"
      | d where "d \<in> set (p_closures (c_program c))" "t' = k_entryPC d"
      | nd where "nd \<in> set (p_userFuncs (c_program c))" "t' = f_entryPC (snd nd)"
      by (auto simp: protectedPCs_def)
    then show ?thesis
    proof cases
      case 1
      then show ?thesis using settled [OF s p] by (simp add: fine_def)
    next
      case 2
      then show ?thesis using placed [OF s p] by simp
    next
      case 3
      then show ?thesis using t by blast
    next
      case 4
      then show ?thesis using t by (auto simp: func_in_def)
    qed
  qed
  moreover have "(i_op i = OpBinary \<longrightarrow> i_target i = 0) \<and> (i_op i = OpStore \<longrightarrow> 0 \<le> i_a i) \<and>
      (i_op i = OpPushConst \<longrightarrow> 0 \<le> i_a i \<and> i_a i < int (length (p_constants (c_program c))))" if "i \<in> set (stream c)" for i
    using settled [OF s p that] by (auto simp: fine_simp constants_count_def)
  ultimately show ?thesis by (auto simp: stream_ok_def protectedPCs_def here_def)
qed

lemma same_tables_ok:
  assumes "p_localNames q = p_localNames p" and "length (p_constants q) = length (p_constants p)"
    and "length (p_closures q) = length (p_closures p)" and "length (p_catchGroups q) = length (p_catchGroups p)"
  shows "instr_ok q = instr_ok p" "closure_ok q = closure_ok p" "func_ok q = func_ok p" "clause_ok q = clause_ok p"
proof -
  have s: "slot_ok q = slot_ok p" "const_ok q = const_ok p" "group_ok q = group_ok p"
    by (auto simp: slot_ok_def const_ok_def group_ok_def assms)
  show "instr_ok q = instr_ok p"
    by (rule ext) (simp add: instr_ok_def s assms split: opcode.split)
  show "closure_ok q = closure_ok p" "func_ok q = func_ok p" "clause_ok q = clause_ok p"
    by (rule ext, simp add: closure_ok_def func_ok_def clause_ok_def s assms)+
qed

lemma lower_colon: "to_lower x = CHR '':'' \<Longrightarrow> x = CHR '':''"
proof (rule ccontr)
  assume l: "to_lower x = CHR '':''" and "x \<noteq> CHR '':''"
  then have u: "65 \<le> code x" "code x \<le> 90" "char_of (code x + 32) = CHR '':''"
    by (auto simp: to_lower_def split: if_splits)
  have "code (char_of (code x + 32)) = code x + 32" using u(1,2) by (simp add: code_def take_bit_eq_mod)
  moreover have "code CHR '':'' = 58" by (simp add: code_def)
  ultimately show False using u by simp
qed

lemma lower_sep:
  assumes "method_key (map to_lower name)"
  shows "method_key name"
proof -
  obtain cl meth where "map to_lower name = cl @ '':'' @ '':'' @ meth" using assms by (auto simp: method_key_def)
  then obtain a b where ab: "name = a @ b" "map to_lower b = '':'' @ '':'' @ meth"
    by (auto simp: map_eq_append_conv)
  then obtain x y r where b: "b = x # y # r" "to_lower x = CHR '':''" "to_lower y = CHR '':''"
    by (auto simp: map_eq_Cons_conv)
  have "x = CHR '':''" "y = CHR '':''" using lower_colon b(2,3) by blast+
  then show "method_key name" using ab(1) b(1) by (auto simp: method_key_def)
qed

lemma method_key_lower: "method_key (map to_lower (cl @ ''::'' @ meth))"
proof -
  have "to_lower CHR '':'' = CHR '':''" by (simp add: to_lower_def code_def)
  then show ?thesis unfolding method_key_def by (intro exI [of _ "map to_lower cl"] exI [of _ "map to_lower meth"]) simp
qed

lemma indexed_methods:
  assumes "\<And>name d. (name, d) \<in> set (p_userFuncs p) \<Longrightarrow> method_key name \<Longrightarrow> f_paramSlots d \<noteq> []"
    and "lookupUserFunc (index_functions p) (cl @ ''::'' @ meth) = Some d"
  shows "f_paramSlots d \<noteq> []"
proof -
  let ?key = "cl @ ''::'' @ meth"
  consider "map_of (p_userFuncs p) ?key = Some d"
    | "map_of (p_userFuncsFold (index_functions p)) (map to_lower ?key) = Some d"
    using assms(2) by (auto simp: lookupUserFunc_def index_functions_def split: option.splits)
  then show ?thesis
  proof cases
    case 1
    then show ?thesis using assms(1) [of ?key d] map_of_SomeD by (fastforce simp: method_key_def)
  next
    case 2
    then have "(map to_lower ?key, d) \<in> set (p_userFuncsFold (index_functions p))" by (rule map_of_SomeD)
    then obtain name where n: "(name, d) \<in> set (p_userFuncs p)" "map to_lower ?key = map to_lower name"
      by (auto simp: index_functions_def)
    have "method_key name" using lower_sep method_key_lower [of cl meth] unfolding n(2) by blast
    then show ?thesis using assms(1) n(1) by blast
  qed
qed

text \<open>What \<open>program_ok\<close> asks of a program before its functions are indexed.\<close>

definition tables_fit :: "Program \<Rightarrow> bool" where
  "tables_fit p \<longleftrightarrow>
     (\<forall>i \<in> set (p_code p). instr_ok p i) \<and>
     (\<forall>clauses \<in> set (p_catchGroups p). \<forall>k \<in> set clauses. clause_ok p k) \<and>
     (\<forall>t \<in> set (protectedPCs p). counter_ok p t) \<and>
     (\<forall>d \<in> set (p_closures p). closure_ok p d) \<and>
     (\<forall>(name, d) \<in> set (p_userFuncs p). func_ok p d \<and> (method_key name \<longrightarrow> f_paramSlots d \<noteq> []))"

lemma tables_fit_indexed:
  assumes "tables_fit p"
  shows "program_ok (index_functions p)"
proof -
  have same: "instr_ok (index_functions p) = instr_ok p" "closure_ok (index_functions p) = closure_ok p"
    "func_ok (index_functions p) = func_ok p" "clause_ok (index_functions p) = clause_ok p"
    by (rule same_tables_ok; simp add: index_functions_def)+
  have counters: "counter_ok (index_functions p) = counter_ok p" "protectedPCs (index_functions p) = protectedPCs p"
    by (rule ext, simp add: counter_ok_def index_functions_def) (simp add: protectedPCs_def index_functions_def)
  have "counter_ok p (f_entryPC d)" if "(name, d) \<in> set (p_userFuncs p)" for name d
  proof -
    have "f_entryPC d \<in> set (protectedPCs p)" using that by (force simp: protectedPCs_def)
    then show ?thesis using assms by (simp add: tables_fit_def)
  qed
  then have "counters_ok (index_functions p)"
    using assms unfolding counters_ok_def counters by (auto simp: tables_fit_def list_all_iff index_functions_def)
  have m: "f_paramSlots d \<noteq> []" if "lookupUserFunc (index_functions p) (cl @ ''::'' @ meth) = Some d" for cl meth d
    by (rule indexed_methods [OF _ that]) (use assms in \<open>auto simp: tables_fit_def\<close>)
  show ?thesis
    unfolding program_ok_def same using assms m \<open>counters_ok (index_functions p)\<close>
    by (auto simp: tables_fit_def list_all_iff index_functions_def)
qed

lemma settled_tables:
  assumes s: "sound c" and p: "pending c = {}"
  shows "tables_fit ((c_program c)\<lparr>p_nameSlots := names\<rparr>)"
proof -
  let ?p = "(c_program c)\<lparr>p_nameSlots := names\<rparr>"
  note t = sound_tables [OF s, unfolded tables_ok_def]
  have same: "instr_ok ?p = instr_ok (c_program c)" "closure_ok ?p = closure_ok (c_program c)" "func_ok ?p = func_ok (c_program c)"
    "clause_ok ?p = clause_ok (c_program c)"
    by (rule same_tables_ok; simp)+
  have "counter_ok ?p t" if "t \<in> set (protectedPCs ?p)" for t
    using recorded_of(5) [OF settled_stream [OF s p] that] by (simp add: counter_ok_def)
  moreover have "instr_ok (c_program c) i" if "i \<in> set (stream c)" for i
    using settled [OF s p that] by (simp add: fine_def)
  moreover have "clause_ok (c_program c) k" if "clauses \<in> set (p_catchGroups (c_program c))" "k \<in> set clauses" for clauses k
    using placed [OF s p that] by (simp add: clause_ok_def locals_count_def)
  ultimately show ?thesis
    unfolding tables_fit_def same using t by (auto simp: func_in_def)
qed

section \<open>A whole program\<close>

lemma map_filter_member: "x \<in> set (List.map_filter f xs) \<longleftrightarrow> (\<exists>y \<in> set xs. f y = Some x)"
  by (induction xs) (auto simp: List.map_filter_simps split: option.splits)

lemma class_decl_methods:
  assumes "parsed_stmt (ClassDeclStmt decl)" and "nm \<in> set (ci_Methods (class_of_decl stmts decl))"
  shows "parsed_func (snd nm)"
proof -
  have "snd nm \<in> set (cd_Methods decl) \<or> nm \<in> set xs" if "nm \<in> set (fold (\<lambda>m. AList.update (fn_Name m) m) ms xs)"
    "set ms \<subseteq> set (cd_Methods decl)" for ms and xs :: method_table
    using that
  proof (induction ms arbitrary: xs)
    case (Cons m ms)
    have "snd nm \<in> set (cd_Methods decl) \<or> nm \<in> set (AList.update (fn_Name m) m xs)"
      by (rule Cons.IH) (use Cons.prems in auto)
    then show ?case using Cons.prems(2) by (auto dest!: update_pair)
  qed simp
  then have "snd nm \<in> set (cd_Methods decl)" using assms(2) by (fastforce simp: class_of_decl_def)
  then show ?thesis using assms(1) by (auto simp: parsed_func_def)
qed

lemma sound_new_compiler: "sound new_compiler" "pending new_compiler = {}"
proof -
  show "sound new_compiler"
    by (simp add: sound_def clauses_in_def tables_ok_def new_compiler_def empty_program_def)
  have "\<not> stands new_compiler m" for m by (cases m) (simp_all add: new_compiler_def empty_program_def)
  then show "pending new_compiler = {}" by (simp add: pending_def)
qed

lemma sound_collected:
  assumes "parsed prog"
  shows "sound (collectClasses prog new_compiler)" "pending (collectClasses prog new_compiler) = {}"
proof -
  let ?c = "collectClasses prog new_compiler"
  have g: "grown new_compiler ?c" by (simp add: grown_def count_defs collectClasses_def)
  have m: "parsed_func (snd nm)" if k: "k \<in> set (c_classes ?c)" "nm \<in> set (ci_Methods k)" for k nm
  proof -
    obtain decl where d: "ClassDeclStmt decl \<in> set (ast_Stmts prog)" "k = class_of_decl (ast_Stmts prog) decl"
    proof -
      obtain s where s: "s \<in> set (ast_Stmts prog)"
        "(case s of ClassDeclStmt decl \<Rightarrow> Some (class_of_decl (ast_Stmts prog) decl) | _ \<Rightarrow> None) = Some k"
        using k(1) by (auto simp: collectClasses_def new_compiler_def map_filter_member)
      then show ?thesis using that by (cases s rule: stmt.exhaust) auto
    qed
    have "parsed_stmt (ClassDeclStmt decl)" using assms d(1) unfolding parsed_def by blast
    from class_decl_methods [OF this] show ?thesis using k(2) unfolding d(2) .
  qed
  have "tables_ok ?c"
    by (rule tables_step [OF g sound_tables [OF sound_new_compiler(1)]]) (use m in \<open>auto simp: collectClasses_def\<close>)
  then show "sound ?c" by (rule sound_beside [OF sound_new_compiler(1) g]) (simp_all add: collectClasses_def)
  have "pending ?c = pending new_compiler" by (rule marks_same) (simp_all add: collectClasses_def)
  then show "pending ?c = {}" using sound_new_compiler(2) by simp
qed

lemma keeps_method:
  assumes "parsed_func m"
  shows "keeps (classMethod cl m (param_defaults m) (seq stmt (fn_Body m)))"
proof -
  have "keeps (param_defaults m)"
    unfolding param_defaults_def
  proof (rule keeps_seq, rule keeps_option)
    fix p e assume p: "p \<in> set (fn_Params m)" "pm_Default p = Some e"
    then have "parsed_expr e" using assms by (fastforce simp: parsed_func_def)
    from keeps_param_default [OF expr_keeps [OF this]]
    show "keeps (\<lambda>c. if pm_Variadic p then Some c else param_default (pm_Name p) (expr e) c)"
      using keeps_skip by (cases "pm_Variadic p") simp_all
  qed (rule keeps_skip)
  moreover have "walks (seq stmt (fn_Body m))"
    by (rule walks_seq, rule stmt_walks) (use assms in \<open>simp add: parsed_func_def\<close>)
  ultimately show ?thesis unfolding classMethod_def by (rule keeps_function_code) simp
qed

lemma keeps_class_methods:
  assumes "\<And>ms. set (order ms) \<subseteq> set ms"
  shows "keeps (class_methods order)"
proof -
  have one: "keeps (\<lambda>c. case drop k (c_classes c) of
         [] \<Rightarrow> Some c
       | class # rest \<Rightarrow>
           seq (\<lambda>(name, m) c.
             if fn_Name m = ''__construct'' \<or> fn_Name m = ci_Name class then Some c
             else classMethod (ci_Name class) m (param_defaults m) (seq stmt (fn_Body m)) c)
           (order (ci_Methods class)) c)" (is "keeps ?m") for k
  proof (rule keepsI)
    fix c assume c: "sound c"
    show "gives (?m c) (\<lambda>c'. sound c' \<and> pending c' \<subseteq> pending c \<and> grows c c')"
    proof (cases "drop k (c_classes c)")
      case Nil
      then show ?thesis using c by simp
    next
      case (Cons cl rest)
      then have cl: "cl \<in> set (c_classes c)" by (metis in_set_dropD list.set_intros(1))
      have "keeps (seq (\<lambda>(name, m) c.
             if fn_Name m = ''__construct'' \<or> fn_Name m = ci_Name cl then Some c
             else classMethod (ci_Name cl) m (param_defaults m) (seq stmt (fn_Body m)) c) (order (ci_Methods cl)))"
      proof (rule keeps_seq)
        fix nm assume "nm \<in> set (order (ci_Methods cl))"
        then have "nm \<in> set (ci_Methods cl)" using assms [of "ci_Methods cl"] by blast
        then have "parsed_func (snd nm)" using cl sound_tables [OF c] by (simp add: tables_ok_def)
        from keeps_method [OF this] show "keeps ((\<lambda>(name, m) c.
             if fn_Name m = ''__construct'' \<or> fn_Name m = ci_Name cl then Some c
             else classMethod (ci_Name cl) m (param_defaults m) (seq stmt (fn_Body m)) c) nm)"
          using keeps_skip by (cases nm) (auto simp: keeps_def)
      qed
      then show ?thesis using c by (simp add: Cons keeps_def)
    qed
  qed
  have "gives (class_methods order c) (\<lambda>c'. sound c' \<and> pending c' \<subseteq> pending c \<and> grows c c')" if "sound c" for c
    unfolding class_methods_def using keeps_seq [of "[0..<length (c_classes c)]", OF one] that by (simp add: keeps_def)
  then show ?thesis by (simp add: keeps_def)
qed

lemma lowered_program:
  assumes "parsed prog" and "\<And>ms. set (order ms) \<subseteq> set ms" and "lower_program order prog = Some p"
  shows "stream_ok p" "tables_fit p"
proof -
  obtain c1 ls c where c1: "class_methods order (collectClasses prog new_compiler) = Some c1"
    and c: "seq stmt (ast_Stmts prog) ([], c1) = Some (ls, c)" and p: "p = (c_program c)\<lparr>p_nameSlots := c_locals c\<rparr>"
    using assms(3) by (auto simp: lower_program_def bind_eq_Some_conv)
  have 1: "sound c1" "pending c1 = {}"
    using keeps_class_methods [OF assms(2), unfolded keeps_def, rule_format, OF sound_collected(1) [OF assms(1)]]
      sound_collected(2) [OF assms(1)] c1 by (simp_all add: gives_def)
  have "walks (seq stmt (ast_Stmts prog))"
    by (rule walks_seq, rule stmt_walks) (use assms(1) in \<open>simp add: parsed_def\<close>)
  then have "after [] c1 (ls, c)" using 1(1) c by (auto simp: walks_def built_def gives_def)
  then have 2: "sound c" "pending c = {}" using 1(2) by (auto simp: after_def built_def)
  show "stream_ok p" "tables_fit p" unfolding p by (rule settled_stream [OF 2] settled_tables [OF 2])+
qed

section \<open>Behind the peephole pass\<close>

lemma those_member: "those xs = Some ys \<Longrightarrow> y \<in> set ys \<Longrightarrow> Some y \<in> set xs"
  by (induction xs arbitrary: ys) (auto split: option.splits)

lemma those_map_member: "those (map f xs) = Some ys \<Longrightarrow> y \<in> set ys \<Longrightarrow> \<exists>x \<in> set xs. f x = Some y"
  using those_member [of "map f xs" ys y] by (auto simp: image_iff)

lemma those_map_length: "those (map f xs) = Some ys \<Longrightarrow> length ys = length xs"
  by (induction xs arbitrary: ys) (auto split: option.splits)

lemma moved_nonneg: "moved newPC t = Some t' \<Longrightarrow> 0 \<le> t'"
  by (auto simp: moved_def)

lemma fuseAt_fits:
  assumes "tables_fit p" and "h < length (p_code p)"
  shows "instr_ok p (fst (fuseAt p prot h))"
proof -
  have ok: "instr_ok p (p_code p ! x)" if "x < length (p_code p)" for x using assms(1) that by (simp add: tables_fit_def)
  show ?thesis
  proof (cases "fused_operands p prot h")
    case None
    then show ?thesis using ok [OF assms(2)] by (simp add: fuseAt_def)
  next
    case (Some fk)
    then obtain f k where f: "fused_operands p prot h = Some (f, k)" by (cases fk) simp
    note fields = fuseAt_fields [OF f]
    have target: "i_target (fst (fuseAt p prot h)) = i_target f \<or> slot_ok p (i_target (fst (fuseAt p prot h)) - 1)"
    proof (cases "fusable p prot (h + k) \<and> plain_store (p_code p ! (h + k))")
      case True
      then have "h + k < length (p_code p)" "i_op (p_code p ! (h + k)) = OpStore" by (simp_all add: fusable_def plain_store_def)
      then have "slot_ok p (i_a (p_code p ! (h + k)))" using ok [of "h + k"] by (simp add: instr_ok_def)
      then show ?thesis using True by (simp add: fuseAt_def f Let_def)
    qed (auto simp: fuseAt_def f Let_def)
    have base: "instr_ok p (p_code p ! h)" using ok [OF assms(2)] .
    show ?thesis using f
    proof (cases rule: fused_operands_cases)
      case Pair
      have "h + 1 < length (p_code p)" using Pair(2) by (simp add: fusable_def)
      then have second: "instr_ok p (p_code p ! (h + 1))" by (rule ok)
      have t: "i_target f = 0" using f Pair(1,4,5) by (auto simp: fused_operands_def Let_def instr_def split: if_splits)
      show ?thesis using Pair base second target t unfolding instr_ok_def fields
        by (auto simp: fields)
    next
      case Immediate
      have t: "i_target f = 0" using f Immediate(1,3) by (auto simp: fused_operands_def Let_def instr_def split: if_splits)
      show ?thesis using Immediate base target t unfolding instr_ok_def fields by (auto simp: fields)
    next
      case Stack
      then show ?thesis using base target unfolding instr_ok_def fields by (auto simp: fields)
    qed
  qed
qed

lemma retarget_fits:
  assumes "retarget newPC i = Some j" and "instr_ok p i"
  shows "instr_ok p j"
proof -
  have "i_op j = i_op i" "i_a j = i_a i" "i_c j = i_c i" "i_op i = OpTryPush \<or> i_b j = i_b i"
    "jumps (i_op i) \<or> i_op i = OpTryPush \<or> i_target j = i_target i"
    "jumps (i_op i) \<longrightarrow> 0 \<le> i_target j" "i_op i = OpTryPush \<longrightarrow> 0 \<le> i_target j \<and> 0 \<le> i_b j"
    using assms(1) moved_nonneg by (auto simp: retarget_def jumps_def split: if_splits option.splits)
  then show ?thesis using assms(2) by (cases "i_op i") (auto simp: instr_ok_def jumps_def)
qed

text \<open>The pass answers positions of the stream it leaves, and no counter of the fused program is any other number.\<close>

lemma fuse_loop_range: "fuse_loop p prot i k = (fused, newPC) \<Longrightarrow> x \<in> set newPC \<Longrightarrow> x \<le> k + length fused"
proof (induction p prot i k arbitrary: fused newPC rule: fuse_loop.induct)
  case (1 p prot i k)
  show ?case
  proof (cases "length (p_code p) \<le> i")
    case True
    then show ?thesis using 1(2,3) by (auto simp: fuse_loop.simps)
  next
    case False
    obtain j w where at: "fuseAt p prot i = (j, w)" by fastforce
    obtain f ns where rest: "fuse_loop p prot (i + w) (Suc k) = (f, ns)" by fastforce
    have r: "fused = j # f" "newPC = replicate w k @ ns"
      using 1(2) False by (subst (asm) fuse_loop.simps; simp add: at rest)+
    have "x \<le> Suc k + length f" if "x \<in> set ns"
      using 1(1) [OF False at [symmetric] refl rest that] .
    then show ?thesis using 1(3) by (auto simp: r)
  qed
qed

lemma fused_counter:
  assumes "those (map (retarget newPC) fused) = Some insts"
    and "those (map (\<lambda>g. those (map (retarget_clause newPC) g)) gs) = Some groups"
    and "those (map (retarget_closure newPC) ds) = Some closures"
    and "those (map (retarget_func newPC) fs) = Some funcs"
    and "t \<in> set (protectedPCs (p\<lparr>p_code := insts, p_catchGroups := groups, p_closures := closures, p_userFuncs := funcs\<rparr>))"
  shows "\<exists>x. moved newPC x = Some t"
proof -
  from assms(5) consider j where "j \<in> set insts" "t \<in> set (recorded j)"
    | clauses k where "clauses \<in> set groups" "k \<in> set clauses" "t = t_target k"
    | d where "d \<in> set closures" "t = k_entryPC d" | nd where "nd \<in> set funcs" "t = f_entryPC (snd nd)"
    by (auto simp: protectedPCs_def)
  then show ?thesis
  proof cases
    case 1
    obtain i where "retarget newPC i = Some j" using those_map_member [OF assms(1) 1(1)] by blast
    then show ?thesis using 1(2) by (auto simp: retarget_def recorded_def jumps_def split: if_splits option.splits)
  next
    case 2
    obtain g where "those (map (retarget_clause newPC) g) = Some clauses" using those_map_member [OF assms(2) 2(1)] by blast
    from those_map_member [OF this 2(2)] show ?thesis using 2(3) by (auto simp: retarget_clause_def)
  next
    case 3
    from those_map_member [OF assms(3) 3(1)] show ?thesis using 3(2) by (auto simp: retarget_closure_def)
  next
    case 4
    from those_map_member [OF assms(4) 4(1)] show ?thesis using 4(2) by (auto simp: retarget_func_def)
  qed
qed

lemma fused_fits:
  assumes fit: "tables_fit p" and q: "fuseProgram p = Some q"
  shows "tables_fit q"
proof (cases "p_code p = []")
  case True
  then show ?thesis using assms by (simp add: fuseProgram_def)
next
  case False
  let ?prot = "protectedPCs p"
  obtain fused newPC where loop: "fuse_loop p ?prot 0 0 = (fused, newPC)" by fastforce
  have pass: "pass_done p ?prot fused newPC"
    unfolding pass_done_def by (rule fuse_loop_done [OF _ loop]) simp
  obtain code groups closures funcs where
    tables: "those (map (retarget newPC) fused) = Some code"
      "those (map (\<lambda>g. those (map (retarget_clause newPC) g)) (p_catchGroups p)) = Some groups"
      "those (map (retarget_closure newPC) (p_closures p)) = Some closures"
      "those (map (retarget_func newPC) (p_userFuncs p)) = Some funcs"
    and q': "q = p\<lparr>p_code := code, p_catchGroups := groups, p_closures := closures, p_userFuncs := funcs\<rparr>"
    using q False by (auto simp: fuseProgram_def loop split: option.splits)
  have same: "instr_ok q = instr_ok p" "closure_ok q = closure_ok p" "func_ok q = func_ok p" "clause_ok q = clause_ok p"
    by (rule same_tables_ok; simp add: q' those_map_length [OF tables(2)] those_map_length [OF tables(3)])+
  have "instr_ok p j" if m: "j \<in> set code" for j
  proof -
    obtain i where i: "i \<in> set fused" "retarget newPC i = Some j" using those_map_member [OF tables(1) m] by blast
    then obtain n where n: "n < length fused" "i = fused ! n" by (auto simp: in_set_conv_nth)
    note facts = pass_facts(1,2) [OF pass n(1)]
    have "instr_ok p i" using fuseAt_fits [OF fit facts(1), of ?prot] facts(2) n(2) by simp
    then show ?thesis by (rule retarget_fits [OF i(2)])
  qed
  moreover have "clause_ok p k" if m: "clauses \<in> set groups" "k \<in> set clauses" for clauses k
  proof -
    obtain g where g: "g \<in> set (p_catchGroups p)" "those (map (retarget_clause newPC) g) = Some clauses"
      using those_map_member [OF tables(2) m(1)] by blast
    obtain c where "c \<in> set g" "retarget_clause newPC c = Some k" using those_map_member [OF g(2) m(2)] by blast
    moreover from this(1) have "clause_ok p c" using fit g(1) by (auto simp: tables_fit_def)
    ultimately show ?thesis by (auto simp: retarget_clause_def clause_ok_def moved_nonneg)
  qed
  moreover have "counter_ok q t" if m: "t \<in> set (protectedPCs q)" for t
  proof -
    obtain x where x: "moved newPC x = Some t" using fused_counter [OF tables] m unfolding q' by blast
    then obtain n where "n \<in> set newPC" "t = int n" by (auto simp: moved_def index_at_def split: if_splits intro: nth_mem)
    then show ?thesis
      using fuse_loop_range [OF loop] those_map_length [OF tables(1)] by (auto simp: counter_ok_def q')
  qed
  moreover have "closure_ok p d" if m: "d \<in> set closures" for d
  proof -
    obtain d0 where "d0 \<in> set (p_closures p)" "retarget_closure newPC d0 = Some d"
      using those_map_member [OF tables(3) m] by blast
    moreover from this(1) have "closure_ok p d0" using fit by (simp add: tables_fit_def)
    ultimately show ?thesis by (auto simp: retarget_closure_def closure_ok_def moved_nonneg)
  qed
  moreover have "func_ok p d \<and> (method_key name \<longrightarrow> f_paramSlots d \<noteq> [])" if m: "(name, d) \<in> set funcs" for name d
  proof -
    obtain nd where nd: "nd \<in> set (p_userFuncs p)" "retarget_func newPC nd = Some (name, d)"
      using those_map_member [OF tables(4) m] by blast
    then have "func_ok p (snd nd) \<and> (method_key (fst nd) \<longrightarrow> f_paramSlots (snd nd) \<noteq> [])"
      using fit by (auto simp: tables_fit_def)
    then show ?thesis using nd(2) by (auto simp: retarget_func_def func_ok_def moved_nonneg)
  qed
  ultimately show ?thesis unfolding tables_fit_def same by (auto simp: q')
qed

section \<open>Compile\<close>

lemma Compile_cases:
  assumes "Compile order prog = Inr q"
  obtains p where "lower_program order prog = Some p" and "finish_program p = Some q" and "CheckInterfaceContracts prog = []"
  using assms by (auto simp: Compile_def split: if_splits option.splits)

lemma compiled_ok:
  assumes "parsed prog" and "\<And>ms. set (order ms) \<subseteq> set ms" and "Compile order prog = Inr q"
  shows "program_ok q"
proof -
  obtain p where p: "lower_program order prog = Some p" "finish_program p = Some q"
    using Compile_cases [OF assms(3)] by blast
  obtain r where r: "fuseProgram p = Some r" "q = index_functions r" using p(2) by (auto simp: finish_program_def)
  have "tables_fit r" using fused_fits [OF lowered_program(2) [OF assms(1,2) p(1)] r(1)] .
  then show ?thesis unfolding r(2) by (rule tables_fit_indexed)
qed

definition sample_prog :: ast where
  "sample_prog =
     \<lparr>ast_Stmts =
        [Foreach (ArrayLit [(None, Lit (VInt 1))]) None None False '''' ''v''
           [IfStmt (Var ''v'' False) [Break] []],
         EchoStmt [BinaryExpr ''+'' (Var ''v'' False) (Lit (VInt 2))]],
      ast_AnonClasses = []\<rparr>"

lemma sample_parsed: "parsed sample_prog"
  by (simp add: parsed_def sample_prog_def)

lemma sample_compiles:
  obtains q where "Compile id sample_prog = Inr q"
proof -
  have "case Compile id sample_prog of Inl x \<Rightarrow> False | Inr q \<Rightarrow> True" by code_simp
  then show ?thesis using that by (cases "Compile id sample_prog") simp_all
qed

lemma any_subset: "set (id ms) \<subseteq> set ms"
  by simp



text \<open>C5. Compiling a parsed program never panics: the pass that fuses and renumbers the stream finds every
  program counter the compiler recorded, so \<open>Compile\<close> answers a program, the violated contracts or
  a rejection.\<close>

theorem compile_never_panics:
  assumes "parsed prog" and "\<And>ms. set (order ms) \<subseteq> set ms"
  shows "Compile order prog \<noteq> Inl Panic"
  using finish_program_total [OF lowered_program(1) [OF assms]]
  by (auto simp: Compile_def split: option.splits)

theorem compile_never_panics_witness:
  "parsed sample_prog \<and> Compile rev sample_prog \<noteq> Inl Panic"
  using compile_never_panics [OF sample_parsed, of rev] sample_parsed by simp

text \<open>C3. What the engine runs is what the compiler lowered: the program \<open>Compile\<close> answers gives every run, on
  every host, the same answer, heap and host state as the stream the statements were translated to.\<close>

theorem compiled_runs_as_lowered:
  assumes "parsed prog" and "\<And>ms. set (order ms) \<subseteq> set ms" and "Compile order prog = Inr q"
  shows "\<exists>p. lower_program order prog = Some p \<and>
    (\<forall>H h w r. Run_to q H h w r \<longleftrightarrow> Run_to (index_functions p) H h w r)"
proof -
  obtain p where p: "lower_program order prog = Some p" "finish_program p = Some q"
    using Compile_cases [OF assms(3)] by blast
  have "Run_to q H h w r \<longleftrightarrow> Run_to (index_functions p) H h w r" for H h w r
    unfolding Run_to_def by (blast intro: finished_runs [OF lowered_program(1) [OF assms(1,2) p(1)] p(2)])
  then show ?thesis using p(1) by blast
qed

theorem compiled_runs_as_lowered_witness:
  "\<exists>p q. Compile id sample_prog = Inr q \<and> lower_program id sample_prog = Some p \<and>
     (\<forall>(H :: unit FullHost) h w r. Run_to q H h w r \<longleftrightarrow> Run_to (index_functions p) H h w r)"
proof -
  obtain q where q: "Compile id sample_prog = Inr q" by (rule sample_compiles)
  from compiled_runs_as_lowered [where 'a = unit, OF sample_parsed any_subset q] q show ?thesis by blast
qed



end
