(* ===== verification/ContractLaws.thy ===== *)
theory ContractLaws
  imports Interfaces
begin

text \<open>
  What the walk of \<open>model/interfaces.go\<close> computes: the methods of every interface a name reaches
  through \<open>extends\<close>, each once, on any declarations, cyclic ones too; and with it what the check of a
  class decides.
\<close>

section \<open>Interfaces a name reaches\<close>

inductive offered :: "interface_index \<Rightarrow> string \<Rightarrow> (expr, stmt) interface_decl \<Rightarrow> bool" for index where
  own: "map_of index k = Some d \<Longrightarrow> offered index k d"
| inherited: "map_of index k = Some d \<Longrightarrow> n \<in> set (id_Extends d) \<Longrightarrow> offered index (lower n) e \<Longrightarrow> offered index k e"

inductive_simps offered_None: "offered index k d"

lemma not_offered: "map_of index k = None \<Longrightarrow> \<not> offered index k d"
  using offered_None [of index k d] by simp

abbreviation method_names :: "(expr, stmt) interface_decl \<Rightarrow> string set" where
  "method_names d \<equiv> (\<lambda>m. lower (fn_Name m)) ` set (id_Methods d)"

abbreviation required :: "contractMethod list \<Rightarrow> string list" where
  "required out \<equiv> map (\<lambda>r. lower (cm_Method r)) out"

lemma add_methods_facts:
  assumes "add_methods i ms seen out = (seen', out')" and "set seen = set (required out)" and "distinct (required out)"
  shows "set seen' = set (required out')" "distinct (required out')" "set seen' = set seen \<union> (\<lambda>m. lower (fn_Name m)) ` set ms"
    "\<And>r. r \<in> set out' \<Longrightarrow> r \<in> set out \<or> (\<exists>m \<in> set ms. r = \<lparr>cm_Interface = i, cm_Method = fn_Name m\<rparr>)" "set out \<subseteq> set out'"
proof -
  let ?P = "\<lambda>ms seen out seen' out'. set seen' = set (required out') \<and> distinct (required out') \<and> set seen' = set seen \<union> (\<lambda>m. lower (fn_Name m)) ` set ms \<and>
    (\<forall>r \<in> set out'. r \<in> set out \<or> (\<exists>m \<in> set ms. r = \<lparr>cm_Interface = i, cm_Method = fn_Name m\<rparr>)) \<and> set out \<subseteq> set out'"
  have "?P ms seen out seen' out'"
    using assms
  proof (induction ms arbitrary: seen out)
    case (Cons m ms)
    show ?case
    proof (cases "lower (fn_Name m) \<in> set seen")
      case True
      then have "add_methods i ms seen out = (seen', out')" using Cons.prems(1) by simp
      note ih = Cons.IH [OF this Cons.prems(2,3)]
      have "set seen \<union> (\<lambda>m. lower (fn_Name m)) ` set (m # ms) = set seen \<union> (\<lambda>m. lower (fn_Name m)) ` set ms" using True by auto
      moreover have "\<exists>n \<in> set (m # ms). r = \<lparr>cm_Interface = i, cm_Method = fn_Name n\<rparr>"
        if "\<exists>n \<in> set ms. r = \<lparr>cm_Interface = i, cm_Method = fn_Name n\<rparr>" for r using that by auto
      ultimately show ?thesis using ih by metis
    next
      case False
      let ?out = "out @ [\<lparr>cm_Interface = i, cm_Method = fn_Name m\<rparr>]"
      have a: "add_methods i ms (lower (fn_Name m) # seen) ?out = (seen', out')" using Cons.prems(1) False by simp
      have s: "set (lower (fn_Name m) # seen) = set (required ?out)" using Cons.prems(2) by simp
      have d: "distinct (required ?out)" using Cons.prems(2,3) False by simp
      note ih = Cons.IH [OF a s d]
      have "\<forall>r \<in> set out'. r \<in> set out \<or> (\<exists>n \<in> set (m # ms). r = \<lparr>cm_Interface = i, cm_Method = fn_Name n\<rparr>)"
      proof
        fix r
        assume "r \<in> set out'"
        then have "r \<in> set ?out \<or> (\<exists>n \<in> set ms. r = \<lparr>cm_Interface = i, cm_Method = fn_Name n\<rparr>)" using ih by blast
        then show "r \<in> set out \<or> (\<exists>n \<in> set (m # ms). r = \<lparr>cm_Interface = i, cm_Method = fn_Name n\<rparr>)" by auto
      qed
      moreover have u: "set (lower (fn_Name m) # seen) \<union> (\<lambda>m. lower (fn_Name m)) ` set ms = set seen \<union> (\<lambda>m. lower (fn_Name m)) ` set (m # ms)"
        by auto
      moreover have "set out \<subseteq> set out'" using ih [THEN conjunct2, THEN conjunct2, THEN conjunct2, THEN conjunct2] by auto
      ultimately show ?thesis
        using ih [THEN conjunct1] ih [THEN conjunct2, THEN conjunct1] ih [THEN conjunct2, THEN conjunct2, THEN conjunct1, unfolded u]
        by (intro conjI) assumption+
    qed
  qed simp
  then show "set seen' = set (required out')" "distinct (required out')" "set seen' = set seen \<union> (\<lambda>m. lower (fn_Name m)) ` set ms"
    "set out \<subseteq> set out'" and "r \<in> set out' \<Longrightarrow> r \<in> set out \<or> (\<exists>m \<in> set ms. r = \<lparr>cm_Interface = i, cm_Method = fn_Name m\<rparr>)" for r
    by - (elim conjE, assumption | elim conjE, erule (1) bspec)+
qed

text \<open>Between two calls of the walk: a visited interface has its methods in the list, and those it
  extends are visited or still to come.\<close>

definition walked :: "string list \<Rightarrow> interface_index \<Rightarrow> string list \<Rightarrow> string list \<Rightarrow> bool" where
  "walked names index visited seen \<longleftrightarrow>
     (\<forall>k \<in> set visited. \<forall>d. map_of index k = Some d \<longrightarrow>
        method_names d \<subseteq> set seen \<and> lower ` set (id_Extends d) \<subseteq> set visited \<union> lower ` set names)"

lemma walked_closed:
  assumes "walked [] index visited seen" and "offered index k e" and "k \<in> set visited"
  shows "method_names e \<subseteq> set seen"
  using assms(2,3)
proof (induction rule: offered.induct)
  case (own k d)
  then show ?case using assms(1) unfolding walked_def by blast
next
  case (inherited k d n e)
  have "lower ` set (id_Extends d) \<subseteq> set visited" using assms(1) inherited.hyps(1) inherited.prems unfolding walked_def by fastforce
  then have "lower n \<in> set visited" using inherited.hyps(2) by blast
  then show ?case by (rule inherited.IH)
qed

lemma collectContract_facts:
  assumes "walked names index visited seen" and "set seen = set (required out)" and "distinct (required out)"
  shows "\<And>k e. k \<in> set visited \<union> lower ` set names \<Longrightarrow> offered index k e \<Longrightarrow>
      method_names e \<subseteq> set (required (collectContract names index visited seen out))"
    and "\<And>r. r \<in> set (collectContract names index visited seen out) \<Longrightarrow> r \<in> set out \<or>
      (\<exists>name \<in> set names. \<exists>d. \<exists>m \<in> set (id_Methods d). offered index (lower name) d \<and> r = \<lparr>cm_Interface = id_Name d, cm_Method = fn_Name m\<rparr>)"
    and "distinct (required (collectContract names index visited seen out))"
proof -
  let ?P = "\<lambda>names index visited out result.
      (\<forall>k e. k \<in> set visited \<union> lower ` set names \<longrightarrow> offered index k e \<longrightarrow> method_names e \<subseteq> set (required result)) \<and>
      (\<forall>r \<in> set result. r \<in> set out \<or>
        (\<exists>name \<in> set names. \<exists>d. \<exists>m \<in> set (id_Methods d). offered index (lower name) d \<and> r = \<lparr>cm_Interface = id_Name d, cm_Method = fn_Name m\<rparr>)) \<and>
      distinct (required result)"
  have "?P names index visited out (collectContract names index visited seen out)"
    using assms
  proof (induction names index visited seen out rule: collectContract.induct)
    case (1 index visited seen out)
    have "method_names e \<subseteq> set (required out)" if "k \<in> set visited" "offered index k e" for k e
      using walked_closed [OF "1.prems"(1) that(2,1)] "1.prems"(2) by simp
    then show ?case using "1.prems"(3) by simp
  next
    case (2 name names index visited seen out)
    show ?case
    proof (cases "lower name \<in> set visited")
      case True
      have "walked names index visited seen" using "2.prems"(1) True unfolding walked_def by (simp add: insert_absorb)
      note ih = "2.IH"(1) [OF True this "2.prems"(2,3)]
      have k: "k \<in> set visited \<union> lower ` set (name # names) \<longleftrightarrow> k \<in> set visited \<union> lower ` set names" for k using True by auto
      show ?thesis using ih unfolding k by (simp add: True del: Un_iff) blast
    next
      case new: False
      show ?thesis
      proof (cases "map_of index (lower name)")
        case None
        have "walked names index (lower name # visited) seen" using "2.prems"(1) None by (auto simp: walked_def)
        note ih = "2.IH"(2) [OF new None this "2.prems"(2,3)]
        then show ?thesis by (simp add: new None) blast
      next
        case (Some d)
        obtain seen' out' where a: "add_methods (id_Name d) (id_Methods d) seen out = (seen', out')" by fastforce
        note f = add_methods_facts [OF a "2.prems"(2,3)]
        have w: "walked (id_Extends d @ names) index (lower name # visited) seen'"
          using "2.prems"(1) Some f(3) unfolding walked_def by (simp add: image_Un) blast
        note ih = "2.IH"(3) [OF new Some a [symmetric] refl w f(1,2)]
        let ?r = "collectContract (id_Extends d @ names) index (lower name # visited) seen' out'"
        have r: "collectContract (name # names) index visited seen out = ?r" by (simp add: new Some a)
        have "r \<in> set out \<or> (\<exists>n \<in> set (name # names). \<exists>d. \<exists>m \<in> set (id_Methods d). offered index (lower n) d \<and>
            r = \<lparr>cm_Interface = id_Name d, cm_Method = fn_Name m\<rparr>)" if "r \<in> set ?r" for r
        proof -
          from that ih consider "r \<in> set out'"
            | n e m where "n \<in> set (id_Extends d)" "m \<in> set (id_Methods e)" "offered index (lower n) e" "r = \<lparr>cm_Interface = id_Name e, cm_Method = fn_Name m\<rparr>"
            | n e m where "n \<in> set names" "m \<in> set (id_Methods e)" "offered index (lower n) e" "r = \<lparr>cm_Interface = id_Name e, cm_Method = fn_Name m\<rparr>"
            by fastforce
          then show ?thesis
          proof cases
            case 1
            then show ?thesis using f(4) own [OF Some] by fastforce
          next
            case 2
            then show ?thesis using inherited [OF Some] by fastforce
          next
            case 3
            then show ?thesis by auto
          qed
        qed
        moreover have "method_names e \<subseteq> set (required ?r)"
          if k: "k \<in> set visited \<union> lower ` set (name # names)" and e: "offered index k e" for k e
        proof -
          from k have "k \<in> set (lower name # visited) \<union> lower ` set (id_Extends d @ names)" by auto
          then show ?thesis using ih e by blast
        qed
        moreover have "distinct (required ?r)" using ih by blast
        ultimately show ?thesis unfolding r by blast
      qed
    qed
  qed
  then show "\<And>k e. k \<in> set visited \<union> lower ` set names \<Longrightarrow> offered index k e \<Longrightarrow>
      method_names e \<subseteq> set (required (collectContract names index visited seen out))"
    "\<And>r. r \<in> set (collectContract names index visited seen out) \<Longrightarrow> r \<in> set out \<or>
      (\<exists>name \<in> set names. \<exists>d. \<exists>m \<in> set (id_Methods d). offered index (lower name) d \<and> r = \<lparr>cm_Interface = id_Name d, cm_Method = fn_Name m\<rparr>)"
    "distinct (required (collectContract names index visited seen out))"
    by blast+
qed

lemma contractOf_facts:
  shows "\<And>e m. offered index (lower name) e \<Longrightarrow> m \<in> set (id_Methods e) \<Longrightarrow> lower (fn_Name m) \<in> set (required (contractOf name index))"
    and "\<And>r. r \<in> set (contractOf name index) \<Longrightarrow>
      \<exists>d. \<exists>m \<in> set (id_Methods d). offered index (lower name) d \<and> r = \<lparr>cm_Interface = id_Name d, cm_Method = fn_Name m\<rparr>"
    and "distinct (required (contractOf name index))"
proof -
  have w: "walked [name] index [] []" by (simp add: walked_def)
  note c = collectContract_facts [OF w, of "[]"]
  show "\<And>e m. offered index (lower name) e \<Longrightarrow> m \<in> set (id_Methods e) \<Longrightarrow> lower (fn_Name m) \<in> set (required (contractOf name index))"
    using c(1) unfolding contractOf_def by (simp del: collectContract.simps) blast
  show "\<And>r. r \<in> set (contractOf name index) \<Longrightarrow>
      \<exists>d. \<exists>m \<in> set (id_Methods d). offered index (lower name) d \<and> r = \<lparr>cm_Interface = id_Name d, cm_Method = fn_Name m\<rparr>"
    using c(2) unfolding contractOf_def by (simp del: collectContract.simps)
  show "distinct (required (contractOf name index))" using c(3) unfolding contractOf_def by (simp del: collectContract.simps)
qed

section \<open>Names a class reaches\<close>

inductive reached :: "interface_index \<Rightarrow> string list \<Rightarrow> string \<Rightarrow> bool" for index names where
  direct: "n \<in> set names \<Longrightarrow> reached index names (lower n)"
| extended: "reached index names k \<Longrightarrow> map_of index k = Some d \<Longrightarrow> n \<in> set (id_Extends d) \<Longrightarrow> reached index names (lower n)"

lemma reached_subset:
  assumes "reached index ns k" and "\<And>n. n \<in> set ns \<Longrightarrow> reached index names (lower n)"
  shows "reached index names k"
  using assms(1) by induction (use assms(2) in \<open>auto intro: extended\<close>)

definition leads :: "interface_index \<Rightarrow> string set \<Rightarrow> string set \<Rightarrow> bool" where
  "leads index K N \<longleftrightarrow> (\<forall>k \<in> K. \<forall>d. map_of index k = Some d \<longrightarrow> lower ` set (id_Extends d) \<subseteq> N)"

lemma reached_closed:
  assumes "leads index K K" and "lower ` set names \<subseteq> K" and "reached index names k"
  shows "k \<in> K"
  using assms(3)
proof induction
  case (direct n)
  then show ?case using assms(2) by blast
next
  case (extended k d n)
  then show ?case using assms(1) unfolding leads_def by blast
qed

lemma leads_insert:
  "leads index (insert k K) N \<longleftrightarrow> (\<forall>d. map_of index k = Some d \<longrightarrow> lower ` set (id_Extends d) \<subseteq> N) \<and> leads index K N"
  by (simp add: leads_def)

lemma leads_mono: "leads index K N \<Longrightarrow> N \<subseteq> N' \<Longrightarrow> leads index K N'"
  unfolding leads_def by blast

lemma walk_names_facts:
  assumes "leads index (set seen) (set seen \<union> lower ` set names)"
  shows "distinct (walk_names names index seen) \<and> set (walk_names names index seen) \<inter> set seen = {} \<and>
    (\<forall>k \<in> set (walk_names names index seen). reached index names k) \<and>
    lower ` set names \<subseteq> set seen \<union> set (walk_names names index seen) \<and>
    leads index (set seen \<union> set (walk_names names index seen)) (set seen \<union> set (walk_names names index seen))"
  using assms
proof (induction names index seen rule: walk_names.induct)
  case (1 index seen)
  then show ?case by simp
next
  case (2 name names index seen)
  let ?k = "lower name"
  have later: "reached index (name # names) (lower n)" if "n \<in> set names" for n using that by (intro direct) simp
  show ?case
  proof (cases "?k \<in> set seen")
    case True
    then have "leads index (set seen) (set seen \<union> lower ` set names)" using "2.prems" by (simp add: insert_absorb)
    note ih = "2.IH"(1) [OF True this]
    have "\<forall>k \<in> set (walk_names names index seen). reached index (name # names) k"
      using ih reached_subset [OF _ later] by blast
    then show ?thesis using ih True by simp
  next
    case new: False
    show ?thesis
    proof (cases "map_of index ?k")
      case None
      let ?out = "walk_names names index (?k # seen)"
      have "leads index (set (?k # seen)) (set (?k # seen) \<union> lower ` set names)"
        using "2.prems" None by (simp add: leads_insert)
      note ih = "2.IH"(2) [OF new None this]
      have "\<forall>k \<in> set ?out. reached index (name # names) k"
        using ih reached_subset [OF _ later] by blast
      moreover have "reached index (name # names) ?k" by (rule direct) simp
      ultimately show ?thesis using ih new None by simp
    next
      case (Some d)
      let ?out = "walk_names (id_Extends d @ names) index (?k # seen)"
      have w: "leads index (set (?k # seen)) (set (?k # seen) \<union> lower ` set (id_Extends d @ names))"
        using "2.prems" Some leads_mono [of index "set seen" "set seen \<union> lower ` set (name # names)"]
        by (auto simp: leads_insert image_Un)
      note ih = "2.IH"(3) [OF new Some w]
      have here: "reached index (name # names) ?k" by (rule direct) simp
      have "reached index (name # names) (lower n)" if "n \<in> set (id_Extends d @ names)" for n
        using that extended [OF here Some] direct [of n "name # names" index] by auto
      then have "\<forall>k \<in> set ?out. reached index (name # names) k"
        using ih reached_subset [of index "id_Extends d @ names" _ "name # names"] by blast
      then show ?thesis using ih new Some here by (simp add: image_Un)
    qed
  qed
qed

section \<open>Properties\<close>

text \<open>C11. The contract of an interface name lists, each once, the methods of every declaration the name
  reaches through \<open>extends\<close>, and no others, however the declarations refer to each other.
\<close>

theorem contract_is_every_reached_method:
  "set (map (\<lambda>r. lower (cm_Method r)) (contractOf name index)) =
     {lower (fn_Name m) | m d. offered index (lower name) d \<and> m \<in> set (id_Methods d)} \<and>
   distinct (map (\<lambda>r. lower (cm_Method r)) (contractOf name index)) \<and>
   set (contractOf name index) \<subseteq>
     {\<lparr>cm_Interface = id_Name d, cm_Method = fn_Name m\<rparr> | m d. offered index (lower name) d \<and> m \<in> set (id_Methods d)}"
  using contractOf_facts [where index = index and name = name] by fastforce

definition class_decls :: "ast \<Rightarrow> (expr, stmt) class_decl list" where
  "class_decls prog = List.map_filter (\<lambda>s. case s of ClassDeclStmt cd \<Rightarrow> Some cd | _ \<Rightarrow> None) (ast_Stmts prog) @ ast_AnonClasses prog"

text \<open>C10. The check accepts a program exactly when every class declares, in its body or as a function
  attached to it, each method of each declared interface reached from a name it implements.
\<close>

theorem contracts_checked:
  "CheckInterfaceContracts prog = [] \<longleftrightarrow>
     (\<forall>cd \<in> set (class_decls prog). \<forall>name \<in> set (cd_Implements cd). \<forall>d.
        offered (interfaceIndex (ast_Stmts prog)) (lower name) d \<longrightarrow>
        (\<forall>m \<in> set (id_Methods d). lower (fn_Name m) \<in> set (declaredMethods cd (ast_Stmts prog))))"
proof (cases "interfaceIndex (ast_Stmts prog) = []")
  case True
  then show ?thesis by (simp add: CheckInterfaceContracts_def CheckInterfaces_def not_offered)
next
  case False
  let ?i = "interfaceIndex (ast_Stmts prog)"
  have "(\<forall>r \<in> set (contractOf name ?i). lower (cm_Method r) \<in> D) \<longleftrightarrow>
      (\<forall>d. offered ?i (lower name) d \<longrightarrow> (\<forall>m \<in> set (id_Methods d). lower (fn_Name m) \<in> D))" for name D
    using contractOf_facts [where index = ?i and name = name] by fastforce
  then have "class_violations (ast_Stmts prog) cd = [] \<longleftrightarrow> (\<forall>name \<in> set (cd_Implements cd). \<forall>d. offered ?i (lower name) d \<longrightarrow>
      (\<forall>m \<in> set (id_Methods d). lower (fn_Name m) \<in> set (declaredMethods cd (ast_Stmts prog))))" for cd
    by (simp add: class_violations_def filter_empty_conv)
  moreover have "CheckInterfaceContracts prog = concat (map (class_violations (ast_Stmts prog)) (class_decls prog))"
    using False by (simp only: CheckInterfaceContracts_def CheckInterfaces_def class_decls_def Let_def if_False)
  ultimately show ?thesis by simp
qed

definition sample_contract :: "(expr, stmt) interface_decl" where
  "sample_contract = InterfaceDecl ''A'' [''b''] [] [FuncDecl [] ''Open'' [] [] False]"

definition sample_class :: "(expr, stmt) class_decl" where
  "sample_class = ClassDecl ''C'' [''B''] [] [] [] [FuncDecl [] ''CLOSE'' [] [] False]"

definition sample_contracts :: "string \<Rightarrow> ast" where
  "sample_contracts m =
     \<lparr>ast_Stmts =
        [InterfaceDeclStmt sample_contract,
         InterfaceDeclStmt (InterfaceDecl ''B'' [''A''] [] [FuncDecl [] ''close'' [] [] False]),
         ClassDeclStmt sample_class, FuncDeclStmt (FuncDecl ''c'' m [] [] False)],
      ast_AnonClasses = []\<rparr>"

theorem contracts_checked_witness:
  "CheckInterfaceContracts (sample_contracts ''open'') = [] \<and>
   offered (interfaceIndex (ast_Stmts (sample_contracts ''open''))) ''b'' sample_contract \<and>
   ''open'' \<in> set (declaredMethods sample_class (ast_Stmts (sample_contracts ''open''))) \<and>
   map iv_Method (CheckInterfaceContracts (sample_contracts ''read'')) = [''Open'']"
proof -
  let ?p = "sample_contracts ''open''"
  let ?i = "interfaceIndex (ast_Stmts ?p)"
  have c: "CheckInterfaceContracts ?p = []" by code_simp
  have "map_of ?i ''b'' = Some (InterfaceDecl ''B'' [''A''] [] [FuncDecl [] ''close'' [] [] False])" and "map_of ?i (lower ''A'') = Some sample_contract"
    and "''A'' \<in> set (id_Extends (InterfaceDecl ''B'' [''A''] [] [FuncDecl [] ''close'' [] [] False] :: (expr, stmt) interface_decl))"
    by code_simp+
  then have o: "offered ?i ''b'' sample_contract" using inherited own by metis
  have parts: "class_decls ?p = [sample_class]" "cd_Implements sample_class = [''B'']" "lower ''B'' = ''b''"
    "id_Methods sample_contract = [FuncDecl [] ''Open'' [] [] False]" "lower ''Open'' = ''open''"
    by code_simp+
  have "\<forall>m \<in> set (id_Methods sample_contract). lower (fn_Name m) \<in> set (declaredMethods sample_class (ast_Stmts ?p))"
    using contracts_checked [of ?p] c o unfolding parts(1) by (auto simp: parts(2,3) simp del: map_eq_conv list.map)
  then have "lower ''Open'' \<in> set (declaredMethods sample_class (ast_Stmts ?p))" unfolding parts(4) by simp
  moreover have "map iv_Method (CheckInterfaceContracts (sample_contracts ''read'')) = [''Open'']" by code_simp
  ultimately show ?thesis using c o parts(5) by simp
qed

text \<open>C33. The names a class answers \<open>instanceof\<close> with are those it implements and every name reached from
  them through declarations, declared or not, in lower case and each once.
\<close>

theorem interface_names_are_reached:
  "set (InterfaceNames cd stmts) = {k. reached (interfaceIndex stmts) (cd_Implements cd) k} \<and> distinct (InterfaceNames cd stmts)"
proof -
  have "leads (interfaceIndex stmts) (set []) (set [] \<union> lower ` set (cd_Implements cd))" by (simp add: leads_def)
  note f = walk_names_facts [OF this]
  let ?out = "walk_names (cd_Implements cd) (interfaceIndex stmts) []"
  have i: "InterfaceNames cd stmts = ?out" by (simp add: InterfaceNames_def)
  have "k \<in> set ?out" if "reached (interfaceIndex stmts) (cd_Implements cd) k" for k
    using reached_closed [OF _ _ that, of "set ?out"] f by simp
  then show ?thesis unfolding i using f by blast
qed

end
