(* ===== verification/Templates.thy ===== *)
theory Templates
  imports CompiledCode FrameLaws
begin

text \<open>
  From the tree to the output: a template of text and echoed literals compiles, and its program runs to the
  end, echoing the parts in the order written.
\<close>

section \<open>Templates\<close>

text \<open>What a statement prints, where it does nothing but print text and literals.\<close>

fun literal :: "expr \<Rightarrow> val option" where
  "literal (Lit v) = Some v"
| "literal e = None"

fun printed :: "stmt \<Rightarrow> val list option" where
  "printed (InlineHTML t) = Some [VStr t]"
| "printed (EchoStmt es) = those (map literal es)"
| "printed s = None"

definition emitted :: "val list \<Rightarrow> compiler \<Rightarrow> compiler" where
  "emitted vs c = fold (\<lambda>v c. put (instr OpEcho) (push_const v c)) vs c"

lemma literal_Some: "literal e = Some v \<longleftrightarrow> e = Lit v"
  by (cases e rule: literal.cases) auto

lemma echo_literals:
  "those (map literal es) = Some vs \<Longrightarrow>
   seq (\<lambda>e c. do { c \<leftarrow> expr e c; Some (put (instr OpEcho) c) }) es c = Some (emitted vs c)"
  by (induction es arbitrary: vs c) (auto simp: literal_Some emitted_def split: option.splits)

lemma stmt_printed:
  assumes "printed s = Some vs"
  shows "stmt s (ls, c) = Some (ls, emitted vs c)" and "parsed_stmt s"
proof -
  consider t where "s = InlineHTML t" "vs = [VStr t]" | es where "s = EchoStmt es" "those (map literal es) = Some vs"
    using assms by (cases s rule: printed.cases) auto
  then show "stmt s (ls, c) = Some (ls, emitted vs c)"
    by cases (simp_all add: emitted_def echo_literals [unfolded emitted_def])
  have "parsed_expr e" if "those (map literal es) = Some vs" "e \<in> set es" for es e
    using that by (induction es arbitrary: vs) (auto simp: literal_Some split: option.splits)
  then show "parsed_stmt s" using assms by (cases s rule: printed.cases) auto
qed

lemma emitted_append: "emitted ws (emitted vs c) = emitted (vs @ ws) c"
  by (simp add: emitted_def)

lemma stmts_printed:
  "those (map printed ss) = Some parts \<Longrightarrow> seq stmt ss (ls, c) = Some (ls, emitted (concat parts) c)"
  by (induction ss arbitrary: parts c)
    (auto simp: stmt_printed emitted_append split: option.splits simp: emitted_def)

text \<open>The stream of a template that starts with an empty pool.\<close>

definition echo_code :: "val list \<Rightarrow> instruction list" where
  "echo_code vs = concat (map (\<lambda>k. [(instr OpPushConst)\<lparr>i_a := int k\<rparr>, instr OpEcho]) [0..<length vs])"

lemma echo_code_snoc: "echo_code (vs @ [v]) = echo_code vs @ [(instr OpPushConst)\<lparr>i_a := int (length vs)\<rparr>, instr OpEcho]"
  by (simp add: echo_code_def)

lemma emitted_program:
  "c_program (emitted vs new_compiler) = empty_program\<lparr>p_code := echo_code vs, p_constants := vs\<rparr> \<and>
   c_locals (emitted vs new_compiler) = []"
proof (induction vs rule: rev_induct)
  case Nil
  then show ?case by (simp add: emitted_def new_compiler_def echo_code_def empty_program_def)
next
  case (snoc v vs)
  have "emitted (vs @ [v]) new_compiler = put (instr OpEcho) (push_const v (emitted vs new_compiler))"
    by (simp add: emitted_def)
  then show ?case using snoc.IH by (simp add: push_const_def pool_constant_def put_def echo_code_snoc)
qed

lemma echo_code_at:
  "k < length vs \<Longrightarrow> echo_code vs ! (2 * k) = (instr OpPushConst)\<lparr>i_a := int k\<rparr> \<and> echo_code vs ! Suc (2 * k) = instr OpEcho"
  "length (echo_code vs) = 2 * length vs"
proof -
  show len: "length (echo_code vs) = 2 * length vs" for vs by (induction vs rule: rev_induct) (simp_all add: echo_code_snoc echo_code_def)
  show "k < length vs \<Longrightarrow> echo_code vs ! (2 * k) = (instr OpPushConst)\<lparr>i_a := int k\<rparr> \<and> echo_code vs ! Suc (2 * k) = instr OpEcho"
  proof (induction vs rule: rev_induct)
    case (snoc v vs)
    show ?case
    proof (cases "k = length vs")
      case True
      then show ?thesis by (simp add: echo_code_snoc nth_append len)
    next
      case False
      then have "k < length vs" using snoc.prems by simp
      then show ?thesis using snoc.IH by (simp add: echo_code_snoc nth_append len)
    qed
  qed simp
qed

section \<open>Running one\<close>

definition echoing :: "'w FullHost \<Rightarrow> (val \<Rightarrow> heap \<Rightarrow> 'w \<Rightarrow> 'w) \<Rightarrow> bool" where
  "echoing H out \<longleftrightarrow> (\<forall>v h w. h_Echo H v h w = HReturn None h (out v h w))"

definition at_rest :: "'w execState \<Rightarrow> bool" where
  "at_rest s \<longleftrightarrow> st_stack s = [] \<and> st_deferred s = []"

lemma start_at_rest:
  "at_rest (start_state p e [] globals h w) \<and> st_pc (start_state p e [] globals h w) = e \<and>
   st_heap (start_state p e [] globals h w) = h \<and> st_world (start_state p e [] globals h w) = w"
proof -
  have one: "at_rest (apply_name p name v s) = at_rest s" "st_pc (apply_name p name v s) = st_pc s"
      "st_heap (apply_name p name v s) = st_heap s" "st_world (apply_name p name v s) = st_world s"
    for name v and s :: "'a execState"
    by (simp_all add: apply_name_def at_rest_def split: option.split)
  have "at_rest (fold (\<lambda>(name, v). apply_name p name v) g s) = at_rest s \<and>
      st_pc (fold (\<lambda>(name, v). apply_name p name v) g s) = st_pc s \<and>
      st_heap (fold (\<lambda>(name, v). apply_name p name v) g s) = st_heap s \<and>
      st_world (fold (\<lambda>(name, v). apply_name p name v) g s) = st_world s" for g and s :: "'a execState"
    by (induction g arbitrary: s) (simp_all add: one split: prod.split)
  then show ?thesis by (simp add: start_state_def seed_locals_def applyNamedValues_def at_rest_def)
qed

lemmas comp_eval = mbind_def mthen_def gets_def modify_def ret_def leave_def

lemma run_push:
  assumes "st_pc s = int x" and "x < length (p_code p)" and "p_code p ! x = (instr OpPushConst)\<lparr>i_a := int k\<rparr>"
    and "k < length (p_constants p)"
  shows "cycle p H s = Ret (Inr None, s\<lparr>st_stack := p_constants p ! k # st_stack s, st_pc := st_pc s + 1\<rparr>)"
  using assms
  by (simp add: cycle_def attempt_def settle_def exec_op_def exec_PushConst_def push_next_def next_pc_def push_def
      slice_at_def index_at_def from_some_def comp_eval instr_def)

lemma run_echo:
  assumes "st_pc s = int x" and "x < length (p_code p)" and "p_code p ! x = instr OpEcho"
    and "st_stack s = v # rest" and "echoing H out"
  shows "cycle p H s = Ret (Inr None, s\<lparr>st_stack := rest, st_world := out v (st_heap s) (st_world s), st_pc := st_pc s + 1\<rparr>)"
  using assms
  by (simp add: cycle_def attempt_def settle_def exec_op_def exec_Echo_def next_pc_def pop_def host_err_def host_def
      none_or_raise_def slice_at_def index_at_def from_some_def comp_eval instr_def echoing_def)

lemma run_end:
  assumes "int (length (p_code p)) \<le> st_pc s" and "st_deferred s = []"
  shows "cycle p H s = Ret (Inr (Some (Inr VNil)), s)"
  using assms by (simp add: cycle_def finish_def unwindDeferred_def errors_Join_def comp_eval)

lemma template_runs:
  assumes code: "p_code p = echo_code vs" "p_constants p = vs" and H: "echoing H out"
  shows "k \<le> length vs \<Longrightarrow> at_rest s \<Longrightarrow> st_pc s = int (2 * k) \<Longrightarrow>
    exec (Suc (2 * (length vs - k))) p H s =
      Some (Inr VNil, st_heap s, fold (\<lambda>v. out v (st_heap s)) (drop k vs) (st_world s))"
proof (induction "length vs - k" arbitrary: k s)
  case 0
  then have "cycle p H s = Ret (Inr (Some (Inr VNil)), s)"
    by (intro run_end) (simp_all add: code echo_code_at(2) at_rest_def)
  then show ?case using 0 by simp
next
  case (Suc n)
  then have k: "k < length vs" by simp
  let ?s = "s\<lparr>st_stack := [vs ! k], st_pc := int (2 * k) + 1\<rparr>"
  let ?t = "?s\<lparr>st_stack := [], st_world := out (vs ! k) (st_heap s) (st_world s), st_pc := int (2 * Suc k)\<rparr>"
  have 1: "cycle p H s = Ret (Inr None, ?s)"
    by (subst run_push [of s "2 * k" p k]) (use k Suc.prems in \<open>simp_all add: code echo_code_at at_rest_def\<close>)
  have 2: "cycle p H ?s = Ret (Inr None, ?t)"
    by (subst run_echo [of ?s "Suc (2 * k)" p "vs ! k" "[]" H out]) (use k H in \<open>simp_all add: code echo_code_at\<close>)
  have "length vs - k = Suc (length vs - Suc k)" using k by simp
  moreover have "exec (Suc (2 * (length vs - Suc k))) p H ?t =
      Some (Inr VNil, st_heap ?t, fold (\<lambda>v. out v (st_heap ?t)) (drop (Suc k) vs) (st_world ?t))"
    by (rule Suc.hyps(1)) (use Suc.hyps(2) Suc.prems k in \<open>simp_all add: at_rest_def\<close>)
  ultimately show ?case using 1 2 k by (simp add: Cons_nth_drop_Suc [symmetric])
qed

section \<open>Property\<close>

lemma printed_each: "those (map printed ss) = Some parts \<Longrightarrow> s \<in> set ss \<Longrightarrow> \<exists>vs. printed s = Some vs"
  by (induction ss arbitrary: parts) (auto split: option.splits)

lemma no_declarations:
  assumes "those (map printed ss) = Some parts"
  shows "interfaceIndex ss = []" and "List.map_filter (\<lambda>s. case s of ClassDeclStmt cd \<Rightarrow> Some (f cd) | _ \<Rightarrow> None) ss = []"
proof -
  have fold: "fold g ss xs = xs" if "\<And>s xs. printed s \<noteq> None \<Longrightarrow> g s xs = xs" for g and xs :: interface_index
    using printed_each [OF assms] that by (induction ss) auto
  have "(case s of InterfaceDeclStmt d \<Rightarrow> AList.update (lower (id_Name d)) d index | _ \<Rightarrow> index) = index"
    if "printed s \<noteq> None" for s and index :: interface_index using that by (cases s rule: printed.cases) auto
  then show "interfaceIndex ss = []" unfolding interfaceIndex_def by (rule fold)
  have "(case s of ClassDeclStmt cd \<Rightarrow> Some (f cd) | _ \<Rightarrow> None) = None" if "s \<in> set ss" for s
    using printed_each [OF assms that] by (cases s rule: printed.cases) auto
  then show "List.map_filter (\<lambda>s. case s of ClassDeclStmt cd \<Rightarrow> Some (f cd) | _ \<Rightarrow> None) ss = []"
    by (simp add: List.map_filter_def)
qed

lemma template_compiles:
  assumes "those (map printed ss) = Some parts"
  shows "lower_program order \<lparr>ast_Stmts = ss, ast_AnonClasses = []\<rparr> =
      Some (empty_program\<lparr>p_code := echo_code (concat parts), p_constants := concat parts\<rparr>)"
    and "parsed \<lparr>ast_Stmts = ss, ast_AnonClasses = []\<rparr>"
    and "CheckInterfaceContracts \<lparr>ast_Stmts = ss, ast_AnonClasses = []\<rparr> = []"
proof -
  have "collectClasses \<lparr>ast_Stmts = ss, ast_AnonClasses = []\<rparr> new_compiler = new_compiler"
    by (simp add: collectClasses_def no_declarations(2) [OF assms])
  moreover have "class_methods order new_compiler = Some new_compiler" by (simp add: class_methods_def new_compiler_def)
  ultimately show "lower_program order \<lparr>ast_Stmts = ss, ast_AnonClasses = []\<rparr> =
      Some (empty_program\<lparr>p_code := echo_code (concat parts), p_constants := concat parts\<rparr>)"
    using emitted_program [of "concat parts"] by (simp add: lower_program_def stmts_printed [OF assms] empty_program_def)
  have "parsed_stmt s" if "s \<in> set ss" for s
    using printed_each [OF assms that] stmt_printed(2) by blast
  then show "parsed \<lparr>ast_Stmts = ss, ast_AnonClasses = []\<rparr>" by (simp add: parsed_def)
  show "CheckInterfaceContracts \<lparr>ast_Stmts = ss, ast_AnonClasses = []\<rparr> = []"
    by (simp add: CheckInterfaceContracts_def CheckInterfaces_def no_declarations(1) [OF assms])
qed

text \<open>C9. A template of text and echoed literals, of any length, compiles, and its program runs to the end within
  two rounds of the loop for each part and one more: it answers null, leaves the heap alone and has echoed the parts
  in the order written, on every host whose echo succeeds.\<close>

theorem template_runs_to_the_end:
  assumes "those (map printed ss) = Some parts" and "echoing H out"
  shows "\<exists>q. Compile order \<lparr>ast_Stmts = ss, ast_AnonClasses = []\<rparr> = Inr q \<and>
    Run (Suc (2 * length (concat parts))) q H h w = Some (Inr VNil, h, fold (\<lambda>v. out v h) (concat parts) w)"
proof -
  let ?vs = "concat parts"
  let ?p = "empty_program\<lparr>p_code := echo_code ?vs, p_constants := ?vs\<rparr>"
  note c = template_compiles [OF assms(1)]
  have ok: "stream_ok ?p" by (rule lowered_program(1) [OF c(2) _ c(1) [of id]]) simp
  obtain q where q: "finish_program ?p = Some q" using finish_program_total [OF ok] by blast
  let ?s = "start_state (index_functions ?p) 0 [] (globals_of H w) h w"
  have "exec (Suc (2 * (length ?vs - 0))) (index_functions ?p) H ?s =
      Some (Inr VNil, st_heap ?s, fold (\<lambda>v. out v (st_heap ?s)) (drop 0 ?vs) (st_world ?s))"
    by (rule template_runs [OF _ _ assms(2)]) (simp_all add: start_at_rest index_functions_def)
  then have "Run (Suc (2 * length ?vs)) (index_functions ?p) H h w = Some (Inr VNil, h, fold (\<lambda>v. out v h) ?vs w)"
    by (simp add: Run_def start_at_rest del: exec.simps)
  from finished_runs(1) [OF ok q this] show ?thesis using c(1,3) q by (simp add: Compile_def)
qed

definition printing_host :: "val list FullHost" where
  "printing_host = log_host\<lparr>h_Echo := \<lambda>v h w. HReturn None h (w @ [v])\<rparr>"

theorem template_runs_to_the_end_witness:
  "\<exists>q. Compile id \<lparr>ast_Stmts = [InlineHTML ''<b>'', EchoStmt [Lit (VInt 7), Lit (VStr ''</b>'')]], ast_AnonClasses = []\<rparr> = Inr q \<and>
    (\<forall>h. Run 7 q printing_host h [] = Some (Inr VNil, h, [VStr ''<b>'', VInt 7, VStr ''</b>'']))"
proof -
  let ?ss = "[InlineHTML ''<b>'', EchoStmt [Lit (VInt 7), Lit (VStr ''</b>'')]]"
  let ?parts = "[[VStr ''<b>''], [VInt 7, VStr ''</b>'']]"
  have p: "those (map printed ?ss) = Some ?parts" by simp
  have n: "Suc (2 * length (concat ?parts)) = 7" by simp
  have f: "fold (\<lambda>v w. w @ [v]) (concat ?parts) [] = [VStr ''<b>'', VInt 7, VStr ''</b>'']" by simp
  have e: "echoing printing_host (\<lambda>v h w. w @ [v])" by (simp add: echoing_def printing_host_def)
  have r: "\<exists>q. Compile id \<lparr>ast_Stmts = ?ss, ast_AnonClasses = []\<rparr> = Inr q \<and>
      Run 7 q printing_host h [] = Some (Inr VNil, h, [VStr ''<b>'', VInt 7, VStr ''</b>''])" for h
    using template_runs_to_the_end [OF p e, where order = id and h = h and w = "[]"] unfolding n f .
  obtain q where q: "Compile id \<lparr>ast_Stmts = ?ss, ast_AnonClasses = []\<rparr> = Inr q" using r by blast
  then have "Run 7 q printing_host h [] = Some (Inr VNil, h, [VStr ''<b>'', VInt 7, VStr ''</b>''])" for h
    using r [of h] unfolding q by blast
  then show ?thesis using q by blast
qed

end
