(* ===== verification/Interpreter.thy ===== *)
theory Interpreter
  imports Compiler IncDec
begin

text \<open>
  The tree-walking engine: \<open>runner/runner.go\<close>, \<open>runner_control.go\<close>, \<open>runner_assign.go\<close> and
  \<open>runtime_eval.go\<close> for statements, \<open>runner/expr\<close> for expressions. It covers text and echo,
  assignments to variables, \<open>++\<close> and \<open>--\<close> on variables, conditionals, loops, \<open>break\<close>, \<open>continue\<close> and
  \<open>return\<close>, and the expressions without calls and objects. A node it does not cover answers \<open>None\<close>, as does a
  loop whose bound runs out.

  The helpers the expression engine is compiled against (\<open>expr.Helpers\<close>) and what the runtime holds
  around a scope are the record \<open>tools\<close>. An evaluation takes the scope, the heap and the rest of the world to
  a value or an error and the state it leaves. The error handler of \<open>OnError\<close>, deadlines, the memory
  limit, coverage and telemetry are left out.
\<close>

section \<open>State\<close>

type_synonym scope = "string \<Rightarrow> val option"

record 'w tools =
  t_Truthy :: "val \<Rightarrow> heap \<Rightarrow> bool"
  t_Str :: "val \<Rightarrow> string"
  t_Arith :: "string \<Rightarrow> val \<Rightarrow> val \<Rightarrow> heap \<Rightarrow> (goerr + val) \<times> heap"
  t_Compare :: "string \<Rightarrow> val \<Rightarrow> val \<Rightarrow> heap \<Rightarrow> bool"
  t_Spaceship :: "val \<Rightarrow> val \<Rightarrow> heap \<Rightarrow> i64"
  t_Bitwise :: "string \<Rightarrow> val \<Rightarrow> val \<Rightarrow> heap \<Rightarrow> goerr + val"
  t_BitNot :: "val \<Rightarrow> heap \<Rightarrow> val"
  t_Negate :: "val \<Rightarrow> heap \<Rightarrow> val"
  t_InstanceOf :: "val \<Rightarrow> val \<Rightarrow> heap \<Rightarrow> bool"
  t_Array :: "(val \<times> val) list \<Rightarrow> heap \<Rightarrow> val \<times> heap"
  t_Index :: "val \<Rightarrow> val \<Rightarrow> heap \<Rightarrow> val"
  t_Cast :: "string \<Rightarrow> val \<Rightarrow> heap \<Rightarrow> val \<times> heap"
  t_Known :: "string \<Rightarrow> 'w \<Rightarrow> val option"
  t_SetAuto :: "string \<Rightarrow> val \<Rightarrow> 'w \<Rightarrow> 'w option"
  t_Write :: "string \<Rightarrow> 'w \<Rightarrow> goerr option \<times> 'w"
  t_Globals :: "'w \<Rightarrow> vars"
  t_Preset :: "'w \<Rightarrow> vars"

text \<open>
  \<open>t_Known\<close> is what \<open>resolveVar\<close> finds behind the scope: the entrypoint's names, the constants and the superglobals.
  \<open>t_SetAuto\<close> is \<open>auto.Set\<close>, \<open>None\<close> for a name it does not claim. \<open>t_Preset\<close> is what \<open>runInterpreted\<close> puts
  into the scope over the globals.
\<close>

type_synonym ('w, 'a) im = "scope \<times> heap \<times> 'w \<Rightarrow> ((goerr + 'a) \<times> scope \<times> heap \<times> 'w) option"

definition iret :: "'a \<Rightarrow> ('w, 'a) im" where
  "iret a = (\<lambda>s. Some (Inr a, s))"

definition ierr :: "goerr \<Rightarrow> ('w, 'a) im" where
  "ierr e = (\<lambda>s. Some (Inl e, s))"

definition uncovered :: "('w, 'a) im" where
  "uncovered = (\<lambda>s. None)"

definition ibind :: "('w, 'a) im \<Rightarrow> ('a \<Rightarrow> ('w, 'b) im) \<Rightarrow> ('w, 'b) im" where
  "ibind m f = (\<lambda>s.
     case m s of
       None \<Rightarrow> None
     | Some (Inl e, s') \<Rightarrow> Some (Inl e, s')
     | Some (Inr a, s') \<Rightarrow> f a s')"

definition on_heap :: "(heap \<Rightarrow> (goerr + 'a) \<times> heap) \<Rightarrow> ('w, 'a) im" where
  "on_heap f = (\<lambda>(sc, h, w). let (r, h') = f h in Some (r, sc, h', w))"

definition of_heap :: "(heap \<Rightarrow> 'a) \<Rightarrow> ('w, 'a) im" where
  "of_heap f = on_heap (\<lambda>h. (Inr (f h), h))"

definition variable :: "string \<Rightarrow> ('w, val option) im" where
  "variable name = (\<lambda>(sc, h, w). Some (Inr (sc name), sc, h, w))"

definition Scope_Set :: "string \<Rightarrow> val \<Rightarrow> ('w, unit) im" where
  "Scope_Set name v = (\<lambda>(sc, h, w). Some (Inr (), sc(name \<mapsto> v), h, w))"

fun in_order :: "('w, 'a) im list \<Rightarrow> ('w, 'a list) im" where
  "in_order [] = iret []"
| "in_order (m # ms) = ibind m (\<lambda>x. ibind (in_order ms) (\<lambda>xs. iret (x # xs)))"

section \<open>Variables\<close>

definition resolveVar :: "'w tools \<Rightarrow> string \<times> bool \<Rightarrow> ('w, val) im" where
  "resolveVar T = (\<lambda>(name, const) (sc, h, w).
     Some
       (case sc name of
          Some v \<Rightarrow> Inr v
        | None \<Rightarrow>
            (case t_Known T name w of
               Some v \<Rightarrow> Inr v
             | None \<Rightarrow> if const then Inl (UndefinedConstantError name) else Inr VNil),
        sc, h, w))"

definition setVar :: "'w tools \<Rightarrow> string \<Rightarrow> val \<Rightarrow> ('w, unit) im" where
  "setVar T name v = (\<lambda>(sc, h, w).
     Some
       (case t_SetAuto T name v w of
          Some w' \<Rightarrow> (Inr (), sc(name := None), h, w')
        | None \<Rightarrow> (Inr (), sc(name \<mapsto> v), h, w)))"

section \<open>Compiled expressions\<close>

definition class_name_right :: "string \<Rightarrow> expr \<Rightarrow> string option" where
  "class_name_right op right =
     (if op = ''instanceof''
      then (case UnwrapParenthesized right of Var name const \<Rightarrow> if const then Some name else None | _ \<Rightarrow> None)
      else None)"

text \<open>The variables a compiled expression binds, in the order \<open>compile\<close> meets them.\<close>

function (sequential) bound_vars :: "expr \<Rightarrow> (string \<times> bool) list" where
  "bound_vars (Var name const) = [(name, const)]"
| "bound_vars (Parenthesized x) = bound_vars x"
| "bound_vars (Ref x) = bound_vars x"
| "bound_vars (Interp parts) = concat (map bound_vars parts)"
| "bound_vars (UnaryExpr op x postfix) = bound_vars x"
| "bound_vars (BinaryExpr op left right) =
     bound_vars left @ (case class_name_right op right of None \<Rightarrow> bound_vars right | Some name \<Rightarrow> [])"
| "bound_vars (Coalesce left right marked) = bound_vars left @ bound_vars right"
| "bound_vars (Ternary cond thn els) =
     bound_vars cond @ (case thn of None \<Rightarrow> [] | Some t \<Rightarrow> bound_vars t) @ bound_vars els"
| "bound_vars (ArrayLit items) =
     concat (map (\<lambda>(key, val). (case key of None \<Rightarrow> [] | Some k \<Rightarrow> bound_vars k) @ bound_vars val) items)"
| "bound_vars (IndexExpr base index) = bound_vars base @ (case index of None \<Rightarrow> [] | Some i \<Rightarrow> bound_vars i)"
| "bound_vars (CastExpr typ x) = bound_vars x"
| "bound_vars (AssignExpr target op val) = bound_vars val"
| "bound_vars e = []"
  by pat_completeness auto

termination
  by (relation "measure size") (auto dest: size_listed [where ?'a = expr] dest!: size_in_items)

text \<open>\<open>Helpers.Concat\<close>, \<open>Arith\<close> and the rest behind \<open>compileBinary\<close>; another operator is refused.\<close>

definition apply_binary :: "'w tools \<Rightarrow> string \<Rightarrow> val \<Rightarrow> val \<Rightarrow> ('w, val) im" where
  "apply_binary T op a b =
     (if op = ''xor'' then of_heap (\<lambda>h. VBool (t_Truthy T a h \<noteq> t_Truthy T b h))
      else if op = ''<=>'' then of_heap (\<lambda>h. VInt (t_Spaceship T a b h))
      else if op = ''.'' then iret (VStr (t_Str T a @ t_Str T b))
      else if op = ''instanceof'' then of_heap (\<lambda>h. VBool (t_InstanceOf T a b h))
      else if op \<in> {''+'', ''-'', ''*'', ''/'', ''%'', ''**''} then on_heap (t_Arith T op a b)
      else if op \<in> {''&'', ''|'', ''^'', ''<<'', ''>>''} then on_heap (\<lambda>h. (t_Bitwise T op a b h, h))
      else if op \<in> {''=='', ''!='', ''==='', ''!=='', ''<'', ''<='', ''>'', ''>=''}
      then of_heap (\<lambda>h. VBool (t_Compare T op a b h))
      else uncovered)"

definition apply_unary :: "'w tools \<Rightarrow> string \<Rightarrow> val \<Rightarrow> ('w, val) im" where
  "apply_unary T op v =
     (if op = ''+'' then on_heap (t_Arith T ''+'' (VInt 0) v)
      else if op = ''!'' then of_heap (\<lambda>h. VBool (\<not> t_Truthy T v h))
      else if op = ''~'' then of_heap (t_BitNot T v)
      else if op = ''-'' then of_heap (t_Negate T v)
      else uncovered)"

definition lone_literal :: "expr list \<Rightarrow> val option" where
  "lone_literal parts = (case parts of [Lit v] \<Rightarrow> Some v | _ \<Rightarrow> None)"

text \<open>What \<open>compile\<close> accepts of the nodes covered here, and whether it meets a node it marks.\<close>

definition simple_set :: "expr \<Rightarrow> string \<Rightarrow> string option" where
  "simple_set target op =
     (if op = '''' \<or> op = ''=''
      then (case UnwrapParenthesized target of Var name const \<Rightarrow> Some name | _ \<Rightarrow> None)
      else None)"

definition binary_ops :: "string list" where
  "binary_ops =
     [''&&'', ''||'', ''and'', ''or'', ''xor'', ''<=>'', ''.'', ''instanceof'', ''+'', ''-'', ''*'', ''/'', ''%'', ''**'',
      ''&'', ''|'', ''^'', ''<<'', ''>>'', ''=='', ''!='', ''==='', ''!=='', ''<'', ''<='', ''>'', ''>='']"

function (sequential) compilable :: "expr \<Rightarrow> bool" where
  "compilable (Lit v) \<longleftrightarrow> True"
| "compilable (Var name const) \<longleftrightarrow> True"
| "compilable (Parenthesized x) \<longleftrightarrow> compilable x"
| "compilable (Ref x) \<longleftrightarrow> compilable x"
| "compilable (Interp parts) \<longleftrightarrow> (\<forall>x \<in> set parts. compilable x)"
| "compilable (UnaryExpr op x postfix) \<longleftrightarrow>
     op = ''++'' \<or> op = ''--'' \<or> (op = ''!'' \<or> op = ''~'' \<or> op = ''-'' \<or> op = ''+'') \<and> compilable x"
| "compilable (BinaryExpr op left right) \<longleftrightarrow>
     op \<in> set binary_ops \<and> compilable left \<and> (class_name_right op right \<noteq> None \<or> compilable right)"
| "compilable (Coalesce left right marked) \<longleftrightarrow> compilable left \<and> compilable right"
| "compilable (Ternary cond thn els) \<longleftrightarrow>
     compilable cond \<and> (case thn of None \<Rightarrow> False | Some t \<Rightarrow> compilable t) \<and> compilable els"
| "compilable (ArrayLit items) \<longleftrightarrow>
     (\<forall>(key, val) \<in> set items. (case key of None \<Rightarrow> True | Some k \<Rightarrow> compilable k) \<and> compilable val)"
| "compilable (IndexExpr base index) \<longleftrightarrow> compilable base \<and> (case index of None \<Rightarrow> False | Some i \<Rightarrow> compilable i)"
| "compilable (CastExpr typ x) \<longleftrightarrow> compilable x"
| "compilable (AssignExpr target op val) \<longleftrightarrow> simple_set target op = None \<or> compilable val"
| "compilable e \<longleftrightarrow> False"
  by pat_completeness auto

termination
  by (relation "measure size") (auto dest: size_listed [where ?'a = expr] dest!: size_in_items)

function (sequential) has_mark :: "expr \<Rightarrow> bool" where
  "has_mark (Parenthesized x) \<longleftrightarrow> has_mark x"
| "has_mark (Ref x) \<longleftrightarrow> has_mark x"
| "has_mark (Interp parts) \<longleftrightarrow> (\<exists>x \<in> set parts. has_mark x)"
| "has_mark (UnaryExpr op x postfix) \<longleftrightarrow> op = ''++'' \<or> op = ''--'' \<or> has_mark x"
| "has_mark (BinaryExpr op left right) \<longleftrightarrow> has_mark left \<or> class_name_right op right = None \<and> has_mark right"
| "has_mark (Coalesce left right marked) \<longleftrightarrow> has_mark left \<or> has_mark right"
| "has_mark (Ternary cond thn els) \<longleftrightarrow>
     has_mark cond \<or> (case thn of None \<Rightarrow> False | Some t \<Rightarrow> has_mark t) \<or> has_mark els"
| "has_mark (ArrayLit items) \<longleftrightarrow>
     (\<exists>(key, val) \<in> set items. (case key of None \<Rightarrow> False | Some k \<Rightarrow> has_mark k) \<or> has_mark val)"
| "has_mark (IndexExpr base index) \<longleftrightarrow> has_mark base \<or> (case index of None \<Rightarrow> False | Some i \<Rightarrow> has_mark i)"
| "has_mark (CastExpr typ x) \<longleftrightarrow> has_mark x"
| "has_mark (AssignExpr target op val) \<longleftrightarrow> simple_set target op = None \<or> has_mark val"
| "has_mark e \<longleftrightarrow> False"
  by pat_completeness auto

termination
  by (relation "measure size") (auto dest: size_listed [where ?'a = expr] dest!: size_in_items)

definition snapshot :: "'w tools \<Rightarrow> (string \<times> bool) list \<Rightarrow> ('w, string \<times> bool \<Rightarrow> val) im" where
  "snapshot T names =
     ibind (in_order (map (resolveVar T) names))
       (\<lambda>vs. iret (\<lambda>x. case map_of (zip names vs) x of None \<Rightarrow> VNil | Some v \<Rightarrow> v))"

section \<open>Assignments\<close>

definition applyAssignOp :: "'w tools \<Rightarrow> string \<Rightarrow> val \<Rightarrow> val \<Rightarrow> ('w, val) im" where
  "applyAssignOp T op cur rhs =
     (if op \<in> {'''', ''='', ''[]=''} then iret rhs
      else if op = ''.='' then iret (VStr (t_Str T cur @ t_Str T rhs))
      else if op \<in> {''+='', ''-='', ''*='', ''/='', ''%='', ''**=''} then on_heap (t_Arith T (butlast op) cur rhs)
      else if op \<in> {''&='', ''|='', ''^='', ''<<='', ''>>=''}
      then on_heap (\<lambda>h. (t_Bitwise T (butlast op) cur rhs h, h))
      else iret rhs)"

definition value_of :: "val option \<Rightarrow> val" where
  "value_of v = (case v of None \<Rightarrow> VNil | Some v \<Rightarrow> v)"

text \<open>The part of \<open>assignValue\<close> that writes a variable; \<open>rhs\<close> evaluates the value.\<close>

definition assignValue :: "'w tools \<Rightarrow> expr \<Rightarrow> string \<Rightarrow> expr \<Rightarrow> ('w, val) im \<Rightarrow> ('w, val) im" where
  "assignValue T target op val rhs =
     (if coalesce_of val \<noteq> None \<or> is_New (UnwrapParenthesized val) then uncovered
      else
        (case UnwrapParenthesized target of
           Var name const \<Rightarrow>
             ibind rhs (\<lambda>r. ibind (variable name) (\<lambda>cur.
               ibind (applyAssignOp T op (value_of cur) r) (\<lambda>next.
                 ibind (setVar T name next) (\<lambda>_. iret next))))
         | _ \<Rightarrow> uncovered))"

definition evalIncDec :: "'w tools \<Rightarrow> string \<Rightarrow> expr \<Rightarrow> bool \<Rightarrow> ('w, val) im" where
  "evalIncDec T op x postfix =
     (case UnwrapParenthesized x of
        Var name const \<Rightarrow>
          ibind (variable name) (\<lambda>v.
            let cur = value_of v; next = (if op = ''--'' then Decrement cur else Increment cur)
            in ibind (setVar T name next) (\<lambda>_. iret (if postfix then cur else next)))
      | _ \<Rightarrow> uncovered)"

section \<open>Evaluation\<close>

function (sequential) flattenConcat :: "expr \<Rightarrow> expr list" where
  "flattenConcat (BinaryExpr op left right) =
     (if op = ''.'' then flattenConcat left @ flattenConcat right else [BinaryExpr op left right])"
| "flattenConcat e = [e]"
  by pat_completeness auto

termination
  by (relation "measure size") auto

lemma size_flattened: "p \<in> set (flattenConcat e) \<Longrightarrow> size p \<le> size e"
  by (induction e rule: flattenConcat.induct) (fastforce split: if_splits)+

lemma size_flattened_parts:
  "p \<in> set (flattenConcat left) \<Longrightarrow> 2 * size p < Suc (Suc (2 * size left + 2 * size right))"
  "p \<in> set (flattenConcat right) \<Longrightarrow> 2 * size p < Suc (Suc (2 * size left + 2 * size right))"
  using size_flattened [of p left] size_flattened [of p right] by auto

text \<open>\<open>Eval\<close> on a node that \<open>CompileExpr\<close> takes.\<close>

definition run_compiled ::
  "'w tools \<Rightarrow> expr \<Rightarrow> ((string \<times> bool \<Rightarrow> val) option \<Rightarrow> ('w, val) im) \<Rightarrow> ('w, val) im"
where
  "run_compiled T e run =
     (if \<not> compilable e then uncovered
      else if has_mark e then run None
      else ibind (snapshot T (bound_vars e)) (\<lambda>vars. run (Some vars)))"

text \<open>
  A compiled expression reads its variables from slots filled before it runs, which \<open>Some vars\<close> answers for.
  With \<open>None\<close> it reads each one when it gets to it, through \<open>__var\<close>: that is how an expression with a mark
  is compiled. \<open>__set\<close>, an assignment to a variable inside an expression, writes the scope, and a marked
  node goes back to \<open>Eval\<close>.
\<close>

function (sequential) compiled :: "'w tools \<Rightarrow> (string \<times> bool \<Rightarrow> val) option \<Rightarrow> expr \<Rightarrow> ('w, val) im"
  and Eval :: "'w tools \<Rightarrow> expr \<Rightarrow> ('w, val) im"
where
  "compiled T vars (Lit v) = iret v"
| "compiled T vars (Var name const) = 
     (case vars of Some slots \<Rightarrow> iret (slots (name, const)) | None \<Rightarrow> resolveVar T (name, const))"
| "compiled T vars (Parenthesized x) = compiled T vars x"
| "compiled T vars (Ref x) = compiled T vars x"
| "compiled T vars (Interp parts) =
     (if parts = [] then iret (VStr [])
      else
        (case lone_literal parts of
           Some v \<Rightarrow> iret v
         | None \<Rightarrow>
             ibind (in_order (map (\<lambda>p. ibind (compiled T vars p) (\<lambda>v. iret (t_Str T v))) parts))
               (\<lambda>texts. iret (VStr (concat texts)))))"
| "compiled T vars (UnaryExpr op x postfix) =
     (if op = ''++'' \<or> op = ''--'' then evalIncDec T op x postfix else ibind (compiled T vars x) (apply_unary T op))"
| "compiled T vars (BinaryExpr op left right) =
     (case class_name_right op right of
        Some name \<Rightarrow> ibind (compiled T vars left) (\<lambda>a. of_heap (\<lambda>h. VBool (t_InstanceOf T a (VStr name) h)))
      | None \<Rightarrow>
          if op \<in> {''&&'', ''||'', ''and'', ''or''} then
            let conj = (op = ''&&'' \<or> op = ''and'')
            in ibind (compiled T vars left) (\<lambda>a.
                 ibind (of_heap (t_Truthy T a)) (\<lambda>x.
                   if x \<noteq> conj then iret (VBool (\<not> conj))
                   else ibind (compiled T vars right) (\<lambda>b. of_heap (\<lambda>h. VBool (t_Truthy T b h)))))
          else ibind (compiled T vars left) (\<lambda>a. ibind (compiled T vars right) (apply_binary T op a)))"
| "compiled T vars (Coalesce left right marked) =
     ibind (compiled T vars left) (\<lambda>v. if v \<noteq> VNil then iret v else compiled T vars right)"
| "compiled T vars (Ternary cond thn els) =
     (case thn of
        None \<Rightarrow> uncovered
      | Some t \<Rightarrow>
          ibind (compiled T vars cond) (\<lambda>v. ibind (of_heap (t_Truthy T v)) (\<lambda>b.
            if b then compiled T vars t else compiled T vars els)))"
| "compiled T vars (ArrayLit items) =
     ibind (in_order (map (\<lambda>(key, val).
         ibind (case key of None \<Rightarrow> iret VNil | Some k \<Rightarrow> compiled T vars k) (\<lambda>k.
           ibind (compiled T vars val) (\<lambda>v. iret (k, v)))) items))
       (\<lambda>pairs. on_heap (\<lambda>h. let (v, h') = t_Array T pairs h in (Inr v, h')))"
| "compiled T vars (IndexExpr base index) =
     (case index of
        None \<Rightarrow> uncovered
      | Some i \<Rightarrow> ibind (compiled T vars base) (\<lambda>b. ibind (compiled T vars i) (\<lambda>k. of_heap (t_Index T b k))))"
| "compiled T vars (CastExpr typ x) =
     ibind (compiled T vars x) (\<lambda>v. on_heap (\<lambda>h. let (v', h') = t_Cast T typ v h in (Inr v', h')))"
| "compiled T vars (AssignExpr target op val) =
     (case simple_set target op of
        Some name \<Rightarrow> ibind (compiled T vars val) (\<lambda>v. ibind (Scope_Set name v) (\<lambda>_. iret v))
      | None \<Rightarrow> assignValue T target op val (Eval T val))"
| "compiled T vars e = uncovered"

| "Eval T (Lit v) = iret (case v of VGoInt n \<Rightarrow> VInt n | _ \<Rightarrow> v)"
| "Eval T (BinaryExpr op left right) =
     (if op = ''.''
      then ibind (in_order (map (\<lambda>p. ibind (Eval T p) (\<lambda>v. iret (t_Str T v))) (flattenConcat left @ flattenConcat right)))
             (\<lambda>texts. iret (VStr (concat texts)))
      else run_compiled T (BinaryExpr op left right) (\<lambda>vars. compiled T vars (BinaryExpr op left right)))"
| "Eval T (UnaryExpr op x postfix) =
     (if op = ''++'' \<or> op = ''--'' then evalIncDec T op x postfix
      else run_compiled T (UnaryExpr op x postfix) (\<lambda>vars. compiled T vars (UnaryExpr op x postfix)))"
| "Eval T (IncludeExpr path keyword once) = uncovered"
| "Eval T (AssignExpr target op val) = assignValue T target op val (Eval T val)"
| "Eval T e = run_compiled T e (\<lambda>vars. compiled T vars e)"
  by pat_completeness auto

termination
  by (relation "measure (case_sum (\<lambda>(T, vars, e). 2 * size e) (\<lambda>(T, e). 2 * size e + 1))")
    (auto dest: size_listed [where ?'a = expr] dest!: size_in_items dest: size_flattened_parts)

section \<open>Statements\<close>

datatype iflow = FlowNormal | FlowReturn val | FlowBreak | FlowContinue

definition write_text :: "'w tools \<Rightarrow> string \<Rightarrow> ('w, unit) im" where
  "write_text T text = (\<lambda>(sc, h, w).
     case t_Write T text w of (None, w') \<Rightarrow> Some (Inr (), sc, h, w') | (Some e, w') \<Rightarrow> Some (Inl e, sc, h, w'))"

definition echo :: "'w tools \<Rightarrow> expr \<Rightarrow> ('w, unit) im" where
  "echo T a = ibind (Eval T a) (\<lambda>v. write_text T (t_Str T v))"

text \<open>\<open>exec_stmts\<close> is \<open>exec\<close>, \<open>for_loop\<close> and \<open>do_loop\<close> the loops of \<open>execFor\<close> and \<open>execDoWhile\<close>.\<close>

fun exec_stmts :: "nat \<Rightarrow> 'w tools \<Rightarrow> stmt list \<Rightarrow> ('w, iflow) im"
  and execOne :: "nat \<Rightarrow> 'w tools \<Rightarrow> stmt \<Rightarrow> ('w, iflow) im"
  and for_loop :: "nat \<Rightarrow> 'w tools \<Rightarrow> expr option \<Rightarrow> stmt option \<Rightarrow> stmt list \<Rightarrow> ('w, iflow) im"
  and do_loop :: "nat \<Rightarrow> 'w tools \<Rightarrow> stmt list \<Rightarrow> expr \<Rightarrow> ('w, iflow) im"
where
  "exec_stmts 0 T ss = uncovered"
| "exec_stmts (Suc n) T ss =
     (case ss of
        [] \<Rightarrow> iret FlowNormal
      | s # ss \<Rightarrow> ibind (execOne n T s) (\<lambda>fl. if fl \<noteq> FlowNormal then iret fl else exec_stmts n T ss))"
| "execOne 0 T s = uncovered"
| "execOne (Suc n) T s =
     (case s of
        InlineHTML text \<Rightarrow> ibind (write_text T text) (\<lambda>_. iret FlowNormal)
      | EchoStmt args \<Rightarrow> ibind (in_order (map (echo T) args)) (\<lambda>_. iret FlowNormal)
      | ExprStmt x \<Rightarrow> ibind (Eval T x) (\<lambda>_. iret FlowNormal)
      | Assign target op val \<Rightarrow> ibind (assignValue T target op val (Eval T val)) (\<lambda>_. iret FlowNormal)
      | IfStmt cond thn els \<Rightarrow>
          ibind (Eval T cond) (\<lambda>v. ibind (of_heap (t_Truthy T v)) (\<lambda>b. exec_stmts n T (if b then thn else els)))
      | For init cond post body \<Rightarrow>
          ibind (case init of None \<Rightarrow> iret FlowNormal | Some s \<Rightarrow> execOne n T s) (\<lambda>_. for_loop n T cond post body)
      | DoWhile body cond \<Rightarrow> do_loop n T body cond
      | ReturnStmt val \<Rightarrow>
          (case val of
             None \<Rightarrow> iret (FlowReturn VNil)
           | Some e \<Rightarrow> ibind (Eval T e) (\<lambda>v. iret (FlowReturn v)))
      | Global names \<Rightarrow> iret FlowNormal
      | Declare body \<Rightarrow> exec_stmts n T body
      | Break \<Rightarrow> iret FlowBreak
      | Continue \<Rightarrow> iret FlowContinue
      | _ \<Rightarrow> uncovered)"
| "for_loop 0 T cond post body = uncovered"
| "for_loop (Suc n) T cond post body =
     ibind
       (case cond of
          None \<Rightarrow> iret True
        | Some e \<Rightarrow> ibind (Eval T e) (\<lambda>v. of_heap (t_Truthy T v)))
       (\<lambda>go.
         if \<not> go then iret FlowNormal
         else ibind (exec_stmts n T body) (\<lambda>fl.
           case fl of
             FlowReturn v \<Rightarrow> iret (FlowReturn v)
           | FlowBreak \<Rightarrow> iret FlowNormal
           | _ \<Rightarrow> ibind (case post of None \<Rightarrow> iret FlowNormal | Some s \<Rightarrow> execOne n T s) (\<lambda>_. for_loop n T cond post body)))"
| "do_loop 0 T body cond = uncovered"
| "do_loop (Suc n) T body cond =
     ibind (exec_stmts n T body) (\<lambda>fl.
       case fl of
         FlowReturn v \<Rightarrow> iret (FlowReturn v)
       | FlowBreak \<Rightarrow> iret FlowNormal
       | _ \<Rightarrow> ibind (Eval T cond) (\<lambda>v. ibind (of_heap (t_Truthy T v)) (\<lambda>go.
                if go then do_loop n T body cond else iret FlowNormal)))"

definition global_scope :: "'w tools \<Rightarrow> 'w \<Rightarrow> scope" where
  "global_scope T w = map_of (t_Globals T w) ++ map_of (t_Preset T w)"

text \<open>
  A run of a program that declares no function, class or interface, so there is nothing to hoist, and defers
  nothing. The flow at its end is what \<open>Run\<close> drops and the flat engine answers.
\<close>

definition runInterpreted :: "nat \<Rightarrow> 'w tools \<Rightarrow> ast \<Rightarrow> heap \<Rightarrow> 'w \<Rightarrow> ((goerr + iflow) \<times> heap \<times> 'w) option" where
  "runInterpreted n T prog h w =
     (case exec_stmts n T (ast_Stmts prog) (global_scope T w, h, w) of
        None \<Rightarrow> None
      | Some (r, sc, h', w') \<Rightarrow> Some (r, h', w'))"

end
